(* ===== verification/Prelude.thy ===== *)
theory Prelude
  imports Complex_Main "HOL-Library.Word" "HOL-Library.Signed_Division"
begin

text \<open>
  Shared vocabulary of the development: the machine integer types of the firmware, bit tests,
  C strings, and the combinators for its control flow.

  A C function that can block is modelled as a \<open>stmt\<close>: it maps a state to \<open>None\<close> when the code
  never returns, and otherwise to a flag and the new state.  The flag is \<open>True\<close> when control
  falls through to the next statement and \<open>False\<close> when the code jumps to the exit label of its
  function (\<open>goto estop_exit\<close> and its kin).  \<open>seqs\<close> runs the statements of a function body in
  order.  The locale \<open>frame_relation\<close> lifts a reflexive and transitive relation between the
  states before and after a statement through all the combinators; it carries the proofs about
  what a scenario may emit.
\<close>

section \<open>Machine integers\<close>

type_synonym u8 = "8 word"
type_synonym u16 = "16 word"
type_synonym u32 = "32 word"

unbundle bit_operations_syntax

named_theorems flow_simps \<open>unfolding equations of the control-flow combinators\<close>
named_theorems frame_intros \<open>preservation rules of the control-flow combinators\<close>
named_theorems returns_intros \<open>termination rules of the control-flow combinators\<close>

text \<open>The C test \<open>(v & m) != 0\<close>.\<close>

definition bit_set :: "u32 \<Rightarrow> u32 \<Rightarrow> bool" where
  "bit_set v m \<longleftrightarrow> v AND m \<noteq> 0"

lemma bit_set_push_bit: "n < 32 \<Longrightarrow> bit_set v (push_bit n 1) \<longleftrightarrow> bit v n"
  by (auto simp: bit_set_def bit_iff_and_push_bit_not_eq_0)

section \<open>C strings\<close>

text \<open>A buffer read as a C string: its characters up to the first NUL.\<close>

definition cstr :: "char list \<Rightarrow> char list" where
  "cstr buf = takeWhile (\<lambda>c. c \<noteq> CHR 0x00) buf"

lemma cstr_id [simp]: "CHR 0x00 \<notin> set buf \<Longrightarrow> cstr buf = buf"
  by (auto simp: cstr_def takeWhile_eq_all_conv)

lemma cstr_no_nul [simp]: "CHR 0x00 \<notin> set (cstr buf)"
  by (auto simp: cstr_def dest: set_takeWhileD)

lemma length_cstr_le: "length (cstr buf) \<le> length buf"
  by (simp add: cstr_def length_takeWhile_le)

text \<open>\<open>strncmp(s, p, strlen(p)) == 0\<close>: \<open>p\<close> is a prefix of the C string \<open>s\<close>.\<close>

definition starts_with :: "char list \<Rightarrow> char list \<Rightarrow> bool" where
  "starts_with p s \<longleftrightarrow> take (length p) s = p"

section \<open>Statements\<close>

type_synonym 's stmt = "'s \<Rightarrow> (bool \<times> 's) option"

definition exec :: "('s \<Rightarrow> 's) \<Rightarrow> 's stmt" where
  "exec f s = Some (True, f s)"

definition guard :: "('s \<Rightarrow> bool) \<Rightarrow> 's stmt" where
  "guard c s = Some (c s, s)"

definition branch :: "('s \<Rightarrow> bool) \<Rightarrow> 's stmt \<Rightarrow> 's stmt \<Rightarrow> 's stmt" where
  "branch c f g s = (if c s then f s else g s)"

text \<open>\<open>if (proc(...) != 0) goto exit;\<close>\<close>

definition require :: "('s \<Rightarrow> (int \<times> 's) option) \<Rightarrow> 's stmt" where
  "require f s = (case f s of None \<Rightarrow> None | Some (r, s') \<Rightarrow> Some (r = 0, s'))"

fun seqs :: "'s stmt list \<Rightarrow> 's stmt" where
  "seqs [] s = Some (True, s)"
| "seqs (f # fs) s =
     (case f s of None \<Rightarrow> None
      | Some (ok, s') \<Rightarrow> if ok then seqs fs s' else Some (False, s'))"

text \<open>
  A function body with an exit label: 0 when the body runs to its end, otherwise the code at
  the label decides.
\<close>

definition with_exit :: "'s stmt list \<Rightarrow> ('s \<Rightarrow> (int \<times> 's) option) \<Rightarrow> 's \<Rightarrow> (int \<times> 's) option" where
  "with_exit body exit s =
     (case seqs body s of None \<Rightarrow> None
      | Some (ok, s') \<Rightarrow> if ok then Some (0, s') else exit s')"

declare exec_def [flow_simps] guard_def [flow_simps] branch_def [flow_simps]
  require_def [flow_simps]

lemma seqs_append:
  "seqs (fs @ gs) s =
     (case seqs fs s of None \<Rightarrow> None
      | Some (ok, s') \<Rightarrow> if ok then seqs gs s' else Some (False, s'))"
  by (induction fs arbitrary: s) (auto split: option.splits)

lemma seqs_execs:
  "seqs (map exec us @ fs) s = seqs fs (fold (\<lambda>f s. f s) us s)"
  by (induction us arbitrary: s) (auto simp: exec_def)

section \<open>Relations every statement obeys\<close>

definition obeys :: "('s \<Rightarrow> 's \<Rightarrow> bool) \<Rightarrow> ('s \<Rightarrow> ('a \<times> 's) option) \<Rightarrow> bool" where
  "obeys R f \<longleftrightarrow> (\<forall>s a s'. f s = Some (a, s') \<longrightarrow> R s s')"

lemma obeysI: "(\<And>s a s'. f s = Some (a, s') \<Longrightarrow> R s s') \<Longrightarrow> obeys R f"
  by (auto simp: obeys_def)

lemma obeysD: "obeys R f \<Longrightarrow> f s = Some (a, s') \<Longrightarrow> R s s'"
  by (auto simp: obeys_def)

lemma obeys_exec: "obeys R (exec f) \<longleftrightarrow> (\<forall>s. R s (f s))"
  by (auto simp: obeys_def exec_def)

lemma obeys_mono: "obeys R f \<Longrightarrow> (\<And>s s'. R s s' \<Longrightarrow> R' s s') \<Longrightarrow> obeys R' f"
  by (auto simp: obeys_def)

locale frame_relation =
  fixes R :: "'s \<Rightarrow> 's \<Rightarrow> bool"
  assumes refl: "R s s"
    and trans: "R s t \<Longrightarrow> R t u \<Longrightarrow> R s u"
begin

lemma exec_obeys: "(\<And>s. R s (f s)) \<Longrightarrow> obeys R (exec f)"
  by (auto simp: obeys_def exec_def)

lemma guard_obeys: "obeys R (guard c)"
  by (auto simp: obeys_def guard_def refl)

lemma branch_obeys: "obeys R f \<Longrightarrow> obeys R g \<Longrightarrow> obeys R (branch c f g)"
  by (auto simp: obeys_def branch_def split: if_splits)

lemma require_obeys: "obeys R f \<Longrightarrow> obeys R (require f)"
  by (auto simp: obeys_def require_def split: option.splits)

lemma obeys_exit:
  assumes "obeys R (seqs body)" "obeys R exit"
  shows "obeys R (with_exit body exit)"
proof (rule obeysI)
  fix s a s' assume run: "with_exit body exit s = Some (a, s')"
  then obtain ok t where t: "seqs body s = Some (ok, t)" by (auto simp: with_exit_def split: option.splits)
  then have st: "R s t" using assms(1) by (rule obeysD [rotated])
  show "R s s'"
  proof (cases ok)
    case True
    with run t st show ?thesis by (simp add: with_exit_def)
  next
    case False
    with run t have "exit t = Some (a, s')" by (simp add: with_exit_def)
    with assms(2) have "R t s'" by (rule obeysD)
    with st show ?thesis by (rule trans)
  qed
qed

lemma seqs_obeys: "list_all (obeys R) fs \<Longrightarrow> obeys R (seqs fs)"
proof (induction fs)
  case Nil
  then show ?case by (auto simp: obeys_def refl)
next
  case (Cons f fs)
  show ?case
  proof (rule obeysI)
    fix s ok s'
    assume run: "seqs (f # fs) s = Some (ok, s')"
    then obtain b t where f: "f s = Some (b, t)" by (auto split: option.splits)
    have st: "R s t" using Cons.prems f by (auto dest: obeysD)
    show "R s s'"
    proof (cases b)
      case True
      with run f have "seqs fs t = Some (ok, s')" by simp
      then have "R t s'" using Cons by (auto dest: obeysD)
      with st show ?thesis by (rule trans)
    next
      case False
      with run f st show ?thesis by simp
    qed
  qed
qed

end

section \<open>Termination of statements\<close>

text \<open>\<open>returns D f\<close>: from every state in \<open>D\<close> the code returns, in a state of \<open>D\<close> again.\<close>

definition returns :: "('s \<Rightarrow> bool) \<Rightarrow> ('s \<Rightarrow> ('a \<times> 's) option) \<Rightarrow> bool" where
  "returns D f \<longleftrightarrow> (\<forall>s. D s \<longrightarrow> (\<exists>a s'. f s = Some (a, s') \<and> D s'))"

lemma returnsD: "returns D f \<Longrightarrow> D s \<Longrightarrow> \<exists>a s'. f s = Some (a, s') \<and> D s'"
  by (auto simp: returns_def)

lemma returns_exec [returns_intros]: "(\<And>s. D s \<Longrightarrow> D (f s)) \<Longrightarrow> returns D (exec f)"
  by (auto simp: returns_def exec_def)

lemma returnsI: "(\<And>s. D s \<Longrightarrow> \<exists>a s'. f s = Some (a, s') \<and> D s') \<Longrightarrow> returns D f"
  by (auto simp: returns_def)

lemma returns_guard [returns_intros]: "returns D (guard c)"
proof (rule returnsI)
  fix s assume "D s"
  then have "guard c s = Some (c s, s) \<and> D s" by (simp add: guard_def)
  then show "\<exists>a s'. guard c s = Some (a, s') \<and> D s'" by blast
qed

lemma returns_branch [returns_intros]:
  "returns D f \<Longrightarrow> returns D g \<Longrightarrow> returns D (branch c f g)"
  by (auto simp: returns_def branch_def)

lemma returns_require [returns_intros]: "returns D f \<Longrightarrow> returns D (require f)"
  unfolding returns_def require_def by (fastforce split: option.splits)

lemma returns_seqs [returns_intros]: "list_all (returns D) fs \<Longrightarrow> returns D (seqs fs)"
proof (induction fs)
  case Nil
  then show ?case by (auto simp: returns_def)
next
  case (Cons f fs)
  show ?case
    unfolding returns_def
  proof (intro allI impI)
    fix s assume "D s"
    with Cons.prems obtain b t where f: "f s = Some (b, t)" "D t"
      by (auto dest: returnsD)
    moreover from Cons f obtain c u where "seqs fs t = Some (c, u)" "D u"
      by (auto dest: returnsD)
    ultimately show "\<exists>a s'. seqs (f # fs) s = Some (a, s') \<and> D s'"
      by (cases b) auto
  qed
qed

lemma returns_with_exit [returns_intros]:
  assumes "returns D (seqs body)" "returns D exit"
  shows "returns D (with_exit body exit)"
proof (rule returnsI)
  fix s assume "D s"
  then obtain ok t where "seqs body s = Some (ok, t)" "D t" using assms(1) by (blast dest: returnsD)
  moreover from this obtain a u where "exit t = Some (a, u)" "D u"
    using assms(2) by (blast dest: returnsD)
  ultimately show "\<exists>a s'. with_exit body exit s = Some (a, s') \<and> D s'"
    by (cases ok) (auto simp: with_exit_def)
qed

end
