(* ===== verification/Messages.thy ===== *)
theory Messages
  imports Prelude
begin

text \<open>
  The message types the tasks of the firmware exchange (\<open>src/main/main.h\<close>, \<open>src/main/motor.h\<close>)
  and the queues they travel through.  Enumeration constants that the code stores in
  \<open>uint32_t\<close> fields are abbreviations of 32-bit words, and those it passes as \<open>int\<close> are
  abbreviations of integers.  The FreeRTOS queues themselves are not code of the repository: a
  send is recorded, in order, as an \<open>out\<close> value, and a receiving task is a function of the
  message it received, if any.
\<close>

section \<open>Enumerations\<close>

text \<open>\<open>MOTOR_DIRECTION_T\<close>\<close>

abbreviation (input) FORWARD :: u32 where "FORWARD \<equiv> 0"
abbreviation (input) REVERSE :: u32 where "REVERSE \<equiv> 1"
abbreviation (input) STOP :: u32 where "STOP \<equiv> 2"

text \<open>\<open>MOTOR_CMD_T\<close>\<close>

abbreviation (input) WASTE_COVER_CMD :: u32 where "WASTE_COVER_CMD \<equiv> 1"
abbreviation (input) PLATE_CMD :: u32 where "PLATE_CMD \<equiv> 2"
abbreviation (input) SCP_INOUT_CMD :: u32 where "SCP_INOUT_CMD \<equiv> 3"
abbreviation (input) SCP_SPIN_CMD :: u32 where "SCP_SPIN_CMD \<equiv> 4"
abbreviation (input) MAIN_COVER_CMD :: u32 where "MAIN_COVER_CMD \<equiv> 5"
abbreviation (input) SCP_SPIN_STEP_CMD :: u32 where "SCP_SPIN_STEP_CMD \<equiv> 6"
abbreviation (input) SCP_SPIN_SPEED_CMD :: u32 where "SCP_SPIN_SPEED_CMD \<equiv> 7"
abbreviation (input) WASTE_STEP_CMD :: u32 where "WASTE_STEP_CMD \<equiv> 8"

text \<open>\<open>LED_CMD_T\<close>, \<open>UI_CMD_T\<close>, \<open>LOADCELL_CMD_T\<close>, \<open>DIAG_CMD_T\<close>\<close>

abbreviation (input) LED_IDLE_CMD :: u32 where "LED_IDLE_CMD \<equiv> 0"
abbreviation (input) LED_INITOK_CMD :: u32 where "LED_INITOK_CMD \<equiv> 1"
abbreviation (input) LED_PAIRING_CMD :: u32 where "LED_PAIRING_CMD \<equiv> 2"
abbreviation (input) LED_UNLOCK_CMD :: u32 where "LED_UNLOCK_CMD \<equiv> 3"
abbreviation (input) LED_LOCK_CMD :: u32 where "LED_LOCK_CMD \<equiv> 4"
abbreviation (input) LED_INVALID_CMD :: u32 where "LED_INVALID_CMD \<equiv> 5"
abbreviation (input) LED_INUSE_CMD :: u32 where "LED_INUSE_CMD \<equiv> 6"
abbreviation (input) LED_CLEANING_CMD :: u32 where "LED_CLEANING_CMD \<equiv> 7"
abbreviation (input) LED_MANAGE_CMD :: u32 where "LED_MANAGE_CMD \<equiv> 8"
abbreviation (input) LED_BINFULL_CMD :: u32 where "LED_BINFULL_CMD \<equiv> 9"
abbreviation (input) LED_ERROR_CMD :: u32 where "LED_ERROR_CMD \<equiv> 10"
abbreviation (input) LED_QCMODE_CMD :: u32 where "LED_QCMODE_CMD \<equiv> 11"
abbreviation (input) LED_QCQUIT_CMD :: u32 where "LED_QCQUIT_CMD \<equiv> 12"
abbreviation (input) LED_PAUSE_CMD :: u32 where "LED_PAUSE_CMD \<equiv> 13"

abbreviation (input) UI_CLEAN_CMD :: u32 where "UI_CLEAN_CMD \<equiv> 0"
abbreviation (input) UI_MANAGE_FINISH_CMD :: u32 where "UI_MANAGE_FINISH_CMD \<equiv> 1"
abbreviation (input) UI_TARE_ZERO_CMD :: u32 where "UI_TARE_ZERO_CMD \<equiv> 2"
abbreviation (input) UI_MANAGE_START_CMD :: u32 where "UI_MANAGE_START_CMD \<equiv> 3"
abbreviation (input) UI_PAIRING_CMD :: u32 where "UI_PAIRING_CMD \<equiv> 4"
abbreviation (input) UI_FACTORY_CMD :: u32 where "UI_FACTORY_CMD \<equiv> 5"

abbreviation (input) LOADCELL_TARE_CMD :: u32 where "LOADCELL_TARE_CMD \<equiv> 0"
abbreviation (input) LOADCELL_SAVE_STATE1_CMD :: u32 where "LOADCELL_SAVE_STATE1_CMD \<equiv> 1"
abbreviation (input) LOADCELL_SAVE_STATE2_CMD :: u32 where "LOADCELL_SAVE_STATE2_CMD \<equiv> 2"
abbreviation (input) LOADCELL_SAVE_STATE3_CMD :: u32 where "LOADCELL_SAVE_STATE3_CMD \<equiv> 3"

abbreviation (input) DIAG_IDLE_CMD :: u32 where "DIAG_IDLE_CMD \<equiv> 0"
abbreviation (input) DIAG_NEXT_STEP_CMD :: u32 where "DIAG_NEXT_STEP_CMD \<equiv> 1"
abbreviation (input) DIAG_NEXT_FUNC_CMD :: u32 where "DIAG_NEXT_FUNC_CMD \<equiv> 2"

text \<open>\<open>motor_t\<close>, \<open>step_motor_t\<close>, \<open>dc_motor_t\<close>, \<open>motor_status_t\<close>, \<open>loadcell_t\<close>\<close>

abbreviation (input) DC_MOTOR :: int where "DC_MOTOR \<equiv> 0"
abbreviation (input) STEP_MOTOR :: int where "STEP_MOTOR \<equiv> 1"
abbreviation (input) SCPSPIN_MOTOR :: int where "SCPSPIN_MOTOR \<equiv> 0"
abbreviation (input) WASTE_COVER_MOTOR :: int where "WASTE_COVER_MOTOR \<equiv> 1"
abbreviation (input) PLATE_MOTOR :: int where "PLATE_MOTOR \<equiv> 0"
abbreviation (input) MAIN_COVER_MOTOR :: int where "MAIN_COVER_MOTOR \<equiv> 1"
abbreviation (input) SCPINOUT_MOTOR :: int where "SCPINOUT_MOTOR \<equiv> 2"
abbreviation (input) MT_OPEN :: int where "MT_OPEN \<equiv> 0"
abbreviation (input) MT_CLOSE :: int where "MT_CLOSE \<equiv> 1"
abbreviation (input) MT_MIDDLE :: int where "MT_MIDDLE \<equiv> 2"
abbreviation (input) LOADCELL_MAIN :: int where "LOADCELL_MAIN \<equiv> 0"
abbreviation (input) LOADCELL_WASTE :: int where "LOADCELL_WASTE \<equiv> 1"

section \<open>Messages and queues\<close>

text \<open>\<open>mt_message_t\<close>: the motor queues.\<close>

record mt_message =
  mt_task_id :: u32
  mt_cmd :: u32
  mt_angle :: u32
  mt_direction :: u32
  mt_speed :: u32
  mt_timeout :: u32
  mt_cal :: bool

text \<open>\<open>message_t\<close>: the LED, UI, load cell and diagnosis queues.\<close>

record message =
  ms_task_id :: u32
  ms_cmd :: u32

definition zero_mt :: mt_message where
  "zero_mt = \<lparr>mt_task_id = 0, mt_cmd = 0, mt_angle = 0, mt_direction = 0, mt_speed = 0,
     mt_timeout = 0, mt_cal = False\<rparr>"

definition zero_ms :: message where
  "zero_ms = \<lparr>ms_task_id = 0, ms_cmd = 0\<rparr>"

text \<open>One successful or attempted \<open>xQueueSend\<close>, by destination queue.\<close>

datatype out =
    PlateQ mt_message
  | MainQ mt_message
  | ScpinoutQ mt_message
  | WasteQ mt_message
  | ScpspinQ mt_message
  | LedQ message
  | UiQ message
  | LoadcellQ message
  | DiagQ message

fun is_motor :: "out \<Rightarrow> bool" where
  "is_motor (PlateQ _) = True"
| "is_motor (MainQ _) = True"
| "is_motor (ScpinoutQ _) = True"
| "is_motor (WasteQ _) = True"
| "is_motor (ScpspinQ _) = True"
| "is_motor _ = False"

text \<open>The commands a motor queue received, in order.\<close>

fun main_of :: "out \<Rightarrow> mt_message list" where
  "main_of (MainQ m) = [m]"
| "main_of _ = []"

fun plate_of :: "out \<Rightarrow> mt_message list" where
  "plate_of (PlateQ m) = [m]"
| "plate_of _ = []"

fun scpinout_of :: "out \<Rightarrow> mt_message list" where
  "scpinout_of (ScpinoutQ m) = [m]"
| "scpinout_of _ = []"

fun waste_of :: "out \<Rightarrow> mt_message list" where
  "waste_of (WasteQ m) = [m]"
| "waste_of _ = []"

fun scpspin_of :: "out \<Rightarrow> mt_message list" where
  "scpspin_of (ScpspinQ m) = [m]"
| "scpspin_of _ = []"

fun led_of :: "out \<Rightarrow> u32 list" where
  "led_of (LedQ m) = [ms_cmd m]"
| "led_of _ = []"

fun ui_of :: "out \<Rightarrow> u32 list" where
  "ui_of (UiQ m) = [ms_cmd m]"
| "ui_of _ = []"

abbreviation "received f tr \<equiv> concat (map f tr)"

end
