(* ===== verification/Controllers.thy ===== *)
theory Controllers
  imports Messages
begin

text \<open>
  The contract the five motor controllers share.  A controller is a task that, at each turn of
  its loop, may have received one command and reads the limit sensors.  \<open>motor_controller\<close>
  promises that a motor is driven exactly while its run flag is set and that a stop command
  clears the flag; \<open>limit_controller\<close> adds that a motor never stays running into a limit its
  sensor reports.  The client lemmas say what a sequence of commands that ends in a stop does,
  whatever came before it.
\<close>

text \<open>A stop message for the commands of queue \<open>cmd\<close>.\<close>

definition stop_for :: "u32 \<Rightarrow> mt_message \<Rightarrow> bool" where
  "stop_for cmd msg \<longleftrightarrow> mt_cmd msg = cmd \<and> mt_direction msg = STOP"

text \<open>A trace whose last command to a queue is a stop.\<close>

definition ends_stopped :: "(out \<Rightarrow> mt_message list) \<Rightarrow> (mt_message \<Rightarrow> bool) \<Rightarrow> out list \<Rightarrow> bool" where
  "ends_stopped f is_stop tr \<longleftrightarrow> (\<exists>ms m. received f tr = ms @ [m] \<and> is_stop m)"

text \<open>
  A schedule of controller turns delivers a trace when the commands it receives are those posted
  to its queue, in order.
\<close>

definition delivers :: "(out \<Rightarrow> mt_message list) \<Rightarrow> out list \<Rightarrow> ('p \<times> mt_message option) list \<Rightarrow> bool" where
  "delivers f tr xs \<longleftrightarrow> List.map_filter snd xs = received f tr"

locale motor_controller =
  fixes turn :: "'sns \<Rightarrow> mt_message option \<Rightarrow> 'm \<Rightarrow> 'm"
    and running :: "'m \<Rightarrow> bool"
    and driven :: "'m \<Rightarrow> bool"
    and ok :: "'m \<Rightarrow> bool"
    and is_stop :: "mt_message \<Rightarrow> bool"
  assumes ok_turn: "ok m \<Longrightarrow> ok (turn p c m)"
    and stop_turn: "ok m \<Longrightarrow> is_stop msg \<Longrightarrow> \<not> running (turn p (Some msg) m)"
    and idle_turn: "ok m \<Longrightarrow> \<not> running m \<Longrightarrow> \<not> running (turn p None m)"
    and driven_running: "ok m \<Longrightarrow> driven m \<Longrightarrow> running m"
begin

text \<open>A run of the task: the sensor reading and the command of each turn.\<close>

fun turns :: "('sns \<times> mt_message option) list \<Rightarrow> 'm \<Rightarrow> 'm" where
  "turns [] m = m"
| "turns ((p, c) # xs) m = turns xs (turn p c m)"

lemma turns_append: "turns (xs @ ys) m = turns ys (turns xs m)"
  by (induction xs arbitrary: m) auto

lemma ok_turns: "ok m \<Longrightarrow> ok (turns xs m)"
  by (induction xs arbitrary: m) (auto simp: ok_turn)

lemma idle_turns: "ok m \<Longrightarrow> \<not> running m \<Longrightarrow> \<forall>x \<in> set xs. snd x = None \<Longrightarrow> \<not> running (turns xs m)"
  by (induction xs arbitrary: m) (auto simp: ok_turn idle_turn)

lemma stopped_after_stop:
  assumes "ok m" "is_stop c" "\<forall>x \<in> set ys. snd x = None"
  shows "\<not> running (turns (xs @ (p, Some c) # ys) m) \<and> \<not> driven (turns (xs @ (p, Some c) # ys) m)"
proof -
  have ok: "ok (turns xs m)" using assms by (simp add: ok_turns)
  then have "\<not> running (turns ys (turn p (Some c) (turns xs m)))"
    using assms by (simp add: idle_turns ok_turn stop_turn)
  moreover have "ok (turns (xs @ (p, Some c) # ys) m)" using assms(1) by (rule ok_turns)
  ultimately show ?thesis using driven_running by (auto simp: turns_append)
qed

text \<open>
  Whatever the turns and sensor readings between, a motor that has received all its commands
  is at rest when the last of them was a stop.
\<close>

lemma delivered_stop:
  assumes "ok m" "List.map_filter snd xs = cs @ [c]" "is_stop c"
  shows "\<not> running (turns xs m) \<and> \<not> driven (turns xs m)"
proof -
  have "\<exists>ys p zs. xs = ys @ (p, Some c) # zs \<and> (\<forall>z \<in> set zs. snd z = None)"
    using assms(2)
  proof (induction xs rule: rev_induct)
    case (snoc x xs)
    obtain p r where x: "x = (p, r)" by (cases x)
    show ?case
    proof (cases r)
      case None
      with snoc x obtain ys q zs where "xs = ys @ (q, Some c) # zs" "\<forall>z \<in> set zs. snd z = None"
        by (auto simp: List.map_filter_def)
      then have "xs @ [x] = ys @ (q, Some c) # (zs @ [x])" "\<forall>z \<in> set (zs @ [x]). snd z = None"
        using x None by auto
      then show ?thesis by blast
    next
      case (Some d)
      with snoc.prems x have "xs @ [x] = xs @ (p, Some c) # []" by (simp add: List.map_filter_def)
      then show ?thesis by fastforce
    qed
  qed (simp add: List.map_filter_def)
  then show ?thesis using stopped_after_stop [OF assms(1,3)] by blast
qed

lemma halted_delivery:
  "ends_stopped f is_stop tr \<Longrightarrow> delivers f tr xs \<Longrightarrow> ok m \<Longrightarrow>
    \<not> running (turns xs m) \<and> \<not> driven (turns xs m)"
  by (auto simp: ends_stopped_def delivers_def delivered_stop)

end

locale limit_controller = motor_controller turn running driven ok is_stop
  for turn :: "'sns \<Rightarrow> mt_message option \<Rightarrow> 'm \<Rightarrow> 'm"
    and running driven ok :: "'m \<Rightarrow> bool"
    and is_stop :: "mt_message \<Rightarrow> bool" +
  fixes dir :: "'m \<Rightarrow> bool"
    and limit :: "'sns \<Rightarrow> int"
  assumes limit_turn: "ok m \<Longrightarrow> running (turn p c m) \<Longrightarrow>
      \<not> (dir (turn p c m) \<and> limit p = 1) \<and> \<not> (\<not> dir (turn p c m) \<and> limit p = -1)"
begin

lemma never_into_limit:
  assumes "ok m" "xs \<noteq> []" "running (turns xs m)"
  shows "\<not> (dir (turns xs m) \<and> limit (fst (last xs)) = 1)
    \<and> \<not> (\<not> dir (turns xs m) \<and> limit (fst (last xs)) = -1)"
proof -
  obtain ys p c where xs: "xs = ys @ [(p, c)]" using assms(2) by (metis rev_exhaust surj_pair)
  then have "turns xs m = turn p c (turns ys m)" by (simp add: turns_append)
  with assms limit_turn [OF ok_turns [OF assms(1), of ys], of p c] xs show ?thesis by simp
qed

end

end
