(* ===== verification/Ring_Buffers.thy ===== *)
theory Ring_Buffers
  imports Prelude
begin

text \<open>
  The contracts of the firmware's ring buffers.  \<open>bounded_fifo\<close> is the promise of the UART
  receive ring: bytes come out in the order they went in, and a push on a full ring is dropped.
  \<open>sliding_window\<close> is the promise of the sample rings of the distance sensor and of the load
  cell: the ring always holds the most recent samples, each as the code stores it.  Both are stated over the abstraction of
  a ring to the list of its entries, oldest first; \<open>ring_seg\<close> is that abstraction for an array
  indexed modulo its length.
\<close>

section \<open>Entries of an array read modulo its length\<close>

definition ring_seg :: "'a list \<Rightarrow> nat \<Rightarrow> nat \<Rightarrow> 'a list" where
  "ring_seg buf t n = map (\<lambda>i. buf ! ((t + i) mod length buf)) [0..<n]"

lemma length_ring_seg [simp]: "length (ring_seg buf t n) = n"
  by (simp add: ring_seg_def)

lemma ring_seg_0 [simp]: "ring_seg buf t 0 = []"
  by (simp add: ring_seg_def)

lemma mod_add_eq_bounded:
  fixes i j t N :: nat
  assumes "i < N" "j < N"
  shows "(t + i) mod N = (t + j) mod N \<longleftrightarrow> i = j"
proof -
  have undo: "((t + k) mod N + (N - t mod N)) mod N = k" if "k < N" for k
  proof -
    have "((t + k) mod N + (N - t mod N)) mod N = ((t mod N + k) mod N + (N - t mod N)) mod N"
      by (simp add: mod_add_left_eq)
    also have "\<dots> = (t mod N + k + (N - t mod N)) mod N" by (rule mod_add_left_eq)
    also have "t mod N + k + (N - t mod N) = k + N"
      using mod_less_divisor [of N t] that by simp
    finally show ?thesis using that by simp
  qed
  show ?thesis using undo [OF assms(1)] undo [OF assms(2)] by metis
qed

lemma ring_seg_put:
  assumes "n < length buf"
  shows "ring_seg (buf[(t + n) mod length buf := d]) t (Suc n) = ring_seg buf t n @ [d]"
proof -
  have N: "0 < length buf" using assms by (cases buf) auto
  have keep: "buf[(t + n) mod length buf := d] ! ((t + i) mod length buf)
      = buf ! ((t + i) mod length buf)" if "i < n" for i
    using that assms N mod_add_eq_bounded [of n "length buf" i t] by (simp add: nth_list_update)
  have "(t + n) mod length buf < length buf" using N by simp
  then show ?thesis by (simp add: ring_seg_def keep)
qed

lemma ring_seg_hd:
  assumes "0 < length buf" "t < length buf"
  shows "ring_seg buf t (Suc n) = buf ! t # ring_seg buf ((t + 1) mod length buf) n"
proof -
  have "ring_seg buf t (Suc n) = map (\<lambda>i. buf ! ((t + i) mod length buf)) (0 # map Suc [0..<n])"
    by (simp only: ring_seg_def upt_conv_Cons [OF zero_less_Suc] map_Suc_upt)
  then show ?thesis
    using assms by (simp add: ring_seg_def comp_def mod_simps)
qed

lemma ring_seg_overwrite:
  assumes "t < length buf"
  shows "ring_seg (buf[t := d]) ((t + 1) mod length buf) (length buf)
    = tl (ring_seg buf t (length buf)) @ [d]"
proof -
  obtain n where n: "length buf = Suc n" using assms by (cases buf) auto
  let ?t = "(t + 1) mod length buf"
  have wrap: "(?t + n) mod length buf = t"
  proof -
    have "(?t + n) mod length buf = (t + 1 + n) mod length buf" by (simp only: mod_simps)
    also have "t + 1 + n = t + length buf" using n by simp
    finally show ?thesis using assms by simp
  qed
  have "ring_seg (buf[t := d]) ?t (Suc n) = ring_seg buf ?t n @ [d]"
    using ring_seg_put [of n buf ?t d] n wrap by simp
  moreover have "ring_seg buf t (Suc n) = buf ! t # ring_seg buf ?t n"
    using ring_seg_hd [of buf t n] assms by (cases buf) auto
  ultimately show ?thesis by (simp add: n)
qed

section \<open>A ring filled slot by slot\<close>

text \<open>
  \<open>cnt\<close> entries are in use; while the ring is not full the next slot is the first unused one.
\<close>

definition slot_ok :: "nat \<Rightarrow> 'a list \<Rightarrow> nat \<Rightarrow> nat \<Rightarrow> bool" where
  "slot_ok N buf idx cnt \<longleftrightarrow> length buf = N \<and> idx < N \<and> cnt \<le> N \<and> (cnt < N \<longrightarrow> idx = cnt)"

definition slot_window :: "nat \<Rightarrow> 'a list \<Rightarrow> nat \<Rightarrow> nat \<Rightarrow> 'a list" where
  "slot_window N buf idx cnt = (if cnt < N then take cnt buf else ring_seg buf idx N)"

lemma length_slot_window: "slot_ok N buf idx cnt \<Longrightarrow> length (slot_window N buf idx cnt) = cnt"
  by (auto simp: slot_ok_def slot_window_def)

lemma ring_seg_full_start: "length buf = n \<Longrightarrow> ring_seg buf 0 n = buf"
  by (auto simp: ring_seg_def intro: nth_equalityI)

lemma slot_put_ok:
  "slot_ok N buf idx cnt \<Longrightarrow>
    slot_ok N (buf[idx := v]) ((idx + 1) mod N) (if cnt < N then cnt + 1 else cnt)"
  by (auto simp: slot_ok_def intro: mod_less_divisor)

lemma slot_put_window:
  assumes "slot_ok N buf idx cnt"
  shows "slot_window N (buf[idx := v]) ((idx + 1) mod N) (if cnt < N then cnt + 1 else cnt)
    = (if cnt < N then slot_window N buf idx cnt else tl (slot_window N buf idx cnt)) @ [v]"
proof (cases "cnt < N")
  case True
  then have idx: "idx = cnt" and len: "length buf = N" using assms by (auto simp: slot_ok_def)
  have put: "take (Suc cnt) (buf[cnt := v]) = take cnt buf @ [v]"
    using True len by (simp add: take_Suc_conv_app_nth)
  show ?thesis
  proof (cases "Suc cnt < N")
    case True
    then show ?thesis using put idx by (simp add: slot_window_def)
  next
    case False
    with True have "N = Suc cnt" by simp
    then have "ring_seg (buf[cnt := v]) 0 N = take (Suc cnt) (buf[cnt := v])"
      using len by (simp add: ring_seg_full_start)
    then show ?thesis using put idx True \<open>N = Suc cnt\<close> by (simp add: slot_window_def)
  qed
next
  case False
  then have "cnt = N" "length buf = N" "idx < N" using assms by (auto simp: slot_ok_def)
  then show ?thesis using ring_seg_overwrite [of idx buf v] by (simp add: slot_window_def)
qed

section \<open>The bounded queue\<close>

fun drain :: "('q \<Rightarrow> ('a \<times> 'q) option) \<Rightarrow> nat \<Rightarrow> 'q \<Rightarrow> 'a list \<times> 'q" where
  "drain pop 0 q = ([], q)"
| "drain pop (Suc n) q =
     (case pop q of None \<Rightarrow> ([], q)
      | Some (a, q') \<Rightarrow> (case drain pop n q' of (as, q'') \<Rightarrow> (a # as, q'')))"

locale bounded_fifo =
  fixes contents :: "'q \<Rightarrow> 'a list"
    and push :: "'a \<Rightarrow> 'q \<Rightarrow> 'q"
    and pop :: "'q \<Rightarrow> ('a \<times> 'q) option"
    and inv :: "'q \<Rightarrow> bool"
    and cap :: nat
  assumes bound: "inv q \<Longrightarrow> length (contents q) \<le> cap"
    and inv_push: "inv q \<Longrightarrow> inv (push a q)"
    and contents_push: "inv q \<Longrightarrow>
      contents (push a q) = (if length (contents q) < cap then contents q @ [a] else contents q)"
    and pop_empty: "inv q \<Longrightarrow> contents q = [] \<Longrightarrow> pop q = None"
    and pop_Cons: "inv q \<Longrightarrow> contents q = a # as \<Longrightarrow>
      \<exists>q'. pop q = Some (a, q') \<and> contents q' = as \<and> inv q'"
begin

lemma inv_pushes: "inv q \<Longrightarrow> inv (fold push xs q)"
  by (induction xs arbitrary: q) (auto simp: inv_push)

lemma contents_pushes:
  "inv q \<Longrightarrow> contents (fold push xs q) = contents q @ take (cap - length (contents q)) xs"
proof (induction xs arbitrary: q)
  case (Cons x xs)
  show ?case
  proof (cases "length (contents q) < cap")
    case True
    then have "cap - length (contents q) = Suc (cap - Suc (length (contents q)))" by simp
    with True Cons show ?thesis by (simp add: inv_push contents_push)
  next
    case False
    with Cons bound [of q] show ?thesis by (simp add: inv_push contents_push)
  qed
qed simp

lemma drain_all:
  "inv q \<Longrightarrow> length (contents q) \<le> n \<Longrightarrow>
    \<exists>q'. drain pop n q = (contents q, q') \<and> contents q' = [] \<and> inv q'"
proof (induction n arbitrary: q)
  case (Suc n)
  show ?case
  proof (cases "contents q")
    case Nil
    with Suc.prems show ?thesis by (simp add: pop_empty)
  next
    case (Cons a as)
    with pop_Cons [OF Suc.prems(1)] obtain q' where
      "pop q = Some (a, q')" "contents q' = as" "inv q'" by blast
    with Suc Cons show ?thesis by fastforce
  qed
qed simp

lemma push_drain:
  assumes "inv q" "contents q = []" "length xs \<le> cap"
  shows "fst (drain pop cap (fold push xs q)) = xs"
proof -
  have c: "contents (fold push xs q) = xs" using contents_pushes [OF assms(1)] assms by simp
  then show ?thesis using drain_all [OF inv_pushes [OF assms(1)], of xs cap] assms(3) by force
qed

end

section \<open>The sliding window\<close>

locale sliding_window =
  fixes contents :: "'q \<Rightarrow> 'a list"
    and store :: "'b \<Rightarrow> 'a"
    and push :: "'b \<Rightarrow> 'q \<Rightarrow> 'q"
    and inv :: "'q \<Rightarrow> bool"
    and cap :: nat
  assumes pos: "0 < cap"
    and bound: "inv q \<Longrightarrow> length (contents q) \<le> cap"
    and inv_push: "inv q \<Longrightarrow> inv (push a q)"
    and contents_push: "inv q \<Longrightarrow>
      contents (push a q) =
        (if length (contents q) < cap then contents q else tl (contents q)) @ [store a]"
begin

lemma inv_pushes: "inv q \<Longrightarrow> inv (fold push xs q)"
  by (induction xs arbitrary: q) (auto simp: inv_push)

text \<open>The window after any sequence of pushes is the suffix of length at most \<open>cap\<close>.\<close>

lemma contents_pushes:
  "inv q \<Longrightarrow> contents (fold push xs q)
    = drop (length (contents q) + length xs - cap) (contents q @ map store xs)"
proof (induction xs arbitrary: q)
  case Nil
  then show ?case by (simp add: bound)
next
  case (Cons x xs)
  show ?case
  proof (cases "length (contents q) < cap")
    case True
    then have c: "contents (push x q) = contents q @ [store x]"
      using Cons.prems by (simp add: contents_push)
    show ?thesis
      using Cons.IH [OF inv_push [OF Cons.prems], of x] by (simp add: c)
  next
    case False
    with bound [OF Cons.prems] have full: "length (contents q) = cap" by simp
    then obtain c cs where c: "contents q = c # cs" using pos by (cases "contents q") auto
    have "contents (push x q) = cs @ [store x]" using Cons.prems full c by (simp add: contents_push)
    with Cons.IH [OF inv_push [OF Cons.prems], of x] have
      "contents (fold push (x # xs) q) = drop (Suc (length cs) + length xs - cap) ((cs @ [store x]) @ map store xs)"
      by simp
    moreover have "Suc (length cs) = cap" using full c by simp
    then have "drop (length (contents q) + length (x # xs) - cap) (contents q @ map store (x # xs))
        = drop (length xs) ((cs @ [store x]) @ map store xs)" using c by simp
    ultimately show ?thesis using \<open>Suc (length cs) = cap\<close> by simp
  qed
qed

lemma window_full:
  "inv q \<Longrightarrow> cap \<le> length xs \<Longrightarrow> contents (fold push xs q) = drop (length xs - cap) (map store xs)"
  by (simp add: contents_pushes)

end

end
