(* ===== verification/CText.thy ===== *)
theory CText
  imports Prelude
begin

text \<open>
  The parts of the C library's text scanning that the parsers of the firmware use:
  \<open>isspace\<close>, decimal conversion by \<open>sscanf("%d ...")\<close>, and the token read by
  \<open>sscanf("%s")\<close>.  An \<open>int\<close> has 32 bits.  What a conversion yields whose value does not fit is
  left open by C; the C library of the platform, whose \<open>%d\<close> goes through \<open>strtol\<close>
  with a \<open>long\<close> of 32 bits, yields the nearest limit (\<open>to_int\<close>).  \<open>decimal\<close> prints an integer, and
  \<open>scan_ints_print\<close> is the round trip of printing a line of 32-bit integers and scanning it.
\<close>

section \<open>Characters\<close>

definition is_space :: "char \<Rightarrow> bool" where
  "is_space c \<longleftrightarrow> c = CHR '' '' \<or> (9 \<le> (of_char c :: nat) \<and> (of_char c :: nat) \<le> 13)"

definition is_digit :: "char \<Rightarrow> bool" where
  "is_digit c \<longleftrightarrow> 48 \<le> (of_char c :: nat) \<and> (of_char c :: nat) \<le> 57"

definition digit_value :: "char \<Rightarrow> int" where
  "digit_value c = int (of_char c) - 48"

definition digit_char :: "nat \<Rightarrow> char" where
  "digit_char d = char_of (48 + d)"

lemma of_char_digit_char: "d < 10 \<Longrightarrow> (of_char (digit_char d) :: nat) = 48 + d"
  by (simp add: digit_char_def)

lemma digit_char_simps [simp]:
  assumes "d < 10"
  shows "is_digit (digit_char d)" "digit_value (digit_char d) = int d" "\<not> is_space (digit_char d)"
    "digit_char d \<noteq> CHR ''-''" "digit_char d \<noteq> CHR ''+''"
proof -
  note o = of_char_digit_char [OF assms]
  show "is_digit (digit_char d)" using o assms by (simp add: is_digit_def)
  show "digit_value (digit_char d) = int d" using o by (simp add: digit_value_def)
  have "(of_char (digit_char d) :: nat) \<noteq> of_char (CHR '' '')" using o by simp
  then show "\<not> is_space (digit_char d)" using o by (auto simp: is_space_def)
  have "(of_char (digit_char d) :: nat) \<noteq> of_char (CHR ''-'')" using o by simp
  then show "digit_char d \<noteq> CHR ''-''" by auto
  have "(of_char (digit_char d) :: nat) \<noteq> of_char (CHR ''+'')" using o by simp
  then show "digit_char d \<noteq> CHR ''+''" by auto
qed

section \<open>Scanning\<close>

definition digits_value :: "char list \<Rightarrow> int" where
  "digits_value ds = foldl (\<lambda>a c. a * 10 + digit_value c) 0 ds"

definition scan_digits :: "char list \<Rightarrow> (int \<times> char list) option" where
  "scan_digits s =
     (case takeWhile is_digit s of [] \<Rightarrow> None
      | ds \<Rightarrow> Some (digits_value ds, dropWhile is_digit s))"

fun scan_signed :: "char list \<Rightarrow> (int \<times> char list) option" where
  "scan_signed [] = None"
| "scan_signed (c # cs) =
     (if c = CHR ''-'' then map_option (\<lambda>(v, r). (- v, r)) (scan_digits cs)
      else if c = CHR ''+'' then scan_digits cs
      else scan_digits (c # cs))"

definition scan_int :: "char list \<Rightarrow> (int \<times> char list) option" where
  "scan_int s = scan_signed (dropWhile is_space s)"

definition to_int :: "int \<Rightarrow> int" where
  "to_int v = max (- (2 ^ 31)) (min (2 ^ 31 - 1) v)"

abbreviation is_int :: "int \<Rightarrow> bool" where
  "is_int v \<equiv> - (2 ^ 31) \<le> v \<and> v < 2 ^ 31"

lemma to_int_fits: "is_int v \<Longrightarrow> to_int v = v"
  by (simp add: to_int_def)

lemma to_int_range: "is_int (to_int v)"
  by (simp add: to_int_def)

fun scan_ints :: "nat \<Rightarrow> char list \<Rightarrow> int list" where
  "scan_ints 0 s = []"
| "scan_ints (Suc n) s =
     (case scan_int s of None \<Rightarrow> [] | Some (v, r) \<Rightarrow> to_int v # scan_ints n r)"

definition scan_token :: "char list \<Rightarrow> char list" where
  "scan_token s = takeWhile (\<lambda>c. \<not> is_space c) (dropWhile is_space s)"

lemma length_scan_token_le: "length (scan_token s) \<le> length s"
  unfolding scan_token_def by (meson length_takeWhile_le length_dropWhile_le order_trans)

section \<open>Printing\<close>

fun decimal_nat :: "nat \<Rightarrow> char list" where
  "decimal_nat n = (if n < 10 then [digit_char n] else decimal_nat (n div 10) @ [digit_char (n mod 10)])"

declare decimal_nat.simps [simp del]

definition decimal :: "int \<Rightarrow> char list" where
  "decimal v = (if v < 0 then CHR ''-'' # decimal_nat (nat (- v)) else decimal_nat (nat v))"

fun print_ints :: "int list \<Rightarrow> char list" where
  "print_ints [] = []"
| "print_ints [v] = decimal v"
| "print_ints (v # vs) = decimal v @ CHR '' '' # print_ints vs"

lemma decimal_nat_digits: "c \<in> set (decimal_nat n) \<Longrightarrow> \<exists>d < 10. c = digit_char d"
proof (induction n rule: decimal_nat.induct)
  case (1 n)
  show ?case
  proof (cases "n < 10")
    case True
    with "1.prems" have "c = digit_char n" by (simp add: decimal_nat.simps)
    with True show ?thesis by blast
  next
    case False
    with "1.prems" have "c \<in> set (decimal_nat (n div 10)) \<or> c = digit_char (n mod 10)"
      by (auto simp: decimal_nat.simps [of n])
    moreover have "n mod 10 < 10" by simp
    ultimately show ?thesis using "1.IH" [OF False] by blast
  qed
qed

lemma decimal_nat_is_digit: "c \<in> set (decimal_nat n) \<Longrightarrow> is_digit c"
  using decimal_nat_digits by fastforce

lemma decimal_nat_Nil [simp]: "decimal_nat n \<noteq> []"
  by (simp add: decimal_nat.simps [of n])

lemma digits_value_decimal_nat: "digits_value (decimal_nat n) = int n"
proof (induction n rule: decimal_nat.induct)
  case (1 n)
  show ?case
  proof (cases "n < 10")
    case True
    then show ?thesis by (simp add: decimal_nat.simps [of n] digits_value_def)
  next
    case False
    have "digits_value (decimal_nat n) = digits_value (decimal_nat (n div 10)) * 10 + int (n mod 10)"
      using False by (simp add: decimal_nat.simps [of n] digits_value_def)
    also have "\<dots> = int (n div 10) * 10 + int (n mod 10)" using "1.IH" [OF False] by simp
    also have "\<dots> = int (n div 10 * 10 + n mod 10)" by (simp only: of_nat_add of_nat_mult of_nat_numeral)
    also have "\<dots> = int n" by (simp only: div_mult_mod_eq)
    finally show ?thesis .
  qed
qed

definition ends_number :: "char list \<Rightarrow> bool" where
  "ends_number r \<longleftrightarrow> (case r of [] \<Rightarrow> True | c # _ \<Rightarrow> \<not> is_digit c)"

lemma scan_digits_decimal_nat:
  assumes "ends_number r"
  shows "scan_digits (decimal_nat n @ r) = Some (int n, r)"
proof -
  have "takeWhile is_digit r = []" "dropWhile is_digit r = r"
    using assms by (auto simp: ends_number_def split: list.splits)
  moreover have "takeWhile is_digit (decimal_nat n @ r) = decimal_nat n @ takeWhile is_digit r"
    "dropWhile is_digit (decimal_nat n @ r) = dropWhile is_digit r"
    using decimal_nat_is_digit by (auto intro: takeWhile_append2 dropWhile_append2)
  ultimately show ?thesis
    by (cases "decimal_nat n") (auto simp: scan_digits_def digits_value_decimal_nat [symmetric])
qed

lemma decimal_nat_Cons:
  obtains d cs where "d < 10" "decimal_nat n = digit_char d # cs"
proof (cases "decimal_nat n")
  case (Cons c cs)
  then have "c \<in> set (decimal_nat n)" by simp
  then obtain d where "d < 10" "c = digit_char d" using decimal_nat_digits by blast
  with Cons that show thesis by blast
qed simp

lemma scan_int_decimal:
  assumes "ends_number r"
  shows "scan_int (decimal v @ r) = Some (v, r)"
proof (cases "v < 0")
  case True
  have "\<not> is_space (CHR ''-'')" by (simp add: is_space_def)
  with True assms show ?thesis
    by (simp add: scan_int_def decimal_def scan_digits_decimal_nat)
next
  case False
  obtain d cs where d: "d < 10" "decimal_nat (nat v) = digit_char d # cs"
    by (rule decimal_nat_Cons)
  with False assms have "scan_digits (digit_char d # cs @ r) = Some (v, r)"
    using scan_digits_decimal_nat [of r "nat v"] by simp
  with False d show ?thesis by (simp add: scan_int_def decimal_def)
qed

lemma scan_int_space: "scan_int (CHR '' '' # s) = scan_int s"
  by (simp add: scan_int_def is_space_def)

text \<open>Scanning a printed line of integers gives them back.\<close>

lemma scan_ints_print: "list_all is_int vs \<Longrightarrow> scan_ints (length vs) (print_ints vs) = vs"
proof (induction vs rule: print_ints.induct)
  case (2 v)
  have "scan_int (decimal v @ []) = Some (v, [])"
    by (rule scan_int_decimal) (simp add: ends_number_def)
  then show ?case using "2.prems" by (simp add: to_int_fits)
next
  case (3 v w vs)
  have "ends_number (CHR '' '' # print_ints (w # vs))" by (simp add: ends_number_def is_digit_def)
  then have "scan_int (decimal v @ CHR '' '' # print_ints (w # vs))
      = Some (v, CHR '' '' # print_ints (w # vs))" by (rule scan_int_decimal)
  moreover have "scan_ints (Suc n) (CHR '' '' # s) = scan_ints (Suc n) s" for n s
    by (simp add: scan_int_space)
  ultimately show ?case using "3.IH" "3.prems" by (simp add: to_int_fits)
qed simp

lemma length_decimal_nat: "n < 10 ^ k \<Longrightarrow> 0 < k \<Longrightarrow> length (decimal_nat n) \<le> k"
proof (induction n arbitrary: k rule: decimal_nat.induct)
  case (1 n)
  show ?case
  proof (cases "n < 10")
    case True
    with 1 show ?thesis by (simp add: decimal_nat.simps [of n])
  next
    case False
    obtain j where k: "k = Suc j" using "1.prems" by (cases k) simp_all
    with False "1.prems" have "0 < j" by (cases j) simp_all
    moreover have "n div 10 < 10 ^ j" using "1.prems" k by (simp add: less_mult_imp_div_less mult.commute)
    ultimately show ?thesis using "1.IH" [OF False, of j] False k by (simp add: decimal_nat.simps [of n])
  qed
qed

lemma length_decimal: "is_int v \<Longrightarrow> length (decimal v) \<le> 11"
proof -
  assume "is_int v"
  then have "\<bar>v\<bar> < 10 ^ 10" by (simp add: abs_if)
  then have "nat \<bar>v\<bar> < 10 ^ 10" by (simp add: nat_less_iff)
  then have "length (decimal_nat (nat \<bar>v\<bar>)) \<le> 10" by (rule length_decimal_nat) simp
  then show ?thesis by (cases "v < 0") (simp_all add: decimal_def)
qed

lemma length_print_ints: "list_all is_int vs \<Longrightarrow> length (print_ints vs) \<le> 12 * length vs"
proof (induction vs rule: print_ints.induct)
  case (2 v)
  then show ?case using length_decimal [of v] by simp
next
  case (3 v w vs)
  then show ?case using length_decimal [of v] by simp
qed simp

lemma decimal_not: "c \<in> set (decimal v) \<Longrightarrow> is_digit c \<or> c = CHR ''-''"
  using decimal_nat_is_digit by (auto simp: decimal_def split: if_splits)

lemma print_ints_no_newline: "CHR 0x0A \<notin> set (print_ints vs) \<and> CHR 0x00 \<notin> set (print_ints vs)"
proof (induction vs rule: print_ints.induct)
  case (2 v)
  then show ?case using decimal_not [of _ v] by (auto simp: is_digit_def dest!: decimal_not)
next
  case (3 v w vs)
  then show ?case using decimal_not [of _ v] by (auto simp: is_digit_def dest!: decimal_not)
qed simp

end
