(* ===== verification/Sensor.thy ===== *)
theory Sensor
  imports Ring_Buffers Messages CText
begin

text \<open>
  The sensor board interface, \<open>src/main/sensor.c\<close>: the photo sensor word, the ring of the last
  ten time-of-flight distances with its approach detector, and the line parser that feeds them;
  and \<open>pt_check\<close> of \<open>src/main/motor.c\<close>, which reads the limit sensors.  The weights of a
  sensor line go to \<open>loadcell_proc\<close>, a parameter of the parser here; the root theory supplies
  the load cell of this development.

  Writes outside an array, which the parser can make on overlong lines, are the value \<open>None\<close>.
\<close>

section \<open>State\<close>

abbreviation (input) PT_BIT_SCP_SPIN_ST :: u32 where "PT_BIT_SCP_SPIN_ST \<equiv> 0x0001"
abbreviation (input) PT_BIT_SCP_OUT :: u32 where "PT_BIT_SCP_OUT \<equiv> 0x0002"
abbreviation (input) PT_BIT_WASTE_CLOSE :: u32 where "PT_BIT_WASTE_CLOSE \<equiv> 0x0004"
abbreviation (input) PT_BIT_MCOVER_OPEN :: u32 where "PT_BIT_MCOVER_OPEN \<equiv> 0x0008"
abbreviation (input) PT_BIT_SCP_SPIN_ED :: u32 where "PT_BIT_SCP_SPIN_ED \<equiv> 0x0010"
abbreviation (input) PT_BIT_SCP_IN :: u32 where "PT_BIT_SCP_IN \<equiv> 0x0020"
abbreviation (input) PT_BIT_WASTE_OPEN :: u32 where "PT_BIT_WASTE_OPEN \<equiv> 0x0040"
abbreviation (input) PT_BIT_REED_SW :: u32 where "PT_BIT_REED_SW \<equiv> 0x0080"
abbreviation (input) PT_BIT_MCOVER_CLOSE :: u32 where "PT_BIT_MCOVER_CLOSE \<equiv> 0x0100"

datatype ApproachState = STATE_NO_APPROACH | STATE_APPROACH

abbreviation (input) TOF_MIN_VALID :: int where "TOF_MIN_VALID \<equiv> 0"
abbreviation (input) TOF_MAX_VALID :: int where "TOF_MAX_VALID \<equiv> 2000"
abbreviation (input) TOF_DEBOUNCE_TIME :: int where "TOF_DEBOUNCE_TIME \<equiv> 30"
abbreviation (input) TOF_RING_BUF_SIZE :: nat where "TOF_RING_BUF_SIZE \<equiv> 10"
abbreviation (input) UART_BUF_SIZE :: nat where "UART_BUF_SIZE \<equiv> 512"

record sensor_state =
  g_tof_ring_buf :: "int list"
  g_tof_ring_idx :: nat
  g_tof_ring_count :: nat
  current_state :: ApproachState
  prev_state :: ApproachState
  chatter_counter_ms :: int
  tof_enable_f :: bool
  last_tof_value :: int
  sensor_enable_f :: bool
  pt_value :: u32
  prev_pt_value :: u32

definition sensor_reset_state :: sensor_state where
  "sensor_reset_state = \<lparr>g_tof_ring_buf = replicate 10 (-1), g_tof_ring_idx = 0,
     g_tof_ring_count = 0, current_state = STATE_NO_APPROACH, prev_state = STATE_NO_APPROACH,
     chatter_counter_ms = 0, tof_enable_f = False, last_tof_value = -1, sensor_enable_f = True,
     pt_value = 0, prev_pt_value = -1\<rparr>"

section \<open>Operations\<close>

definition set_pt_status :: "u32 \<Rightarrow> sensor_state \<Rightarrow> sensor_state" where
  "set_pt_status v s = s\<lparr>pt_value := v\<rparr>"

definition get_pt_status :: "sensor_state \<Rightarrow> u32" where
  "get_pt_status s = pt_value s"

definition set_sensor_enable :: "bool \<Rightarrow> sensor_state \<Rightarrow> sensor_state" where
  "set_sensor_enable e s = s\<lparr>sensor_enable_f := e\<rparr>"

definition set_tof_sensor_enable :: "bool \<Rightarrow> sensor_state \<Rightarrow> sensor_state" where
  "set_tof_sensor_enable e s =
     (let s = s\<lparr>tof_enable_f := e\<rparr>
      in if tof_enable_f s
         then s\<lparr>current_state := STATE_NO_APPROACH, prev_state := STATE_NO_APPROACH,
                chatter_counter_ms := 0\<rparr>
         else s)"

definition reset_tof_ring_buffer :: "sensor_state \<Rightarrow> sensor_state" where
  "reset_tof_ring_buffer s =
     s\<lparr>g_tof_ring_buf := map (\<lambda>_. -1) (g_tof_ring_buf s), g_tof_ring_idx := 0,
       g_tof_ring_count := 0, last_tof_value := -1\<rparr>"

definition get_tof_ring_count :: "sensor_state \<Rightarrow> nat" where
  "get_tof_ring_count s = g_tof_ring_count s"

text \<open>The scan of the ring for its least sample within the valid range.\<close>

definition tof_min_step :: "int \<Rightarrow> int \<Rightarrow> int" where
  "tof_min_step v min_val = (if v \<ge> 0 \<and> v \<le> 2000 then (if v < min_val then v else min_val) else min_val)"

definition get_tof_distance :: "sensor_state \<Rightarrow> int" where
  "get_tof_distance s =
     (let current_count = g_tof_ring_count s;
          min_val = (if current_count > 0 then fold tof_min_step (g_tof_ring_buf s) 9999 else 9999)
      in if current_count > 0 \<and> min_val \<noteq> 9999 then min_val else -1)"

definition tof_processed :: "int \<Rightarrow> int" where
  "tof_processed v = (if v = 8191 then 2000 else v)"

text \<open>The part of \<open>tof_proc\<close> that records the sample in the ring.\<close>

definition tof_push :: "int \<Rightarrow> sensor_state \<Rightarrow> sensor_state" where
  "tof_push v s =
     (let idx = g_tof_ring_idx s
      in s\<lparr>last_tof_value := v, g_tof_ring_buf := (g_tof_ring_buf s)[idx := v],
           g_tof_ring_idx := (idx + 1) mod TOF_RING_BUF_SIZE,
           g_tof_ring_count := (if g_tof_ring_count s < TOF_RING_BUF_SIZE
                                then g_tof_ring_count s + 1 else g_tof_ring_count s)\<rparr>)"

text \<open>The part of \<open>tof_proc\<close> that debounces the approach state.\<close>

definition tof_debounce :: "int \<Rightarrow> sensor_state \<Rightarrow> sensor_state" where
  "tof_debounce v s =
     (if v \<ge> TOF_MIN_VALID \<and> v \<le> TOF_MAX_VALID then
        (let s = s\<lparr>current_state := STATE_APPROACH, chatter_counter_ms := 0\<rparr>
         in if prev_state s = STATE_NO_APPROACH then s\<lparr>prev_state := STATE_APPROACH\<rparr> else s)
      else if current_state s = STATE_APPROACH then
        (let s = s\<lparr>chatter_counter_ms := chatter_counter_ms s + 1\<rparr>
         in if chatter_counter_ms s \<ge> TOF_DEBOUNCE_TIME
            then s\<lparr>current_state := STATE_NO_APPROACH, prev_state := STATE_NO_APPROACH,
                   chatter_counter_ms := 0\<rparr>
            else s)
      else s)"

definition tof_proc :: "int \<Rightarrow> sensor_state \<Rightarrow> int \<times> sensor_state" where
  "tof_proc tof_value s =
     (let v = tof_processed tof_value
      in if \<not> sensor_enable_f s then (-1, s)
         else let s = tof_push v s
              in if \<not> tof_enable_f s then (-2, s) else (0, tof_debounce v s))"

section \<open>The line parser\<close>

text \<open>
  \<open>get_line\<close> copies the characters before the first newline among the first \<open>limit\<close> and
  returns how many it consumed, or fails.
\<close>

fun get_line :: "char list \<Rightarrow> (char list \<times> char list) option" where
  "get_line [] = None"
| "get_line (c # cs) =
     (if c = CHR 0x0A then Some ([], cs)
      else case get_line cs of None \<Rightarrow> None | Some (l, r) \<Rightarrow> Some (c # l, r))"

text \<open>What the parser writes: the sensor state, the load cell (a parameter), the LED queue.\<close>

record 'l board =
  sens :: sensor_state
  cells :: 'l
  board_out :: "out list"

abbreviation scp_spin_mask :: u32 where
  "scp_spin_mask \<equiv> PT_BIT_SCP_SPIN_ST OR PT_BIT_SCP_SPIN_ED"

definition parse_ss :: "(int list \<Rightarrow> 'l \<Rightarrow> 'l) \<Rightarrow> char list \<Rightarrow> 'l board \<Rightarrow> 'l board" where
  "parse_ss lc_proc data b =
     (let values = take 10 (scan_ints 8 data @ replicate 10 0);
          b = b\<lparr>cells := lc_proc values (cells b)\<rparr>;
          b = b\<lparr>sens := snd (tof_proc (values ! 6) (sens b))\<rparr>;
          current_pt = ((word_of_int (values ! 7) :: u32) AND 0xFFFF) XOR scp_spin_mask;
          b = b\<lparr>sens := set_pt_status current_pt (sens b)\<rparr>
      in b\<lparr>sens := (sens b)\<lparr>prev_pt_value := current_pt\<rparr>\<rparr>)"

definition parse_line :: "(int list \<Rightarrow> 'l \<Rightarrow> 'l) \<Rightarrow> char list \<Rightarrow> 'l board \<Rightarrow> 'l board option" where
  "parse_line lc_proc str b =
     (if starts_with ''SS: '' str then
        Some (if length (drop 4 str) < UART_BUF_SIZE - 4 then parse_ss lc_proc (drop 4 str) b else b)
      else if starts_with ''ST: OK'' str then Some (b\<lparr>sens := set_sensor_enable True (sens b)\<rparr>)
      else if starts_with ''ST: FAIL'' str then Some b
      else if starts_with ''ER: '' str then
        Some (b\<lparr>board_out := board_out b @ [LedQ (zero_ms\<lparr>ms_cmd := LED_ERROR_CMD\<rparr>)]\<rparr>)
      else if starts_with ''ST: '' str then
        (if length (scan_token (drop 4 str)) < 32 then Some b else None)
      else Some b)"

lemma get_line_shorter: "get_line p = Some (l, r) \<Longrightarrow> length p = length l + 1 + length r"
  by (induction p arbitrary: l) (auto split: if_splits option.splits)

function parse_lines ::
    "(int list \<Rightarrow> 'l \<Rightarrow> 'l) \<Rightarrow> char list \<Rightarrow> nat \<Rightarrow> 'l board \<Rightarrow> (nat \<times> 'l board) option" where
  "parse_lines lc_proc p used b =
     (case get_line p of
        None \<Rightarrow> Some (used, b)
      | Some (str, rest) \<Rightarrow>
          if length str < UART_BUF_SIZE then
            (case parse_line lc_proc str b of
               None \<Rightarrow> None
             | Some b' \<Rightarrow> parse_lines lc_proc rest (used + (length str + 1)) b')
          else None)"
  by pat_completeness auto
termination
  by (relation "measure (\<lambda>(_, p, _, _). length p)") (auto dest: get_line_shorter)

declare parse_lines.simps [simp del]

definition sensor_data_parser ::
    "(int list \<Rightarrow> 'l \<Rightarrow> 'l) \<Rightarrow> char list \<Rightarrow> 'l board \<Rightarrow> (nat \<times> 'l board) option" where
  "sensor_data_parser lc_proc input b = parse_lines lc_proc (cstr input) 0 b"

section \<open>The limit sensors\<close>

text \<open>\<open>pt_check\<close> of \<open>motor.c\<close>: 1 open or out, -1 closed or in, 0 neither.\<close>

definition pt_check :: "int \<Rightarrow> int \<Rightarrow> sensor_state \<Rightarrow> int" where
  "pt_check sel mt s =
     (let status = get_pt_status s
      in if sel = STEP_MOTOR then
           (if mt = WASTE_COVER_MOTOR then
              (if bit_set status PT_BIT_WASTE_CLOSE then -1
               else if bit_set status PT_BIT_WASTE_OPEN then 1 else 0)
            else if mt = SCPSPIN_MOTOR then
              (if bit_set status PT_BIT_SCP_SPIN_ST \<and> bit_set status PT_BIT_SCP_SPIN_ED then 1 else 0)
            else 0)
         else if sel = DC_MOTOR then
           (if mt = MAIN_COVER_MOTOR then
              (if bit_set status PT_BIT_MCOVER_CLOSE then -1
               else if bit_set status PT_BIT_MCOVER_OPEN then 1 else 0)
            else if mt = SCPINOUT_MOTOR then
              (if bit_set status PT_BIT_SCP_IN then -1
               else if bit_set status PT_BIT_SCP_OUT then 1 else 0)
            else 0)
         else 0)"

section \<open>The distance ring is a sliding window\<close>

definition tof_inv :: "sensor_state \<Rightarrow> bool" where
  "tof_inv s \<longleftrightarrow> slot_ok TOF_RING_BUF_SIZE (g_tof_ring_buf s) (g_tof_ring_idx s) (g_tof_ring_count s)
     \<and> (g_tof_ring_count s < TOF_RING_BUF_SIZE \<longrightarrow>
          drop (g_tof_ring_count s) (g_tof_ring_buf s)
            = replicate (TOF_RING_BUF_SIZE - g_tof_ring_count s) (-1))"

text \<open>The samples of the ring, oldest first.\<close>

definition tof_window :: "sensor_state \<Rightarrow> int list" where
  "tof_window s = slot_window TOF_RING_BUF_SIZE (g_tof_ring_buf s) (g_tof_ring_idx s) (g_tof_ring_count s)"

lemma tof_inv_reset: "length (g_tof_ring_buf s) = 10 \<Longrightarrow> tof_inv (reset_tof_ring_buffer s)"
  by (simp add: tof_inv_def slot_ok_def reset_tof_ring_buffer_def map_replicate_const)

lemma tof_window_reset [simp]: "tof_window (reset_tof_ring_buffer s) = []"
  by (simp add: tof_window_def slot_window_def reset_tof_ring_buffer_def)

lemma tof_inv_frame:
  "g_tof_ring_buf t = g_tof_ring_buf s \<Longrightarrow> g_tof_ring_idx t = g_tof_ring_idx s \<Longrightarrow>
   g_tof_ring_count t = g_tof_ring_count s \<Longrightarrow> tof_inv t = tof_inv s \<and> tof_window t = tof_window s"
  by (simp add: tof_inv_def tof_window_def)

lemma tof_debounce_frame [simp]:
  "tof_inv (tof_debounce v s) = tof_inv s" "tof_window (tof_debounce v s) = tof_window s"
  "sensor_enable_f (tof_debounce v s) = sensor_enable_f s"
  using tof_inv_frame [of "tof_debounce v s" s] by (simp_all add: tof_debounce_def Let_def)

lemma tof_push_window:
  assumes "tof_inv s"
  shows "tof_window (tof_push v s)
    = (if length (tof_window s) < TOF_RING_BUF_SIZE then tof_window s else tl (tof_window s)) @ [v]"
proof -
  have ok: "slot_ok TOF_RING_BUF_SIZE (g_tof_ring_buf s) (g_tof_ring_idx s) (g_tof_ring_count s)"
    using assms by (simp add: tof_inv_def)
  from slot_put_window [OF ok, of v] length_slot_window [OF ok] show ?thesis
    by (simp add: tof_window_def tof_push_def Let_def)
qed

lemma tof_push_inv:
  assumes "tof_inv s"
  shows "tof_inv (tof_push v s)"
proof -
  let ?c = "g_tof_ring_count s" and ?b = "g_tof_ring_buf s"
  have ok: "slot_ok TOF_RING_BUF_SIZE ?b (g_tof_ring_idx s) ?c" using assms by (simp add: tof_inv_def)
  have "drop (Suc ?c) (?b[?c := v]) = replicate (10 - Suc ?c) (-1)" if "?c < 10"
  proof -
    have "drop (Suc ?c) (?b[?c := v]) = drop 1 (drop ?c ?b)" by simp
    also have "\<dots> = replicate (10 - Suc ?c) (-1)" using assms that by (simp add: tof_inv_def)
    finally show ?thesis .
  qed
  then show ?thesis using slot_put_ok [OF ok, of v] ok
    by (auto simp: tof_inv_def tof_push_def Let_def slot_ok_def)
qed

abbreviation tof_sample :: "int \<Rightarrow> sensor_state \<Rightarrow> sensor_state" where
  "tof_sample v s \<equiv> snd (tof_proc v s)"

lemma tof_sample_window:
  assumes "tof_inv s" "sensor_enable_f s"
  shows "tof_inv (tof_sample v s) \<and> sensor_enable_f (tof_sample v s) \<and>
    tof_window (tof_sample v s)
      = (if length (tof_window s) < TOF_RING_BUF_SIZE then tof_window s else tl (tof_window s))
        @ [tof_processed v]"
  using assms tof_push_inv [of s "tof_processed v"] tof_push_window [of s "tof_processed v"]
  by (auto simp: tof_proc_def Let_def tof_push_def)

interpretation tof: sliding_window tof_window tof_processed tof_sample
    "\<lambda>s. tof_inv s \<and> sensor_enable_f s" TOF_RING_BUF_SIZE
proof (unfold_locales, goal_cases)
  case (2 q)
  then show ?case by (auto simp: tof_inv_def tof_window_def length_slot_window slot_ok_def)
qed (simp_all add: tof_sample_window)

text \<open>The unwritten entries of the ring are -1 and never count.\<close>

lemma fold_tof_min_replicate [simp]: "fold tof_min_step (replicate n (-1)) m = m"
  by (induction n arbitrary: m) (auto simp: tof_min_step_def)

lemma tof_min_fold:
  "fold tof_min_step xs m = Min (insert m {v \<in> set xs. 0 \<le> v \<and> v \<le> 2000})" if "2000 < m \<or> m \<in> {0..2000}"
  using that
proof (induction xs arbitrary: m)
  case (Cons x xs)
  have fin: "finite {v \<in> set xs. 0 \<le> v \<and> v \<le> 2000}" by simp
  show ?case
  proof (cases "0 \<le> x \<and> x \<le> 2000")
    case True
    have "tof_min_step x m = min x m" using True by (simp add: tof_min_step_def min_def)
    moreover have "2000 < min x m \<or> min x m \<in> {0..2000}" using True Cons.prems by (auto simp: min_def)
    moreover have "{v \<in> set (x # xs). 0 \<le> v \<and> v \<le> 2000} = insert x {v \<in> set xs. 0 \<le> v \<and> v \<le> 2000}"
      using True by auto
    ultimately show ?thesis
      using Cons.IH [of "min x m"] fin
      by (cases "{v \<in> set xs. 0 \<le> v \<and> v \<le> 2000} = {}") (simp_all add: min.assoc min.left_commute)
  next
    case False
    then have "tof_min_step x m = m" "{v \<in> set (x # xs). 0 \<le> v \<and> v \<le> 2000} = {v \<in> set xs. 0 \<le> v \<and> v \<le> 2000}"
      by (auto simp: tof_min_step_def)
    then show ?thesis using Cons by simp
  qed
qed simp

lemma mod_surj: "k < n \<Longrightarrow> t < n \<Longrightarrow> \<exists>i < n. (t + i) mod n = (k :: nat)"
proof (cases "t \<le> k")
  case True
  assume "k < n" "t < n"
  with True have "(t + (k - t)) mod n = k" "k - t < n" by auto
  then show ?thesis by blast
next
  case False
  assume "k < n" "t < n"
  with False have "(t + (n - t + k)) mod n = k" "n - t + k < n" by auto
  then show ?thesis by blast
qed

lemma set_ring_seg_full:
  assumes "length buf = n" "t < n"
  shows "set (ring_seg buf t n) = set buf"
proof
  show "set (ring_seg buf t n) \<subseteq> set buf" using assms
    by (auto simp: ring_seg_def intro!: nth_mem mod_less_divisor)
  show "set buf \<subseteq> set (ring_seg buf t n)"
  proof
    fix x assume "x \<in> set buf"
    then obtain k where k: "k < n" "x = buf ! k" using assms by (auto simp: in_set_conv_nth)
    then obtain i where "i < n" "(t + i) mod n = k" using mod_surj assms by blast
    then show "x \<in> set (ring_seg buf t n)" using assms k by (auto simp: ring_seg_def intro!: image_eqI [of _ _ i])
  qed
qed

text \<open>The distance reported is the least valid one in the window, or -1.\<close>

definition valid_distances :: "int list \<Rightarrow> int set" where
  "valid_distances w = {v \<in> set w. 0 \<le> v \<and> v \<le> 2000}"

lemma get_tof_distance_window:
  assumes "tof_inv s"
  shows "get_tof_distance s =
    (if valid_distances (tof_window s) = {} then -1 else Min (valid_distances (tof_window s)))"
proof -
  let ?b = "g_tof_ring_buf s" and ?c = "g_tof_ring_count s"
  have valid: "{v \<in> set ?b. 0 \<le> v \<and> v \<le> 2000} = valid_distances (tof_window s)"
  proof (cases "?c < 10")
    case True
    have "set ?b = set (take ?c ?b) \<union> set (drop ?c ?b)"
      by (metis append_take_drop_id set_append)
    with True assms show ?thesis by (auto simp: tof_inv_def tof_window_def slot_ok_def slot_window_def valid_distances_def)
  next
    case False
    with assms show ?thesis by (simp add: tof_inv_def tof_window_def slot_ok_def slot_window_def valid_distances_def set_ring_seg_full)
  qed
  have fin: "finite (valid_distances (tof_window s))" by (simp add: valid_distances_def)
  have fold: "fold tof_min_step ?b 9999 = Min (insert 9999 (valid_distances (tof_window s)))"
    using tof_min_fold [of 9999 ?b] by (simp add: valid)
  show ?thesis
  proof (cases "valid_distances (tof_window s) = {}")
    case True
    then show ?thesis by (simp add: get_tof_distance_def Let_def fold)
  next
    case False
    have "Min (valid_distances (tof_window s)) \<in> valid_distances (tof_window s)"
      using False fin by simp
    then have le: "Min (valid_distances (tof_window s)) \<le> 2000" by (simp add: valid_distances_def)
    then have "fold tof_min_step ?b 9999 = Min (valid_distances (tof_window s))"
      using False fin by (simp only: fold Min_insert) simp
    moreover have "0 < ?c" using False by (cases ?c) (auto simp: tof_window_def slot_window_def valid_distances_def)
    ultimately show ?thesis using False le by (simp add: get_tof_distance_def Let_def)
  qed
qed

end
