(* ===== verification/Dc_Motor.thy ===== *)
theory Dc_Motor
  imports Controllers Sensor
begin

text \<open>
  The three DC motors, \<open>src/main/dc_motor_control.c\<close>: plate, scoop in/out and main cover.  Each
  is a PWM comparator and a direction pin with a run and a direction flag; each task turn takes
  at most one message and, for the scoop and the cover, checks the limit sensors.
\<close>

record dc_motor =
  compare_value :: u32
  sel_level :: u32
  mt_run :: bool
  mt_dir :: bool

record dc_state =
  plate :: dc_motor
  scp_inout :: dc_motor
  main_cover :: dc_motor

definition dc_off :: dc_motor where
  "dc_off = \<lparr>compare_value = 0, sel_level = 0, mt_run = False, mt_dir = False\<rparr>"

definition dc_init :: dc_state where
  "dc_init = \<lparr>plate = dc_off, scp_inout = dc_off, main_cover = dc_off\<rparr>"

section \<open>Driving\<close>

abbreviation (input) MT_FORWARD_DIR :: u32 where "MT_FORWARD_DIR \<equiv> 0"
abbreviation (input) MT_REVERSE_DIR :: u32 where "MT_REVERSE_DIR \<equiv> 1"

definition compare_of :: "int \<Rightarrow> u32" where
  "compare_of speed_pct = word_of_int ((abs speed_pct * 400) sdiv 100)"

definition scp_inout_motor_move :: "int \<Rightarrow> dc_motor \<Rightarrow> dc_motor" where
  "scp_inout_motor_move speed_pct m =
     (if speed_pct > 0 then m\<lparr>compare_value := compare_of speed_pct, sel_level := MT_FORWARD_DIR\<rparr>
      else if speed_pct < 0 then m\<lparr>compare_value := compare_of speed_pct, sel_level := MT_REVERSE_DIR\<rparr>
      else m\<lparr>compare_value := 0\<rparr>)"

definition plate_motor_move :: "int \<Rightarrow> dc_motor \<Rightarrow> dc_motor" where
  "plate_motor_move speed_pct m =
     (if speed_pct > 0 then m\<lparr>compare_value := compare_of speed_pct, sel_level := MT_FORWARD_DIR\<rparr>
      else if speed_pct < 0 then m\<lparr>compare_value := compare_of speed_pct, sel_level := MT_REVERSE_DIR\<rparr>
      else m\<lparr>compare_value := 0\<rparr>)"

definition main_motor_move :: "int \<Rightarrow> dc_motor \<Rightarrow> dc_motor" where
  "main_motor_move speed_pct m =
     (if speed_pct > 0 then m\<lparr>compare_value := compare_of speed_pct, sel_level := MT_FORWARD_DIR\<rparr>
      else if speed_pct < 0 then m\<lparr>compare_value := compare_of speed_pct, sel_level := MT_REVERSE_DIR\<rparr>
      else m\<lparr>compare_value := 0\<rparr>)"

section \<open>Status\<close>

definition get_dcmotor_run :: "int \<Rightarrow> dc_state \<Rightarrow> bool" where
  "get_dcmotor_run mt s =
     (if mt = PLATE_MOTOR then mt_run (plate s)
      else if mt = SCPINOUT_MOTOR then mt_run (scp_inout s)
      else if mt = MAIN_COVER_MOTOR then mt_run (main_cover s)
      else False)"

definition get_dcmotor_dir :: "int \<Rightarrow> dc_state \<Rightarrow> bool" where
  "get_dcmotor_dir mt s =
     (if mt = PLATE_MOTOR then mt_dir (plate s)
      else if mt = SCPINOUT_MOTOR then mt_dir (scp_inout s)
      else if mt = MAIN_COVER_MOTOR then mt_dir (main_cover s)
      else False)"

section \<open>One turn of each task\<close>

definition plate_cmd :: "mt_message \<Rightarrow> dc_motor \<Rightarrow> dc_motor" where
  "plate_cmd msg m =
     (if mt_cmd msg = PLATE_CMD then
        (if mt_direction msg = FORWARD then (plate_motor_move (-99) m)\<lparr>mt_dir := True, mt_run := True\<rparr>
         else if mt_direction msg = REVERSE then (plate_motor_move 99 m)\<lparr>mt_dir := False, mt_run := True\<rparr>
         else if mt_direction msg = STOP then (plate_motor_move 0 m)\<lparr>mt_run := False\<rparr>
         else m)
      else m)"

definition plate_cmd_task :: "sensor_state \<Rightarrow> mt_message option \<Rightarrow> dc_motor \<Rightarrow> dc_motor" where
  "plate_cmd_task sns rx m = (case rx of None \<Rightarrow> m | Some msg \<Rightarrow> plate_cmd msg m)"

definition scpinout_cmd :: "mt_message \<Rightarrow> dc_motor \<Rightarrow> dc_motor" where
  "scpinout_cmd msg m =
     (if mt_cmd msg = SCP_INOUT_CMD then
        (if mt_direction msg = FORWARD then (scp_inout_motor_move (-99) m)\<lparr>mt_dir := True, mt_run := True\<rparr>
         else if mt_direction msg = REVERSE then (scp_inout_motor_move 99 m)\<lparr>mt_dir := False, mt_run := True\<rparr>
         else if mt_direction msg = STOP then (scp_inout_motor_move 0 m)\<lparr>mt_run := False\<rparr>
         else m)
      else m)"

definition scpinout_autostop :: "sensor_state \<Rightarrow> dc_motor \<Rightarrow> dc_motor" where
  "scpinout_autostop sns m =
     (if mt_run m then
        (let pt_status = pt_check DC_MOTOR SCPINOUT_MOTOR sns
         in if mt_dir m \<and> pt_status = 1 then (scp_inout_motor_move 0 m)\<lparr>mt_run := False\<rparr>
            else if \<not> mt_dir m \<and> pt_status = -1 then (scp_inout_motor_move 0 m)\<lparr>mt_run := False\<rparr>
            else m)
      else m)"

definition scpinout_cmd_task :: "sensor_state \<Rightarrow> mt_message option \<Rightarrow> dc_motor \<Rightarrow> dc_motor" where
  "scpinout_cmd_task sns rx m =
     scpinout_autostop sns (case rx of None \<Rightarrow> m | Some msg \<Rightarrow> scpinout_cmd msg m)"

definition main_cmd :: "mt_message \<Rightarrow> dc_motor \<Rightarrow> dc_motor" where
  "main_cmd msg m =
     (if mt_cmd msg = MAIN_COVER_CMD then
        (if mt_direction msg = FORWARD then (main_motor_move (-60) m)\<lparr>mt_dir := True, mt_run := True\<rparr>
         else if mt_direction msg = REVERSE then (main_motor_move 60 m)\<lparr>mt_dir := False, mt_run := True\<rparr>
         else if mt_direction msg = STOP then (main_motor_move 0 m)\<lparr>mt_run := False\<rparr>
         else m)
      else m)"

definition main_autostop :: "sensor_state \<Rightarrow> dc_motor \<Rightarrow> dc_motor" where
  "main_autostop sns m =
     (if mt_run m then
        (let pt_status = pt_check DC_MOTOR MAIN_COVER_MOTOR sns
         in if mt_dir m \<and> pt_status = 1 then (main_motor_move 0 m)\<lparr>mt_run := False\<rparr>
            else if \<not> mt_dir m \<and> pt_status = -1 then (main_motor_move 0 m)\<lparr>mt_run := False\<rparr>
            else m)
      else m)"

definition main_cmd_task :: "sensor_state \<Rightarrow> mt_message option \<Rightarrow> dc_motor \<Rightarrow> dc_motor" where
  "main_cmd_task sns rx m =
     main_autostop sns (case rx of None \<Rightarrow> m | Some msg \<Rightarrow> main_cmd msg m)"

section \<open>The controllers keep their contract\<close>

text \<open>
  The flag and the hardware agree: the PWM duty is non-zero exactly while the run flag is set,
  and the direction pin then shows the opposite of the direction flag (driving "forward" is
  \<open>-99\<close> percent).
\<close>

definition dc_ok :: "dc_motor \<Rightarrow> bool" where
  "dc_ok m \<longleftrightarrow> (mt_run m \<longleftrightarrow> compare_value m \<noteq> 0)
     \<and> (mt_run m \<longrightarrow> sel_level m = (if mt_dir m then MT_REVERSE_DIR else MT_FORWARD_DIR))"

lemma dc_off_ok [simp]: "dc_ok dc_off"
  by (simp add: dc_ok_def dc_off_def)

lemma compare_of_values [simp]:
  "compare_of 99 = 396" "compare_of (-99) = 396" "compare_of 60 = 240" "compare_of (-60) = 240"
  by (simp_all add: compare_of_def signed_divide_int_def)

lemmas dc_simps = plate_cmd_def scpinout_cmd_def main_cmd_def scpinout_autostop_def
  main_autostop_def plate_cmd_task_def scpinout_cmd_task_def main_cmd_task_def
  plate_motor_move_def scp_inout_motor_move_def main_motor_move_def

interpretation plate_ctl: motor_controller plate_cmd_task mt_run "\<lambda>m. compare_value m \<noteq> 0" dc_ok
    "stop_for PLATE_CMD"
  by unfold_locales (auto simp: dc_ok_def dc_simps stop_for_def split: option.splits)

lemma scpinout_cmd_ok: "dc_ok m \<Longrightarrow> dc_ok (scpinout_cmd c m)"
  by (auto simp: dc_ok_def dc_simps)

lemma scpinout_autostop_ok: "dc_ok m \<Longrightarrow> dc_ok (scpinout_autostop sns m)"
  by (auto simp: dc_ok_def dc_simps Let_def)

interpretation scpinout_ctl: limit_controller scpinout_cmd_task mt_run
    "\<lambda>m. compare_value m \<noteq> 0" dc_ok "stop_for SCP_INOUT_CMD" mt_dir
    "pt_check DC_MOTOR SCPINOUT_MOTOR"
proof (unfold_locales, goal_cases)
  case (1 m p c)
  then show ?case
    by (auto simp: scpinout_cmd_task_def scpinout_cmd_ok scpinout_autostop_ok split: option.splits)
next
  case (5 m p c)
  then show ?case by (auto simp: scpinout_cmd_task_def scpinout_autostop_def Let_def split: if_splits)
qed (auto simp: dc_simps dc_ok_def stop_for_def)

lemma main_cmd_ok: "dc_ok m \<Longrightarrow> dc_ok (main_cmd c m)"
  by (auto simp: dc_ok_def dc_simps)

lemma main_autostop_ok: "dc_ok m \<Longrightarrow> dc_ok (main_autostop sns m)"
  by (auto simp: dc_ok_def dc_simps Let_def)

interpretation main_ctl: limit_controller main_cmd_task mt_run
    "\<lambda>m. compare_value m \<noteq> 0" dc_ok "stop_for MAIN_COVER_CMD" mt_dir
    "pt_check DC_MOTOR MAIN_COVER_MOTOR"
proof (unfold_locales, goal_cases)
  case (1 m p c)
  then show ?case
    by (auto simp: main_cmd_task_def main_cmd_ok main_autostop_ok split: option.splits)
next
  case (5 m p c)
  then show ?case by (auto simp: main_cmd_task_def main_autostop_def Let_def split: if_splits)
qed (auto simp: dc_simps dc_ok_def stop_for_def)

end
