(* ===== verification/Floats.thy ===== *)
theory Floats
  imports Complex_Main "HOL-Library.Log_Nat"
begin

text \<open>
  C floating point as exact rational arithmetic followed by rounding to nearest, ties to even,
  at a precision of 24 bits (\<open>float\<close>) or 53 bits (\<open>double\<close>), for normal numbers.  The values the
  firmware computes are far from the overflow and subnormal ranges.
\<close>

definition floor_log2 :: "rat \<Rightarrow> int" where
  "floor_log2 q =
     (case quotient_of q of (n, d) \<Rightarrow>
        let e = bitlen (abs n) - bitlen d
        in if (if e \<ge> 0 then 2 ^ nat e * d \<le> abs n else d \<le> abs n * 2 ^ nat (- e))
           then e else e - 1)"

definition half_even :: "rat \<Rightarrow> int" where
  "half_even q =
     (let f = floor q; r = q - of_int f
      in if r < 1 / 2 then f else if r > 1 / 2 then f + 1 else if even f then f else f + 1)"

definition fl_round :: "nat \<Rightarrow> rat \<Rightarrow> rat" where
  "fl_round p q =
     (if q = 0 then 0
      else let k = int p - 1 - floor_log2 q
           in if k \<ge> 0 then of_int (half_even (q * 2 ^ nat k)) / 2 ^ nat k
              else of_int (half_even (q / 2 ^ nat (- k))) * 2 ^ nat (- k))"

abbreviation "float32 \<equiv> fl_round 24"
abbreviation "float64 \<equiv> fl_round 53"

text \<open>Conversion to an integer type discards the fraction.\<close>

definition trunc :: "rat \<Rightarrow> int" where
  "trunc q = (if q \<ge> 0 then floor q else ceiling q)"

lemma half_even_of_int [simp]: "half_even (of_int z) = z"
  by (simp add: half_even_def Let_def)

lemma half_even_bounds: "q - 1 / 2 \<le> of_int (half_even q)" "of_int (half_even q) \<le> q + 1 / 2"
  using floor_correct [of q] by (auto simp: half_even_def Let_def; linarith)+

text \<open>The rounding error is at most half a unit in the last place.\<close>

lemma fl_round_error:
  assumes "k = int p - 1 - floor_log2 q" "0 \<le> k"
  shows "\<bar>fl_round p q - q\<bar> \<le> 1 / 2 / 2 ^ nat k"
proof (cases "q = 0")
  case False
  let ?s = "(2 :: rat) ^ nat k"
  have s: "0 < ?s" by simp
  have "\<bar>of_int (half_even (q * ?s)) - q * ?s\<bar> \<le> 1 / 2"
    unfolding abs_le_iff using half_even_bounds [of "q * ?s"] by linarith
  then have "\<bar>of_int (half_even (q * ?s)) - q * ?s\<bar> / ?s \<le> 1 / 2 / ?s"
    using s by (intro divide_right_mono) auto
  moreover have "fl_round p q - q = (of_int (half_even (q * ?s)) - q * ?s) / ?s"
    using False assms s by (simp add: fl_round_def Let_def diff_divide_distrib)
  ultimately show ?thesis by (simp add: abs_divide)
qed (simp add: fl_round_def)

end
