(* ===== verification/Step_Motor.thy ===== *)
theory Step_Motor
  imports Controllers Sensor Floats
begin

text \<open>
  The two stepper motors, \<open>src/main/step_motor_control.c\<close>: the waste cover, stepped by a
  periodic timer callback through a four-phase table, and the scoop spin, pulsed by an MCPWM
  timer whose full-event callback counts the pulses.  Callbacks are functions of their own, so
  that pulses and task turns interleave as the caller says.
\<close>

abbreviation (input) WASTE_TARGET_STEPS :: int where "WASTE_TARGET_STEPS \<equiv> 1120"

record waste_motor =
  waste_steps :: int
  waste_phase :: int
  waste_dir :: bool
  waste_run :: bool
  waste_timer :: "bool option"
  waste_en :: u32
  waste_in1 :: u32
  waste_in2 :: u32

record spin_motor =
  scpspin_cnt :: u32
  scpspin_steps :: u32
  scpspin_dir :: bool
  scpspin_run :: bool
  spin_en :: u32
  spin_nsleep :: u32
  spin_dir_pin :: bool
  spin_timer_on :: bool
  new_spin_period :: u32
  new_spin_tick :: u32
  timer_period :: u32
  timer_compare :: u32

record step_state =
  waste_mt :: waste_motor
  spin_mt :: spin_motor

definition waste_off :: waste_motor where
  "waste_off = \<lparr>waste_steps = 0, waste_phase = 0, waste_dir = False, waste_run = False,
     waste_timer = None, waste_en = 0, waste_in1 = 0, waste_in2 = 0\<rparr>"

definition spin_off :: spin_motor where
  "spin_off = \<lparr>scpspin_cnt = 0, scpspin_steps = 0, scpspin_dir = False, scpspin_run = False,
     spin_en = 0, spin_nsleep = 0, spin_dir_pin = True, spin_timer_on = False,
     new_spin_period = 2000, new_spin_tick = 0, timer_period = 2000, timer_compare = 1000\<rparr>"

section \<open>Waste cover stepper\<close>

definition phase_table :: "(u32 \<times> u32) list" where
  "phase_table = [(1, 0), (1, 1), (0, 1), (0, 0)]"

definition waste_enable :: "u32 \<Rightarrow> waste_motor \<Rightarrow> waste_motor" where
  "waste_enable e m = m\<lparr>waste_en := e\<rparr>"

definition timer_stop :: "waste_motor \<Rightarrow> waste_motor" where
  "timer_stop m = m\<lparr>waste_timer := map_option (\<lambda>_. False) (waste_timer m)\<rparr>"

definition waste_motor_stop :: "waste_motor \<Rightarrow> waste_motor" where
  "waste_motor_stop m =
     (let m = m\<lparr>waste_run := False\<rparr>;
          m = (if waste_timer m \<noteq> None then timer_stop m else m);
          m = m\<lparr>waste_in1 := 0, waste_in2 := 0\<rparr>;
          m = waste_enable 0 m
      in m\<lparr>waste_steps := 0\<rparr>)"

definition waste_motor_timer_callback :: "waste_motor \<Rightarrow> waste_motor" where
  "waste_motor_timer_callback m =
     (if \<not> waste_run m then m
      else
        let m = m\<lparr>waste_in1 := fst (phase_table ! nat (waste_phase m)),
                  waste_in2 := snd (phase_table ! nat (waste_phase m))\<rparr>;
            m = m\<lparr>waste_steps := waste_steps m - 1\<rparr>;
            m = (if waste_steps m \<le> 0 then waste_enable 0 (timer_stop (m\<lparr>waste_run := False\<rparr>)) else m)
        in if waste_dir m then m\<lparr>waste_phase := (waste_phase m + 1) smod 4\<rparr>
           else m\<lparr>waste_phase := (waste_phase m - 1 + 4) smod 4\<rparr>)"

text \<open>The timer is created on the first move and stopped first on later ones; then it is started.\<close>

definition waste_motor_move :: "int \<Rightarrow> bool \<Rightarrow> waste_motor \<Rightarrow> waste_motor" where
  "waste_motor_move steps dir m =
     (if steps \<le> 0 then m
      else
        let m = m\<lparr>waste_steps := steps, waste_dir := dir, waste_phase := 0, waste_run := True\<rparr>;
            m = waste_enable 1 m;
            m = (if waste_timer m = None then m\<lparr>waste_timer := Some False\<rparr> else timer_stop m)
        in m\<lparr>waste_timer := Some True\<rparr>)"

definition get_waste_step_cnt :: "waste_motor \<Rightarrow> int" where
  "get_waste_step_cnt m = waste_steps m"

definition waste_cmd :: "mt_message \<Rightarrow> waste_motor \<Rightarrow> waste_motor" where
  "waste_cmd msg m =
     (if mt_cmd msg = WASTE_COVER_CMD then
        (if mt_direction msg = FORWARD then waste_motor_move WASTE_TARGET_STEPS True m
         else if mt_direction msg = REVERSE then waste_motor_move WASTE_TARGET_STEPS False m
         else if mt_direction msg = STOP then waste_motor_stop m
         else m)
      else if mt_cmd msg = WASTE_STEP_CMD then
        (if mt_direction msg = FORWARD then waste_motor_move (sint (mt_angle msg)) True m
         else if mt_direction msg = REVERSE then waste_motor_move (sint (mt_angle msg)) False m
         else if mt_direction msg = STOP then waste_motor_stop m
         else m)
      else m)"

definition waste_autostop :: "sensor_state \<Rightarrow> waste_motor \<Rightarrow> waste_motor" where
  "waste_autostop sns m =
     (if waste_run m then
        (let pt_status = pt_check STEP_MOTOR WASTE_COVER_MOTOR sns
         in if waste_dir m \<and> pt_status = 1 then waste_motor_stop m
            else if \<not> waste_dir m \<and> pt_status = -1 then waste_motor_stop m
            else m)
      else m)"

definition waste_motor_cmd_task :: "sensor_state \<Rightarrow> mt_message option \<Rightarrow> waste_motor \<Rightarrow> waste_motor" where
  "waste_motor_cmd_task sns rx m =
     waste_autostop sns (case rx of None \<Rightarrow> m | Some msg \<Rightarrow> waste_cmd msg m)"

section \<open>Scoop spin stepper\<close>

text \<open>\<open>DEG_TO_STEPS\<close>: single precision, with \<open>1.8f\<close> the float nearest to 1.8.\<close>

definition DEG_TO_STEPS :: "u32 \<Rightarrow> u32" where
  "DEG_TO_STEPS deg =
     word_of_int (trunc (float32 (float32 (float32 (of_nat (unat deg)) / float32 (9 / 5)) * 51)))"

definition spin_enable :: "u32 \<Rightarrow> spin_motor \<Rightarrow> spin_motor" where
  "spin_enable e m = m\<lparr>spin_en := e, spin_nsleep := e\<rparr>"

definition mcpwm_timer_full_cb :: "bool \<Rightarrow> spin_motor \<Rightarrow> spin_motor" where
  "mcpwm_timer_full_cb spin_on m =
     (if scpspin_run m then
        let m = m\<lparr>scpspin_cnt := scpspin_cnt m + 1\<rparr>
        in if scpspin_cnt m \<ge> scpspin_steps m then
             let m = m\<lparr>spin_timer_on := False\<rparr>;
                 m = (if \<not> spin_on then spin_enable 0 m else m)
             in m\<lparr>scpspin_run := False\<rparr>
           else m
      else m)"

text \<open>The safe stop waits at most ten turns; \<open>pulses i\<close> is how often the timer fires in turn \<open>i\<close>.\<close>

function stop_wait :: "bool \<Rightarrow> (nat \<Rightarrow> nat) \<Rightarrow> nat \<Rightarrow> spin_motor \<Rightarrow> spin_motor" where
  "stop_wait spin_on pulses timeout m =
     (if scpspin_run m \<and> timeout < 10
      then stop_wait spin_on pulses (timeout + 1) ((mcpwm_timer_full_cb spin_on ^^ pulses timeout) m)
      else m)"
  by pat_completeness auto
termination by (relation "measure (\<lambda>(_, _, n, _). 10 - n)") auto

declare stop_wait.simps [simp del]

definition scpspin_stop :: "bool \<Rightarrow> (nat \<Rightarrow> nat) \<Rightarrow> bool \<Rightarrow> spin_motor \<Rightarrow> spin_motor" where
  "scpspin_stop spin_on pulses immediate m =
     (if \<not> scpspin_run m then m
      else
        let m = (if immediate then
                   (let m = m\<lparr>spin_timer_on := False\<rparr>
                    in if \<not> spin_on then spin_enable 0 m else m)
                 else
                   (let m = m\<lparr>spin_timer_on := False\<rparr>;
                        m = stop_wait spin_on pulses 0 m
                    in if \<not> spin_on then spin_enable 0 m else m))
        in m\<lparr>scpspin_run := False, scpspin_cnt := 0, scpspin_steps := 0\<rparr>)"

definition scpspin_speed_dir :: "int \<Rightarrow> spin_motor \<Rightarrow> spin_motor" where
  "scpspin_speed_dir dir m =
     (let m = (if dir \<noteq> 0 then m\<lparr>new_spin_period := new_spin_period m + 100\<rparr>
               else m\<lparr>new_spin_period := new_spin_period m - 100\<rparr>);
          m = m\<lparr>new_spin_tick := new_spin_period m div 2\<rparr>
      in m\<lparr>timer_period := new_spin_period m, timer_compare := new_spin_period m div 2\<rparr>)"

definition scpspin_speed :: "u32 \<Rightarrow> spin_motor \<Rightarrow> spin_motor" where
  "scpspin_speed period m =
     (let m = m\<lparr>new_spin_period := period\<rparr>;
          m = m\<lparr>new_spin_tick := new_spin_period m div 2\<rparr>
      in m\<lparr>timer_period := new_spin_period m, timer_compare := new_spin_period m div 2\<rparr>)"

definition scpspin_move :: "u32 \<Rightarrow> bool \<Rightarrow> spin_motor \<Rightarrow> spin_motor" where
  "scpspin_move steps direction m =
     (let m = m\<lparr>spin_dir_pin := direction, scpspin_cnt := 0, scpspin_steps := steps,
                scpspin_run := True, scpspin_dir := direction\<rparr>;
          m = spin_enable 1 m
      in m\<lparr>spin_timer_on := True\<rparr>)"

definition get_stepmotor_run :: "int \<Rightarrow> step_state \<Rightarrow> bool" where
  "get_stepmotor_run mt s =
     (if mt = WASTE_COVER_MOTOR then waste_run (waste_mt s)
      else if mt = SCPSPIN_MOTOR then scpspin_run (spin_mt s)
      else False)"

definition get_stepmotor_dir :: "int \<Rightarrow> step_state \<Rightarrow> bool" where
  "get_stepmotor_dir mt s =
     (if mt = WASTE_COVER_MOTOR then waste_dir (waste_mt s)
      else if mt = SCPSPIN_MOTOR then scpspin_dir (spin_mt s)
      else False)"

definition get_scpspin_cnt :: "spin_motor \<Rightarrow> int" where
  "get_scpspin_cnt m = sint (scpspin_cnt m)"

definition get_scpspin_remain_cnt :: "spin_motor \<Rightarrow> int" where
  "get_scpspin_remain_cnt m = sint (scpspin_steps m - scpspin_cnt m)"

definition scpspin_cmd :: "bool \<Rightarrow> (nat \<Rightarrow> nat) \<Rightarrow> mt_message \<Rightarrow> spin_motor \<Rightarrow> spin_motor" where
  "scpspin_cmd spin_on pulses msg m =
     (if mt_cmd msg = SCP_SPIN_CMD then
        (if mt_direction msg = FORWARD then scpspin_move (DEG_TO_STEPS (mt_angle msg)) True m
         else if mt_direction msg = REVERSE then scpspin_move (DEG_TO_STEPS (mt_angle msg)) False m
         else if mt_direction msg = STOP then scpspin_stop spin_on pulses False m
         else m)
      else if mt_cmd msg = SCP_SPIN_STEP_CMD then
        (if mt_direction msg = FORWARD then scpspin_move (mt_angle msg) True m
         else if mt_direction msg = REVERSE then scpspin_move (mt_angle msg) False m
         else m)
      else if mt_cmd msg = SCP_SPIN_SPEED_CMD then
        (if mt_angle msg \<noteq> 0 then scpspin_speed (mt_angle msg) m
         else if mt_direction msg = FORWARD then scpspin_speed_dir 1 m
         else scpspin_speed_dir 0 m)
      else m)"

definition scpspin_motor_cmd_task ::
    "bool \<times> (nat \<Rightarrow> nat) \<Rightarrow> mt_message option \<Rightarrow> spin_motor \<Rightarrow> spin_motor" where
  "scpspin_motor_cmd_task env rx m =
     (case rx of None \<Rightarrow> m | Some msg \<Rightarrow> scpspin_cmd (fst env) (snd env) msg m)"

section \<open>The waste cover keeps its contract\<close>

definition waste_ok :: "waste_motor \<Rightarrow> bool" where
  "waste_ok m \<longleftrightarrow> 0 \<le> waste_phase m \<and> waste_phase m < 4
     \<and> (if waste_run m then waste_en m = 1 \<and> waste_timer m = Some True \<and> 0 < waste_steps m
        else waste_en m = 0 \<and> waste_timer m \<noteq> Some True)"

lemma waste_off_ok [simp]: "waste_ok waste_off"
  by (simp add: waste_ok_def waste_off_def)

lemma waste_motor_stop_ok: "waste_ok m \<Longrightarrow> waste_ok (waste_motor_stop m) \<and> \<not> waste_run (waste_motor_stop m)"
  by (auto simp: waste_ok_def waste_motor_stop_def waste_enable_def timer_stop_def Let_def split: if_splits)

lemma waste_motor_move_ok: "waste_ok m \<Longrightarrow> waste_ok (waste_motor_move n d m)"
  by (auto simp: waste_ok_def waste_motor_move_def waste_enable_def timer_stop_def Let_def)

lemma smod4_bounds: "0 \<le> x \<Longrightarrow> 0 \<le> x smod (4::int) \<and> x smod 4 < 4"
  by (simp add: signed_modulo_int_def sgn_if)

lemma waste_motor_timer_callback_ok:
  "waste_ok m \<Longrightarrow> waste_ok (waste_motor_timer_callback m)"
  using smod4_bounds [of "waste_phase m + 1"] smod4_bounds [of "waste_phase m - 1 + 4"]
  by (auto simp: waste_ok_def waste_motor_timer_callback_def waste_enable_def timer_stop_def Let_def)

lemma waste_cmd_ok: "waste_ok m \<Longrightarrow> waste_ok (waste_cmd c m)"
  by (simp add: waste_cmd_def waste_motor_stop_ok waste_motor_move_ok)

lemma waste_autostop_ok: "waste_ok m \<Longrightarrow> waste_ok (waste_autostop sns m)"
  by (simp add: waste_autostop_def Let_def waste_motor_stop_ok)

definition waste_stop_msg :: "mt_message \<Rightarrow> bool" where
  "waste_stop_msg msg \<longleftrightarrow> mt_cmd msg \<in> {WASTE_COVER_CMD, WASTE_STEP_CMD} \<and> mt_direction msg = STOP"

interpretation waste_ctl: limit_controller waste_motor_cmd_task waste_run
    "\<lambda>m. waste_en m \<noteq> 0" waste_ok waste_stop_msg waste_dir
    "pt_check STEP_MOTOR WASTE_COVER_MOTOR"
proof (unfold_locales, goal_cases)
  case (1 m p c)
  then show ?case
    by (auto simp: waste_motor_cmd_task_def waste_cmd_ok waste_autostop_ok split: option.splits)
next
  case (2 m msg p)
  have "waste_cmd msg m = waste_motor_stop m" using 2 by (auto simp: waste_cmd_def waste_stop_msg_def)
  then show ?case
    using waste_motor_stop_ok [OF 2(1)] by (simp add: waste_motor_cmd_task_def waste_autostop_def)
next
  case (5 m p c)
  have "\<not> waste_run (waste_motor_stop x)" for x
    by (simp add: waste_motor_stop_def waste_enable_def Let_def timer_stop_def)
  with 5 show ?case by (auto simp: waste_motor_cmd_task_def waste_autostop_def Let_def split: if_splits)
qed (auto simp: waste_motor_cmd_task_def waste_autostop_def waste_ok_def split: if_splits)

text \<open>A move of \<open>n\<close> steps lasts exactly \<open>n\<close> timer pulses.\<close>

lemma waste_pulse_running:
  "waste_run m \<Longrightarrow> 1 < waste_steps m \<Longrightarrow>
    waste_run (waste_motor_timer_callback m)
    \<and> waste_steps (waste_motor_timer_callback m) = waste_steps m - 1"
  by (simp add: waste_motor_timer_callback_def Let_def)

lemma waste_pulse_last:
  "waste_run m \<Longrightarrow> waste_steps m = 1 \<Longrightarrow>
    \<not> waste_run (waste_motor_timer_callback m) \<and> waste_en (waste_motor_timer_callback m) = 0"
  by (simp add: waste_motor_timer_callback_def Let_def waste_enable_def timer_stop_def)

lemma waste_pulses:
  assumes "waste_run m" "waste_steps m = int n" "k < n"
  shows "waste_run ((waste_motor_timer_callback ^^ k) m)
    \<and> waste_steps ((waste_motor_timer_callback ^^ k) m) = int (n - k)"
  using assms(3)
proof (induction k)
  case (Suc k)
  then have "waste_run ((waste_motor_timer_callback ^^ k) m)"
    "waste_steps ((waste_motor_timer_callback ^^ k) m) = int (n - k)" by simp_all
  with waste_pulse_running Suc.prems show ?case by auto
qed (use assms in simp)

lemma waste_move_pulses:
  assumes "0 < n" "k < n"
  shows "waste_run ((waste_motor_timer_callback ^^ k) (waste_motor_move (int n) d m))"
    and "\<not> waste_run ((waste_motor_timer_callback ^^ n) (waste_motor_move (int n) d m))"
    and "waste_en ((waste_motor_timer_callback ^^ n) (waste_motor_move (int n) d m)) = 0"
proof -
  let ?m = "waste_motor_move (int n) d m"
  have m: "waste_run ?m" "waste_steps ?m = int n"
    using assms by (auto simp: waste_motor_move_def waste_enable_def timer_stop_def Let_def)
  show "waste_run ((waste_motor_timer_callback ^^ k) ?m)" using waste_pulses [OF m assms(2)] by simp
  obtain j where j: "n = Suc j" using assms(1) by (cases n) auto
  then have "waste_run ((waste_motor_timer_callback ^^ j) ?m)"
    "waste_steps ((waste_motor_timer_callback ^^ j) ?m) = 1" using waste_pulses [OF m, of j] by auto
  from waste_pulse_last [OF this]
  show "\<not> waste_run ((waste_motor_timer_callback ^^ n) ?m)"
    "waste_en ((waste_motor_timer_callback ^^ n) ?m) = 0" by (simp_all add: j)
qed

section \<open>The scoop spin keeps its contract\<close>

definition spin_ok :: "spin_motor \<Rightarrow> bool" where
  "spin_ok m \<longleftrightarrow> (spin_timer_on m \<longrightarrow> scpspin_run m) \<and> (spin_timer_on m \<longrightarrow> spin_en m = 1)
     \<and> spin_en m = spin_nsleep m"

lemma spin_off_ok [simp]: "spin_ok spin_off"
  by (simp add: spin_ok_def spin_off_def)

lemma mcpwm_timer_full_cb_ok: "spin_ok m \<Longrightarrow> spin_ok (mcpwm_timer_full_cb on m)"
  by (auto simp: spin_ok_def mcpwm_timer_full_cb_def spin_enable_def Let_def)

lemma full_cb_timer_off:
  "\<not> spin_timer_on m \<and> spin_en m = spin_nsleep m \<Longrightarrow>
    \<not> spin_timer_on (mcpwm_timer_full_cb on m)
    \<and> spin_en (mcpwm_timer_full_cb on m) = spin_nsleep (mcpwm_timer_full_cb on m)"
  by (auto simp: mcpwm_timer_full_cb_def spin_enable_def Let_def)

lemma full_cbs_timer_off:
  "\<not> spin_timer_on m \<and> spin_en m = spin_nsleep m \<Longrightarrow>
    \<not> spin_timer_on ((mcpwm_timer_full_cb on ^^ k) m)
    \<and> spin_en ((mcpwm_timer_full_cb on ^^ k) m) = spin_nsleep ((mcpwm_timer_full_cb on ^^ k) m)"
  by (induction k) (simp_all add: full_cb_timer_off)

lemma stop_wait_timer_off:
  "\<not> spin_timer_on m \<and> spin_en m = spin_nsleep m \<Longrightarrow>
    \<not> spin_timer_on (stop_wait on pulses n m)
    \<and> spin_en (stop_wait on pulses n m) = spin_nsleep (stop_wait on pulses n m)"
proof (induction on pulses n m rule: stop_wait.induct)
  case (1 on pulses n m)
  show ?case
  proof (cases "scpspin_run m \<and> n < 10")
    case True
    with 1 show ?thesis by (simp add: stop_wait.simps [of on pulses n m] full_cbs_timer_off)
  next
    case False
    then have "stop_wait on pulses n m = m" by (subst stop_wait.simps) (simp only: if_False)
    with 1 show ?thesis by simp
  qed
qed

lemma scpspin_stop_ok:
  assumes "spin_ok m"
  shows "spin_ok (scpspin_stop on pulses imm m) \<and> \<not> scpspin_run (scpspin_stop on pulses imm m)"
proof -
  have "\<not> spin_timer_on (stop_wait on pulses 0 (m\<lparr>spin_timer_on := False\<rparr>))
    \<and> spin_en (stop_wait on pulses 0 (m\<lparr>spin_timer_on := False\<rparr>))
      = spin_nsleep (stop_wait on pulses 0 (m\<lparr>spin_timer_on := False\<rparr>))"
    using assms by (intro stop_wait_timer_off) (simp add: spin_ok_def)
  then show ?thesis
    using assms by (auto simp: scpspin_stop_def spin_ok_def spin_enable_def Let_def)
qed

lemma scpspin_move_ok: "spin_ok m \<Longrightarrow> spin_ok (scpspin_move n d m) \<and> scpspin_run (scpspin_move n d m)"
  by (simp add: spin_ok_def scpspin_move_def spin_enable_def Let_def)

lemma scpspin_speed_ok:
  "spin_ok m \<Longrightarrow> spin_ok (scpspin_speed p m)" "spin_ok m \<Longrightarrow> spin_ok (scpspin_speed_dir i m)"
  by (auto simp add: spin_ok_def scpspin_speed_def scpspin_speed_dir_def Let_def)

interpretation spin_ctl: motor_controller scpspin_motor_cmd_task scpspin_run spin_timer_on spin_ok
    "stop_for SCP_SPIN_CMD"
proof (unfold_locales, goal_cases)
  case (1 m p c)
  then show ?case
    by (auto simp: scpspin_motor_cmd_task_def scpspin_cmd_def scpspin_stop_ok scpspin_move_ok
        scpspin_speed_ok split: option.splits)
next
  case (2 m msg p)
  then show ?case
    by (simp add: scpspin_motor_cmd_task_def scpspin_cmd_def stop_for_def scpspin_stop_ok)
qed (auto simp: scpspin_motor_cmd_task_def spin_ok_def)

text \<open>A spin of \<open>n\<close> steps ends with pulse \<open>n\<close>, or with the first pulse when \<open>n\<close> is 0.\<close>

lemma spin_pulses:
  assumes "scpspin_run m" "scpspin_cnt m = 0" "k < unat (scpspin_steps m)"
  shows "let m' = (mcpwm_timer_full_cb on ^^ k) m in
    scpspin_run m' \<and> unat (scpspin_cnt m') = k \<and> scpspin_steps m' = scpspin_steps m"
  using assms(3)
proof (induction k)
  case (Suc k)
  let ?m = "(mcpwm_timer_full_cb on ^^ k) m"
  from Suc have IH: "scpspin_run ?m" "unat (scpspin_cnt ?m) = k" "scpspin_steps ?m = scpspin_steps m"
    by (simp_all add: Let_def)
  have "Suc k < 2 ^ 32" using Suc.prems unsigned_less [of "scpspin_steps m", where ?'a = nat] by simp
  then have inc: "unat (scpspin_cnt ?m + 1) = Suc k" using IH(2)
    by (simp add: unat_word_ariths)
  then have "\<not> scpspin_steps m \<le> scpspin_cnt ?m + 1" using Suc.prems by (simp add: word_le_nat_alt)
  with IH inc show ?case by (simp add: mcpwm_timer_full_cb_def [of on ?m] Let_def)
qed (use assms in simp)

lemma spin_last_pulse:
  assumes "scpspin_run m" "unat (scpspin_cnt m) + 1 = unat (scpspin_steps m) \<or> scpspin_steps m = 0"
  shows "\<not> scpspin_run (mcpwm_timer_full_cb on m) \<and> \<not> spin_timer_on (mcpwm_timer_full_cb on m)
    \<and> (spin_en m = 1 \<longrightarrow> spin_en (mcpwm_timer_full_cb on m) = (if on then 1 else 0))"
proof -
  have "scpspin_steps m \<le> scpspin_cnt m + 1"
  proof (cases "scpspin_steps m = 0")
    case False
    with assms(2) have "unat (scpspin_cnt m) + 1 = unat (scpspin_steps m)" by simp
    then have "scpspin_steps m = word_of_nat (unat (scpspin_cnt m) + 1)"
      by (metis unat_eq_nat_uint uint_word_of_int_eq of_nat_unat ucast_id)
    then have "scpspin_steps m = scpspin_cnt m + 1" by simp
    then show ?thesis by simp
  qed simp
  with assms(1) show ?thesis by (simp add: mcpwm_timer_full_cb_def Let_def spin_enable_def)
qed

end
