(* ===== verification/Machine.thy ===== *)
theory Machine
  imports Dc_Motor Step_Motor
begin

text \<open>
  The state a scenario of \<open>src/main/motor.c\<close> runs on, and the queue sends it uses.

  \<open>mem\<close> is the shared memory: the microsecond clock, the sensor state, the motor controllers and
  the flags of \<open>motor.c\<close>.  A task gives up the processor in \<open>vTaskDelay\<close>; what the other tasks,
  the callbacks and the hardware do meanwhile is the environment \<open>E\<close>, a function of the
  messages posted so far, the length of the delay and the shared memory.  \<open>E\<close> is arbitrary in
  the definitions; theorems state what they need of it.

  \<open>st\<close> adds what belongs to the running task: the messages it posted, in order, and the two
  local message variables that the send functions fill.  Fields a send does not set keep the
  value of an earlier send, as in the code.
\<close>

record mem =
  now :: int
  sensors :: sensor_state
  dc :: dc_state
  steppers :: step_state
  emergency_stop_flag :: bool
  clean_running_flag :: bool
  clean_pause_flag :: bool
  clean_resume_recovery_requested :: bool
  spin_mt_always_on :: bool

record st =
  mem :: mem
  trace :: "out list"
  msg :: mt_message
  led_msg :: message

type_synonym env = "out list \<Rightarrow> nat \<Rightarrow> mem \<Rightarrow> mem"

definition boot_mem :: mem where
  "boot_mem = \<lparr>now = 0, sensors = sensor_reset_state, dc = dc_init,
     steppers = \<lparr>waste_mt = waste_off, spin_mt = spin_off\<rparr>,
     emergency_stop_flag = False, clean_running_flag = False, clean_pause_flag = False,
     clean_resume_recovery_requested = False, spin_mt_always_on = False\<rparr>"

definition start_st :: "mem \<Rightarrow> st" where
  "start_st m = \<lparr>mem = m, trace = [], msg = zero_mt, led_msg = zero_ms\<rparr>"

section \<open>Time and shared memory\<close>

definition vTaskDelay :: "env \<Rightarrow> nat \<Rightarrow> st \<Rightarrow> st" where
  "vTaskDelay E ms s = s\<lparr>mem := E (trace s) ms (mem s)\<rparr>"

definition upd_mem :: "(mem \<Rightarrow> mem) \<Rightarrow> st \<Rightarrow> st" where
  "upd_mem f s = s\<lparr>mem := f (mem s)\<rparr>"

lemma upd_mem_simps [simp]:
  "mem (upd_mem f s) = f (mem s)" "trace (upd_mem f s) = trace s" "msg (upd_mem f s) = msg s"
  "led_msg (upd_mem f s) = led_msg s"
  by (simp_all add: upd_mem_def)

abbreviation pt_of :: "st \<Rightarrow> u32" where
  "pt_of s \<equiv> get_pt_status (sensors (mem s))"

abbreviation pt_at :: "int \<Rightarrow> int \<Rightarrow> st \<Rightarrow> int" where
  "pt_at sel mt s \<equiv> pt_check sel mt (sensors (mem s))"

abbreviation stop_or_recover :: "st \<Rightarrow> bool" where
  "stop_or_recover s \<equiv> emergency_stop_flag (mem s) \<or> clean_resume_recovery_requested (mem s)"

definition tof_enable :: "bool \<Rightarrow> st \<Rightarrow> st" where
  "tof_enable e s = upd_mem (\<lambda>m. m\<lparr>sensors := set_tof_sensor_enable e (sensors m)\<rparr>) s"

section \<open>Sends\<close>

definition post :: "(mt_message \<Rightarrow> out) \<Rightarrow> mt_message \<Rightarrow> st \<Rightarrow> st" where
  "post q m s = s\<lparr>msg := m, trace := trace s @ [q m]\<rparr>"

definition send_plate_msg :: "u32 \<Rightarrow> u32 \<Rightarrow> u32 \<Rightarrow> u32 \<Rightarrow> st \<Rightarrow> st" where
  "send_plate_msg cmd angle dir timeout s =
     post PlateQ ((msg s)\<lparr>mt_cmd := cmd, mt_angle := angle, mt_direction := dir, mt_timeout := timeout\<rparr>) s"

definition send_scpinout_msg :: "u32 \<Rightarrow> u32 \<Rightarrow> u32 \<Rightarrow> u32 \<Rightarrow> st \<Rightarrow> st" where
  "send_scpinout_msg cmd angle dir timeout s =
     post ScpinoutQ ((msg s)\<lparr>mt_cmd := cmd, mt_angle := angle, mt_direction := dir, mt_timeout := timeout\<rparr>) s"

definition send_main_motor_msg :: "u32 \<Rightarrow> u32 \<Rightarrow> u32 \<Rightarrow> u32 \<Rightarrow> st \<Rightarrow> st" where
  "send_main_motor_msg cmd angle dir timeout s =
     post MainQ ((msg s)\<lparr>mt_cmd := cmd, mt_angle := angle, mt_direction := dir, mt_timeout := timeout\<rparr>) s"

definition send_waste_motor_msg :: "u32 \<Rightarrow> u32 \<Rightarrow> u32 \<Rightarrow> u32 \<Rightarrow> st \<Rightarrow> st" where
  "send_waste_motor_msg cmd angle dir timeout s =
     post WasteQ ((msg s)\<lparr>mt_cmd := cmd, mt_angle := angle, mt_direction := dir, mt_timeout := timeout\<rparr>) s"

definition send_scpspin_motor_msg :: "u32 \<Rightarrow> u32 \<Rightarrow> u32 \<Rightarrow> u32 \<Rightarrow> st \<Rightarrow> st" where
  "send_scpspin_motor_msg cmd angle dir timeout s =
     post ScpspinQ ((msg s)\<lparr>mt_cmd := cmd, mt_angle := angle, mt_direction := dir, mt_timeout := timeout\<rparr>) s"

definition send_scpspin_motor_msg_ex ::
    "u32 \<Rightarrow> u32 \<Rightarrow> u32 \<Rightarrow> u32 \<Rightarrow> u32 \<Rightarrow> bool \<Rightarrow> st \<Rightarrow> st" where
  "send_scpspin_motor_msg_ex cmd angle dir speed timeout cal s =
     post ScpspinQ ((msg s)\<lparr>mt_cmd := cmd, mt_angle := angle, mt_direction := dir,
       mt_speed := speed, mt_timeout := timeout, mt_cal := cal\<rparr>) s"

definition send_led_cmd_msg :: "u32 \<Rightarrow> st \<Rightarrow> st" where
  "send_led_cmd_msg cmd s =
     (let m = (led_msg s)\<lparr>ms_cmd := cmd\<rparr> in s\<lparr>led_msg := m, trace := trace s @ [LedQ m]\<rparr>)"

lemmas send_defs = send_plate_msg_def send_scpinout_msg_def send_main_motor_msg_def
  send_waste_motor_msg_def send_scpspin_motor_msg_def send_scpspin_motor_msg_ex_def post_def

text \<open>A call of a function with local messages of its own, initialised to zero.\<close>

definition scoped :: "(st \<Rightarrow> ('a \<times> st) option) \<Rightarrow> st \<Rightarrow> ('a \<times> st) option" where
  "scoped f s =
     (case f (s\<lparr>msg := zero_mt, led_msg := zero_ms\<rparr>) of None \<Rightarrow> None
      | Some (a, s') \<Rightarrow> Some (a, s'\<lparr>msg := msg s, led_msg := led_msg s\<rparr>))"

definition scoped_exec :: "(st \<Rightarrow> st) \<Rightarrow> st \<Rightarrow> st" where
  "scoped_exec f s =
     (f (s\<lparr>msg := zero_mt, led_msg := zero_ms\<rparr>))\<lparr>msg := msg s, led_msg := led_msg s\<rparr>"

section \<open>What a statement may post\<close>

definition emits :: "(out \<Rightarrow> bool) \<Rightarrow> st \<Rightarrow> st \<Rightarrow> bool" where
  "emits Q s s' \<longleftrightarrow> (\<exists>tr. trace s' = trace s @ tr \<and> list_all Q tr)"

interpretation emits: frame_relation "emits Q" for Q
proof (unfold_locales, goal_cases)
  case (1 s)
  then show ?case by (auto simp: emits_def)
next
  case (2 s t u)
  then show ?case by (fastforce simp: emits_def)
qed

lemma emits_same [simp, intro]: "trace s' = trace s \<Longrightarrow> emits Q s s'"
  by (auto simp: emits_def)

lemma emits_snoc: "trace s' = trace s @ [x] \<Longrightarrow> Q x \<Longrightarrow> emits Q s s'"
  by (auto simp: emits_def)

lemma emits_mono: "emits Q s s' \<Longrightarrow> (\<And>x. Q x \<Longrightarrow> Q' x) \<Longrightarrow> emits Q' s s'"
  by (auto simp: emits_def list_all_iff)

lemma obeys_emits_delay: "obeys (emits Q) (exec (vTaskDelay E ms))"
  by (rule emits.exec_obeys) (auto simp: vTaskDelay_def)

lemma obeys_emits_mem: "obeys (emits Q) (exec (upd_mem f))"
  by (rule emits.exec_obeys) auto

lemma obeys_emits_tof: "obeys (emits Q) (exec (tof_enable e))"
  by (rule emits.exec_obeys) (auto simp: tof_enable_def)

lemma emits_chain:
  "emits Q s t \<Longrightarrow> emits Q s (vTaskDelay E ms t)"
  "emits Q s t \<Longrightarrow> emits Q s (upd_mem f t)"
  "emits Q s t \<Longrightarrow> emits Q s (tof_enable e t)"
  by (simp_all add: emits_def vTaskDelay_def tof_enable_def)

lemma obeys_emits_scoped: "obeys (emits Q) f \<Longrightarrow> obeys (emits Q) (scoped f)"
  unfolding obeys_def scoped_def by (fastforce simp: emits_def split: option.splits)

text \<open>Every send adds exactly one message to its own queue.\<close>

lemma trace_sends [simp]:
  "trace (send_plate_msg c a d t s) = trace s @ [PlateQ (msg (send_plate_msg c a d t s))]"
  "trace (send_scpinout_msg c a d t s) = trace s @ [ScpinoutQ (msg (send_scpinout_msg c a d t s))]"
  "trace (send_main_motor_msg c a d t s) = trace s @ [MainQ (msg (send_main_motor_msg c a d t s))]"
  "trace (send_waste_motor_msg c a d t s) = trace s @ [WasteQ (msg (send_waste_motor_msg c a d t s))]"
  "trace (send_scpspin_motor_msg_ex c a d v t cal s)
     = trace s @ [ScpspinQ (msg (send_scpspin_motor_msg_ex c a d v t cal s))]"
  "trace (send_led_cmd_msg c s) = trace s @ [LedQ (led_msg (send_led_cmd_msg c s))]"
  "trace (vTaskDelay E ms s) = trace s"
  "trace (tof_enable e s) = trace s"
  by (simp_all add: send_defs send_led_cmd_msg_def vTaskDelay_def tof_enable_def Let_def)

lemma mem_sends [simp]:
  "mem (send_plate_msg c a d t s) = mem s" "mem (send_scpinout_msg c a d t s) = mem s"
  "mem (send_main_motor_msg c a d t s) = mem s" "mem (send_waste_motor_msg c a d t s) = mem s"
  "mem (send_scpspin_motor_msg c a d t s) = mem s"
  "mem (send_scpspin_motor_msg_ex c a d v t cal s) = mem s"
  "mem (send_led_cmd_msg c s) = mem s"
  by (simp_all add: send_defs send_led_cmd_msg_def Let_def)

end
