(* ===== verification/Motor.thy ===== *)
theory Motor
  imports Machine
begin

text \<open>
  The building blocks of the scenarios in \<open>src/main/motor.c\<close>: pause and emergency stop, the
  waits, the soft drive of the main cover and the distance check.  The loops that only another
  task can end (\<open>while (clean_pause_flag)\<close>, the \<open>do ... while(1)\<close> of
  \<open>wait_motor_operation\<close>) are partial functions whose value is \<open>None\<close> when they run forever.
\<close>

section \<open>Flags\<close>

definition check_spin_mt_on :: "st \<Rightarrow> bool" where
  "check_spin_mt_on s = spin_mt_always_on (mem s)"

definition is_clean_running :: "st \<Rightarrow> bool" where
  "is_clean_running s = clean_running_flag (mem s)"

definition clear_emergency_stop :: "st \<Rightarrow> st" where
  "clear_emergency_stop s = upd_mem (\<lambda>m. m\<lparr>emergency_stop_flag := False\<rparr>) s"

definition set_emergency_stop :: "st \<Rightarrow> st" where
  "set_emergency_stop = scoped_exec (\<lambda>s.
     let s = upd_mem (\<lambda>m. m\<lparr>emergency_stop_flag := True\<rparr>) s;
         s = send_plate_msg PLATE_CMD 0 STOP 0 s;
         s = send_scpinout_msg SCP_INOUT_CMD 0 STOP 0 s;
         s = send_main_motor_msg MAIN_COVER_CMD 0 STOP 0 s;
         s = send_waste_motor_msg WASTE_COVER_CMD 0 STOP 0 s
     in send_scpspin_motor_msg_ex SCP_SPIN_CMD 0 STOP 0 0 False s)"

text \<open>The five stops and the LED message posted on a pause.\<close>

definition pause_stops :: "st \<Rightarrow> st" where
  "pause_stops s =
     (let s = send_plate_msg PLATE_CMD 0 STOP 0 s;
          s = send_scpspin_motor_msg_ex SCP_SPIN_CMD 0 STOP 0 0 False s;
          s = send_scpinout_msg SCP_INOUT_CMD 0 STOP 0 s;
          s = send_waste_motor_msg WASTE_COVER_CMD 0 STOP 0 s;
          s = send_main_motor_msg MAIN_COVER_CMD 0 STOP 0 s
      in send_led_cmd_msg LED_PAUSE_CMD s)"

definition toggle_clean_pause :: "st \<Rightarrow> st" where
  "toggle_clean_pause = scoped_exec (\<lambda>s.
     if \<not> clean_pause_flag (mem s)
     then pause_stops (upd_mem (\<lambda>m. m\<lparr>clean_pause_flag := True\<rparr>) s)
     else upd_mem (\<lambda>m. m\<lparr>clean_pause_flag := False, clean_resume_recovery_requested := True\<rparr>) s)"

section \<open>Waits\<close>

text \<open>
  \<open>while (clean_pause_flag) { if (stop or recover) fail; vTaskDelay(100); }\<close>.
  The result is \<open>False\<close> when the loop was left by its failing exit.
\<close>

partial_function (option) pause_wait :: "env \<Rightarrow> st \<Rightarrow> (bool \<times> st) option" where
  "pause_wait E s =
     (if clean_pause_flag (mem s) then
        (if stop_or_recover s then Some (False, s) else pause_wait E (vTaskDelay E 100 s))
      else Some (True, s))"

definition motor_stopped :: "int \<Rightarrow> int \<Rightarrow> st \<Rightarrow> bool" where
  "motor_stopped sel mt s =
     (if sel = DC_MOTOR then \<not> get_dcmotor_run mt (dc (mem s))
      else if sel = STEP_MOTOR then \<not> get_stepmotor_run mt (steppers (mem s))
      else False)"

definition elapsed_ms :: "int \<Rightarrow> st \<Rightarrow> int" where
  "elapsed_ms start s = (now (mem s) - start) sdiv 1000"

partial_function (option) wait_loop ::
    "env \<Rightarrow> int \<Rightarrow> int \<Rightarrow> int \<Rightarrow> int \<Rightarrow> int \<Rightarrow> st \<Rightarrow> (int \<times> st) option" where
  "wait_loop E sel mt timeout status start s =
     (if stop_or_recover s then Some (-1, s)
      else case pause_wait E s of None \<Rightarrow> None
      | Some (ok, s) \<Rightarrow>
          if \<not> ok then Some (-1, s)
          else if stop_or_recover s then Some (-1, s)
          else
            let s = vTaskDelay E 20 s;
                ret = pt_at sel mt s;
                is_reached = (ret = 1 \<and> status = MT_OPEN \<or> ret = -1 \<and> status = MT_CLOSE);
                is_reached = (is_reached \<or> elapsed_ms start s > 300 \<and> motor_stopped sel mt s)
            in if is_reached then Some (0, s)
               else if elapsed_ms start s \<ge> timeout then Some (-1, s)
               else wait_loop E sel mt timeout status start s)"

declare pause_wait.simps [code] wait_loop.simps [code]

definition wait_motor_operation ::
    "env \<Rightarrow> int \<Rightarrow> int \<Rightarrow> int \<Rightarrow> int \<Rightarrow> st \<Rightarrow> (int \<times> st) option" where
  "wait_motor_operation E sel mt timeout status s =
     (let s = vTaskDelay E 150 s in wait_loop E sel mt timeout status (now (mem s)) s)"

text \<open>The counted loop of \<open>wait_duration\<close>: \<open>n\<close> turns of 100 ms.\<close>

fun wait_turns :: "env \<Rightarrow> nat \<Rightarrow> st \<Rightarrow> (int \<times> st) option" where
  "wait_turns E 0 s = Some (0, s)"
| "wait_turns E (Suc n) s =
     (if stop_or_recover s then Some (-1, s)
      else case pause_wait E s of None \<Rightarrow> None
      | Some (ok, s) \<Rightarrow>
          if \<not> ok then Some (-1, s) else wait_turns E n (vTaskDelay E 100 s))"

definition wait_duration :: "env \<Rightarrow> int \<Rightarrow> st \<Rightarrow> (int \<times> st) option" where
  "wait_duration E ms s =
     (if ms < 100 then Some (-1, s)
      else
        let cnt = ms sdiv 100;
            cnt = (if ms smod 100 \<noteq> 0 then cnt + 1 else cnt)
        in wait_turns E (nat cnt) s)"

section \<open>Soft drive of the main cover\<close>

partial_function (option) soft_ramp :: "env \<Rightarrow> u32 \<Rightarrow> u32 \<Rightarrow> u32 \<Rightarrow> st \<Rightarrow> (bool \<times> st) option" where
  "soft_ramp E dir target_speed duty s =
     (if duty \<le> target_speed
      then soft_ramp E dir target_speed (duty + 10)
             (vTaskDelay E 30 (send_main_motor_msg MAIN_COVER_CMD 0 dir duty s))
      else Some (True, s))"

declare soft_ramp.simps [code]

definition drive_main_cover_soft :: "env \<Rightarrow> u32 \<Rightarrow> u32 \<Rightarrow> st \<Rightarrow> (bool \<times> st) option" where
  "drive_main_cover_soft E dir target_speed =
     scoped (seqs
       [exec (vTaskDelay E 50),
        exec (send_main_motor_msg MAIN_COVER_CMD 0 dir 100),
        exec (vTaskDelay E 300),
        soft_ramp E dir target_speed (if target_speed < 70 then target_speed else 70)])"

section \<open>Distance check\<close>

function tof_fill_wait :: "env \<Rightarrow> nat \<Rightarrow> st \<Rightarrow> st" where
  "tof_fill_wait E wait_ms s =
     (if get_tof_ring_count (sensors (mem s)) < 5 \<and> wait_ms < 2000
      then tof_fill_wait E (wait_ms + 10) (vTaskDelay E 10 s)
      else s)"
  by pat_completeness auto
termination by (relation "measure (\<lambda>(_, w, _). 2000 - w)") auto

declare tof_fill_wait.simps [simp del]

definition get_fresh_tof_distance :: "env \<Rightarrow> st \<Rightarrow> int \<times> st" where
  "get_fresh_tof_distance E s =
     (let s = tof_enable True s;
          s = upd_mem (\<lambda>m. m\<lparr>sensors := reset_tof_ring_buffer (sensors m)\<rparr>) s;
          s = tof_fill_wait E 0 s;
          valid_dist = get_tof_distance (sensors (mem s))
      in (if valid_dist \<ge> 0 \<and> valid_dist \<le> 2000 then valid_dist else -1, s))"

text \<open>\<open>CHECK_TOF_PAUSE\<close>, with local messages of its own.\<close>

definition CHECK_TOF_PAUSE :: "env \<Rightarrow> st stmt" where
  "CHECK_TOF_PAUSE E s =
     (case get_fresh_tof_distance E s of (tof_dist, s) \<Rightarrow>
        if tof_dist > 0 \<and> tof_dist \<le> 550 then
          pause_wait E (upd_mem (\<lambda>m. m\<lparr>clean_pause_flag := True\<rparr>) (scoped_exec pause_stops s))
        else Some (True, s))"

definition CHECK_ESTOP :: "st stmt" where
  "CHECK_ESTOP = guard (\<lambda>s. \<not> stop_or_recover s)"

section \<open>Test entry and start-up\<close>

definition motor_scpspin_test :: "int \<Rightarrow> st \<Rightarrow> st" where
  "motor_scpspin_test dir =
     scoped_exec (send_scpspin_motor_msg SCP_SPIN_CMD 360 (if dir = 1 then FORWARD else REVERSE) 15000)"

definition motor_init :: "st \<Rightarrow> st" where
  "motor_init = scoped_exec (send_led_cmd_msg LED_IDLE_CMD)"

section \<open>Waits are delays\<close>

text \<open>A wait does nothing but delay: it is a sequence of calls of \<open>vTaskDelay\<close>.\<close>

definition delays :: "env \<Rightarrow> st \<Rightarrow> st \<Rightarrow> bool" where
  "delays E s s' \<longleftrightarrow> (\<exists>ds. s' = fold (vTaskDelay E) ds s)"

interpretation delays: frame_relation "delays E" for E
proof (unfold_locales, goal_cases)
  case (1 s)
  show ?case unfolding delays_def by (rule exI [of _ "[]"]) simp
next
  case (2 s t u)
  then obtain ds es where "t = fold (vTaskDelay E) ds s" "u = fold (vTaskDelay E) es t"
    by (auto simp: delays_def)
  then have "u = fold (vTaskDelay E) (ds @ es) s" by simp
  then show ?case unfolding delays_def by blast
qed

lemma delays_delay [simp]: "delays E s (vTaskDelay E ms s)"
  unfolding delays_def by (rule exI [of _ "[ms]"]) simp

lemma delays_delay_trans: "delays E (vTaskDelay E ms s) t \<Longrightarrow> delays E s t"
  using delays.trans delays_delay by blast

text \<open>What every delay keeps, a wait keeps.\<close>

lemma delays_keeps:
  assumes "delays E s s'" "P s" "\<And>ms t. P t \<Longrightarrow> P (vTaskDelay E ms t)"
  shows "P s'"
proof -
  obtain ds where "s' = fold (vTaskDelay E) ds s" using assms(1) by (auto simp: delays_def)
  moreover have "P t \<Longrightarrow> P (fold (vTaskDelay E) ds t)" for t
    by (induction ds arbitrary: t) (auto simp: assms(3))
  ultimately show ?thesis using assms(2) by simp
qed

definition quiet :: "st \<Rightarrow> st \<Rightarrow> bool" where
  "quiet s s' \<longleftrightarrow> trace s' = trace s \<and> msg s' = msg s \<and> led_msg s' = led_msg s"

interpretation quiet: frame_relation quiet
  by unfold_locales (auto simp: quiet_def)

lemma delays_quiet: "delays E s s' \<Longrightarrow> quiet s s'"
  by (erule delays_keeps) (auto simp: quiet_def vTaskDelay_def)

lemmas pause_wait_induct = pause_wait.raw_induct [rotated, consumes 1, case_names step]
lemmas wait_loop_induct = wait_loop.raw_induct [rotated, consumes 1, case_names step]
lemmas soft_ramp_induct = soft_ramp.raw_induct [rotated, consumes 1, case_names step]

lemma pause_wait_spec:
  assumes "pause_wait E s = Some r"
  shows "delays E s (snd r)
    \<and> (if fst r then \<not> clean_pause_flag (mem (snd r)) else stop_or_recover (snd r))"
  using assms
proof (induction rule: pause_wait_induct)
  case (step f E s r)
  show ?case
  proof (cases "clean_pause_flag (mem s) \<and> \<not> stop_or_recover s")
    case True
    with step(2) have "f E (vTaskDelay E 100 s) = Some r" by simp
    from step(1) [OF this] show ?thesis using delays_delay_trans by blast
  next
    case False
    with step(2) show ?thesis by (auto split: if_splits intro: delays.refl)
  qed
qed

lemmas pause_wait_delays = pause_wait_spec [THEN conjunct1]
lemmas pause_wait_result = pause_wait_spec [THEN conjunct2]

lemma wait_loop_delays:
  assumes "wait_loop E sel mt timeout status start s = Some r"
  shows "delays E s (snd r)"
  using assms
proof (induction rule: wait_loop_induct)
  case (step f E sel mt timeout status start s r)
  show ?case
  proof (cases "stop_or_recover s")
    case True
    with step(2) show ?thesis by (auto intro: delays.refl)
  next
    case False
    with step(2) obtain ok t where p: "pause_wait E s = Some (ok, t)" by (auto split: option.splits)
    from pause_wait_delays [OF p] have q: "delays E s t" by simp
    have "snd r = t \<or> snd r = vTaskDelay E 20 t
        \<or> f E sel mt timeout status start (vTaskDelay E 20 t) = Some r"
      using step(2) False p by (auto simp: Let_def split: if_splits)
    then have "delays E t (snd r)"
      using step(1) delays.refl delays_delay delays_delay_trans by metis
    with q show ?thesis by (rule delays.trans)
  qed
qed

lemma wait_motor_operation_delays:
  "wait_motor_operation E sel mt timeout status s = Some (r, s') \<Longrightarrow> delays E s s'"
  by (auto simp: wait_motor_operation_def Let_def intro: delays_delay_trans dest!: wait_loop_delays)

lemma wait_turns_delays: "wait_turns E n s = Some (r, s') \<Longrightarrow> delays E s s'"
proof (induction n arbitrary: s)
  case (Suc n)
  show ?case
  proof (cases "stop_or_recover s")
    case True
    with Suc.prems show ?thesis by (auto intro: delays.refl)
  next
    case False
    with Suc.prems obtain ok t where p: "pause_wait E s = Some (ok, t)" by (auto split: option.splits)
    from pause_wait_delays [OF p] have "delays E s t" by simp
    moreover have "delays E t s'"
      using Suc False p by (auto split: if_splits intro: delays.refl delays_delay_trans)
    ultimately show ?thesis by (rule delays.trans)
  qed
qed (auto intro: delays.refl)

lemma wait_duration_delays: "wait_duration E ms s = Some (r, s') \<Longrightarrow> delays E s s'"
  by (auto simp: wait_duration_def Let_def intro: delays.refl dest: wait_turns_delays split: if_splits)

lemma tof_fill_wait_delays: "delays E s (tof_fill_wait E w s)"
proof (induction E w s rule: tof_fill_wait.induct)
  case (1 E w s)
  show ?case
  proof (cases "get_tof_ring_count (sensors (mem s)) < 5 \<and> w < 2000")
    case True
    then have "tof_fill_wait E w s = tof_fill_wait E (w + 10) (vTaskDelay E 10 s)"
      by (simp add: tof_fill_wait.simps [of E w s])
    with 1 [OF True] show ?thesis by (auto intro: delays_delay_trans)
  next
    case False
    then have "tof_fill_wait E w s = s" by (subst tof_fill_wait.simps) (simp only: if_False)
    then show ?thesis by (simp add: delays.refl)
  qed
qed

lemmas pause_wait_quiet = pause_wait_delays [THEN delays_quiet]
lemmas wait_motor_operation_quiet = wait_motor_operation_delays [THEN delays_quiet]
lemmas wait_duration_quiet = wait_duration_delays [THEN delays_quiet]
lemmas tof_fill_wait_quiet = tof_fill_wait_delays [THEN delays_quiet]

lemma get_fresh_tof_distance_quiet: "quiet s (snd (get_fresh_tof_distance E s))"
  using tof_fill_wait_quiet [of _ E 0]
  by (auto simp: get_fresh_tof_distance_def Let_def quiet_def tof_enable_def)

text \<open>What the waits report.\<close>

definition wait_verdict :: "int \<Rightarrow> int \<Rightarrow> int \<Rightarrow> int \<Rightarrow> int \<Rightarrow> int \<Rightarrow> st \<Rightarrow> bool" where
  "wait_verdict sel mt timeout status start r s' \<longleftrightarrow>
    (r = 0 \<and> (pt_at sel mt s' = 1 \<and> status = MT_OPEN \<or> pt_at sel mt s' = -1 \<and> status = MT_CLOSE
       \<or> elapsed_ms start s' > 300 \<and> motor_stopped sel mt s'))
    \<or> (r = -1 \<and> (stop_or_recover s' \<or> elapsed_ms start s' \<ge> timeout))"

lemma wait_loop_result:
  assumes "wait_loop E sel mt timeout status start s = Some r"
  shows "wait_verdict sel mt timeout status start (fst r) (snd r)"
  using assms
proof (induction rule: wait_loop_induct)
  case (step f E sel mt timeout status start s r)
  show ?case
  proof (cases "stop_or_recover s")
    case False
    with step(2) obtain ok t where p: "pause_wait E s = Some (ok, t)" by (auto split: option.splits)
    show ?thesis
    proof (cases "ok \<and> \<not> stop_or_recover t")
      case True
      let ?u = "vTaskDelay E 20 t"
      let ?hit = "pt_at sel mt ?u = 1 \<and> status = MT_OPEN \<or> pt_at sel mt ?u = -1 \<and> status = MT_CLOSE
        \<or> elapsed_ms start ?u > 300 \<and> motor_stopped sel mt ?u"
      consider "?hit" | "\<not> ?hit" "elapsed_ms start ?u \<ge> timeout"
        | "\<not> ?hit" "\<not> elapsed_ms start ?u \<ge> timeout" by blast
      then show ?thesis
      proof cases
        case 1
        with step(2) False p True have "(0, ?u) = r" by (simp add: Let_def)
        then have "r = (0, ?u)" by simp
        with 1 show ?thesis by (simp add: wait_verdict_def)
      next
        case 2
        then have "r = (-1, ?u)" using step(2) False p True by (auto simp: Let_def split: if_splits)
        with 2 show ?thesis by (simp add: wait_verdict_def)
      next
        case 3
        then have "f E sel mt timeout status start ?u = Some r"
          using step(2) False p True by (auto simp: Let_def split: if_splits)
        then show ?thesis by (rule step(1))
      qed
    next
      case no: False
      have "ok \<or> stop_or_recover t" using pause_wait_result [OF p] by (cases ok) auto
      with no step(2) False p show ?thesis by (cases ok) (auto simp: wait_verdict_def)
    qed
  qed (use step(2) in \<open>auto simp: wait_verdict_def\<close>)
qed

section \<open>Frames\<close>

lemma quiet_emits: "obeys quiet f \<Longrightarrow> obeys (emits Q) f"
  by (erule obeys_mono) (auto simp: quiet_def)

lemma pause_wait_emits: "obeys (emits Q) (pause_wait E)"
  by (rule quiet_emits) (auto intro!: obeysI dest: pause_wait_quiet)

lemma wait_motor_operation_emits: "obeys (emits Q) (wait_motor_operation E sel mt timeout status)"
  by (rule quiet_emits) (auto intro: obeysI wait_motor_operation_quiet)

lemma wait_duration_emits: "obeys (emits Q) (wait_duration E ms)"
  by (rule quiet_emits) (auto intro: obeysI wait_duration_quiet)

text \<open>Sends, for a predicate that looks at the command, the direction and the angle only.\<close>

lemma send_emits:
  "(\<And>m. mt_cmd m = c \<Longrightarrow> mt_direction m = d \<Longrightarrow> Q (PlateQ m)) \<Longrightarrow> obeys (emits Q) (exec (send_plate_msg c a d t))"
  "(\<And>m. mt_cmd m = c \<Longrightarrow> mt_direction m = d \<Longrightarrow> Q (ScpinoutQ m)) \<Longrightarrow> obeys (emits Q) (exec (send_scpinout_msg c a d t))"
  "(\<And>m. mt_cmd m = c \<Longrightarrow> mt_direction m = d \<Longrightarrow> Q (MainQ m)) \<Longrightarrow> obeys (emits Q) (exec (send_main_motor_msg c a d t))"
  "(\<And>m. mt_cmd m = c \<Longrightarrow> mt_direction m = d \<Longrightarrow> Q (WasteQ m)) \<Longrightarrow> obeys (emits Q) (exec (send_waste_motor_msg c a d t))"
  "(\<And>m. mt_cmd m = c \<Longrightarrow> mt_direction m = d \<Longrightarrow> Q (ScpspinQ m)) \<Longrightarrow>
     obeys (emits Q) (exec (send_scpspin_motor_msg_ex c a d v t cal))"
  "(\<And>m. ms_cmd m = k \<Longrightarrow> Q (LedQ m)) \<Longrightarrow> obeys (emits Q) (exec (send_led_cmd_msg k))"
  by (auto intro!: emits.exec_obeys emits_snoc simp: send_defs send_led_cmd_msg_def Let_def)

lemma soft_ramp_emits:
  assumes "soft_ramp E dir target duty s = Some r"
    and "\<And>m. mt_cmd m = MAIN_COVER_CMD \<Longrightarrow> mt_direction m = dir \<Longrightarrow> Q (MainQ m)"
  shows "emits Q s (snd r)"
  using assms
proof (induction rule: soft_ramp_induct)
  case (step f E dir target duty s r)
  let ?t = "vTaskDelay E 30 (send_main_motor_msg MAIN_COVER_CMD 0 dir duty s)"
  show ?case
  proof (cases "duty \<le> target")
    case True
    with step have "emits Q ?t (snd r)" by auto
    moreover have "emits Q s ?t"
      using step(3) by (auto intro!: emits_snoc simp: send_defs vTaskDelay_def)
    ultimately show ?thesis by (blast intro: emits.trans)
  qed (use step(2) in auto)
qed

lemma drive_main_cover_soft_emits:
  assumes "\<And>m. mt_cmd m = MAIN_COVER_CMD \<Longrightarrow> mt_direction m = dir \<Longrightarrow> Q (MainQ m)"
  shows "obeys (emits Q) (drive_main_cover_soft E dir target)"
  unfolding drive_main_cover_soft_def
  by (rule obeys_emits_scoped, rule emits.seqs_obeys)
    (auto intro: obeys_emits_delay send_emits obeysI assms dest!: soft_ramp_emits [where Q = Q])

section \<open>What the environment keeps\<close>

definition keeps :: "(mem \<Rightarrow> bool) \<Rightarrow> st \<Rightarrow> st \<Rightarrow> bool" where
  "keeps P s s' \<longleftrightarrow> (P (mem s) \<longrightarrow> P (mem s'))"

definition env_keeps :: "env \<Rightarrow> (mem \<Rightarrow> bool) \<Rightarrow> bool" where
  "env_keeps E P \<longleftrightarrow> (\<forall>tr ms m. P m \<longrightarrow> P (E tr ms m))"

interpretation keeps: frame_relation "keeps P" for P
  by unfold_locales (auto simp: keeps_def)

lemma keeps_delay: "env_keeps E P \<Longrightarrow> keeps P s (vTaskDelay E ms s)"
  by (simp add: keeps_def env_keeps_def vTaskDelay_def)

lemma keeps_delays: "env_keeps E P \<Longrightarrow> delays E s s' \<Longrightarrow> keeps P s s'"
  by (rule delays_keeps [of E s s' "keeps P s"]) (auto intro: keeps.refl keeps.trans keeps_delay)

lemma keeps_same: "mem s' = mem s \<Longrightarrow> keeps P s s'"
  by (simp add: keeps_def)

lemma keeps_sends:
  "obeys (keeps P) (exec (send_plate_msg c a d t))" "obeys (keeps P) (exec (send_main_motor_msg c a d t))"
  "obeys (keeps P) (exec (send_scpinout_msg c a d t))" "obeys (keeps P) (exec (send_waste_motor_msg c a d t))"
  "obeys (keeps P) (exec (send_scpspin_motor_msg_ex c a d v t cal))" "obeys (keeps P) (exec (send_led_cmd_msg k))"
  by (simp_all add: obeys_exec keeps_same)

lemma keeps_scoped: "obeys (keeps P) f \<Longrightarrow> obeys (keeps P) (scoped f)"
  unfolding obeys_def scoped_def by (fastforce simp: keeps_def split: option.splits)

lemma keeps_waits:
  assumes "env_keeps E P"
  shows "obeys (keeps P) (exec (vTaskDelay E ms))"
    "obeys (keeps P) (wait_motor_operation E sel mt timeout status)"
    "obeys (keeps P) (wait_duration E k)" "obeys (keeps P) (pause_wait E)"
  using assms
  by (auto simp: obeys_exec keeps_delay intro!: obeysI
      dest!: wait_motor_operation_delays wait_duration_delays pause_wait_delays intro: keeps_delays)

lemma soft_ramp_keeps:
  assumes "soft_ramp E dir target duty s = Some r" "env_keeps E P"
  shows "keeps P s (snd r)"
  using assms
proof (induction rule: soft_ramp_induct)
  case (step f E dir target duty s r)
  let ?t = "vTaskDelay E 30 (send_main_motor_msg MAIN_COVER_CMD 0 dir duty s)"
  show ?case
  proof (cases "duty \<le> target")
    case True
    then have "keeps P ?t (snd r)" using step(1,2,3) by simp
    moreover have "keeps P s ?t" using keeps_delay [OF step(3), of "send_main_motor_msg MAIN_COVER_CMD 0 dir duty s" 30]
      by (simp add: keeps_def)
    ultimately show ?thesis by (blast intro: keeps.trans)
  next
    case False
    then show ?thesis using step(2) keeps.refl by auto
  qed
qed

lemma drive_main_cover_soft_keeps:
  assumes "env_keeps E P"
  shows "obeys (keeps P) (drive_main_cover_soft E dir target)"
  unfolding drive_main_cover_soft_def
  by (rule keeps_scoped, rule keeps.seqs_obeys)
    (auto simp: keeps_waits [OF assms] keeps_sends intro!: obeysI dest!: soft_ramp_keeps [OF _ assms])

section \<open>Posting policies\<close>

text \<open>
  \<open>closing_policy Q\<close>: \<open>Q\<close> admits every stop, every closing or inward move, every spin of the
  scoop and every LED command.  Everything the scoop homing and the recovery post is of this kind.
\<close>

locale closing_policy =
  fixes Q :: "out \<Rightarrow> bool"
  assumes plate_stop: "mt_cmd m = PLATE_CMD \<Longrightarrow> mt_direction m = STOP \<Longrightarrow> Q (PlateQ m)"
    and main_close: "mt_cmd m = MAIN_COVER_CMD \<Longrightarrow> mt_direction m \<in> {STOP, REVERSE} \<Longrightarrow> Q (MainQ m)"
    and scoop_close: "mt_cmd m = SCP_INOUT_CMD \<Longrightarrow> mt_direction m \<in> {STOP, REVERSE} \<Longrightarrow> Q (ScpinoutQ m)"
    and waste_close: "mt_cmd m = WASTE_COVER_CMD \<Longrightarrow> mt_direction m \<in> {STOP, REVERSE} \<Longrightarrow> Q (WasteQ m)"
    and spin_any: "mt_cmd m = SCP_SPIN_CMD \<Longrightarrow> mt_direction m \<in> {STOP, FORWARD, REVERSE} \<Longrightarrow> Q (ScpspinQ m)"
    and led_any: "Q (LedQ k)"
begin

lemma sends_ok:
  "obeys (emits Q) (exec (send_plate_msg PLATE_CMD a STOP t))"
  "d \<in> {STOP, REVERSE} \<Longrightarrow> obeys (emits Q) (exec (send_main_motor_msg MAIN_COVER_CMD a d t))"
  "d \<in> {STOP, REVERSE} \<Longrightarrow> obeys (emits Q) (exec (send_scpinout_msg SCP_INOUT_CMD a d t))"
  "d \<in> {STOP, REVERSE} \<Longrightarrow> obeys (emits Q) (exec (send_waste_motor_msg WASTE_COVER_CMD a d t))"
  "d \<in> {STOP, FORWARD, REVERSE} \<Longrightarrow>
     obeys (emits Q) (exec (send_scpspin_motor_msg_ex SCP_SPIN_CMD a d v t cal))"
  "obeys (emits Q) (exec (send_led_cmd_msg k))"
  by (rule send_emits, simp add: plate_stop main_close scoop_close waste_close spin_any led_any)+

lemma posts_ok:
  "emits Q s t \<Longrightarrow> emits Q s (send_plate_msg PLATE_CMD a STOP k t)"
  "emits Q s t \<Longrightarrow> d \<in> {STOP, REVERSE} \<Longrightarrow> emits Q s (send_main_motor_msg MAIN_COVER_CMD a d k t)"
  "emits Q s t \<Longrightarrow> d \<in> {STOP, REVERSE} \<Longrightarrow> emits Q s (send_scpinout_msg SCP_INOUT_CMD a d k t)"
  "emits Q s t \<Longrightarrow> d \<in> {STOP, REVERSE} \<Longrightarrow> emits Q s (send_waste_motor_msg WASTE_COVER_CMD a d k t)"
  "emits Q s t \<Longrightarrow> d \<in> {STOP, FORWARD, REVERSE} \<Longrightarrow>
     emits Q s (send_scpspin_motor_msg_ex SCP_SPIN_CMD a d v k cal t)"
  "emits Q s t \<Longrightarrow> emits Q s (send_led_cmd_msg c t)"
  using sends_ok(1) [unfolded obeys_exec] sends_ok(2) [of d, unfolded obeys_exec]
    sends_ok(3) [of d, unfolded obeys_exec] sends_ok(4) [of d, unfolded obeys_exec]
    sends_ok(5) [of d, unfolded obeys_exec] sends_ok(6) [unfolded obeys_exec]
  by (blast intro: emits.trans)+

lemma soft_close_ok: "obeys (emits Q) (drive_main_cover_soft E REVERSE target)"
  by (rule drive_main_cover_soft_emits) (simp add: main_close)

end

text \<open>\<open>cleaning_policy Q\<close>: \<open>Q\<close> admits the opening and outward moves too.\<close>

locale cleaning_policy = closing_policy +
  assumes plate_fwd: "mt_cmd m = PLATE_CMD \<Longrightarrow> mt_direction m = FORWARD \<Longrightarrow> Q (PlateQ m)"
    and main_open: "mt_cmd m = MAIN_COVER_CMD \<Longrightarrow> mt_direction m = FORWARD \<Longrightarrow> Q (MainQ m)"
    and scoop_out: "mt_cmd m = SCP_INOUT_CMD \<Longrightarrow> mt_direction m = FORWARD \<Longrightarrow> Q (ScpinoutQ m)"
    and waste_open: "mt_cmd m = WASTE_COVER_CMD \<Longrightarrow> mt_direction m = FORWARD \<Longrightarrow> Q (WasteQ m)"
begin

lemma opens_ok:
  "obeys (emits Q) (exec (send_plate_msg PLATE_CMD a FORWARD t))"
  "obeys (emits Q) (exec (send_main_motor_msg MAIN_COVER_CMD a FORWARD t))"
  "obeys (emits Q) (exec (send_scpinout_msg SCP_INOUT_CMD a FORWARD t))"
  "obeys (emits Q) (exec (send_waste_motor_msg WASTE_COVER_CMD a FORWARD t))"
  by (rule send_emits, simp add: plate_fwd main_open scoop_out waste_open)+

lemma opens_post_ok:
  "emits Q s t \<Longrightarrow> emits Q s (send_waste_motor_msg WASTE_COVER_CMD a FORWARD k t)"
  using opens_ok(4) [unfolded obeys_exec] by (blast intro: emits.trans)

lemma soft_open_ok: "obeys (emits Q) (drive_main_cover_soft E FORWARD target)"
  by (rule drive_main_cover_soft_emits) (simp add: main_open)

end

end
