(* ===== verification/Calibration.thy ===== *)
theory Calibration
  imports Motor
begin

text \<open>
  Homing of the scoop in \<open>src/main/motor.c\<close>: the search for the spin start sensor and the two
  calibration sequences built on it.  The search from off the sensor calls itself again until the
  sensor shows; when it never does, its value is \<open>None\<close>.
\<close>

section \<open>Searching the start sensor\<close>

text \<open>
  Both bounded loops of \<open>scp_spin_find_st_origin\<close>: wait up to 30 s for the start bit to be
  \<open>want\<close>.  The result is \<open>False\<close> when the emergency stop ended it.
\<close>

partial_function (option) find_wait :: "env \<Rightarrow> bool \<Rightarrow> int \<Rightarrow> st \<Rightarrow> (bool \<times> st) option" where
  "find_wait E want st_time s =
     (if (now (mem s) - st_time) sdiv 1000 < 30000 then
        (if emergency_stop_flag (mem s)
         then Some (False, send_scpspin_motor_msg_ex SCP_SPIN_CMD 0 STOP 0 0 False s)
         else if bit_set (pt_of s) PT_BIT_SCP_SPIN_ST = want then Some (True, s)
         else find_wait E want st_time (vTaskDelay E 10 s))
      else Some (True, s))"

declare find_wait.simps [code]

definition find_from_now :: "env \<Rightarrow> bool \<Rightarrow> st stmt" where
  "find_from_now E want s = find_wait E want (now (mem s)) s"

definition not_estop :: "st \<Rightarrow> bool" where
  "not_estop s = (\<not> emergency_stop_flag (mem s))"

text \<open>Spin until the sensor is left and come back to it.\<close>

definition origin_from_on :: "env \<Rightarrow> st stmt" where
  "origin_from_on E = seqs
     [exec (send_scpspin_motor_msg_ex SCP_SPIN_CMD 360 REVERSE 100 30000 False),
      find_from_now E False,
      exec (send_scpspin_motor_msg_ex SCP_SPIN_CMD 0 STOP 0 0 False),
      exec (vTaskDelay E 100),
      guard not_estop,
      exec (send_scpspin_motor_msg_ex SCP_SPIN_CMD 360 FORWARD 100 30000 False),
      find_from_now E True,
      exec (send_scpspin_motor_msg_ex SCP_SPIN_CMD 0 STOP 0 0 False)]"

text \<open>One attempt from off the sensor.\<close>

definition origin_from_off :: "env \<Rightarrow> int \<Rightarrow> st stmt" where
  "origin_from_off E search_dir = seqs
     [exec (send_scpspin_motor_msg_ex SCP_SPIN_CMD 360 (if search_dir = 1 then FORWARD else REVERSE)
              100 30000 False),
      find_from_now E True,
      exec (send_scpspin_motor_msg_ex SCP_SPIN_CMD 0 STOP 0 0 False),
      exec (vTaskDelay E 100),
      guard not_estop]"

partial_function (option) origin_search :: "env \<Rightarrow> int \<Rightarrow> st \<Rightarrow> (int \<times> st) option" where
  "origin_search E search_dir s =
     (if emergency_stop_flag (mem s) then Some (-1, s)
      else if bit_set (pt_of s) PT_BIT_SCP_SPIN_ST then
        (case origin_from_on E (s\<lparr>msg := zero_mt\<rparr>) of None \<Rightarrow> None
         | Some (ok, s) \<Rightarrow> Some (if ok then 0 else -1, s))
      else
        (case origin_from_off E search_dir (s\<lparr>msg := zero_mt\<rparr>) of None \<Rightarrow> None
         | Some (ok, s) \<Rightarrow> if ok then origin_search E search_dir s else Some (-1, s)))"

declare origin_search.simps [code]

definition scp_spin_find_st_origin :: "env \<Rightarrow> int \<Rightarrow> st \<Rightarrow> (int \<times> st) option" where
  "scp_spin_find_st_origin E search_dir = scoped (origin_search E search_dir)"

section \<open>Calibration\<close>

definition spin_and_wait :: "env \<Rightarrow> u32 \<Rightarrow> u32 \<Rightarrow> u32 \<Rightarrow> u32 \<Rightarrow> nat \<Rightarrow> st stmt" where
  "spin_and_wait E angle dir speed timeout gap = seqs
     [exec (send_scpspin_motor_msg_ex SCP_SPIN_CMD angle dir speed timeout False),
      exec (vTaskDelay E gap),
      require (wait_motor_operation E STEP_MOTOR SCPSPIN_MOTOR (uint timeout) MT_MIDDLE)]"

definition scoop_and_wait :: "env \<Rightarrow> u32 \<Rightarrow> u32 \<Rightarrow> int \<Rightarrow> nat \<Rightarrow> st stmt" where
  "scoop_and_wait E dir timeout status gap = seqs
     [exec (send_scpinout_msg SCP_INOUT_CMD 0 dir timeout),
      exec (vTaskDelay E gap),
      require (wait_motor_operation E DC_MOTOR SCPINOUT_MOTOR (uint timeout) status),
      exec (send_scpinout_msg SCP_INOUT_CMD 0 STOP 0)]"

definition calib_abort :: "st \<Rightarrow> (int \<times> st) option" where
  "calib_abort s =
     (let s = send_scpspin_motor_msg_ex SCP_SPIN_CMD 0 STOP 0 0 False s;
          s = send_scpinout_msg SCP_INOUT_CMD 0 STOP 0 s
      in Some (-1, s))"

definition motor_calibration :: "env \<Rightarrow> st \<Rightarrow> (int \<times> st) option" where
  "motor_calibration E = scoped (with_exit
     [exec clear_emergency_stop,
      branch (\<lambda>s. bit_set (pt_of s) PT_BIT_SCP_IN)
        (require (scp_spin_find_st_origin E 1))
        (seqs
          [require (scp_spin_find_st_origin E (-1)),
           guard not_estop,
           spin_and_wait E 90 FORWARD 100 10000 150,
           guard not_estop,
           scoop_and_wait E REVERSE 15000 MT_CLOSE 150,
           guard not_estop,
           require (scp_spin_find_st_origin E (-1))]),
      guard not_estop,
      spin_and_wait E 70 REVERSE 100 10000 150,
      guard not_estop]
     calib_abort)"

definition motor_calibration_recovery :: "env \<Rightarrow> st \<Rightarrow> (int \<times> st) option" where
  "motor_calibration_recovery E = scoped (with_exit
     [exec clear_emergency_stop,
      require (scp_spin_find_st_origin E (-1)),
      guard not_estop,
      exec (vTaskDelay E 200),
      spin_and_wait E 75 FORWARD 100 10000 200,
      exec (send_scpspin_motor_msg_ex SCP_SPIN_CMD 0 STOP 0 0 False),
      exec (vTaskDelay E 300),
      guard not_estop,
      scoop_and_wait E REVERSE 15000 MT_CLOSE 200,
      exec (vTaskDelay E 300),
      guard not_estop,
      require (scp_spin_find_st_origin E (-1)),
      exec (vTaskDelay E 200),
      spin_and_wait E 70 REVERSE 100 10000 200,
      exec (send_scpspin_motor_msg_ex SCP_SPIN_CMD 0 STOP 0 0 False),
      exec (vTaskDelay E 300)]
     calib_abort)"

section \<open>Posting\<close>

lemmas find_wait_induct = find_wait.raw_induct [rotated, consumes 1, case_names step]
lemmas origin_search_induct = origin_search.raw_induct [rotated, consumes 1, case_names step]

context closing_policy
begin

lemma find_from_now_ok: "obeys (emits Q) (find_from_now E want)"
proof -
  have "emits Q s (snd r)" if "find_wait E want st_time s = Some r" for E want st_time s r
    using that
  proof (induction rule: find_wait_induct)
    case (step f E want st_time s r)
    have "emits Q s (send_scpspin_motor_msg_ex SCP_SPIN_CMD 0 STOP 0 0 False s)"
      by (intro posts_ok emits.refl) simp
    moreover have "emits Q s (snd r)" if "f E want st_time (vTaskDelay E 10 s) = Some r"
      using step(1) [OF that] by (simp add: emits_def)
    ultimately show ?case using step(2) by (auto split: if_splits)
  qed
  then show ?thesis by (fastforce intro: obeysI simp: find_from_now_def)
qed

lemmas flow_ok = emits.seqs_obeys emits.guard_obeys emits.require_obeys emits.branch_obeys
  obeys_emits_delay obeys_emits_mem obeys_emits_tof wait_motor_operation_emits wait_duration_emits

lemma origin_from_on_ok: "obeys (emits Q) (origin_from_on E)"
  unfolding origin_from_on_def
  by (rule emits.seqs_obeys) (simp add: flow_ok sends_ok find_from_now_ok)

lemma origin_from_off_ok: "obeys (emits Q) (origin_from_off E d)"
  unfolding origin_from_off_def
  by (rule emits.seqs_obeys) (simp add: flow_ok sends_ok find_from_now_ok)

lemma origin_search_ok: "obeys (emits Q) (origin_search E d)"
proof (rule obeysI)
  have "emits Q s (snd r)" if "origin_search E d s = Some r" for E d s r
    using that
  proof (induction rule: origin_search_induct)
    case (step f E d s r)
    let ?s = "s\<lparr>msg := zero_mt\<rparr>"
    consider "emergency_stop_flag (mem s)"
      | ok t where "origin_from_on E ?s = Some (ok, t)" "snd r = t"
      | ok t where "origin_from_off E d ?s = Some (ok, t)" "snd r = t \<or> f E d t = Some r"
      using step(2) by (auto split: if_splits option.splits)
    then show ?case
    proof cases
      case 1
      then show ?thesis using step(2) by auto
    next
      case 2
      then have "emits Q ?s (snd r)" using origin_from_on_ok by (auto dest: obeysD)
      then show ?thesis by (simp add: emits_def)
    next
      case 3
      then have "emits Q ?s t" using origin_from_off_ok by (auto dest: obeysD)
      moreover have "emits Q t (snd r)" using 3(2) step(1) [of E d t] emits.refl by metis
      ultimately have "emits Q ?s (snd r)" by (rule emits.trans)
      then show ?thesis by (simp add: emits_def)
    qed
  qed
  then show "origin_search E d s = Some (a, s') \<Longrightarrow> emits Q s s'" for s a s' by fastforce
qed

lemma find_st_origin_ok: "obeys (emits Q) (scp_spin_find_st_origin E d)"
  unfolding scp_spin_find_st_origin_def by (rule obeys_emits_scoped) (rule origin_search_ok)

lemma spin_and_wait_ok:
  "d \<in> {FORWARD, REVERSE} \<Longrightarrow> obeys (emits Q) (spin_and_wait E a d v t gap)"
  unfolding spin_and_wait_def by (rule emits.seqs_obeys) (simp add: flow_ok sends_ok)

lemma scoop_in_and_wait_ok: "obeys (emits Q) (scoop_and_wait E REVERSE t status gap)"
  unfolding scoop_and_wait_def by (rule emits.seqs_obeys) (simp add: flow_ok sends_ok)

lemma calib_abort_ok: "obeys (emits Q) calib_abort"
proof (rule obeysI)
  fix s a s' assume "calib_abort s = Some (a, s')"
  then have "s' = send_scpinout_msg SCP_INOUT_CMD 0 STOP 0 (send_scpspin_motor_msg_ex SCP_SPIN_CMD 0 STOP 0 0 False s)"
    by (simp add: calib_abort_def Let_def)
  then show "emits Q s s'" by (auto intro!: posts_ok emits.refl)
qed

lemma clear_emergency_stop_ok: "obeys (emits Q) (exec clear_emergency_stop)"
  by (rule emits.exec_obeys) (auto simp: clear_emergency_stop_def)

lemmas home_ok = flow_ok sends_ok find_st_origin_ok spin_and_wait_ok scoop_in_and_wait_ok
  clear_emergency_stop_ok

lemma motor_calibration_ok: "obeys (emits Q) (motor_calibration E)"
  unfolding motor_calibration_def
  by (rule obeys_emits_scoped, rule emits.obeys_exit, rule emits.seqs_obeys)
    (simp_all add: home_ok calib_abort_ok)

lemma motor_calibration_recovery_ok: "obeys (emits Q) (motor_calibration_recovery E)"
  unfolding motor_calibration_recovery_def
  by (rule obeys_emits_scoped, rule emits.obeys_exit, rule emits.seqs_obeys)
    (simp_all add: home_ok calib_abort_ok)

end

end
