(* ===== verification/Clean.thy ===== *)
theory Clean
  imports Calibration
begin

text \<open>
  The cleaning scenario \<open>do_clean\<close> of \<open>src/main/motor.c\<close>, its recovery after a resumed pause,
  and the two maintenance scenarios.  A body is the list of its statements; \<open>False\<close> stands for
  \<open>goto estop_exit\<close> and its kin.  \<open>FEATURE_SHAKE_SCOOP\<close> is not defined in the build, so the
  shaking steps are not part of the program.
\<close>

section \<open>Waste cover closing with retries\<close>

definition waste_reopen :: "env \<Rightarrow> nat \<Rightarrow> st \<Rightarrow> st" where
  "waste_reopen E retry s =
     (if retry > 0
      then vTaskDelay E 150 (send_waste_motor_msg WASTE_COVER_CMD 0 REVERSE 15000
             (vTaskDelay E 500 (send_waste_motor_msg WASTE_COVER_CMD 0 FORWARD 3000 s)))
      else s)"

fun waste_close :: "env \<Rightarrow> nat list \<Rightarrow> st stmt" where
  "waste_close E [] s = Some (False, s)"
| "waste_close E (retry # rs) s =
     (case wait_motor_operation E STEP_MOTOR WASTE_COVER_MOTOR 15000 MT_CLOSE (waste_reopen E retry s) of
        None \<Rightarrow> None
      | Some (r, s) \<Rightarrow>
          if r = 0 then
            (let s = vTaskDelay E 150 (send_waste_motor_msg WASTE_COVER_CMD 0 STOP 0 s)
             in if pt_at STEP_MOTOR WASTE_COVER_MOTOR s = -1 then Some (True, s)
                else waste_close E rs s)
          else waste_close E rs s)"

section \<open>do_clean\<close>

definition clean_flags_clear :: "mem \<Rightarrow> mem" where
  "clean_flags_clear m = m\<lparr>clean_running_flag := False, clean_pause_flag := False,
     clean_resume_recovery_requested := False\<rparr>"

text \<open>Opening the main cover; the wait's result is tested after the motor was stopped.\<close>

definition open_main_cover :: "env \<Rightarrow> st stmt" where
  "open_main_cover E s =
     (case wait_motor_operation E DC_MOTOR MAIN_COVER_MOTOR 20000 MT_OPEN s of None \<Rightarrow> None
      | Some (wait_cov_ret, s) \<Rightarrow>
          seqs [exec (send_main_motor_msg MAIN_COVER_CMD 0 STOP 0),
                exec (vTaskDelay E 100),
                guard (\<lambda>_. wait_cov_ret = 0),
                guard (\<lambda>s. pt_at DC_MOTOR MAIN_COVER_MOTOR s = 1)] s)"

definition clean_opening :: "env \<Rightarrow> st stmt list" where
  "clean_opening E =
     [exec (upd_mem (\<lambda>m. m\<lparr>spin_mt_always_on := False, clean_running_flag := True,
        clean_pause_flag := False, clean_resume_recovery_requested := False\<rparr>)),
      exec (send_led_cmd_msg LED_CLEANING_CMD),
      exec (tof_enable True),
      exec (send_plate_msg PLATE_CMD 0 FORWARD 0),
      drive_main_cover_soft E FORWARD 100,
      exec (vTaskDelay E 300),
      open_main_cover E,
      exec (upd_mem (\<lambda>m. m\<lparr>spin_mt_always_on := True\<rparr>))]"

definition clean_collect :: "env \<Rightarrow> nat \<Rightarrow> st stmt list" where
  "clean_collect E cycle =
     [branch (\<lambda>_. cycle = 1)
        (exec (send_scpspin_motor_msg_ex SCP_SPIN_CMD 220 FORWARD 140 5000 False)) (seqs []),
      require (wait_duration E 5000),
      CHECK_ESTOP,
      scoop_and_wait E FORWARD 15000 MT_OPEN 150,
      CHECK_ESTOP,
      require (wait_duration E (90 * 1000)),
      CHECK_ESTOP,
      spin_and_wait E 80 REVERSE 100 10000 150,
      exec (send_waste_motor_msg WASTE_COVER_CMD 0 FORWARD 15000),
      exec (vTaskDelay E 300),
      require (wait_motor_operation E STEP_MOTOR WASTE_COVER_MOTOR 15000 MT_OPEN),
      exec (send_waste_motor_msg WASTE_COVER_CMD 0 STOP 0),
      exec (vTaskDelay E 200),
      CHECK_TOF_PAUSE E]"

definition clean_dump :: "env \<Rightarrow> nat \<Rightarrow> st stmt list" where
  "clean_dump E cycle =
     [scoop_and_wait E REVERSE 10000 MT_CLOSE 150,
      spin_and_wait E 160 REVERSE 100 10000 150,
      spin_and_wait E 70 FORWARD 100 5000 150,
      scoop_and_wait E FORWARD 15000 MT_OPEN 150,
      branch (\<lambda>s. pt_at DC_MOTOR SCPINOUT_MOTOR s \<noteq> 1)
        (scoop_and_wait E FORWARD 15000 MT_OPEN 150) (seqs []),
      exec (send_waste_motor_msg WASTE_COVER_CMD 0 REVERSE 15000),
      exec (vTaskDelay E 150),
      branch (\<lambda>_. cycle = 1)
        (exec (send_scpspin_motor_msg_ex SCP_SPIN_CMD 170 FORWARD 140 5000 False)) (seqs []),
      waste_close E [0, 1, 2],
      exec (vTaskDelay E 100)]"

definition clean_closing :: "env \<Rightarrow> st stmt list" where
  "clean_closing E =
     [spin_and_wait E 50 FORWARD 100 8000 150,
      exec (upd_mem (\<lambda>m. m\<lparr>spin_mt_always_on := False\<rparr>)),
      CHECK_TOF_PAUSE E,
      scoop_and_wait E REVERSE 25000 MT_CLOSE 150,
      spin_and_wait E 0 REVERSE 100 8000 150,
      require (motor_calibration E),
      drive_main_cover_soft E REVERSE 100,
      exec (vTaskDelay E 150),
      require (wait_motor_operation E DC_MOTOR MAIN_COVER_MOTOR 10000 MT_CLOSE),
      exec (send_main_motor_msg MAIN_COVER_CMD 0 STOP 0),
      exec (send_plate_msg PLATE_CMD 0 STOP 0),
      exec (tof_enable False),
      exec (upd_mem clean_flags_clear),
      exec (send_led_cmd_msg LED_IDLE_CMD)]"

section \<open>Recovery\<close>

definition stop_all :: "st \<Rightarrow> st" where
  "stop_all s =
     (let s = send_plate_msg PLATE_CMD 0 STOP 0 s;
          s = send_main_motor_msg MAIN_COVER_CMD 0 STOP 0 s;
          s = send_scpinout_msg SCP_INOUT_CMD 0 STOP 0 s;
          s = send_waste_motor_msg WASTE_COVER_CMD 0 STOP 0 s
      in send_scpspin_motor_msg_ex SCP_SPIN_CMD 0 STOP 0 0 False s)"

definition recovery_abort :: "st \<Rightarrow> (int \<times> st) option" where
  "recovery_abort s =
     (let s = upd_mem clean_flags_clear s;
          s = stop_all s;
          s = tof_enable False s;
          s = send_led_cmd_msg LED_ERROR_CMD s
      in Some (-1, s))"

definition do_clean_resume_recovery :: "env \<Rightarrow> st \<Rightarrow> (int \<times> st) option" where
  "do_clean_resume_recovery E = scoped (with_exit
     [exec (upd_mem (\<lambda>m. m\<lparr>clean_pause_flag := False\<rparr>)),
      exec (vTaskDelay E 300),
      branch (\<lambda>s. \<not> bit_set (pt_of s) PT_BIT_WASTE_CLOSE)
        (seqs
          [exec (send_waste_motor_msg WASTE_COVER_CMD 0 REVERSE 15000),
           exec (vTaskDelay E 200),
           require (wait_motor_operation E STEP_MOTOR WASTE_COVER_MOTOR 15000 MT_CLOSE),
           exec (send_waste_motor_msg WASTE_COVER_CMD 0 STOP 0),
           exec (vTaskDelay E 300)])
        (seqs []),
      require (motor_calibration_recovery E),
      exec (vTaskDelay E 300),
      branch (\<lambda>s. \<not> bit_set (pt_of s) PT_BIT_SCP_IN)
        (seqs [scoop_and_wait E REVERSE 15000 MT_CLOSE 200, exec (vTaskDelay E 300)])
        (seqs []),
      branch (\<lambda>s. bit_set (pt_of s) PT_BIT_MCOVER_OPEN)
        (seqs
          [drive_main_cover_soft E REVERSE 100,
           exec (vTaskDelay E 200),
           require (wait_motor_operation E DC_MOTOR MAIN_COVER_MOTOR 10000 MT_CLOSE),
           exec (send_main_motor_msg MAIN_COVER_CMD 0 STOP 0),
           exec (vTaskDelay E 300)])
        (seqs []),
      exec (upd_mem (\<lambda>m. (clean_flags_clear m)\<lparr>emergency_stop_flag := False\<rparr>)),
      exec (tof_enable False),
      exec (send_plate_msg PLATE_CMD 0 STOP 0),
      exec (send_scpspin_motor_msg_ex SCP_SPIN_CMD 0 STOP 0 0 False),
      exec (send_scpinout_msg SCP_INOUT_CMD 0 STOP 0),
      exec (send_waste_motor_msg WASTE_COVER_CMD 0 STOP 0),
      exec (send_main_motor_msg MAIN_COVER_CMD 0 STOP 0),
      exec (send_led_cmd_msg LED_IDLE_CMD)]
     recovery_abort)"

definition estop_exit :: "env \<Rightarrow> st \<Rightarrow> (int \<times> st) option" where
  "estop_exit E s =
     (let s = upd_mem (\<lambda>m. m\<lparr>spin_mt_always_on := False\<rparr>) s;
          is_recovery_mode = clean_resume_recovery_requested (mem s);
          s = upd_mem clean_flags_clear s;
          s = stop_all s
      in if is_recovery_mode then do_clean_resume_recovery E s
         else Some (-1, send_led_cmd_msg LED_ERROR_CMD s))"

definition do_clean_body :: "env \<Rightarrow> st stmt list" where
  "do_clean_body E = exec clear_emergency_stop # clean_opening E
     @ clean_collect E 1 @ clean_dump E 1 @ clean_collect E 2 @ clean_dump E 2 @ clean_closing E"

definition task_locals :: "u32 \<Rightarrow> st \<Rightarrow> st" where
  "task_locals arg s = s\<lparr>msg := zero_mt\<lparr>mt_task_id := arg\<rparr>, led_msg := zero_ms\<lparr>ms_task_id := arg\<rparr>\<rparr>"

definition do_clean :: "env \<Rightarrow> u32 \<Rightarrow> st \<Rightarrow> (int \<times> st) option" where
  "do_clean E arg s = with_exit (do_clean_body E) (estop_exit E) (task_locals arg s)"

section \<open>Maintenance scenarios\<close>

definition manage_exit :: "st \<Rightarrow> (int \<times> st) option" where
  "manage_exit s = Some (-1, tof_enable False s)"

definition do_manage_start :: "env \<Rightarrow> u32 \<Rightarrow> st \<Rightarrow> (int \<times> st) option" where
  "do_manage_start E arg s = with_exit
     [exec (send_led_cmd_msg LED_MANAGE_CMD),
      exec (tof_enable True),
      drive_main_cover_soft E FORWARD 100,
      exec (vTaskDelay E 150),
      require (wait_motor_operation E DC_MOTOR MAIN_COVER_MOTOR 10000 MT_OPEN),
      exec (send_main_motor_msg MAIN_COVER_CMD 0 STOP 0),
      scoop_and_wait E FORWARD 10000 MT_OPEN 150,
      exec (tof_enable False)]
     manage_exit (task_locals arg s)"

definition do_manage_finish :: "env \<Rightarrow> u32 \<Rightarrow> st \<Rightarrow> (int \<times> st) option" where
  "do_manage_finish E arg s = with_exit
     [exec (tof_enable True),
      scoop_and_wait E REVERSE 10000 MT_CLOSE 150,
      drive_main_cover_soft E REVERSE 100,
      exec (vTaskDelay E 150),
      require (wait_motor_operation E DC_MOTOR MAIN_COVER_MOTOR 10000 MT_CLOSE),
      exec (send_main_motor_msg MAIN_COVER_CMD 0 STOP 0),
      exec (tof_enable False),
      exec (send_led_cmd_msg LED_IDLE_CMD)]
     manage_exit (task_locals arg s)"

section \<open>Evaluation\<close>

text \<open>The equations that run a scenario on a concrete environment by rewriting.\<close>

lemmas run_simps = vTaskDelay_def send_defs send_led_cmd_msg_def scoped_def scoped_exec_def
  tof_enable_def set_tof_sensor_enable_def start_st_def boot_mem_def upd_mem_def flow_simps
  with_exit_def pause_wait.simps wait_loop.simps wait_motor_operation_def soft_ramp.simps
  drive_main_cover_soft_def wait_duration_def elapsed_ms_def motor_stopped_def zero_mt_def
  zero_ms_def clear_emergency_stop_def clean_flags_clear_def stop_all_def Let_def task_locals_def
  get_pt_status_def bit_set_def sensor_reset_state_def

lemmas clean_run_simps = run_simps clean_opening_def open_main_cover_def do_clean_def
  do_clean_body_def estop_exit_def do_clean_resume_recovery_def recovery_abort_def

section \<open>Posting\<close>

context closing_policy
begin

lemma stop_all_ok: "obeys (emits Q) (exec stop_all)"
proof -
  have "emits Q s (stop_all s)" for s
    unfolding stop_all_def Let_def by (intro posts_ok emits.refl) simp_all
  then show ?thesis by (simp add: obeys_exec)
qed

lemma led_emits: "emits Q s (send_led_cmd_msg k s)"
  by (intro posts_ok emits.refl)

lemma recovery_abort_ok: "obeys (emits Q) recovery_abort"
proof (rule obeysI)
  fix s a s' assume "recovery_abort s = Some (a, s')"
  then have s': "s' = send_led_cmd_msg LED_ERROR_CMD (tof_enable False (stop_all (upd_mem clean_flags_clear s)))"
    by (simp add: recovery_abort_def Let_def)
  have "emits Q (upd_mem clean_flags_clear s) (stop_all (upd_mem clean_flags_clear s))"
    using stop_all_ok by (simp add: obeys_exec)
  then have "emits Q s (tof_enable False (stop_all (upd_mem clean_flags_clear s)))"
    by (simp add: emits_def)
  with led_emits s' show "emits Q s s'" by (blast intro: emits.trans)
qed

lemma do_clean_resume_recovery_ok: "obeys (emits Q) (do_clean_resume_recovery E)"
  unfolding do_clean_resume_recovery_def
  by (rule obeys_emits_scoped, rule emits.obeys_exit, rule emits.seqs_obeys)
    (simp_all add: home_ok soft_close_ok motor_calibration_recovery_ok recovery_abort_ok)

lemma estop_exit_ok: "obeys (emits Q) (estop_exit E)"
proof (rule obeysI)
  fix s a s' assume run: "estop_exit E s = Some (a, s')"
  define t where "t = stop_all (upd_mem clean_flags_clear (upd_mem (\<lambda>m. m\<lparr>spin_mt_always_on := False\<rparr>) s))"
  have "emits Q (upd_mem clean_flags_clear (upd_mem (\<lambda>m. m\<lparr>spin_mt_always_on := False\<rparr>) s)) t"
    using stop_all_ok by (simp add: obeys_exec t_def)
  then have st: "emits Q s t" by (simp add: emits_def)
  have "emits Q t s'"
  proof (cases "clean_resume_recovery_requested (mem s)")
    case True
    with run have "do_clean_resume_recovery E t = Some (a, s')"
      by (simp add: estop_exit_def Let_def t_def)
    then show ?thesis using do_clean_resume_recovery_ok by (blast dest: obeysD)
  next
    case False
    with run have "s' = send_led_cmd_msg LED_ERROR_CMD t" by (simp add: estop_exit_def Let_def t_def)
    then show ?thesis by (simp add: led_emits)
  qed
  with st show "emits Q s s'" by (rule emits.trans)
qed

lemma CHECK_TOF_PAUSE_ok: "obeys (emits Q) (CHECK_TOF_PAUSE E)"
proof (rule obeysI)
  fix s ok s' assume run: "CHECK_TOF_PAUSE E s = Some (ok, s')"
  obtain d t where f: "get_fresh_tof_distance E s = (d, t)" by (cases "get_fresh_tof_distance E s")
  have st: "emits Q s t" using get_fresh_tof_distance_quiet [of s E] f by (simp add: quiet_def)
  have stops: "emits Q t (scoped_exec pause_stops t)"
  proof -
    have "emits Q u (pause_stops u)" for u
      unfolding pause_stops_def Let_def by (intro posts_ok emits.refl) simp_all
    then have "emits Q (t\<lparr>msg := zero_mt, led_msg := zero_ms\<rparr>)
        (pause_stops (t\<lparr>msg := zero_mt, led_msg := zero_ms\<rparr>))" .
    then show ?thesis by (simp add: emits_def scoped_exec_def)
  qed
  have "emits Q t s'"
  proof (cases "d > 0 \<and> d \<le> 550")
    case True
    with run f have "pause_wait E (upd_mem (\<lambda>m. m\<lparr>clean_pause_flag := True\<rparr>) (scoped_exec pause_stops t)) = Some (ok, s')"
      by (simp add: CHECK_TOF_PAUSE_def)
    from pause_wait_quiet [OF this] have "trace s' = trace (scoped_exec pause_stops t)"
      by (simp add: quiet_def)
    with stops show ?thesis by (simp add: emits_def)
  next
    case False
    with run f show ?thesis by (auto simp: CHECK_TOF_PAUSE_def)
  qed
  with st show "emits Q s s'" by (rule emits.trans)
qed

lemma CHECK_ESTOP_ok: "obeys (emits Q) CHECK_ESTOP"
  unfolding CHECK_ESTOP_def by (rule emits.guard_obeys)

end

context cleaning_policy
begin

lemma scoop_out_and_wait_ok: "obeys (emits Q) (scoop_and_wait E FORWARD t status gap)"
  unfolding scoop_and_wait_def by (rule emits.seqs_obeys) (simp add: flow_ok sends_ok opens_ok)

lemma waste_close_ok: "obeys (emits Q) (waste_close E rs)"
proof (rule obeysI)
  show "emits Q s s'" if "waste_close E rs s = Some (ok, s')" for s ok s'
    using that
  proof (induction rs arbitrary: s)
    case Nil
    then show ?case by auto
  next
    case (Cons retry rs)
    define t where "t = waste_reopen E retry s"
    have st: "emits Q s t"
      unfolding t_def waste_reopen_def by (auto intro!: emits_chain posts_ok opens_post_ok emits.refl)
    from Cons.prems obtain r u where w: "wait_motor_operation E STEP_MOTOR WASTE_COVER_MOTOR 15000 MT_CLOSE t = Some (r, u)"
      by (auto simp: t_def split: option.splits)
    then have tu: "emits Q t u" by (rule obeysD [OF wait_motor_operation_emits])
    let ?v = "vTaskDelay E 150 (send_waste_motor_msg WASTE_COVER_CMD 0 STOP 0 u)"
    have uv: "emits Q u ?v" by (intro emits_chain posts_ok emits.refl) simp
    have "s' = ?v \<or> waste_close E rs ?v = Some (ok, s') \<or> waste_close E rs u = Some (ok, s')"
      using Cons.prems w by (auto simp: t_def Let_def split: if_splits)
    then have "emits Q u s'" using Cons.IH uv by (blast intro: emits.trans)
    with st tu show ?case by (blast intro: emits.trans)
  qed
qed

lemma open_main_cover_ok: "obeys (emits Q) (open_main_cover E)"
proof (rule obeysI)
  fix s ok s' assume run: "open_main_cover E s = Some (ok, s')"
  then obtain r t where w: "wait_motor_operation E DC_MOTOR MAIN_COVER_MOTOR 20000 MT_OPEN s = Some (r, t)"
    by (auto simp: open_main_cover_def split: option.splits)
  let ?rest = "[exec (send_main_motor_msg MAIN_COVER_CMD 0 STOP 0), exec (vTaskDelay E 100),
    guard (\<lambda>_. r = 0), guard (\<lambda>s. pt_at DC_MOTOR MAIN_COVER_MOTOR s = 1)]"
  have "obeys (emits Q) (seqs ?rest)" by (rule emits.seqs_obeys) (simp add: flow_ok sends_ok)
  moreover have "seqs ?rest t = Some (ok, s')" using run w by (simp add: open_main_cover_def)
  ultimately have "emits Q t s'" by (rule obeysD)
  moreover have "emits Q s t" using w by (rule obeysD [OF wait_motor_operation_emits])
  ultimately show "emits Q s s'" by (blast intro: emits.trans)
qed

lemmas clean_ok = home_ok opens_ok soft_close_ok soft_open_ok scoop_out_and_wait_ok waste_close_ok
  open_main_cover_ok CHECK_TOF_PAUSE_ok CHECK_ESTOP_ok motor_calibration_ok

lemma seqs_nil_ok: "obeys (emits Q) (seqs [])"
  by (auto simp: obeys_def)

lemma do_clean_body_ok: "list_all (obeys (emits Q)) (do_clean_body E)"
  unfolding do_clean_body_def clean_opening_def clean_collect_def clean_dump_def clean_closing_def
  by (simp add: clean_ok seqs_nil_ok)

lemma do_clean_emits: "do_clean E arg s = Some (r, s') \<Longrightarrow> emits Q s s'"
proof -
  assume "do_clean E arg s = Some (r, s')"
  moreover have "obeys (emits Q) (with_exit (do_clean_body E) (estop_exit E))"
    by (rule emits.obeys_exit [OF emits.seqs_obeys [OF do_clean_body_ok] estop_exit_ok])
  ultimately have "emits Q (task_locals arg s) s'" by (auto simp: do_clean_def dest: obeysD)
  then show ?thesis by (simp add: emits_def task_locals_def)
qed

end

end
