(* ===== verification/Clean_Safety.thy ===== *)
theory Clean_Safety
  imports Clean
begin

text \<open>
  What the scenarios guarantee whatever the rest of the system does: how they end, which
  commands they post and in which order the covers and the scoop may move.
\<close>

section \<open>Traces that end with every motor stopped\<close>

definition halted :: "out list \<Rightarrow> bool" where
  "halted tr \<longleftrightarrow> ends_stopped plate_of (stop_for PLATE_CMD) tr
     \<and> ends_stopped main_of (stop_for MAIN_COVER_CMD) tr
     \<and> ends_stopped scpinout_of (stop_for SCP_INOUT_CMD) tr
     \<and> ends_stopped waste_of waste_stop_msg tr
     \<and> ends_stopped scpspin_of (stop_for SCP_SPIN_CMD) tr"

lemma ends_stopped_snoc:
  "f x = [m] \<Longrightarrow> is_stop m \<Longrightarrow> ends_stopped f is_stop (tr @ [x])"
  "f x = [] \<Longrightarrow> ends_stopped f is_stop (tr @ [x]) = ends_stopped f is_stop tr"
  by (auto simp: ends_stopped_def)

lemma stop_messages:
  "stop_for c (msg (send_plate_msg c a STOP t s))" "stop_for c (msg (send_main_motor_msg c a STOP t s))"
  "stop_for c (msg (send_scpinout_msg c a STOP t s))"
  "waste_stop_msg (msg (send_waste_motor_msg WASTE_COVER_CMD a STOP t s))"
  "stop_for c (msg (send_scpspin_motor_msg_ex c a STOP v t cal s))"
  by (simp_all add: stop_for_def waste_stop_msg_def send_defs)

lemma halted_simps:
  "ends_stopped plate_of (stop_for PLATE_CMD) (trace (send_plate_msg PLATE_CMD a STOP t s))"
  "ends_stopped main_of (stop_for MAIN_COVER_CMD) (trace (send_main_motor_msg MAIN_COVER_CMD a STOP t s))"
  "ends_stopped scpinout_of (stop_for SCP_INOUT_CMD) (trace (send_scpinout_msg SCP_INOUT_CMD a STOP t s))"
  "ends_stopped waste_of waste_stop_msg (trace (send_waste_motor_msg WASTE_COVER_CMD a STOP t s))"
  "ends_stopped scpspin_of (stop_for SCP_SPIN_CMD) (trace (send_scpspin_motor_msg_ex SCP_SPIN_CMD a STOP v t cal s))"
  by (simp_all add: ends_stopped_snoc stop_messages)

lemma ends_stopped_other:
  "(\<And>m. f (PlateQ m) = []) \<Longrightarrow> ends_stopped f p (trace (send_plate_msg c a d t s)) = ends_stopped f p (trace s)"
  "(\<And>m. f (MainQ m) = []) \<Longrightarrow> ends_stopped f p (trace (send_main_motor_msg c a d t s)) = ends_stopped f p (trace s)"
  "(\<And>m. f (ScpinoutQ m) = []) \<Longrightarrow> ends_stopped f p (trace (send_scpinout_msg c a d t s)) = ends_stopped f p (trace s)"
  "(\<And>m. f (WasteQ m) = []) \<Longrightarrow> ends_stopped f p (trace (send_waste_motor_msg c a d t s)) = ends_stopped f p (trace s)"
  "(\<And>m. f (ScpspinQ m) = []) \<Longrightarrow>
     ends_stopped f p (trace (send_scpspin_motor_msg_ex c a d v t cal s)) = ends_stopped f p (trace s)"
  "(\<And>m. f (LedQ m) = []) \<Longrightarrow> ends_stopped f p (trace (send_led_cmd_msg k s)) = ends_stopped f p (trace s)"
  by (simp_all add: ends_stopped_snoc)

lemmas ends_simps = halted_simps ends_stopped_other

lemma stop_all_halted: "halted (trace (stop_all s))"
  by (simp add: halted_def stop_all_def Let_def ends_simps del: trace_sends)

lemma halted_led: "halted (trace s) \<Longrightarrow> halted (trace (send_led_cmd_msg k s))"
  by (simp add: halted_def ends_stopped_snoc)

lemma recovery_abort_halted: "recovery_abort s = Some (r, s') \<Longrightarrow> halted (trace s') \<and> r = -1"
  by (auto simp: recovery_abort_def Let_def intro!: halted_led stop_all_halted)

lemma with_exit_fail:
  "with_exit body exit s = Some (r, s') \<Longrightarrow> r \<noteq> 0 \<Longrightarrow>
    \<exists>t. seqs body s = Some (False, t) \<and> exit t = Some (r, s')"
  by (auto simp: with_exit_def split: option.splits if_splits)

lemma recovery_failure_halted:
  assumes "do_clean_resume_recovery E s = Some (r, s')" "r \<noteq> 0"
  shows "halted (trace s') \<and> r = -1"
proof -
  obtain body t where t: "with_exit body recovery_abort (s\<lparr>msg := zero_mt, led_msg := zero_ms\<rparr>) = Some (r, t)"
    and s': "s' = t\<lparr>msg := msg s, led_msg := led_msg s\<rparr>"
    using assms(1) unfolding do_clean_resume_recovery_def scoped_def by (auto split: option.splits)
  from with_exit_fail [OF t assms(2)] obtain u where "recovery_abort u = Some (r, t)" by blast
  then show ?thesis using recovery_abort_halted s' by simp
qed

lemma estop_exit_failure_halted:
  assumes "estop_exit E s = Some (r, s')" "r \<noteq> 0"
  shows "halted (trace s') \<and> r = -1"
proof (cases "clean_resume_recovery_requested (mem s)")
  case True
  with assms show ?thesis
    by (intro recovery_failure_halted) (auto simp: estop_exit_def Let_def)
next
  case False
  with assms show ?thesis
    by (auto simp: estop_exit_def Let_def intro!: halted_led stop_all_halted)
qed

lemma do_clean_failure_halted:
  assumes "do_clean E arg s = Some (r, s')" "r \<noteq> 0"
  shows "halted (trace s') \<and> r = -1"
  using assms unfolding do_clean_def by (metis with_exit_fail estop_exit_failure_halted)

section \<open>Delivery to the controllers\<close>

record schedules =
  plate_turns :: "(sensor_state \<times> mt_message option) list"
  main_turns :: "(sensor_state \<times> mt_message option) list"
  scpinout_turns :: "(sensor_state \<times> mt_message option) list"
  waste_turns :: "(sensor_state \<times> mt_message option) list"
  spin_turns :: "((bool \<times> (nat \<Rightarrow> nat)) \<times> mt_message option) list"

definition delivers_all :: "out list \<Rightarrow> schedules \<Rightarrow> bool" where
  "delivers_all tr w \<longleftrightarrow> delivers plate_of tr (plate_turns w) \<and> delivers main_of tr (main_turns w)
     \<and> delivers scpinout_of tr (scpinout_turns w) \<and> delivers waste_of tr (waste_turns w)
     \<and> delivers scpspin_of tr (spin_turns w)"

definition motors_ok :: "dc_state \<Rightarrow> step_state \<Rightarrow> bool" where
  "motors_ok d t \<longleftrightarrow> dc_ok (plate d) \<and> dc_ok (scp_inout d) \<and> dc_ok (main_cover d)
     \<and> waste_ok (waste_mt t) \<and> spin_ok (spin_mt t)"

definition run_controllers :: "schedules \<Rightarrow> dc_state \<times> step_state \<Rightarrow> dc_state \<times> step_state" where
  "run_controllers w s =
     (case s of (d, t) \<Rightarrow>
        (\<lparr>plate = plate_ctl.turns (plate_turns w) (plate d),
          scp_inout = scpinout_ctl.turns (scpinout_turns w) (scp_inout d),
          main_cover = main_ctl.turns (main_turns w) (main_cover d)\<rparr>,
         \<lparr>waste_mt = waste_ctl.turns (waste_turns w) (waste_mt t),
          spin_mt = spin_ctl.turns (spin_turns w) (spin_mt t)\<rparr>))"

text \<open>No motor runs and none is driven.\<close>

definition all_at_rest :: "dc_state \<times> step_state \<Rightarrow> bool" where
  "all_at_rest s \<longleftrightarrow>
     (case s of (d, t) \<Rightarrow>
        (\<forall>mt \<in> {PLATE_MOTOR, MAIN_COVER_MOTOR, SCPINOUT_MOTOR}. \<not> get_dcmotor_run mt d)
        \<and> (\<forall>mt \<in> {WASTE_COVER_MOTOR, SCPSPIN_MOTOR}. \<not> get_stepmotor_run mt t)
        \<and> compare_value (plate d) = 0 \<and> compare_value (scp_inout d) = 0 \<and> compare_value (main_cover d) = 0
        \<and> waste_en (waste_mt t) = 0 \<and> \<not> spin_timer_on (spin_mt t))"

lemma halted_at_rest:
  assumes "halted tr" "delivers_all tr w" "motors_ok d t"
  shows "all_at_rest (run_controllers w (d, t))"
proof -
  note all = assms [unfolded halted_def delivers_all_def motors_ok_def]
  have "\<not> mt_run (plate_ctl.turns (plate_turns w) (plate d))
      \<and> \<not> compare_value (plate_ctl.turns (plate_turns w) (plate d)) \<noteq> 0"
    using all by (intro plate_ctl.halted_delivery) blast+
  moreover have "\<not> mt_run (main_ctl.turns (main_turns w) (main_cover d))
      \<and> \<not> compare_value (main_ctl.turns (main_turns w) (main_cover d)) \<noteq> 0"
    using all by (intro main_ctl.halted_delivery) blast+
  moreover have "\<not> mt_run (scpinout_ctl.turns (scpinout_turns w) (scp_inout d))
      \<and> \<not> compare_value (scpinout_ctl.turns (scpinout_turns w) (scp_inout d)) \<noteq> 0"
    using all by (intro scpinout_ctl.halted_delivery) blast+
  moreover have "\<not> waste_run (waste_ctl.turns (waste_turns w) (waste_mt t))
      \<and> \<not> waste_en (waste_ctl.turns (waste_turns w) (waste_mt t)) \<noteq> 0"
    using all by (intro waste_ctl.halted_delivery) blast+
  moreover have "\<not> scpspin_run (spin_ctl.turns (spin_turns w) (spin_mt t))
      \<and> \<not> spin_timer_on (spin_ctl.turns (spin_turns w) (spin_mt t))"
    using all by (intro spin_ctl.halted_delivery) blast+
  ultimately show ?thesis
    by (simp add: all_at_rest_def run_controllers_def get_dcmotor_run_def get_stepmotor_run_def)
qed

section \<open>Flags at the end of a clean\<close>

definition flags_clear :: "mem \<Rightarrow> bool" where
  "flags_clear m \<longleftrightarrow> \<not> clean_running_flag m \<and> \<not> clean_pause_flag m \<and> \<not> clean_resume_recovery_requested m"

lemma flags_clear_simps [simp]:
  "flags_clear (clean_flags_clear m)"
  "flags_clear (m\<lparr>emergency_stop_flag := b\<rparr>) = flags_clear m"
  "flags_clear (m\<lparr>sensors := x\<rparr>) = flags_clear m"
  by (simp_all add: flags_clear_def clean_flags_clear_def)

lemma mem_tof_enable [simp]: "mem (tof_enable e s) = (mem s)\<lparr>sensors := set_tof_sensor_enable e (sensors (mem s))\<rparr>"
  by (simp add: tof_enable_def)

lemma mem_stop_all [simp]: "mem (stop_all s) = mem s"
  by (simp add: stop_all_def Let_def)

lemma seqs_last:
  "seqs (pre @ fs) s = Some (True, s') \<Longrightarrow> \<exists>t. seqs fs t = Some (True, s')"
  by (auto simp: seqs_append split: option.splits if_splits)

lemma with_exit_cases:
  assumes "with_exit body exit s = Some (r, s')"
  obtains "seqs body s = Some (True, s')" "r = 0"
    | t where "seqs body s = Some (False, t)" "exit t = Some (r, s')"
  using assms by (auto simp: with_exit_def split: option.splits if_splits)

definition recovery_reset :: "st stmt list" where
  "recovery_reset =
     [exec (upd_mem (\<lambda>m. (clean_flags_clear m)\<lparr>emergency_stop_flag := False\<rparr>)),
      exec (tof_enable False),
      exec (send_plate_msg PLATE_CMD 0 STOP 0),
      exec (send_scpspin_motor_msg_ex SCP_SPIN_CMD 0 STOP 0 0 False),
      exec (send_scpinout_msg SCP_INOUT_CMD 0 STOP 0),
      exec (send_waste_motor_msg WASTE_COVER_CMD 0 STOP 0),
      exec (send_main_motor_msg MAIN_COVER_CMD 0 STOP 0),
      exec (send_led_cmd_msg LED_IDLE_CMD)]"

lemma recovery_reset_end:
  "seqs recovery_reset s = Some (True, s') \<Longrightarrow>
    flags_clear (mem s') \<and> \<not> emergency_stop_flag (mem s') \<and> halted (trace s')"
  by (auto simp: recovery_reset_def exec_def halted_def ends_simps simp del: trace_sends)

lemma recovery_body:
  "\<exists>pre. do_clean_resume_recovery E = scoped (with_exit (pre @ recovery_reset) recovery_abort)"
proof -
  have "\<exists>pre. [a, b, c, d, e, f, g, h1, h2, h3, h4, h5, h6, h7, h8] = pre @ [h1, h2, h3, h4, h5, h6, h7, h8]"
    for a b c d e f g h1 h2 h3 h4 h5 h6 h7 h8 :: "st stmt"
    by (rule exI [of _ "[a, b, c, d, e, f, g]"]) simp
  then show ?thesis unfolding do_clean_resume_recovery_def recovery_reset_def by metis
qed

lemma recovery_end:
  assumes "do_clean_resume_recovery E s = Some (r, s')"
  shows "flags_clear (mem s') \<and> halted (trace s') \<and> (r = 0 \<longrightarrow> \<not> emergency_stop_flag (mem s'))"
proof -
  obtain pre where "do_clean_resume_recovery E = scoped (with_exit (pre @ recovery_reset) recovery_abort)"
    using recovery_body by blast
  then obtain t where run: "with_exit (pre @ recovery_reset) recovery_abort (s\<lparr>msg := zero_mt, led_msg := zero_ms\<rparr>) = Some (r, t)"
    and s': "mem s' = mem t" "trace s' = trace t"
    using assms by (auto simp: scoped_def split: option.splits)
  from run show ?thesis
  proof (cases rule: with_exit_cases)
    case 1
    then obtain u where "seqs recovery_reset u = Some (True, t)" using seqs_last [OF 1(1)] by blast
    from recovery_reset_end [OF this] show ?thesis using s' by simp
  next
    case (2 u)
    then have "mem t = (clean_flags_clear (mem u))\<lparr>sensors := set_tof_sensor_enable False (sensors (mem u))\<rparr>"
      by (auto simp: recovery_abort_def Let_def clean_flags_clear_def)
    with recovery_abort_halted [OF 2(2)] s' show ?thesis by simp
  qed
qed

lemma clean_closing_end:
  "seqs (clean_closing E) s = Some (True, s') \<Longrightarrow> flags_clear (mem s')"
proof -
  have "clean_closing E = take 12 (clean_closing E) @ [exec (upd_mem clean_flags_clear), exec (send_led_cmd_msg LED_IDLE_CMD)]"
    by (simp add: clean_closing_def)
  then show "seqs (clean_closing E) s = Some (True, s') \<Longrightarrow> flags_clear (mem s')"
    using seqs_last [of "take 12 (clean_closing E)" "[exec (upd_mem clean_flags_clear), exec (send_led_cmd_msg LED_IDLE_CMD)]" s s']
    by (auto simp: exec_def)
qed

lemma estop_exit_flags: "estop_exit E s = Some (r, s') \<Longrightarrow> flags_clear (mem s')"
  using recovery_end by (auto simp: estop_exit_def Let_def split: if_splits)

lemma do_clean_flags:
  assumes "do_clean E arg s = Some (r, s')"
  shows "flags_clear (mem s')"
  using assms unfolding do_clean_def
proof (cases rule: with_exit_cases)
  case 1
  then have "\<exists>t. seqs (clean_closing E) t = Some (True, s')"
    using seqs_last [of "exec clear_emergency_stop # clean_opening E @ clean_collect E 1 @ clean_dump E 1
      @ clean_collect E 2 @ clean_dump E 2" "clean_closing E"] by (simp add: do_clean_body_def)
  then show ?thesis using clean_closing_end by blast
qed (rule estop_exit_flags)

section \<open>Nothing moves before the main cover is open\<close>

text \<open>\<open>inert\<close>: the scoop, the waste cover and the spin are told to stop, if anything.\<close>

fun inert :: "out \<Rightarrow> bool" where
  "inert (ScpinoutQ m) = (mt_direction m = STOP)"
| "inert (WasteQ m) = (mt_direction m = STOP)"
| "inert (ScpspinQ m) = (mt_direction m = STOP)"
| "inert _ = True"

lemma seqs_prefix_false:
  "seqs fs s = Some (False, t) \<Longrightarrow> seqs (fs @ gs) s = Some (False, t)"
  by (simp add: seqs_append)

lemma stop_all_inert: "emits inert s (stop_all s)"
proof -
  have "trace (stop_all s) = trace s @ drop (length (trace s)) (trace (stop_all s))"
    "list_all inert (drop (length (trace s)) (trace (stop_all s)))"
    by (simp_all add: stop_all_def Let_def send_defs)
  then show ?thesis unfolding emits_def by blast
qed

lemma open_main_cover_fails:
  assumes "\<And>tr ms m. pt_check DC_MOTOR MAIN_COVER_MOTOR (sensors (E tr ms m)) \<noteq> 1"
    and "open_main_cover E s = Some (ok, s')"
  shows "\<not> ok"
proof -
  obtain r t where "wait_motor_operation E DC_MOTOR MAIN_COVER_MOTOR 20000 MT_OPEN s = Some (r, t)"
    using assms(2) by (auto simp: open_main_cover_def split: option.splits)
  then show ?thesis
    using assms by (auto simp: open_main_cover_def flow_simps vTaskDelay_def split: if_splits)
qed

lemma open_main_cover_frame:
  assumes "\<And>f. f \<in> {wait_motor_operation E DC_MOTOR MAIN_COVER_MOTOR 20000 MT_OPEN} \<Longrightarrow> obeys R f"
    and "frame_relation R"
    and "obeys R (exec (send_main_motor_msg MAIN_COVER_CMD 0 STOP 0))" "obeys R (exec (vTaskDelay E 100))"
  shows "obeys R (open_main_cover E)"
proof (rule obeysI)
  fix s ok s' assume run: "open_main_cover E s = Some (ok, s')"
  then obtain r t where w: "wait_motor_operation E DC_MOTOR MAIN_COVER_MOTOR 20000 MT_OPEN s = Some (r, t)"
    by (auto simp: open_main_cover_def split: option.splits)
  let ?rest = "[exec (send_main_motor_msg MAIN_COVER_CMD 0 STOP 0), exec (vTaskDelay E 100),
    guard (\<lambda>_. r = 0), guard (\<lambda>s. pt_at DC_MOTOR MAIN_COVER_MOTOR s = 1)]"
  have "obeys R (seqs ?rest)"
    using assms by (intro frame_relation.seqs_obeys [OF assms(2)])
      (simp add: frame_relation.guard_obeys [OF assms(2)])
  moreover have "seqs ?rest t = Some (ok, s')" using run w by (simp add: open_main_cover_def)
  ultimately have "R t s'" by (rule obeysD)
  moreover have "R s t" using w assms(1) by (blast dest: obeysD)
  ultimately show "R s s'" using assms(2) by (blast dest: frame_relation.trans)
qed

abbreviation no_recovery :: "mem \<Rightarrow> bool" where
  "no_recovery m \<equiv> \<not> clean_resume_recovery_requested m"

definition opening_steps :: "env \<Rightarrow> st stmt list" where
  "opening_steps E = take 6 (clean_opening E) @ [open_main_cover E]"

lemma opening_steps_inert: "obeys (emits inert) (seqs (opening_steps E))"
proof (rule emits.seqs_obeys)
  have "obeys (emits inert) (drive_main_cover_soft E FORWARD 100)"
    by (rule drive_main_cover_soft_emits) simp
  moreover have "obeys (emits inert) (open_main_cover E)"
    by (rule open_main_cover_frame)
      (auto simp: wait_motor_operation_emits obeys_emits_delay intro: send_emits emits.frame_relation_axioms)
  ultimately show "list_all (obeys (emits inert)) (opening_steps E)"
    by (simp add: opening_steps_def clean_opening_def obeys_emits_mem obeys_emits_tof
        obeys_emits_delay send_emits)
qed

lemma opening_steps_no_recovery:
  assumes "env_keeps E no_recovery"
  shows "obeys (keeps no_recovery) (seqs (opening_steps E))"
proof (rule keeps.seqs_obeys)
  have "obeys (keeps no_recovery) (open_main_cover E)"
    by (rule open_main_cover_frame)
      (auto simp: keeps_waits [OF assms] keeps_sends intro: keeps.frame_relation_axioms)
  then show "list_all (obeys (keeps no_recovery)) (opening_steps E)"
    by (simp add: opening_steps_def clean_opening_def keeps_sends keeps_waits [OF assms]
        drive_main_cover_soft_keeps [OF assms])
      (simp add: obeys_exec keeps_def tof_enable_def)
qed

lemma do_clean_cover_closed:
  assumes closed: "\<And>tr ms m. pt_check DC_MOTOR MAIN_COVER_MOTOR (sensors (E tr ms m)) \<noteq> 1"
    and run: "do_clean E arg s = Some (r, s')"
  shows "\<exists>t. emits inert s t \<and> (r = -1 \<and> s' = t \<or> \<not> env_keeps E no_recovery \<and> do_clean_resume_recovery E t = Some (r, s'))"
proof -
  define s0 where "s0 = clear_emergency_stop (task_locals arg s)"
  define s1 where "s1 = upd_mem (\<lambda>m. m\<lparr>clean_resume_recovery_requested := False\<rparr>) s0"
  have tr: "trace s0 = trace s" by (simp add: s0_def clear_emergency_stop_def task_locals_def)
  obtain rest where body: "do_clean_body E = exec clear_emergency_stop # opening_steps E @ rest"
    by (simp add: do_clean_body_def opening_steps_def clean_opening_def)
  obtain ok t where t: "seqs (opening_steps E) s0 = Some (ok, t)"
    using run by (auto simp: do_clean_def with_exit_def body seqs_append exec_def s0_def split: option.splits)
  have last: "\<exists>u. seqs [open_main_cover E] u = Some (True, t)" if ok
    using t that seqs_last [of "take 6 (clean_opening E)" "[open_main_cover E]" s0 t]
    by (simp add: opening_steps_def)
  have nok: "\<not> ok"
  proof
    assume ok
    then obtain u where "seqs [open_main_cover E] u = Some (True, t)" using last by blast
    then have "open_main_cover E u = Some (True, t)" by (auto split: option.splits if_splits)
    then show False using open_main_cover_fails closed by blast
  qed
  have nr: "no_recovery (mem t)" if norec: "env_keeps E no_recovery"
  proof -
    have "seqs (opening_steps E) s1 = Some (ok, t)"
      using t by (simp add: opening_steps_def clean_opening_def exec_def s1_def upd_mem_def)
    then have "keeps no_recovery s1 t" by (rule obeysD [OF opening_steps_no_recovery [OF norec]])
    then show ?thesis by (simp add: keeps_def s1_def)
  qed
  have exit: "estop_exit E t = Some (r, s')"
    using run t nok by (auto simp: do_clean_def with_exit_def body seqs_append exec_def s0_def)
  define v where "v = upd_mem clean_flags_clear (upd_mem (\<lambda>m. m\<lparr>spin_mt_always_on := False\<rparr>) t)"
  have stopped: "emits inert s (stop_all v)"
  proof -
    have "emits inert s t" using obeysD [OF opening_steps_inert t] tr by (simp add: emits_def)
    moreover have "emits inert t (stop_all v)" using stop_all_inert [of v] by (simp add: emits_def v_def)
    ultimately show ?thesis by (rule emits.trans)
  qed
  show ?thesis
  proof (cases "clean_resume_recovery_requested (mem t)")
    case True
    then have "do_clean_resume_recovery E (stop_all v) = Some (r, s')" using exit by (simp add: estop_exit_def Let_def v_def)
    then show ?thesis using True nr stopped by blast
  next
    case False
    then have s': "s' = send_led_cmd_msg LED_ERROR_CMD (stop_all v)" "r = -1" using exit by (auto simp: estop_exit_def Let_def v_def)
    have "emits inert (stop_all v) s'" unfolding s' by (rule emits_snoc [OF trace_sends(6)]) simp
    then show ?thesis using stopped s' by (blast intro: emits.trans)
  qed
qed

section \<open>Properties\<close>

text \<open>
  Witness environments: \<open>tick\<close> only lets the clock run; \<open>estop_env\<close> raises the emergency stop.
\<close>

definition tick :: env where
  "tick tr ms m = m\<lparr>now := now m + 1000 * int ms\<rparr>"

definition estop_env :: env where
  "estop_env tr ms m = (tick tr ms m)\<lparr>emergency_stop_flag := True\<rparr>"

definition schedule_of :: "out list \<Rightarrow> schedules" where
  "schedule_of tr =
     \<lparr>plate_turns = map (\<lambda>m. (sensor_reset_state, Some m)) (received plate_of tr),
      main_turns = map (\<lambda>m. (sensor_reset_state, Some m)) (received main_of tr),
      scpinout_turns = map (\<lambda>m. (sensor_reset_state, Some m)) (received scpinout_of tr),
      waste_turns = map (\<lambda>m. (sensor_reset_state, Some m)) (received waste_of tr),
      spin_turns = map (\<lambda>m. ((False, \<lambda>_. 0), Some m)) (received scpspin_of tr)\<rparr>"

lemma map_filter_received: "List.map_filter snd (map (\<lambda>m. (p, Some m)) ms) = ms"
  by (induction ms) (auto simp: List.map_filter_def)

lemma schedule_of_delivers: "delivers_all tr (schedule_of tr)"
  by (simp add: delivers_all_def delivers_def schedule_of_def map_filter_received)

lemma motors_ok_init: "motors_ok dc_init \<lparr>waste_mt = waste_off, spin_mt = spin_off\<rparr>"
  by (simp add: motors_ok_def dc_init_def)

text \<open>
  C1: when a clean fails (any exit but success: timeout, missing limit sensor, emergency stop,
  failed recovery), then once the motor tasks have received what it posted, in any interleaving
  with any sensor readings, no motor runs and none is driven.
\<close>

theorem failed_clean_at_rest:
  assumes "do_clean E arg s = Some (r, s')" "r \<noteq> 0"
    and "delivers_all (trace s') w" "motors_ok d t"
  shows "all_at_rest (run_controllers w (d, t))"
  using assms do_clean_failure_halted [OF assms(1,2)] by (blast intro: halted_at_rest)

lemma estop_env_run: "map_option fst (do_clean estop_env 7 (start_st boot_mem)) = Some (-1)"
  by (simp add: clean_run_simps estop_env_def tick_def)

theorem failed_clean_at_rest_witness:
  "\<exists>s'. do_clean estop_env 7 (start_st boot_mem) = Some (-1, s')
    \<and> all_at_rest (run_controllers (schedule_of (trace s'))
        (dc_init, \<lparr>waste_mt = waste_off, spin_mt = spin_off\<rparr>))"
proof -
  obtain s' where s': "do_clean estop_env 7 (start_st boot_mem) = Some (-1, s')"
    using estop_env_run by auto
  from failed_clean_at_rest [OF this _ schedule_of_delivers motors_ok_init] s' show ?thesis by auto
qed

text \<open>
  C5: however a clean ends, it leaves the running, pause and recovery flags clear, so that a later
  clean is not taken for a paused one.
\<close>

theorem clean_clears_flags:
  "do_clean E arg s = Some (r, s') \<Longrightarrow>
    \<not> clean_running_flag (mem s') \<and> \<not> clean_pause_flag (mem s')
    \<and> \<not> clean_resume_recovery_requested (mem s')"
  using do_clean_flags by (auto simp: flags_clear_def)

theorem clean_clears_flags_witness:
  "\<exists>s'. do_clean estop_env 7 (start_st boot_mem) = Some (-1, s') \<and> \<not> clean_running_flag (mem s')"
proof -
  obtain s' where s': "do_clean estop_env 7 (start_st boot_mem) = Some (-1, s')"
    using estop_env_run by auto
  then show ?thesis using clean_clears_flags [OF s'] by blast
qed

text \<open>
  C2: while the main cover's open sensor never shows, the scoop, the waste cover and the spin
  receive nothing but stops, and the clean fails.  The one way on is a recovery: when somebody requests it
  during the clean, what follows the stops is the recovery scenario, and only that.
\<close>

theorem nothing_moves_under_closed_cover:
  assumes "\<And>tr ms m. pt_check DC_MOTOR MAIN_COVER_MOTOR (sensors (E tr ms m)) \<noteq> 1"
    and "do_clean E arg s = Some (r, s')"
  shows "\<exists>t tr. trace t = trace s @ tr \<and> list_all inert tr
    \<and> (r = -1 \<and> s' = t
       \<or> do_clean_resume_recovery E t = Some (r, s')
         \<and> (\<exists>tr ms m. \<not> clean_resume_recovery_requested m \<and> clean_resume_recovery_requested (E tr ms m)))"
  using do_clean_cover_closed [of E arg s r s'] assms unfolding env_keeps_def emits_def by blast

definition closed_env :: env where
  "closed_env tr ms m = (estop_env tr ms m)\<lparr>sensors := set_pt_status 0 (sensors m)\<rparr>"

theorem nothing_moves_under_closed_cover_witness:
  "\<exists>s'. do_clean closed_env 7 (start_st boot_mem) = Some (-1, s') \<and> list_all inert (trace s')"
proof -
  have "map_option fst (do_clean closed_env 7 (start_st boot_mem)) = Some (-1)"
    by (simp add: clean_run_simps closed_env_def estop_env_def tick_def set_pt_status_def)
  then obtain s' where s': "do_clean closed_env 7 (start_st boot_mem) = Some (-1, s')" by auto
  have "\<And>tr ms m. pt_check DC_MOTOR MAIN_COVER_MOTOR (sensors (closed_env tr ms m)) \<noteq> 1"
    and quiet: "clean_resume_recovery_requested (closed_env tr ms m) = clean_resume_recovery_requested m" for tr ms m
    by (simp_all add: closed_env_def estop_env_def tick_def pt_check_def set_pt_status_def
        get_pt_status_def bit_set_def)
  from nothing_moves_under_closed_cover [OF this(1) s'] quiet s' show ?thesis by (auto simp: start_st_def)
qed

text \<open>\<open>addressed\<close>: each queue gets its own command with one of the three directions.\<close>

fun addressed :: "out \<Rightarrow> bool" where
  "addressed (PlateQ m) = (mt_cmd m = PLATE_CMD \<and> mt_direction m \<in> {FORWARD, REVERSE, STOP})"
| "addressed (MainQ m) = (mt_cmd m = MAIN_COVER_CMD \<and> mt_direction m \<in> {FORWARD, REVERSE, STOP})"
| "addressed (ScpinoutQ m) = (mt_cmd m = SCP_INOUT_CMD \<and> mt_direction m \<in> {FORWARD, REVERSE, STOP})"
| "addressed (WasteQ m) = (mt_cmd m = WASTE_COVER_CMD \<and> mt_direction m \<in> {FORWARD, REVERSE, STOP})"
| "addressed (ScpspinQ m) = (mt_cmd m = SCP_SPIN_CMD \<and> mt_direction m \<in> {FORWARD, REVERSE, STOP})"
| "addressed (LedQ m) = True"
| "addressed _ = False"

interpretation addressed: cleaning_policy addressed
  by unfold_locales auto

text \<open>
  C38: a clean, its recovery included, posts to the motor and LED queues only, and every motor
  message carries the command its controller acts on and a valid direction; none is ignored.
\<close>

theorem clean_messages_addressed:
  "do_clean E arg s = Some (r, s') \<Longrightarrow>
    \<exists>tr. trace s' = trace s @ tr \<and> list_all addressed tr"
  using addressed.do_clean_emits by (simp add: emits_def)

theorem clean_messages_addressed_witness:
  "\<exists>s'. do_clean estop_env 7 (start_st boot_mem) = Some (-1, s') \<and> list_all addressed (trace s')"
proof -
  obtain s' where s': "do_clean estop_env 7 (start_st boot_mem) = Some (-1, s')"
    using estop_env_run by auto
  from clean_messages_addressed [OF s'] s' show ?thesis by (auto simp: start_st_def)
qed

text \<open>\<open>closes\<close>: no cover is opened and the scoop is not driven out.\<close>

fun closes :: "out \<Rightarrow> bool" where
  "closes (MainQ m) = (mt_direction m \<noteq> FORWARD)"
| "closes (WasteQ m) = (mt_direction m \<noteq> FORWARD)"
| "closes (ScpinoutQ m) = (mt_direction m \<noteq> FORWARD)"
| "closes (PlateQ m) = (mt_direction m = STOP)"
| "closes _ = True"

interpretation closes: closing_policy closes
  by unfold_locales auto

text \<open>
  C7: the recovery after a resumed pause never opens a cover, never drives the scoop out and never
  turns the plate; whether it succeeds or aborts, the last command to each motor is a stop, and a
  success clears the emergency stop.
\<close>

theorem recovery_only_closes:
  "do_clean_resume_recovery E s = Some (r, s') \<Longrightarrow>
    (\<exists>tr. trace s' = trace s @ tr \<and> list_all closes tr) \<and> halted (trace s')
    \<and> flags_clear (mem s') \<and> (r = 0 \<longrightarrow> \<not> emergency_stop_flag (mem s'))"
  using recovery_end obeysD [OF closes.do_clean_resume_recovery_ok] by (fastforce simp: emits_def)

theorem recovery_only_closes_witness:
  "\<exists>s'. do_clean_resume_recovery estop_env (start_st boot_mem) = Some (-1, s')
    \<and> list_all closes (trace s') \<and> halted (trace s')"
proof -
  have "map_option fst (do_clean_resume_recovery estop_env (start_st boot_mem)) = Some (-1)"
    by (simp add: clean_run_simps estop_env_def tick_def)
  then obtain s' where s': "do_clean_resume_recovery estop_env (start_st boot_mem) = Some (-1, s')"
    by auto
  from recovery_only_closes [OF s'] s' show ?thesis by (auto simp: start_st_def)
qed

end
