(* ===== verification/Clean_Liveness.thy ===== *)
theory Clean_Liveness
  imports Clean_Safety
begin

text \<open>
  Timing and termination of the scenarios: what a wait's return means, that a held emergency stop
  ends every scenario, and two places where the code does not end or does not stop as intended:
  the search for a start sensor that never shows, and the emergency stop that a calibration
  clears.
\<close>

section \<open>The soft drive\<close>

definition cover_msg :: "u32 \<Rightarrow> u32 \<Rightarrow> out" where
  "cover_msg dir v = MainQ (zero_mt\<lparr>mt_cmd := MAIN_COVER_CMD, mt_direction := dir, mt_timeout := v\<rparr>)"

lemma drive_main_cover_soft_exact:
  "\<exists>s'. drive_main_cover_soft E dir 100 s = Some (True, s')
    \<and> trace s' = trace s @ map (cover_msg dir) [100, 70, 80, 90, 100]
    \<and> msg s' = msg s \<and> led_msg s' = led_msg s"
  by (simp add: drive_main_cover_soft_def scoped_def exec_def soft_ramp.simps send_defs vTaskDelay_def
      cover_msg_def zero_mt_def)

section \<open>A held emergency stop ends every loop\<close>

text \<open>
  The clock never goes back and advances in every delay of a tick or more; from time \<open>T\<close> on,
  whoever raised the emergency stop keeps raising it.
\<close>

definition held_stop :: "env \<Rightarrow> int \<Rightarrow> bool" where
  "held_stop E T \<longleftrightarrow> (\<forall>tr ms m. now m \<le> now (E tr ms m))
     \<and> (\<forall>tr ms m. 10 \<le> ms \<longrightarrow> now m < now (E tr ms m))
     \<and> (\<forall>tr ms m. T \<le> now (E tr ms m) \<longrightarrow> emergency_stop_flag (E tr ms m))"

abbreviation left :: "int \<Rightarrow> st \<Rightarrow> nat" where
  "left T s \<equiv> nat (T - now (mem s))"

lemma held_stop_clock: "held_stop E T \<Longrightarrow> env_keeps E (\<lambda>m. c \<le> now m)"
  by (auto simp: held_stop_def env_keeps_def intro: order_trans)

lemma held_stop_delays: "held_stop E T \<Longrightarrow> delays E s t \<Longrightarrow> now (mem s) \<le> now (mem t)"
  using keeps_delays [OF held_stop_clock [of E T "now (mem s)"], of s t] by (simp add: keeps_def)

lemma held_stop_delay:
  assumes "held_stop E T" "now (mem s) \<le> now (mem t)" "10 \<le> ms"
  shows "emergency_stop_flag (mem (vTaskDelay E ms t)) \<or> left T (vTaskDelay E ms t) < left T s"
proof (cases "T \<le> now (mem (vTaskDelay E ms t))")
  case True
  then show ?thesis using assms(1) by (simp add: held_stop_def vTaskDelay_def)
next
  case False
  have "now (mem t) < now (mem (vTaskDelay E ms t))"
    using assms(1,3) by (simp add: held_stop_def vTaskDelay_def)
  with assms(2) False show ?thesis by simp
qed

abbreviation ends :: "(st \<Rightarrow> ('a \<times> st) option) \<Rightarrow> bool" where
  "ends f \<equiv> returns (\<lambda>_. True) f"

lemma ends_iff: "ends f \<longleftrightarrow> (\<forall>s. \<exists>r. f s = Some r)"
  by (simp add: returns_def)

lemma ends_pause_wait:
  assumes "held_stop E T"
  shows "ends (pause_wait E)"
proof -
  have "\<exists>r. pause_wait E s = Some r" for s
  proof (induction "left T s" arbitrary: s rule: less_induct)
    case less
    show ?case
    proof (cases "clean_pause_flag (mem s) \<and> \<not> stop_or_recover s")
      case True
      let ?u = "vTaskDelay E 100 s"
      have "\<exists>r. pause_wait E ?u = Some r"
        using held_stop_delay [OF assms order_refl, of 100 s]
      proof
        show "10 \<le> (100 :: nat)" by simp
        assume "emergency_stop_flag (mem ?u)"
        then show ?thesis by (subst pause_wait.simps) (simp del: split_paired_Ex)
      qed (rule less, simp_all)
      moreover have "pause_wait E s = pause_wait E ?u"
        using True by (subst pause_wait.simps) simp
      ultimately show ?thesis by simp
    next
      case False
      then show ?thesis by (subst pause_wait.simps) (auto simp del: split_paired_Ex)
    qed
  qed
  then show ?thesis by (simp add: ends_iff)
qed

lemma ends_wait_loop:
  assumes "held_stop E T"
  shows "\<exists>r. wait_loop E sel mt timeout status start s = Some r"
proof (induction "left T s" arbitrary: s rule: less_induct)
  case less
  show ?case
  proof (cases "stop_or_recover s")
    case True
    then show ?thesis by (subst wait_loop.simps) (simp del: split_paired_Ex)
  next
    case False
    obtain ok t where p: "pause_wait E s = Some (ok, t)"
      using ends_pause_wait [OF assms] unfolding ends_iff by fastforce
    let ?u = "vTaskDelay E 20 t"
    have "now (mem s) \<le> now (mem t)" using held_stop_delays [OF assms] pause_wait_delays [OF p] by simp
    from held_stop_delay [OF assms this, of 20]
    have "\<exists>r. wait_loop E sel mt timeout status start ?u = Some r"
    proof
      show "10 \<le> (20 :: nat)" by simp
      assume "emergency_stop_flag (mem ?u)"
      then show ?thesis by (subst wait_loop.simps) (simp del: split_paired_Ex)
    qed (rule less, simp_all)
    then show ?thesis using False p by (subst wait_loop.simps) (simp add: Let_def del: split_paired_Ex)
  qed
qed

lemma ends_wait_turns:
  assumes "held_stop E T"
  shows "\<exists>r. wait_turns E n s = Some r"
proof (induction n arbitrary: s)
  case (Suc n)
  obtain ok t where "pause_wait E s = Some (ok, t)"
    using ends_pause_wait [OF assms] unfolding ends_iff by fastforce
  then show ?case using Suc.IH by (simp del: split_paired_Ex)
qed (simp del: split_paired_Ex)

lemma ends_waits:
  assumes "held_stop E T"
  shows "ends (wait_motor_operation E sel mt timeout status)" "ends (wait_duration E ms)"
  using ends_wait_loop [OF assms] ends_wait_turns [OF assms]
  by (simp_all add: ends_iff wait_motor_operation_def wait_duration_def Let_def del: split_paired_Ex)

lemma ends_find_wait:
  assumes "held_stop E T"
  shows "\<exists>r. find_wait E want st_time s = Some r"
proof (induction "left T s" arbitrary: s rule: less_induct)
  case less
  let ?u = "vTaskDelay E 10 s"
  have "\<exists>r. find_wait E want st_time ?u = Some r"
    using held_stop_delay [OF assms order_refl, of 10 s]
  proof
    show "10 \<le> (10 :: nat)" by simp
    assume "emergency_stop_flag (mem ?u)"
    then show ?thesis by (subst find_wait.simps) (simp del: split_paired_Ex)
  qed (rule less, simp_all)
  then show ?case by (subst find_wait.simps) (simp del: split_paired_Ex)
qed

lemma ends_find_from_now: "held_stop E T \<Longrightarrow> ends (find_from_now E want)"
  using ends_find_wait by (auto simp: ends_iff find_from_now_def simp del: split_paired_Ex)

lemma ends_scoped: "ends f \<Longrightarrow> ends (scoped f)"
  unfolding ends_iff scoped_def by (fastforce split: option.splits)

lemma ends_exec: "ends (exec f)"
  by (simp add: returns_exec)

lemmas ends_flow = ends_exec returns_guard returns_branch returns_require returns_seqs

section \<open>The clock through the start sensor search\<close>

definition later :: "st \<Rightarrow> st \<Rightarrow> bool" where
  "later s t \<longleftrightarrow> now (mem s) \<le> now (mem t)"

interpretation later: frame_relation later
  by unfold_locales (auto simp: later_def)

lemma later_mem: "mem t = mem s \<Longrightarrow> later s t"
  by (simp add: later_def)

lemma later_delay: "held_stop E T \<Longrightarrow> later s (vTaskDelay E ms s)"
  using held_stop_delays [OF _ delays_delay] by (simp add: later_def)

lemma find_wait_later:
  assumes "find_wait E want st_time s = Some r" "held_stop E T"
  shows "later s (snd r)"
  using assms
proof (induction rule: find_wait_induct)
  case (step f E want st_time s r)
  have "later s (snd r)" if "f E want st_time (vTaskDelay E 10 s) = Some r"
    using step(1) [OF that step(3)] later_delay [OF step(3)] by (blast intro: later.trans)
  then show ?case using step(2) by (auto split: if_splits intro: later_mem)
qed

lemma later_find: "held_stop E T \<Longrightarrow> obeys later (find_from_now E want)"
  by (auto intro!: obeysI simp: find_from_now_def dest!: find_wait_later)

definition off_search :: "env \<Rightarrow> int \<Rightarrow> st stmt list" where
  "off_search E d =
     [exec (send_scpspin_motor_msg_ex SCP_SPIN_CMD 360 (if d = 1 then FORWARD else REVERSE) 100 30000 False),
      find_from_now E True,
      exec (send_scpspin_motor_msg_ex SCP_SPIN_CMD 0 STOP 0 0 False)]"

lemma origin_from_off_eq:
  "origin_from_off E d s = seqs (off_search E d @ [exec (vTaskDelay E 100), guard not_estop]) s"
  by (simp add: origin_from_off_def off_search_def)

lemma off_search_later: "held_stop E T \<Longrightarrow> obeys later (seqs (off_search E d))"
  by (rule later.seqs_obeys) (simp add: off_search_def later_find obeys_exec later_mem)

lemma ends_off: "held_stop E T \<Longrightarrow> ends (origin_from_off E d)"
  unfolding origin_from_off_def by (rule returns_seqs) (simp add: ends_flow ends_find_from_now)

lemma ends_on: "held_stop E T \<Longrightarrow> ends (origin_from_on E)"
  unfolding origin_from_on_def by (rule returns_seqs) (simp add: ends_flow ends_find_from_now)

text \<open>A failed attempt that is to be repeated took time before \<open>T\<close>.\<close>

lemma off_again:
  assumes "held_stop E T" "origin_from_off E d s = Some (True, u)"
  shows "\<not> emergency_stop_flag (mem u) \<and> left T u < left T s"
proof -
  obtain t where t: "seqs (off_search E d) s = Some (True, t)" "u = vTaskDelay E 100 t"
    and ne: "not_estop u"
    using assms(2) by (auto simp: origin_from_off_eq seqs_append flow_simps split: option.splits if_splits)
  have "now (mem s) \<le> now (mem t)"
    using obeysD [OF off_search_later [OF assms(1)] t(1)] by (simp add: later_def)
  from held_stop_delay [OF assms(1) this, of 100] ne t(2) show ?thesis by (simp add: not_estop_def)
qed

lemma ends_origin_search:
  assumes "held_stop E T"
  shows "\<exists>r. origin_search E d s = Some r"
proof (induction "left T s" arbitrary: s rule: less_induct)
  case less
  let ?s = "s\<lparr>msg := zero_mt\<rparr>"
  obtain ok1 u1 where on: "origin_from_on E ?s = Some (ok1, u1)"
    using ends_on [OF assms] unfolding ends_iff by fastforce
  obtain ok u where off: "origin_from_off E d ?s = Some (ok, u)"
    using ends_off [OF assms] unfolding ends_iff by fastforce
  have "\<exists>r. origin_search E d u = Some r" if ok
    using off_again [OF assms, of d ?s u] off that by (intro less) simp
  then show ?case using on off by (subst origin_search.simps) (simp del: split_paired_Ex)
qed

lemma ends_find_st: "held_stop E T \<Longrightarrow> ends (scp_spin_find_st_origin E d)"
  unfolding scp_spin_find_st_origin_def
  by (rule ends_scoped) (simp add: ends_iff ends_origin_search del: split_paired_Ex)

section \<open>Every scenario ends under a held stop\<close>

lemma ends_drive_soft: "ends (drive_main_cover_soft E dir 100)"
  unfolding ends_iff using drive_main_cover_soft_exact [of E dir] by blast

lemma ends_spin: "held_stop E T \<Longrightarrow> ends (spin_and_wait E a d v t gap)"
  unfolding spin_and_wait_def by (rule returns_seqs) (simp add: ends_flow ends_waits)

lemma ends_scoop: "held_stop E T \<Longrightarrow> ends (scoop_and_wait E d t status gap)"
  unfolding scoop_and_wait_def by (rule returns_seqs) (simp add: ends_flow ends_waits)

lemma ends_aborts: "ends calib_abort" "ends recovery_abort" "ends manage_exit"
  by (simp_all add: ends_iff calib_abort_def recovery_abort_def manage_exit_def Let_def del: split_paired_Ex)

lemmas ends_blocks = ends_flow ends_waits ends_find_st ends_spin ends_scoop ends_drive_soft

lemma ends_calibration: "held_stop E T \<Longrightarrow> ends (motor_calibration E)"
  unfolding motor_calibration_def
  by (rule ends_scoped, rule returns_with_exit, rule returns_seqs)
    (simp_all add: ends_blocks ends_aborts)

lemma ends_calibration_recovery: "held_stop E T \<Longrightarrow> ends (motor_calibration_recovery E)"
  unfolding motor_calibration_recovery_def
  by (rule ends_scoped, rule returns_with_exit, rule returns_seqs)
    (simp_all add: ends_blocks ends_aborts)

lemma ends_nil: "ends (seqs [])"
  by (simp add: ends_iff del: split_paired_Ex)

lemma ends_recovery: "held_stop E T \<Longrightarrow> ends (do_clean_resume_recovery E)"
  unfolding do_clean_resume_recovery_def
  by (rule ends_scoped, rule returns_with_exit, rule returns_seqs)
    (simp_all add: ends_blocks ends_aborts ends_calibration_recovery ends_nil)

lemma ends_waste_close:
  assumes "held_stop E T"
  shows "ends (waste_close E rs)"
proof -
  have "\<exists>r. waste_close E rs s = Some r" for s
  proof (induction rs arbitrary: s)
    case (Cons a rs)
    obtain r u where "wait_motor_operation E STEP_MOTOR WASTE_COVER_MOTOR 15000 MT_CLOSE (waste_reopen E a s) = Some (r, u)"
      using ends_waits(1) [OF assms] unfolding ends_iff by fastforce
    then show ?case using Cons by (simp add: Let_def del: split_paired_Ex)
  qed (simp del: split_paired_Ex)
  then show ?thesis by (simp add: ends_iff del: split_paired_Ex)
qed

lemma ends_open:
  assumes "held_stop E T"
  shows "ends (open_main_cover E)"
proof -
  have "\<exists>r. open_main_cover E s = Some r" for s
  proof -
    obtain r u where "wait_motor_operation E DC_MOTOR MAIN_COVER_MOTOR 20000 MT_OPEN s = Some (r, u)"
      using ends_waits(1) [OF assms] unfolding ends_iff by fastforce
    then show ?thesis by (simp add: open_main_cover_def flow_simps del: split_paired_Ex)
  qed
  then show ?thesis by (simp add: ends_iff del: split_paired_Ex)
qed

lemma ends_tof: "held_stop E T \<Longrightarrow> ends (CHECK_TOF_PAUSE E)"
  using ends_pause_wait [of E T] unfolding ends_iff CHECK_TOF_PAUSE_def
  by (auto split: prod.splits simp del: split_paired_Ex)

lemma ends_estop_exit: "held_stop E T \<Longrightarrow> ends (estop_exit E)"
  using ends_recovery [of E T] unfolding ends_iff estop_exit_def
  by (auto simp: Let_def simp del: split_paired_Ex)

lemma ends_do_clean:
  assumes "held_stop E T"
  shows "\<exists>r s'. do_clean E arg s = Some (r, s')"
proof -
  have "list_all ends (do_clean_body E)"
    unfolding do_clean_body_def clean_opening_def clean_collect_def clean_dump_def clean_closing_def
    by (simp add: ends_flow ends_drive_soft ends_waits [OF assms] ends_spin [OF assms]
        ends_scoop [OF assms] ends_calibration [OF assms] ends_nil
        ends_waste_close [OF assms] ends_open [OF assms] ends_tof [OF assms] CHECK_ESTOP_def)
  then have "ends (with_exit (do_clean_body E) (estop_exit E))"
    using ends_estop_exit [OF assms] by (intro returns_with_exit returns_seqs)
  then show ?thesis unfolding ends_iff do_clean_def by fastforce
qed

section \<open>A sensor that never shows\<close>

definition st_dead :: "mem \<Rightarrow> bool" where
  "st_dead m \<longleftrightarrow> \<not> bit_set (get_pt_status (sensors m)) PT_BIT_SCP_SPIN_ST \<and> \<not> emergency_stop_flag m"

lemma find_wait_dead:
  assumes "find_wait E True st_time s = Some r" "env_keeps E st_dead" "st_dead (mem s)"
  shows "fst r \<and> st_dead (mem (snd r))"
  using assms
proof (induction rule: find_wait_induct)
  case (step f E want st_time s r)
  have "st_dead (mem (vTaskDelay E 10 s))"
    using keeps_delay [OF step(3), of s 10] step(4) by (simp add: keeps_def)
  then have "fst r \<and> st_dead (mem (snd r))" if "f E want st_time (vTaskDelay E 10 s) = Some r"
    using step(1) [OF that step(3)] by simp
  then show ?case using step(2,4) by (auto split: if_splits simp: st_dead_def)
qed

lemma off_search_dead:
  assumes "env_keeps E st_dead" "st_dead (mem s)" "origin_from_off E d s = Some (ok, u)"
  shows "ok \<and> st_dead (mem u)"
proof -
  let ?v = "send_scpspin_motor_msg_ex SCP_SPIN_CMD 360 (if d = 1 then FORWARD else REVERSE) 100 30000 False s"
  obtain b t where f: "find_wait E True (now (mem s)) ?v = Some (b, t)"
    using assms(3) by (auto simp: origin_from_off_def flow_simps find_from_now_def split: option.splits)
  have b: b and t: "st_dead (mem t)"
    using find_wait_dead [OF f assms(1)] assms(2) by auto
  let ?u = "vTaskDelay E 100 (send_scpspin_motor_msg_ex SCP_SPIN_CMD 0 STOP 0 0 False t)"
  have u: "st_dead (mem ?u)"
    using keeps_delay [OF assms(1), of "send_scpspin_motor_msg_ex SCP_SPIN_CMD 0 STOP 0 0 False t" 100] t
    by (simp add: keeps_def)
  then have "(ok, u) = (True, ?u)"
    using assms(3) f b by (simp add: origin_from_off_def flow_simps find_from_now_def not_estop_def st_dead_def)
  with u show ?thesis by simp
qed

lemma origin_search_dead:
  assumes "origin_search E d s = Some r" "env_keeps E st_dead"
  shows "\<not> st_dead (mem s)"
  using assms
proof (induction rule: origin_search_induct)
  case (step f E d s r)
  show ?case
  proof
    assume dead: "st_dead (mem s)"
    let ?s = "s\<lparr>msg := zero_mt\<rparr>"
    have ns: "\<not> bit_set (pt_of s) PT_BIT_SCP_SPIN_ST" "\<not> emergency_stop_flag (mem s)"
      using dead by (simp_all add: st_dead_def)
    obtain ok u where off: "origin_from_off E d ?s = Some (ok, u)"
      using step(2) ns by (cases "origin_from_off E d ?s") auto
    have f: "ok \<Longrightarrow> f E d u = Some r" using step(2) ns off by simp
    from off_search_dead [OF step(3) _ off] dead have "ok" "st_dead (mem u)" by simp_all
    with f step(1) [of E d u r] step(3) show False by simp
  qed
qed

section \<open>Clock bound of a timed wait\<close>

definition real_time :: "env \<Rightarrow> bool" where
  "real_time E \<longleftrightarrow> (\<forall>tr ms m. now m + 1000 * int ms \<le> now (E tr ms m))"

lemma real_time_delays: "real_time E \<Longrightarrow> delays E s t \<Longrightarrow> now (mem s) \<le> now (mem t)"
proof (erule delays_keeps)
  fix ms and t :: st assume "real_time E" "now (mem s) \<le> now (mem t)"
  moreover from this have "now (mem t) + 1000 * int ms \<le> now (mem (vTaskDelay E ms t))"
    by (simp add: real_time_def vTaskDelay_def)
  ultimately show "now (mem s) \<le> now (mem (vTaskDelay E ms t))" by linarith
qed simp

lemma wait_turns_time:
  assumes "real_time E"
  shows "wait_turns E n s = Some (0, s') \<Longrightarrow> now (mem s) + 100000 * int n \<le> now (mem s')"
proof (induction n arbitrary: s)
  case (Suc n)
  obtain t where p: "pause_wait E s = Some (True, t)"
    and r: "wait_turns E n (vTaskDelay E 100 t) = Some (0, s')"
    using Suc.prems by (auto split: option.splits if_splits)
  have "now (mem s) \<le> now (mem t)" using real_time_delays [OF assms pause_wait_delays [OF p]] by simp
  moreover have "now (mem t) + 1000 * int 100 \<le> now (mem (vTaskDelay E 100 t))"
    using assms unfolding real_time_def vTaskDelay_def by (simp del: of_nat_numeral)
  moreover have "now (mem (vTaskDelay E 100 t)) + 100000 * int n \<le> now (mem s')" using Suc.IH [OF r] .
  ultimately show ?case by simp
qed simp

section \<open>Properties\<close>

text \<open>
  C6: an emergency stop that is held from some time on ends a clean: whatever else happens, every
  loop of the scenario, its calibration and its recovery is left and \<open>do_clean\<close> returns.
\<close>

theorem held_stop_ends_clean:
  "held_stop E T \<Longrightarrow> \<exists>r s'. do_clean E arg s = Some (r, s')"
  by (rule ends_do_clean)

theorem held_stop_ends_clean_witness:
  "held_stop estop_env 0 \<and> (\<exists>r s'. do_clean estop_env 7 (start_st boot_mem) = Some (r, s'))"
proof -
  have "held_stop estop_env 0" by (simp add: held_stop_def estop_env_def tick_def)
  with held_stop_ends_clean show ?thesis by blast
qed

text \<open>
  C39: when the spin start sensor never shows and nobody stops the scoop, the search for it never
  returns: each attempt of 30 s is followed by another.
\<close>

theorem dead_sensor_search_never_returns:
  assumes "\<And>tr ms m. st_dead m \<Longrightarrow> st_dead (E tr ms m)" and "st_dead (mem s)"
  shows "scp_spin_find_st_origin E d s = None"
proof -
  have "origin_search E d (s\<lparr>msg := zero_mt, led_msg := zero_ms\<rparr>) = None"
    using origin_search_dead [of E d "s\<lparr>msg := zero_mt, led_msg := zero_ms\<rparr>"] assms
    by (cases "origin_search E d (s\<lparr>msg := zero_mt, led_msg := zero_ms\<rparr>)") (auto simp: env_keeps_def)
  then show ?thesis by (simp add: scp_spin_find_st_origin_def scoped_def)
qed

theorem dead_sensor_search_never_returns_witness:
  "st_dead boot_mem \<and> scp_spin_find_st_origin tick 1 (start_st boot_mem) = None"
proof -
  have dead: "st_dead boot_mem" by code_simp
  have "scp_spin_find_st_origin tick 1 (start_st boot_mem) = None"
    by (rule dead_sensor_search_never_returns) (use dead in \<open>simp_all add: st_dead_def tick_def start_st_def\<close>)
  with dead show ?thesis by simp
qed

text \<open>
  A calibration forgets an emergency stop raised before it: it behaves the same whether or not
  the flag was set when it was called.
\<close>

theorem calibration_forgets_emergency_stop:
  "motor_calibration E (upd_mem (\<lambda>m. m\<lparr>emergency_stop_flag := True\<rparr>) s)
    = motor_calibration E (upd_mem (\<lambda>m. m\<lparr>emergency_stop_flag := False\<rparr>) s)"
  by (simp add: motor_calibration_def scoped_def with_exit_def exec_def clear_emergency_stop_def upd_mem_def
      cong: option.case_cong)

text \<open>
  What a wait for a motor reports.  0 means that the limit it waited for shows, or that more
  than 300 ms have passed and the motor does not run any more; -1 means a stop or recovery
  request, or that the timeout has passed.
\<close>

theorem wait_motor_operation_verdict:
  assumes "wait_motor_operation E sel mt timeout status s = Some (r, s')"
  shows "(r = 0 \<and> (pt_at sel mt s' = 1 \<and> status = MT_OPEN \<or> pt_at sel mt s' = -1 \<and> status = MT_CLOSE
            \<or> (now (mem s') - now (mem (vTaskDelay E 150 s))) sdiv 1000 > 300 \<and> motor_stopped sel mt s'))
    \<or> (r = -1 \<and> (emergency_stop_flag (mem s') \<or> clean_resume_recovery_requested (mem s')
            \<or> (now (mem s') - now (mem (vTaskDelay E 150 s))) sdiv 1000 \<ge> timeout))"
  using wait_loop_result [of E sel mt timeout status "now (mem (vTaskDelay E 150 s))" "vTaskDelay E 150 s"] assms
  by (fastforce simp: wait_motor_operation_def Let_def wait_verdict_def elapsed_ms_def)

theorem wait_motor_operation_verdict_witness:
  "\<exists>s'. wait_motor_operation estop_env DC_MOTOR MAIN_COVER_MOTOR 100 MT_OPEN (start_st boot_mem) = Some (-1, s')
    \<and> emergency_stop_flag (mem s')"
proof -
  have "\<exists>s'. wait_motor_operation estop_env DC_MOTOR MAIN_COVER_MOTOR 100 MT_OPEN (start_st boot_mem) = Some (-1, s')"
    by (simp add: clean_run_simps estop_env_def tick_def)
  then obtain s' where s': "wait_motor_operation estop_env DC_MOTOR MAIN_COVER_MOTOR 100 MT_OPEN (start_st boot_mem) = Some (-1, s')"
    by blast
  moreover have "emergency_stop_flag (mem s')"
    using s' by (auto simp: clean_run_simps estop_env_def tick_def)
  ultimately show ?thesis using wait_motor_operation_verdict [OF s'] by blast
qed

text \<open>
  \<open>wait_duration(ms)\<close> reports success only after at least \<open>ms\<close> milliseconds, pauses
  included, when a delay lasts at least as long as asked.
\<close>

theorem wait_duration_lasts:
  assumes "\<And>tr k m. now m + 1000 * int k \<le> now (E tr k m)"
    and "wait_duration E ms s = Some (0, s')"
  shows "now (mem s) + 1000 * ms \<le> now (mem s')"
proof -
  define cnt where "cnt = (if ms smod 100 \<noteq> 0 then ms sdiv 100 + 1 else ms sdiv 100)"
  have ge: "100 \<le> ms" and run: "wait_turns E (nat cnt) s = Some (0, s')"
    using assms(2) by (auto simp: wait_duration_def Let_def cnt_def split: if_splits)
  have "ms \<le> 100 * cnt" "0 \<le> cnt" using ge
    by (auto simp: cnt_def signed_divide_int_def signed_modulo_int_def)
  moreover have "now (mem s) + 100000 * int (nat cnt) \<le> now (mem s')"
    using wait_turns_time [of E, OF _ run] assms(1) by (simp add: real_time_def)
  ultimately show ?thesis by simp
qed

theorem wait_duration_lasts_witness:
  "\<exists>s'. wait_duration tick 150 (start_st boot_mem) = Some (0, s') \<and> 150000 \<le> now (mem s')"
proof -
  have "\<exists>s'. wait_duration tick 150 (start_st boot_mem) = Some (0, s')"
    by (simp add: clean_run_simps tick_def signed_divide_int_def signed_modulo_int_def numeral_2_eq_2)
  then obtain s' where s': "wait_duration tick 150 (start_st boot_mem) = Some (0, s')" by blast
  have "now (mem (start_st boot_mem)) + 1000 * 150 \<le> now (mem s')"
    by (rule wait_duration_lasts [OF _ s']) (simp add: tick_def)
  with s' show ?thesis by (simp add: start_st_def boot_mem_def)
qed

text \<open>
  The soft drive of the main cover always ends, and posts exactly the speeds
  100, 70, 80, 90, 100 in the asked direction, in the message field the receiver ignores.
\<close>

theorem soft_drive_speeds:
  "\<exists>s'. drive_main_cover_soft E dir 100 s = Some (True, s')
    \<and> trace s' = trace s @ map (cover_msg dir) [100, 70, 80, 90, 100]"
  using drive_main_cover_soft_exact [of E dir s] by blast

text \<open>
  Pausing stops every motor and sets the pause flag; the same button during a pause posts
  nothing, ends the pause and requests the recovery.
\<close>

theorem pause_button:
  "if clean_pause_flag (mem s)
   then trace (toggle_clean_pause s) = trace s \<and> \<not> clean_pause_flag (mem (toggle_clean_pause s))
      \<and> clean_resume_recovery_requested (mem (toggle_clean_pause s))
   else halted (trace (toggle_clean_pause s)) \<and> clean_pause_flag (mem (toggle_clean_pause s))
      \<and> clean_resume_recovery_requested (mem (toggle_clean_pause s)) = clean_resume_recovery_requested (mem s)"
  by (simp add: toggle_clean_pause_def scoped_exec_def pause_stops_def Let_def halted_def ends_simps
      del: trace_sends)

text \<open>
  The button that resumes a distance pause clears the pause flag and requests the recovery in
  one go, so the waiting loop ends normally, its check for a recovery request is skipped, and the
  scenario goes on to drive the scoop in although an obstacle was measured.
\<close>

theorem resume_after_obstacle_moves_scoop:
  assumes "get_fresh_tof_distance E s = (d, t)" "0 < d" "d \<le> 550"
    and "\<not> emergency_stop_flag (mem t)" "\<not> clean_resume_recovery_requested (mem t)"
    and "\<And>tr m. clean_pause_flag m \<Longrightarrow>
          \<not> clean_pause_flag (E tr 100 m) \<and> clean_resume_recovery_requested (E tr 100 m)"
  shows "\<exists>s' m. seqs [CHECK_TOF_PAUSE E, exec (send_scpinout_msg SCP_INOUT_CMD 0 REVERSE 10000)] s = Some (True, s')
    \<and> clean_resume_recovery_requested (mem s')
    \<and> last (trace s') = ScpinoutQ m \<and> mt_direction m = REVERSE"
proof -
  let ?p = "upd_mem (\<lambda>m. m\<lparr>clean_pause_flag := True\<rparr>) (scoped_exec pause_stops t)"
  have mem: "mem ?p = (mem t)\<lparr>clean_pause_flag := True\<rparr>"
    by (simp add: scoped_exec_def pause_stops_def Let_def)
  then have flags: "clean_pause_flag (mem ?p)" "\<not> stop_or_recover ?p" using assms(4,5) by simp_all
  let ?q = "vTaskDelay E 100 ?p"
  have q: "\<not> clean_pause_flag (mem ?q)" "clean_resume_recovery_requested (mem ?q)"
    using assms(6) [OF flags(1)] by (simp_all add: vTaskDelay_def)
  have "pause_wait E ?p = pause_wait E ?q" using flags by (subst pause_wait.simps) simp
  also have "\<dots> = Some (True, ?q)" using q by (subst pause_wait.simps) simp
  finally have "CHECK_TOF_PAUSE E s = Some (True, ?q)"
    using assms(1-3) by (simp add: CHECK_TOF_PAUSE_def)
  then show ?thesis using q(2) by (simp add: exec_def send_defs)
qed

definition cat_env :: env where
  "cat_env tr ms m =
     (let m = tick tr ms m in
      if clean_pause_flag m
      then m\<lparr>clean_pause_flag := False, clean_resume_recovery_requested := True\<rparr>
      else m\<lparr>sensors := snd (tof_proc 300 (sensors m))\<rparr>)"

theorem resume_after_obstacle_moves_scoop_witness:
  "\<exists>s' m. seqs [CHECK_TOF_PAUSE cat_env, exec (send_scpinout_msg SCP_INOUT_CMD 0 REVERSE 10000)]
      (start_st boot_mem) = Some (True, s')
    \<and> clean_resume_recovery_requested (mem s') \<and> last (trace s') = ScpinoutQ m \<and> mt_direction m = REVERSE"
proof -
  obtain d t where f: "get_fresh_tof_distance cat_env (start_st boot_mem) = (d, t)" by fastforce
  have "fst (get_fresh_tof_distance cat_env (start_st boot_mem)) = 300
      \<and> \<not> stop_or_recover (snd (get_fresh_tof_distance cat_env (start_st boot_mem)))"
    by code_simp
  with f have "d = 300" "\<not> emergency_stop_flag (mem t)" "\<not> clean_resume_recovery_requested (mem t)"
    by simp_all
  then show ?thesis
    by (intro resume_after_obstacle_moves_scoop [OF f]) (simp_all add: cat_env_def tick_def)
qed

end
