(* ===== verification/Motor_Props.thy ===== *)
theory Motor_Props
  imports Dc_Motor Step_Motor
begin

text \<open>
  What the motor controllers guarantee on their own: no motor is driven into a limit its sensor
  reports, and the steppers turn exactly as far as they are told.
\<close>

section \<open>Limits\<close>

definition into_limit :: "bool \<Rightarrow> int \<Rightarrow> bool" where
  "into_limit dir status \<longleftrightarrow> dir \<and> status = 1 \<or> \<not> dir \<and> status = -1"

lemma into_limit_iff:
  "\<not> into_limit d p \<longleftrightarrow> \<not> (d \<and> p = 1) \<and> \<not> (\<not> d \<and> p = -1)"
  by (auto simp: into_limit_def)

text \<open>
  C3: after any commands and sensor readings, a scoop, main cover or waste cover motor that is
  running does not run in the direction of the limit its sensor reported at the last turn.
\<close>

theorem never_driven_into_limit:
  assumes "dc_ok s" "dc_ok c" "waste_ok w" "xs \<noteq> []"
  shows "\<not> (mt_run (scpinout_ctl.turns xs s)
        \<and> into_limit (mt_dir (scpinout_ctl.turns xs s)) (pt_check DC_MOTOR SCPINOUT_MOTOR (fst (last xs))))
    \<and> \<not> (mt_run (main_ctl.turns xs c)
        \<and> into_limit (mt_dir (main_ctl.turns xs c)) (pt_check DC_MOTOR MAIN_COVER_MOTOR (fst (last xs))))
    \<and> \<not> (waste_run (waste_ctl.turns xs w)
        \<and> into_limit (waste_dir (waste_ctl.turns xs w)) (pt_check STEP_MOTOR WASTE_COVER_MOTOR (fst (last xs))))"
  using scpinout_ctl.never_into_limit [OF assms(1,4)] main_ctl.never_into_limit [OF assms(2,4)]
    waste_ctl.never_into_limit [OF assms(3,4)]
  by (auto simp: into_limit_iff)

definition open_at_limit :: "(sensor_state \<times> mt_message option) list" where
  "open_at_limit = [(sensor_reset_state, Some (zero_mt\<lparr>mt_cmd := MAIN_COVER_CMD, mt_direction := FORWARD\<rparr>)),
     (set_pt_status PT_BIT_MCOVER_OPEN sensor_reset_state, None)]"

theorem never_driven_into_limit_witness:
  "\<not> mt_run (main_ctl.turns open_at_limit dc_off)"
proof -
  have "mt_dir (main_cmd_task (set_pt_status PT_BIT_MCOVER_OPEN sensor_reset_state) None
      (main_cmd_task sensor_reset_state
        (Some (zero_mt\<lparr>mt_cmd := MAIN_COVER_CMD, mt_direction := FORWARD\<rparr>)) dc_off))" by code_simp
  then have "mt_dir (main_ctl.turns open_at_limit dc_off)" by (simp add: open_at_limit_def)
  moreover have "pt_check DC_MOTOR MAIN_COVER_MOTOR (fst (last open_at_limit)) = 1" by code_simp
  moreover have "open_at_limit \<noteq> []" by (simp add: open_at_limit_def)
  ultimately show ?thesis
    using never_driven_into_limit [OF dc_off_ok dc_off_ok waste_off_ok, of open_at_limit]
    by (auto simp: into_limit_def)
qed

section \<open>Waste cover\<close>

text \<open>The phase the coils are put in by pulse \<open>k\<close> of a move.\<close>

definition phase_of_pulse :: "bool \<Rightarrow> nat \<Rightarrow> int" where
  "phase_of_pulse d k = (if d then int k mod 4 else (- int k) mod 4)"

lemma waste_phase_pulse:
  assumes "waste_run m" "0 \<le> waste_phase m" "waste_phase m < 4"
  shows "waste_phase (waste_motor_timer_callback m) = (waste_phase m + (if waste_dir m then 1 else -1)) mod 4"
    "waste_dir (waste_motor_timer_callback m) = waste_dir m"
    "(waste_in1 (waste_motor_timer_callback m), waste_in2 (waste_motor_timer_callback m))
      = phase_table ! nat (waste_phase m)"
proof -
  have s: "x smod 4 = x mod 4" if "0 \<le> x" for x :: int
    using that by (simp add: signed_modulo_int_def sgn_if)
  have "(waste_phase m + 3) mod 4 = (waste_phase m - 1) mod 4"
    using mod_add_self2 [of "waste_phase m - 1" 4] by (simp add: add.commute)
  then show "waste_phase (waste_motor_timer_callback m) = (waste_phase m + (if waste_dir m then 1 else -1)) mod 4"
    using assms s [of "waste_phase m + 1"] s [of "waste_phase m - 1 + 4"]
    by (simp add: waste_motor_timer_callback_def waste_enable_def timer_stop_def Let_def add.commute)
  show "waste_dir (waste_motor_timer_callback m) = waste_dir m"
    "(waste_in1 (waste_motor_timer_callback m), waste_in2 (waste_motor_timer_callback m))
      = phase_table ! nat (waste_phase m)"
    using assms by (simp_all add: waste_motor_timer_callback_def waste_enable_def timer_stop_def Let_def)
qed

lemma phase_of_next_pulse: "(phase_of_pulse d k + (if d then 1 else - 1)) mod 4 = phase_of_pulse d (Suc k)"
proof (cases d)
  case True
  have "(int k mod 4 + 1) mod 4 = int (Suc k) mod 4" by presburger
  with True show ?thesis unfolding phase_of_pulse_def by (simp only: if_True)
next
  case False
  have "((- int k) mod 4 + - 1) mod 4 = (- int (Suc k)) mod 4" by presburger
  with False show ?thesis unfolding phase_of_pulse_def by (simp only: if_False)
qed

lemma waste_move_phase:
  assumes "k < n"
  shows "waste_phase ((waste_motor_timer_callback ^^ k) (waste_motor_move (int n) d m)) = phase_of_pulse d k
    \<and> waste_dir ((waste_motor_timer_callback ^^ k) (waste_motor_move (int n) d m)) = d"
  using assms
proof (induction k)
  case 0
  then show ?case
    by (simp add: waste_motor_move_def waste_enable_def timer_stop_def Let_def phase_of_pulse_def)
next
  case (Suc k)
  let ?m = "(waste_motor_timer_callback ^^ k) (waste_motor_move (int n) d m)"
  have IH: "waste_phase ?m = phase_of_pulse d k" "waste_dir ?m = d" using Suc by simp_all
  have run: "waste_run ?m" using waste_move_pulses(1) [of n k] Suc.prems by simp
  have b: "0 \<le> waste_phase ?m" "waste_phase ?m < 4" unfolding IH phase_of_pulse_def by simp_all
  show ?case
    using waste_phase_pulse [OF run b] IH phase_of_next_pulse [of d k] by simp
qed

text \<open>
  C31: a waste cover move of \<open>n\<close> steps takes exactly \<open>n\<close> timer pulses: the motor runs until
  pulse \<open>n\<close> and is off after it, and pulse \<open>k\<close> puts the coils in phase \<open>k\<close> modulo 4, counted
  upwards when opening and downwards when closing.
\<close>

theorem waste_move_exact:
  assumes "k < n"
  shows "waste_run ((waste_motor_timer_callback ^^ k) (waste_motor_move (int n) d m))
    \<and> (let m' = (waste_motor_timer_callback ^^ Suc k) (waste_motor_move (int n) d m)
       in (waste_in1 m', waste_in2 m')
            = phase_table ! nat (if d then int k mod 4 else (- int k) mod 4))
    \<and> (let m' = (waste_motor_timer_callback ^^ n) (waste_motor_move (int n) d m)
       in \<not> waste_run m' \<and> waste_en m' = 0)"
proof -
  let ?m = "(waste_motor_timer_callback ^^ k) (waste_motor_move (int n) d m)"
  have n: "0 < n" using assms by simp
  note p = waste_move_pulses [OF n assms, of d m] and ph = waste_move_phase [OF assms, of d m]
  have "0 \<le> waste_phase ?m" "waste_phase ?m < 4" using ph by (simp_all add: phase_of_pulse_def)
  from waste_phase_pulse(3) [OF p(1) this] ph p show ?thesis by (simp add: phase_of_pulse_def Let_def)
qed

theorem waste_move_exact_witness:
  "\<not> waste_run ((waste_motor_timer_callback ^^ 2) (waste_motor_move (int 2) True waste_off))"
  using waste_move_exact [of 1 2 True waste_off] by (simp add: Let_def)

section \<open>Scoop spin\<close>

text \<open>
  A spin of \<open>n > 0\<close> steps runs for exactly \<open>n\<close> pulses of its timer, and after the last the
  driver is off unless it is held on; a spin of 0 steps still takes one pulse.
\<close>

theorem spin_move_exact:
  assumes "k < unat n"
  shows "scpspin_run ((mcpwm_timer_full_cb on ^^ k) (scpspin_move n d m))
    \<and> (let m' = (mcpwm_timer_full_cb on ^^ unat n) (scpspin_move n d m)
       in \<not> scpspin_run m' \<and> \<not> spin_timer_on m')
    \<and> (let m' = mcpwm_timer_full_cb on (scpspin_move 0 d m) in \<not> scpspin_run m')"
proof -
  let ?m = "scpspin_move n d m"
  have m: "scpspin_run ?m" "scpspin_cnt ?m = 0" "scpspin_steps ?m = n"
    by (simp_all add: scpspin_move_def spin_enable_def Let_def)
  obtain j where j: "unat n = Suc j" using assms by (cases "unat n") auto
  have "scpspin_run ((mcpwm_timer_full_cb on ^^ k) ?m)"
    using spin_pulses [OF m(1,2), of k on] assms m(3) by (simp add: Let_def)
  moreover have "\<not> scpspin_run ((mcpwm_timer_full_cb on ^^ unat n) ?m)
      \<and> \<not> spin_timer_on ((mcpwm_timer_full_cb on ^^ unat n) ?m)"
    using spin_pulses [OF m(1,2), of j on] spin_last_pulse [of "(mcpwm_timer_full_cb on ^^ j) ?m" on] m(3) j
    by (simp add: Let_def)
  moreover have "\<not> scpspin_run (mcpwm_timer_full_cb on (scpspin_move 0 d m))"
    using spin_last_pulse [of "scpspin_move 0 d m" on] by (simp add: scpspin_move_def spin_enable_def Let_def)
  ultimately show ?thesis by (simp add: Let_def)
qed

theorem spin_move_exact_witness:
  "\<not> scpspin_run ((mcpwm_timer_full_cb False ^^ 3) (scpspin_move 3 True spin_off))"
  using spin_move_exact [of 0 3 False True spin_off] by (simp add: Let_def)

lemma deg_0: "DEG_TO_STEPS 0 = 0" by code_simp
lemma deg_20: "DEG_TO_STEPS 20 = 566" by code_simp
lemma deg_30: "DEG_TO_STEPS 30 = 850" by code_simp
lemma deg_50: "DEG_TO_STEPS 50 = 1416" by code_simp
lemma deg_70: "DEG_TO_STEPS 70 = 1983" by code_simp
lemma deg_75: "DEG_TO_STEPS 75 = 2125" by code_simp
lemma deg_80: "DEG_TO_STEPS 80 = 2266" by code_simp
lemma deg_90: "DEG_TO_STEPS 90 = 2550" by code_simp
lemma deg_120: "DEG_TO_STEPS 120 = 3400" by code_simp
lemma deg_160: "DEG_TO_STEPS 160 = 4533" by code_simp
lemma deg_170: "DEG_TO_STEPS 170 = 4816" by code_simp
lemma deg_220: "DEG_TO_STEPS 220 = 6233" by code_simp
lemma deg_360: "DEG_TO_STEPS 360 = 10200" by code_simp

lemmas deg_steps = deg_0 deg_20 deg_30 deg_50 deg_70 deg_75 deg_80 deg_90 deg_120 deg_160 deg_170 deg_220 deg_360

text \<open>
  For every angle the firmware uses, the single precision conversion gives the exact number of
  steps, 51 for each 1.8 degrees, rounded down; a full turn is 10200 steps.
\<close>

theorem angles_convert_exactly:
  "map (\<lambda>d. unat (DEG_TO_STEPS d)) [0, 20, 30, 50, 70, 75, 80, 90, 120, 160, 170, 220, 360]
    = map (\<lambda>d. d * 510 div 18) [0, 20, 30, 50, 70, 75, 80, 90, 120, 160, 170, 220, 360]
   \<and> unat (DEG_TO_STEPS 360) = 10200"
  by (simp add: deg_steps)

end
