(* ===== verification/Sensor_Props.thy ===== *)
theory Sensor_Props
  imports Sensor
begin

text \<open>
  What the sensor board interface guarantees: the reported distance is the least valid one of the
  last ten samples, the parser consumes exactly the complete lines, stays within its buffers on
  lines of ordinary length, and reads a well-formed sensor line back exactly.
\<close>

section \<open>Distances\<close>

definition last_samples :: "nat \<Rightarrow> 'a list \<Rightarrow> 'a list" where
  "last_samples n xs = drop (length xs - n) xs"

lemma tof_fold_inv:
  "tof_inv s \<Longrightarrow> sensor_enable_f s \<Longrightarrow> tof_inv (fold tof_sample vs s) \<and> sensor_enable_f (fold tof_sample vs s)"
  using tof.inv_pushes [of s vs] by simp

text \<open>
  C30: after a reset and any samples, the distance is the least of the last ten samples that lies
  between 0 and 2000 mm (8191, out of range, counts as 2000), and -1 when there is none.
\<close>

theorem tof_distance_is_window_minimum:
  assumes "length (g_tof_ring_buf s) = 10" "sensor_enable_f s"
  shows "get_tof_distance (fold tof_sample vs (reset_tof_ring_buffer s)) =
    (let ds = filter (\<lambda>v. 0 \<le> v \<and> v \<le> 2000) (last_samples 10 (map tof_processed vs))
     in if ds = [] then -1 else Min (set ds))"
proof -
  let ?r = "reset_tof_ring_buffer s"
  have r: "tof_inv ?r" "sensor_enable_f ?r" using assms tof_inv_reset
    by (auto simp: reset_tof_ring_buffer_def)
  have "tof_window (fold tof_sample vs ?r) = last_samples 10 (map tof_processed vs)"
    using tof.contents_pushes [of ?r vs] r by (simp add: last_samples_def)
  moreover have "valid_distances w = set (filter (\<lambda>v. 0 \<le> v \<and> v \<le> 2000) w)" for w
    by (auto simp: valid_distances_def)
  ultimately show ?thesis
    using get_tof_distance_window [of "fold tof_sample vs ?r"] tof_fold_inv [OF r, of vs]
    by (simp only: Let_def set_empty)
qed

theorem tof_distance_is_window_minimum_witness:
  "get_tof_distance (fold tof_sample [300, 8191, 9000, 450] (reset_tof_ring_buffer sensor_reset_state)) = 300"
proof -
  have "length (g_tof_ring_buf sensor_reset_state) = 10" "sensor_enable_f sensor_reset_state"
    by (simp_all add: sensor_reset_state_def)
  from tof_distance_is_window_minimum [OF this, of "[300, 8191, 9000, 450]"]
  show ?thesis by (simp add: tof_processed_def last_samples_def)
qed

section \<open>The approach detector\<close>

definition approach_inv :: "sensor_state \<Rightarrow> bool" where
  "approach_inv s \<longleftrightarrow> prev_state s = current_state s \<and> 0 \<le> chatter_counter_ms s
     \<and> chatter_counter_ms s < TOF_DEBOUNCE_TIME
     \<and> (current_state s = STATE_NO_APPROACH \<longrightarrow> chatter_counter_ms s = 0)"

lemma approach_inv_debounce: "approach_inv s \<Longrightarrow> approach_inv (tof_debounce v s)"
  by (cases "current_state s") (auto simp: approach_inv_def tof_debounce_def Let_def)

lemma approach_out_of_range:
  assumes "approach_inv s" "current_state s = STATE_APPROACH" "\<forall>v \<in> set vs. v < 0 \<or> 2000 < v"
    and "int (length vs) + chatter_counter_ms s < TOF_DEBOUNCE_TIME"
  shows "current_state (fold tof_debounce vs s) = STATE_APPROACH
    \<and> chatter_counter_ms (fold tof_debounce vs s) = chatter_counter_ms s + int (length vs)"
  using assms
proof (induction vs arbitrary: s)
  case (Cons v vs)
  have "current_state (tof_debounce v s) = STATE_APPROACH"
    "chatter_counter_ms (tof_debounce v s) = chatter_counter_ms s + 1"
    using Cons.prems by (auto simp: tof_debounce_def Let_def)
  with Cons.prems show ?case
    using Cons.IH [of "tof_debounce v s"] approach_inv_debounce [of s v] by simp
qed simp

text \<open>
  An approach once detected is given up by exactly the thirtieth consecutive sample out of
  range, not before.
\<close>

theorem approach_released_after_thirty:
  assumes "approach_inv s" "current_state s = STATE_APPROACH" "chatter_counter_ms s = 0"
    and "\<forall>v \<in> set vs. v < 0 \<or> 2000 < v" "length vs \<le> 30"
  shows "current_state (fold tof_debounce vs s) = (if length vs < 30 then STATE_APPROACH else STATE_NO_APPROACH)"
proof (cases "length vs < 30")
  case True
  then show ?thesis using approach_out_of_range [of s vs] assms by simp
next
  case False
  with assms(5) obtain ws w where ws: "vs = ws @ [w]" "length ws = 29" by (cases vs rule: rev_cases) auto
  then have "current_state (fold tof_debounce ws s) = STATE_APPROACH"
    "chatter_counter_ms (fold tof_debounce ws s) = 29" "w < 0 \<or> 2000 < w"
    using approach_out_of_range [of s ws] assms by auto
  then show ?thesis using ws by (auto simp: tof_debounce_def Let_def)
qed

theorem approach_released_after_thirty_witness:
  "current_state (fold tof_debounce (replicate 30 (-1)) (tof_debounce 100 sensor_reset_state)) = STATE_NO_APPROACH"
proof -
  have "approach_inv (tof_debounce 100 sensor_reset_state)"
    by (simp add: approach_inv_def tof_debounce_def sensor_reset_state_def)
  from approach_released_after_thirty [OF this, of "replicate 30 (-1)"]
  show ?thesis by (simp add: tof_debounce_def sensor_reset_state_def)
qed

section \<open>Parsing\<close>

lemma get_line_split:
  "get_line p = (if CHR 0x0A \<in> set p
     then Some (takeWhile (\<lambda>c. c \<noteq> CHR 0x0A) p, tl (dropWhile (\<lambda>c. c \<noteq> CHR 0x0A) p)) else None)"
  by (induction p) auto

lemma get_line_append: "CHR 0x0A \<notin> set l \<Longrightarrow> get_line (l @ CHR 0x0A # r) = Some (l, r)"
  by (induction l) auto

text \<open>The complete lines of a text and the unfinished rest.\<close>

definition join_lines :: "char list list \<Rightarrow> char list" where
  "join_lines ls = concat (map (\<lambda>l. l @ [CHR 0x0A]) ls)"

fun run_lines :: "(int list \<Rightarrow> 'l \<Rightarrow> 'l) \<Rightarrow> char list list \<Rightarrow> 'l board \<Rightarrow> 'l board option" where
  "run_lines lc [] b = Some b"
| "run_lines lc (l # ls) b =
     (if length l < UART_BUF_SIZE then
        (case parse_line lc l b of None \<Rightarrow> None | Some b' \<Rightarrow> run_lines lc ls b')
      else None)"

lemma parse_lines_run:
  assumes "\<forall>l \<in> set ls. CHR 0x0A \<notin> set l" "CHR 0x0A \<notin> set rest"
  shows "parse_lines lc (join_lines ls @ rest) used b
    = map_option (\<lambda>b'. (used + length (join_lines ls), b')) (run_lines lc ls b)"
  using assms
proof (induction ls arbitrary: used b)
  case Nil
  then show ?case by (simp add: join_lines_def parse_lines.simps get_line_split)
next
  case (Cons l ls)
  have g: "get_line (join_lines (l # ls) @ rest) = Some (l, join_lines ls @ rest)"
    using Cons.prems get_line_append [of l "join_lines ls @ rest"] by (simp add: join_lines_def)
  have len: "length (join_lines (l # ls)) = length l + 1 + length (join_lines ls)"
    by (simp add: join_lines_def)
  show ?case
    using Cons by (simp add: parse_lines.simps [of lc "join_lines (l # ls) @ rest"] g len
        ac_simps split: option.splits)
qed

lemma parser_runs_lines:
  assumes "\<forall>l \<in> set ls. CHR 0x0A \<notin> set l \<and> CHR 0x00 \<notin> set l" "CHR 0x0A \<notin> set rest" "CHR 0x00 \<notin> set rest"
  shows "sensor_data_parser lc (join_lines ls @ rest) b
    = map_option (\<lambda>b'. (length (join_lines ls), b')) (run_lines lc ls b)"
proof -
  have "CHR 0x00 \<notin> set (join_lines ls @ rest)" using assms by (auto simp: join_lines_def)
  then show ?thesis using parse_lines_run [of ls rest lc 0 b] assms by (simp add: sensor_data_parser_def)
qed

text \<open>
  The parser handles exactly the complete lines, in order, and reports as consumed all
  characters up to and including the last newline; an unfinished line is left for the next call.
\<close>

theorem parser_consumes_complete_lines:
  assumes "\<forall>l \<in> set ls. CHR 0x0A \<notin> set l \<and> CHR 0x00 \<notin> set l" "CHR 0x0A \<notin> set rest" "CHR 0x00 \<notin> set rest"
  shows "sensor_data_parser lc (join_lines ls @ rest) b
    = map_option (\<lambda>b'. (length (join_lines ls), b')) (run_lines lc ls b)"
  using assms by (rule parser_runs_lines)

definition idle_board :: "int list board" where
  "idle_board = \<lparr>sens = sensor_reset_state, cells = [], board_out = []\<rparr>"

theorem parser_consumes_complete_lines_witness:
  "map_option fst (sensor_data_parser (\<lambda>v _. v) (join_lines [''ST: OK'', ''hello''] @ ''SS: 1'') idle_board) = Some 13"
proof -
  have "sensor_data_parser (\<lambda>v _. v) (join_lines [''ST: OK'', ''hello''] @ ''SS: 1'') idle_board
    = map_option (\<lambda>b'. (length (join_lines [''ST: OK'', ''hello'']), b'))
        (run_lines (\<lambda>v _. v) [''ST: OK'', ''hello''] idle_board)"
    by (rule parser_consumes_complete_lines) simp_all
  then show ?thesis by (simp add: join_lines_def parse_line_def starts_with_def)
qed

lemma parse_line_short: "length l < 36 \<Longrightarrow> parse_line lc l b \<noteq> None"
  using length_scan_token_le [of "drop 4 l"] by (auto simp: parse_line_def)

text \<open>
  C37: the parser writes outside no buffer while no line has more than 35 characters.  (An "ST: "
  line with a word of 32 characters overruns the 32-byte status buffer.)
\<close>

theorem parser_memory_safe:
  assumes "\<forall>l \<in> set ls. CHR 0x0A \<notin> set l \<and> CHR 0x00 \<notin> set l \<and> length l < 36"
    "CHR 0x0A \<notin> set rest" "CHR 0x00 \<notin> set rest"
  shows "sensor_data_parser lc (join_lines ls @ rest) b \<noteq> None"
proof -
  have "\<exists>b'. run_lines lc ls b = Some b'"
    using assms(1)
  proof (induction ls arbitrary: b)
    case (Cons l ls)
    obtain b' where "parse_line lc l b = Some b'" using parse_line_short [of l lc b] Cons.prems by auto
    with Cons show ?case by simp
  qed simp
  then show ?thesis using parser_runs_lines [of ls rest lc b] assms by auto
qed

theorem parser_memory_safe_witness:
  "sensor_data_parser (\<lambda>v _. v) (join_lines [''ST: OK''] @ []) idle_board \<noteq> None
   \<and> sensor_data_parser (\<lambda>v _. v) (join_lines [''ST: '' @ replicate 32 (CHR ''x'')]) idle_board = None"
proof
  show "sensor_data_parser (\<lambda>v _. v) (join_lines [''ST: OK''] @ []) idle_board \<noteq> None"
    by (rule parser_memory_safe) simp_all
  show "sensor_data_parser (\<lambda>v _. v) (join_lines [''ST: '' @ replicate 32 (CHR ''x'')]) idle_board = None"
    by code_simp
qed

section \<open>Round trip of a sensor line\<close>

definition sensor_line :: "int list \<Rightarrow> char list" where
  "sensor_line vs = ''SS: '' @ print_ints vs"

definition board_after :: "(int list \<Rightarrow> 'l \<Rightarrow> 'l) \<Rightarrow> int list \<Rightarrow> 'l board \<Rightarrow> 'l board" where
  "board_after lc vs b =
     (let pt = ((word_of_int (vs ! 7) :: u32) AND 0xFFFF) XOR scp_spin_mask
      in b\<lparr>cells := lc (vs @ [0, 0]) (cells b),
           sens := (set_pt_status pt (tof_sample (vs ! 6) (sens b)))\<lparr>prev_pt_value := pt\<rparr>\<rparr>)"

text \<open>
  C25: round trip of the line protocol.  A sensor line printed from eight integers of 32 bits hands exactly
  these integers to the load cells, the seventh to the distance ring and the low 16 bits of the
  eighth, with the two inverted spin sensors corrected, to the photo sensor word.
\<close>

theorem sensor_line_round_trip:
  assumes "length vs = 8" "\<forall>v \<in> set vs. - (2 ^ 31) \<le> v \<and> v < 2 ^ 31"
  shows "sensor_data_parser lc (sensor_line vs @ [CHR 0x0A]) b
    = Some (length (sensor_line vs) + 1, board_after lc vs b)"
proof -
  have nl: "CHR 0x0A \<notin> set (sensor_line vs) \<and> CHR 0x00 \<notin> set (sensor_line vs)"
    using print_ints_no_newline [of vs] by (simp add: sensor_line_def)
  have scan: "scan_ints 8 (print_ints vs) = vs" using scan_ints_print [of vs] assms(1,2) by (simp add: list_all_iff)
  have vals: "take 10 vs @ replicate (10 - length vs) 0 = vs @ [0, 0]" "(vs @ [0, 0]) ! 6 = vs ! 6" "(vs @ [0, 0]) ! 7 = vs ! 7"
    using assms(1) by (simp_all add: nth_append numeral_eq_Suc)
  have len: "length (print_ints vs) < 508" using length_print_ints [of vs] assms by (simp add: list_all_iff)
  have "parse_line lc (sensor_line vs) b = Some (board_after lc vs b)"
    using len by (simp add: parse_line_def sensor_line_def starts_with_def parse_ss_def scan vals
        board_after_def Let_def)
  then have "run_lines lc [sensor_line vs] b = Some (board_after lc vs b)" using len by (simp add: sensor_line_def)
  then show ?thesis
    using parser_runs_lines [of "[sensor_line vs]" "[]" lc b] nl by (simp add: join_lines_def)
qed

theorem sensor_line_round_trip_witness:
  "map_option (cells o snd) (sensor_data_parser (\<lambda>v _. v) (sensor_line [1, -2, 3, 4, 5, 6, 300, 17] @ [CHR 0x0A]) idle_board)
    = Some [1, -2, 3, 4, 5, 6, 300, 17, 0, 0]"
  using sensor_line_round_trip [of "[1, -2, 3, 4, 5, 6, 300, 17]" "\<lambda>v _. v" idle_board] by (simp add: board_after_def Let_def)

end
