(* ===== verification/Keyscan.thy ===== *)
theory Keyscan
  imports Messages
begin

text \<open>
  The three keys, \<open>src/main/keyscan.c\<close>: one pass of the polling task over all keys.  A pass reads
  the clock, the pins and the flags of other components once; what it does is the list of
  messages it sends and calls of \<open>toggle_clean_pause\<close>.
\<close>

abbreviation (input) KEY_CLEAN :: nat where "KEY_CLEAN \<equiv> 14"
abbreviation (input) KEY_CHANGE :: nat where "KEY_CHANGE \<equiv> 15"
abbreviation (input) KEY_SET :: nat where "KEY_SET \<equiv> 16"
abbreviation (input) TIME_THRES_3S :: int where "TIME_THRES_3S \<equiv> 3000"
abbreviation (input) TIME_THRES_5S :: int where "TIME_THRES_5S \<equiv> 5000"
abbreviation (input) TIME_THRES_10S :: int where "TIME_THRES_10S \<equiv> 10000"

record key_state =
  pin :: nat
  is_pressed :: bool
  press_start_time :: int
  event_triggered_3s :: bool
  event_triggered_5s :: bool
  event_triggered_10s :: bool

definition key_of :: "nat \<Rightarrow> key_state" where
  "key_of p = \<lparr>pin = p, is_pressed = False, press_start_time = 0, event_triggered_3s = False,
     event_triggered_5s = False, event_triggered_10s = False\<rparr>"

definition keys_init :: "key_state list" where
  "keys_init = [key_of KEY_CLEAN, key_of KEY_CHANGE, key_of KEY_SET]"

text \<open>What a pass reads: time in ms, the pins (\<open>True\<close> is low, pressed), and the other components.\<close>

record pass_env =
  current_time :: int
  level_low :: "nat \<Rightarrow> bool"
  g_is_system_ready :: bool
  status_diag :: bool
  clean_running :: bool
  task_arg :: u32

datatype key_act = Send out | Toggle_clean_pause

definition ui_msg :: "pass_env \<Rightarrow> u32 \<Rightarrow> key_act" where
  "ui_msg e c = Send (UiQ \<lparr>ms_task_id = task_arg e, ms_cmd = c\<rparr>)"

definition diag_msg :: "pass_env \<Rightarrow> u32 \<Rightarrow> key_act" where
  "diag_msg e c = Send (DiagQ \<lparr>ms_task_id = task_arg e, ms_cmd = c\<rparr>)"

section \<open>One key\<close>

text \<open>The key is down and was down at the last pass.\<close>

definition key_held :: "pass_env \<Rightarrow> nat \<Rightarrow> key_state list \<Rightarrow> key_state list \<times> key_act list" where
  "key_held e i keys =
     (if \<not> g_is_system_ready e then (keys, [])
      else
        let k = keys ! i; duration = current_time e - press_start_time k
        in if duration \<ge> TIME_THRES_10S \<and> \<not> event_triggered_10s k then
             (let keys = keys[i := k\<lparr>event_triggered_10s := True\<rparr>]
              in (keys, if event_triggered_10s (keys ! 1) \<and> event_triggered_10s (keys ! 0)
                        then [ui_msg e UI_FACTORY_CMD] else []))
           else if duration \<ge> TIME_THRES_5S \<and> \<not> event_triggered_5s k then
             (let keys = keys[i := k\<lparr>event_triggered_5s := True\<rparr>]
              in (keys, if pin k = KEY_SET \<and> \<not> is_pressed (keys ! 0) \<and> \<not> is_pressed (keys ! 1)
                        then [ui_msg e UI_PAIRING_CMD] else []))
           else if duration \<ge> TIME_THRES_3S \<and> \<not> event_triggered_3s k then
             (let keys = keys[i := k\<lparr>event_triggered_3s := True\<rparr>]
              in (keys, if pin k = KEY_CHANGE \<and> \<not> is_pressed (keys ! 0) \<and> \<not> is_pressed (keys ! 2)
                        then [ui_msg e UI_MANAGE_START_CMD] else []))
           else (keys, []))"

text \<open>What a short press does when the key is released.\<close>

definition key_click :: "pass_env \<Rightarrow> nat \<Rightarrow> key_state list \<Rightarrow> key_act list" where
  "key_click e i keys =
     (let k = keys ! i
      in if \<not> g_is_system_ready e then []
         else if \<not> event_triggered_10s k \<and> \<not> event_triggered_5s k \<and> \<not> event_triggered_3s k then
           (if pin k = KEY_CLEAN \<and> \<not> is_pressed (keys ! 1) \<and> \<not> is_pressed (keys ! 2) then
              (if status_diag e then [diag_msg e DIAG_NEXT_STEP_CMD]
               else if clean_running e then [Toggle_clean_pause]
               else [ui_msg e UI_CLEAN_CMD])
            else if pin k = KEY_CHANGE \<and> \<not> is_pressed (keys ! 0) \<and> \<not> is_pressed (keys ! 2) then
              (if status_diag e then [diag_msg e DIAG_NEXT_FUNC_CMD]
               else [ui_msg e UI_MANAGE_FINISH_CMD])
            else if pin k = KEY_SET \<and> \<not> is_pressed (keys ! 0) \<and> \<not> is_pressed (keys ! 1) then
              [ui_msg e UI_TARE_ZERO_CMD]
            else [])
         else [])"

definition key_scan :: "pass_env \<Rightarrow> nat \<Rightarrow> key_state list \<Rightarrow> key_state list \<times> key_act list" where
  "key_scan e i keys =
     (let k = keys ! i
      in if level_low e (pin k) then
           (if \<not> is_pressed k then
              (keys[i := k\<lparr>is_pressed := True, press_start_time := current_time e,
                 event_triggered_3s := False, event_triggered_5s := False,
                 event_triggered_10s := False\<rparr>], [])
            else key_held e i keys)
         else if is_pressed k then
           (keys[i := k\<lparr>is_pressed := False, event_triggered_3s := False,
              event_triggered_5s := False, event_triggered_10s := False\<rparr>],
            key_click e i keys)
         else (keys, []))"

section \<open>One pass\<close>

fun key_pass_from :: "pass_env \<Rightarrow> nat list \<Rightarrow> key_state list \<Rightarrow> key_state list \<times> key_act list" where
  "key_pass_from e [] keys = (keys, [])"
| "key_pass_from e (i # is) keys =
     (case key_scan e i keys of (keys, a) \<Rightarrow>
        case key_pass_from e is keys of (keys, b) \<Rightarrow> (keys, a @ b))"

definition key_polling_pass :: "pass_env \<Rightarrow> key_state list \<Rightarrow> key_state list \<times> key_act list" where
  "key_polling_pass e keys = key_pass_from e [0, 1, 2] keys"

fun key_polling_task :: "pass_env list \<Rightarrow> key_state list \<Rightarrow> key_state list \<times> key_act list" where
  "key_polling_task [] keys = (keys, [])"
| "key_polling_task (e # es) keys =
     (case key_polling_pass e keys of (keys, a) \<Rightarrow>
        case key_polling_task es keys of (keys, b) \<Rightarrow> (keys, a @ b))"

definition get_keyclean_status :: "pass_env \<Rightarrow> bool" where
  "get_keyclean_status e \<longleftrightarrow> level_low e KEY_CLEAN"

section \<open>Invariant\<close>

text \<open>
  The array holds the three keys, and a long-press flag is only set on a key that is down and
  has been for that long.
\<close>

definition key_ok :: "int \<Rightarrow> key_state \<Rightarrow> bool" where
  "key_ok t k \<longleftrightarrow>
     (event_triggered_10s k \<longrightarrow> is_pressed k \<and> press_start_time k + TIME_THRES_10S \<le> t)
     \<and> (event_triggered_5s k \<longrightarrow> is_pressed k \<and> press_start_time k + TIME_THRES_5S \<le> t)
     \<and> (event_triggered_3s k \<longrightarrow> is_pressed k \<and> press_start_time k + TIME_THRES_3S \<le> t)"

definition keys_ok :: "int \<Rightarrow> key_state list \<Rightarrow> bool" where
  "keys_ok t keys \<longleftrightarrow> map pin keys = [KEY_CLEAN, KEY_CHANGE, KEY_SET] \<and> (\<forall>k \<in> set keys. key_ok t k)"

lemma keys_ok_init: "keys_ok t keys_init"
  by (simp add: keys_ok_def keys_init_def key_of_def key_ok_def)

lemma keys_ok_mono: "keys_ok t keys \<Longrightarrow> t \<le> u \<Longrightarrow> keys_ok u keys"
  by (fastforce simp: keys_ok_def key_ok_def)

lemma keys_ok_length: "keys_ok t keys \<Longrightarrow> length keys = 3"
  unfolding keys_ok_def by (metis length_map list.size(3,4) numeral_3_eq_3 One_nat_def add_Suc_right add_0_right)

lemma keys_ok_upd:
  assumes "keys_ok t keys" "i < 3" "pin k = pin (keys ! i)" "key_ok t k"
  shows "keys_ok t (keys[i := k])"
proof -
  have len: "length keys = 3" using assms(1) by (rule keys_ok_length)
  have "map pin (keys[i := k]) = (map pin keys)[i := pin (keys ! i)]"
    using assms(3) by (simp add: map_update)
  also have "\<dots> = map pin keys" using len assms(2) by (simp add: list_update_same_conv)
  finally have "map pin (keys[i := k]) = map pin keys" .
  moreover have "\<forall>x \<in> set (keys[i := k]). key_ok t x"
    using assms(1,4) set_update_subset_insert [of keys i k] by (auto simp: keys_ok_def)
  ultimately show ?thesis using assms(1) by (simp add: keys_ok_def)
qed

lemma keys_ok_nth: "keys_ok t keys \<Longrightarrow> i < 3 \<Longrightarrow> key_ok t (keys ! i)"
  by (simp add: keys_ok_def keys_ok_length [unfolded keys_ok_def])
    (metis keys_ok_def keys_ok_length nth_mem)

lemma key_held_ok:
  assumes ok: "keys_ok (current_time e) keys" and i: "i < 3" and down: "is_pressed (keys ! i)"
  shows "keys_ok (current_time e) (fst (key_held e i keys))"
proof -
  let ?k = "keys ! i"
  let ?long = "\<lambda>ms. press_start_time ?k + ms \<le> current_time e"
  have k: "key_ok (current_time e) ?k" using ok i by (rule keys_ok_nth)
  have t10: "?long TIME_THRES_10S \<Longrightarrow> keys_ok (current_time e) (keys[i := ?k\<lparr>event_triggered_10s := True\<rparr>])"
    using k down by (intro keys_ok_upd [OF ok i]) (simp_all add: key_ok_def)
  have t5: "?long TIME_THRES_5S \<Longrightarrow> keys_ok (current_time e) (keys[i := ?k\<lparr>event_triggered_5s := True\<rparr>])"
    using k down by (intro keys_ok_upd [OF ok i]) (simp_all add: key_ok_def)
  have t3: "?long TIME_THRES_3S \<Longrightarrow> keys_ok (current_time e) (keys[i := ?k\<lparr>event_triggered_3s := True\<rparr>])"
    using k down by (intro keys_ok_upd [OF ok i]) (simp_all add: key_ok_def)
  have long: "(current_time e - press_start_time ?k \<ge> ms) = ?long ms" for ms by linarith
  show ?thesis unfolding key_held_def Let_def long using ok t10 t5 t3 by simp
qed

lemma key_scan_ok:
  assumes ok: "keys_ok (current_time e) keys" and i: "i < 3"
  shows "keys_ok (current_time e) (fst (key_scan e i keys))"
proof -
  have pressed: "keys_ok (current_time e) (keys[i := (keys ! i)\<lparr>is_pressed := True, press_start_time := t,
      event_triggered_3s := False, event_triggered_5s := False, event_triggered_10s := False\<rparr>])" for t
    by (intro keys_ok_upd [OF ok i]) (simp_all add: key_ok_def)
  have released: "keys_ok (current_time e) (keys[i := (keys ! i)\<lparr>is_pressed := False,
      event_triggered_3s := False, event_triggered_5s := False, event_triggered_10s := False\<rparr>])"
    by (intro keys_ok_upd [OF ok i]) (simp_all add: key_ok_def)
  show ?thesis
    using ok pressed released key_held_ok [OF ok i] by (simp add: key_scan_def Let_def)
qed

lemma key_pass_from_ok:
  "keys_ok (current_time e) keys \<Longrightarrow> \<forall>i \<in> set is. i < 3 \<Longrightarrow>
    keys_ok (current_time e) (fst (key_pass_from e is keys))"
proof (induction "is" arbitrary: keys)
  case (Cons i "is")
  then show ?case using key_scan_ok [of e keys i] by (simp add: case_prod_beta)
qed simp

lemma key_polling_pass_ok:
  "keys_ok (current_time e) keys \<Longrightarrow> keys_ok (current_time e) (fst (key_polling_pass e keys))"
  unfolding key_polling_pass_def by (rule key_pass_from_ok) auto

section \<open>What a scan can send\<close>

lemma key_scan_other: "j \<noteq> i \<Longrightarrow> fst (key_scan e i keys) ! j = keys ! j"
  by (simp add: key_scan_def key_held_def Let_def)

lemma key_scan_10s:
  assumes "keys_ok (current_time e) keys" "i < 3" "event_triggered_10s (fst (key_scan e i keys) ! i)"
  shows "is_pressed (keys ! i) \<and> press_start_time (keys ! i) + TIME_THRES_10S \<le> current_time e"
  using assms keys_ok_nth [OF assms(1,2)] keys_ok_length [OF assms(1)]
  by (auto simp: key_scan_def key_held_def Let_def key_ok_def split: if_splits)

lemma key_scan_factory:
  assumes "ui_msg e UI_FACTORY_CMD \<in> set (snd (key_scan e i keys))"
  shows "event_triggered_10s (fst (key_scan e i keys) ! 0) \<and> event_triggered_10s (fst (key_scan e i keys) ! 1)"
  using assms
  by (auto simp: key_scan_def key_held_def key_click_def Let_def ui_msg_def diag_msg_def split: if_splits)

lemma key_scan_clean:
  assumes "ui_msg e UI_CLEAN_CMD \<in> set (snd (key_scan e i keys))"
  shows "\<not> clean_running e \<and> \<not> status_diag e"
  using assms
  by (auto simp: key_scan_def key_held_def key_click_def Let_def ui_msg_def diag_msg_def split: if_splits)

lemma key_scan_toggle:
  assumes "Toggle_clean_pause \<in> set (snd (key_scan e i keys))"
  shows "clean_running e \<and> \<not> status_diag e"
  using assms
  by (auto simp: key_scan_def key_held_def key_click_def Let_def ui_msg_def diag_msg_def split: if_splits)

lemma key_scan_blocked: "\<not> g_is_system_ready e \<Longrightarrow> snd (key_scan e i keys) = []"
  by (simp add: key_scan_def key_held_def key_click_def Let_def)

lemma key_pass_from_set:
  "a \<in> set (snd (key_pass_from e is keys)) \<Longrightarrow> \<exists>i ks. a \<in> set (snd (key_scan e i ks))"
  by (induction "is" arbitrary: keys) (fastforce simp: case_prod_beta)+

section \<open>How long a key has been down\<close>

text \<open>Read off the pins alone: the time of the first of the last passes in a row that found the pin low.\<close>

fun down_since :: "nat \<Rightarrow> pass_env list \<Rightarrow> int option" where
  "down_since p es =
     fold (\<lambda>e d. if level_low e p then (case d of None \<Rightarrow> Some (current_time e) | Some t \<Rightarrow> Some t) else None) es None"

declare down_since.simps [simp del]

lemma down_since_snoc:
  "down_since p [] = None"
  "down_since p (es @ [e]) =
     (if level_low e p then (case down_since p es of None \<Rightarrow> Some (current_time e) | Some t \<Rightarrow> Some t) else None)"
  by (simp_all add: down_since.simps)

text \<open>What a pass does to one key does not depend on the others.\<close>

definition key_step :: "pass_env \<Rightarrow> key_state \<Rightarrow> key_state" where
  "key_step e k =
     (if level_low e (pin k) then
        (if \<not> is_pressed k then k\<lparr>is_pressed := True, press_start_time := current_time e, event_triggered_3s := False,
           event_triggered_5s := False, event_triggered_10s := False\<rparr>
         else if \<not> g_is_system_ready e then k
         else
           let duration = current_time e - press_start_time k
           in if duration \<ge> TIME_THRES_10S \<and> \<not> event_triggered_10s k then k\<lparr>event_triggered_10s := True\<rparr>
              else if duration \<ge> TIME_THRES_5S \<and> \<not> event_triggered_5s k then k\<lparr>event_triggered_5s := True\<rparr>
              else if duration \<ge> TIME_THRES_3S \<and> \<not> event_triggered_3s k then k\<lparr>event_triggered_3s := True\<rparr>
              else k)
      else if is_pressed k then k\<lparr>is_pressed := False, event_triggered_3s := False, event_triggered_5s := False,
        event_triggered_10s := False\<rparr>
      else k)"

lemma key_scan_step: "fst (key_scan e i keys) = keys[i := key_step e (keys ! i)]"
  by (simp add: key_scan_def key_held_def key_step_def Let_def)

lemma pass_steps: "fst (key_polling_pass e [a, b, c]) = [key_step e a, key_step e b, key_step e c]"
  by (simp add: key_polling_pass_def case_prod_beta key_scan_step)

lemma task_steps: "fst (key_polling_task es [a, b, c]) = [fold key_step es a, fold key_step es b, fold key_step es c]"
proof (induction es arbitrary: a b c)
  case (Cons e es)
  then show ?case using pass_steps [of e a b c] by (simp add: case_prod_beta)
qed simp

lemma key_step_pin [simp]: "pin (key_step e k) = pin k"
  by (simp add: key_step_def Let_def)

lemma fold_pin [simp]: "pin (fold key_step es k) = pin k"
  by (induction es arbitrary: k) simp_all

text \<open>The bookkeeping of a key agrees with its pin.\<close>

lemma key_history:
  "(case down_since p es of
      None \<Rightarrow> \<not> is_pressed (fold key_step es (key_of p))
    | Some t \<Rightarrow> is_pressed (fold key_step es (key_of p)) \<and> press_start_time (fold key_step es (key_of p)) = t)
   \<and> (event_triggered_10s (fold key_step es (key_of p)) \<longrightarrow>
        (\<exists>t. down_since p es = Some t \<and> (\<exists>e \<in> set es. t + 10000 \<le> current_time e)))"
proof (induction es rule: rev_induct)
  case (snoc e es)
  define k where "k = fold key_step es (key_of p)"
  have k: "pin k = p" "fold key_step (es @ [e]) (key_of p) = key_step e k" by (simp_all add: k_def key_of_def)
  note IH = snoc [folded k_def]
  have "(case down_since p (es @ [e]) of
      None \<Rightarrow> \<not> is_pressed (key_step e k)
    | Some t \<Rightarrow> is_pressed (key_step e k) \<and> press_start_time (key_step e k) = t)
   \<and> (event_triggered_10s (key_step e k) \<longrightarrow>
        (\<exists>t. down_since p (es @ [e]) = Some t \<and> (\<exists>e \<in> set (es @ [e]). t + 10000 \<le> current_time e)))"
  proof (cases "down_since p es")
    case None
    then have "\<not> is_pressed k" "\<not> event_triggered_10s k" using IH by auto
    then show ?thesis using None k(1) by (simp add: down_since_snoc key_step_def)
  next
    case (Some t)
    then have "is_pressed k" "press_start_time k = t" "event_triggered_10s k \<longrightarrow> (\<exists>e \<in> set es. t + 10000 \<le> current_time e)"
      using IH by auto
    then show ?thesis using Some k(1) by (auto simp: down_since_snoc key_step_def Let_def)
  qed
  then show ?case unfolding k(2) .
qed (simp add: down_since_snoc key_of_def)

lemma pass_sends:
  "snd (key_polling_pass e [a, b, c]) = snd (key_scan e 0 [a, b, c]) @ snd (key_scan e 1 [key_step e a, b, c])
     @ snd (key_scan e 2 [key_step e a, key_step e b, c])"
  by (simp add: key_polling_pass_def case_prod_beta key_scan_step)

lemma key_step_10s:
  "event_triggered_10s (key_step e k) \<Longrightarrow>
     event_triggered_10s k \<or> is_pressed k \<and> press_start_time k + 10000 \<le> current_time e"
  by (auto simp: key_step_def Let_def split: if_splits)

lemma key_step_triggers:
  "level_low e (pin k) \<Longrightarrow> is_pressed k \<Longrightarrow> g_is_system_ready e \<Longrightarrow> press_start_time k + 10000 \<le> current_time e \<Longrightarrow>
     event_triggered_10s (key_step e k)"
  by (simp add: key_step_def Let_def)

lemma scan_asks:
  assumes "level_low e (pin (keys ! i))" "is_pressed (keys ! i)" "g_is_system_ready e"
    and "press_start_time (keys ! i) + 10000 \<le> current_time e" "\<not> event_triggered_10s (keys ! i)"
    and "event_triggered_10s (fst (key_scan e i keys) ! 0)" "event_triggered_10s (fst (key_scan e i keys) ! 1)"
  shows "ui_msg e UI_FACTORY_CMD \<in> set (snd (key_scan e i keys))"
  using assms by (auto simp: key_scan_def key_held_def Let_def)

section \<open>Properties\<close>

text \<open>
  Until the system is ready no key does anything, however long it is held.
\<close>

theorem keys_blocked_before_ready:
  assumes "\<forall>e \<in> set es. \<not> g_is_system_ready e"
  shows "snd (key_polling_task es keys) = []"
  using assms
proof (induction es arbitrary: keys)
  case (Cons e es)
  with key_scan_blocked show ?case by (simp add: case_prod_beta key_polling_pass_def)
qed simp

definition held_at :: "int \<Rightarrow> bool \<Rightarrow> pass_env" where
  "held_at t ready = \<lparr>current_time = t, level_low = (\<lambda>p. p = KEY_CLEAN \<or> p = KEY_CHANGE),
     g_is_system_ready = ready, status_diag = False, clean_running = False, task_arg = 0\<rparr>"

theorem keys_blocked_before_ready_witness:
  "snd (key_polling_task [held_at 0 False, held_at 20000 False] keys_init) = []"
  by (rule keys_blocked_before_ready) (simp add: held_at_def)

text \<open>
  C8: a factory reset is requested only when the clean and the change key have both been down for ten seconds: in
  every pass from one at least ten seconds ago on, up to the pass before.  And it is requested when they have: in the first
  pass ten seconds after the later of the two went down, when the system is ready and both are still down.
\<close>

theorem factory_needs_both_keys:
  assumes "\<forall>x \<in> set es. current_time x \<le> current_time e"
  shows "(ui_msg e UI_FACTORY_CMD \<in> set (snd (key_polling_pass e (fst (key_polling_task es keys_init)))) \<longrightarrow>
      (\<forall>p \<in> {KEY_CLEAN, KEY_CHANGE}. \<exists>t. down_since p es = Some t \<and> t + 10000 \<le> current_time e))
    \<and> (down_since KEY_CLEAN es = Some a \<and> down_since KEY_CHANGE es = Some b
       \<and> level_low e KEY_CLEAN \<and> level_low e KEY_CHANGE \<and> g_is_system_ready e
       \<and> max a b + 10000 \<le> current_time e \<and> (\<forall>x \<in> set es. current_time x < max a b + 10000) \<longrightarrow>
      ui_msg e UI_FACTORY_CMD \<in> set (snd (key_polling_pass e (fst (key_polling_task es keys_init)))))"
proof -
  define k where "k p = fold key_step es (key_of p)" for p
  have keys: "fst (key_polling_task es keys_init) = [k KEY_CLEAN, k KEY_CHANGE, k KEY_SET]"
    unfolding keys_init_def k_def by (rule task_steps)
  have pin: "pin (k p) = p" for p by (simp add: k_def key_of_def)
  have long: "\<exists>t. down_since p es = Some t \<and> t + 10000 \<le> current_time e"
    if "event_triggered_10s (key_step e (k p)) \<or> event_triggered_10s (k p)" for p
    using key_history [of es p] key_step_10s [of e "k p"] that assms unfolding k_def
    by (auto split: option.splits)
  have "\<forall>p \<in> {KEY_CLEAN, KEY_CHANGE}. \<exists>t. down_since p es = Some t \<and> t + 10000 \<le> current_time e"
    if "ui_msg e UI_FACTORY_CMD \<in> set (snd (key_polling_pass e [k KEY_CLEAN, k KEY_CHANGE, k KEY_SET]))"
    using that key_scan_factory [of e 0 "[k KEY_CLEAN, k KEY_CHANGE, k KEY_SET]"]
      key_scan_factory [of e 1 "[key_step e (k KEY_CLEAN), k KEY_CHANGE, k KEY_SET]"]
      key_scan_factory [of e 2 "[key_step e (k KEY_CLEAN), key_step e (k KEY_CHANGE), k KEY_SET]"] long
    by (auto simp: pass_sends key_scan_step)
  moreover have "ui_msg e UI_FACTORY_CMD \<in> set (snd (key_polling_pass e [k KEY_CLEAN, k KEY_CHANGE, k KEY_SET]))"
    if h: "down_since KEY_CLEAN es = Some a" "down_since KEY_CHANGE es = Some b"
      "level_low e KEY_CLEAN" "level_low e KEY_CHANGE" "g_is_system_ready e"
      "max a b + 10000 \<le> current_time e" "\<forall>x \<in> set es. current_time x < max a b + 10000"
  proof -
    have p: "is_pressed (k KEY_CLEAN)" "press_start_time (k KEY_CLEAN) = a" "is_pressed (k KEY_CHANGE)" "press_start_time (k KEY_CHANGE) = b"
      using key_history [of es KEY_CLEAN] key_history [of es KEY_CHANGE] h(1,2) by (auto simp: k_def)
    have trig: "event_triggered_10s (key_step e (k KEY_CLEAN))" "event_triggered_10s (key_step e (k KEY_CHANGE))"
      using key_step_triggers p h(3-6) pin by auto
    have new: "\<not> event_triggered_10s (k KEY_CLEAN) \<or> \<not> event_triggered_10s (k KEY_CHANGE)"
      using key_history [of es KEY_CLEAN] key_history [of es KEY_CHANGE] h(1,2,7) unfolding k_def
      by (cases "a \<le> b") (simp_all add: max_def, (meson not_le)+)
    show ?thesis
    proof (cases "event_triggered_10s (k KEY_CHANGE)")
      case True
      then have "ui_msg e UI_FACTORY_CMD \<in> set (snd (key_scan e 0 [k KEY_CLEAN, k KEY_CHANGE, k KEY_SET]))"
        using new p trig h(3-6) pin by (intro scan_asks) (auto simp: key_scan_step)
      then show ?thesis by (simp add: pass_sends)
    next
      case False
      then have "ui_msg e UI_FACTORY_CMD \<in> set (snd (key_scan e 1 [key_step e (k KEY_CLEAN), k KEY_CHANGE, k KEY_SET]))"
        using p trig h(3-6) pin by (intro scan_asks) (auto simp: key_scan_step)
      then show ?thesis by (simp add: pass_sends)
    qed
  qed
  ultimately show ?thesis unfolding keys by blast
qed

lemma held_at_reads:
  "current_time (held_at t r) = t" "level_low (held_at t r) q = (q = KEY_CLEAN \<or> q = KEY_CHANGE)" "g_is_system_ready (held_at t r) = r"
  by (simp_all add: held_at_def)

theorem factory_needs_both_keys_witness:
  "ui_msg (held_at 10000 True) UI_FACTORY_CMD
     \<in> set (snd (key_polling_pass (held_at 10000 True) (fst (key_polling_task [held_at 0 True] keys_init))))
   \<and> ui_msg (held_at 9999 True) UI_FACTORY_CMD
     \<notin> set (snd (key_polling_pass (held_at 9999 True) (fst (key_polling_task [held_at 0 True] keys_init))))"
proof -
  have d: "down_since KEY_CLEAN [held_at 0 True] = Some 0" "down_since KEY_CHANGE [held_at 0 True] = Some 0"
    by (simp_all add: down_since.simps held_at_reads)
  from factory_needs_both_keys [of "[held_at 0 True]" "held_at 10000 True" 0 0]
    factory_needs_both_keys [of "[held_at 0 True]" "held_at 9999 True" 0 0] show ?thesis
    by (simp add: held_at_reads d)
qed

text \<open>
  A key pass asks for a new clean only while none runs and no diagnosis is active, and it
  toggles the pause only while a clean runs.
\<close>

theorem clean_key_follows_state:
  "(ui_msg e UI_CLEAN_CMD \<in> set (snd (key_polling_pass e keys)) \<longrightarrow> \<not> clean_running e \<and> \<not> status_diag e)
   \<and> (Toggle_clean_pause \<in> set (snd (key_polling_pass e keys)) \<longrightarrow> clean_running e \<and> \<not> status_diag e)"
  unfolding key_polling_pass_def
  using key_pass_from_set [of _ e "[0, 1, 2]" keys] key_scan_clean key_scan_toggle by blast

definition click_env :: "int \<Rightarrow> bool \<Rightarrow> bool \<Rightarrow> pass_env" where
  "click_env t low run = \<lparr>current_time = t, level_low = (\<lambda>p. low \<and> p = KEY_CLEAN),
     g_is_system_ready = True, status_diag = False, clean_running = run, task_arg = 0\<rparr>"

theorem clean_key_follows_state_witness:
  "let keys = fst (key_polling_task [click_env 0 True True] keys_init)
   in snd (key_polling_pass (click_env 500 False True) keys) = [Toggle_clean_pause]
      \<and> clean_running (click_env 500 False True)"
proof -
  let ?keys = "fst (key_polling_task [click_env 0 True True] keys_init)"
  have "snd (key_polling_pass (click_env 500 False True) ?keys) = [Toggle_clean_pause]" by code_simp
  with clean_key_follows_state [of "click_env 500 False True" ?keys] show ?thesis by (simp add: Let_def)
qed

end
