(* ===== verification/Ui.thy ===== *)
theory Ui
  imports Messages Floats
begin

text \<open>
  The user interface tasks, \<open>src/main/ui.c\<close>.  \<open>ui_task\<close> turns commands into one-shot tasks, each
  of which sets its own run flag while it works; \<open>proximity_task\<close> watches the weight and starts a
  clean after a visit.  Creating a task, the task's start and its end are separate steps, so that
  their interleaving is visible.
\<close>

section \<open>Run flags\<close>

datatype ui_job = Clean | Manage_finish | Tare | Manage_start | Pairing | Factory

record ui_state =
  clean_task_run :: bool
  pairing_task_run :: bool
  factory_task_run :: bool
  tare_task_run :: bool
  manage_finish_task_run :: bool
  manage_start_task_run :: bool
  ui_manage_f :: bool

definition ui_init_state :: ui_state where
  "ui_init_state = \<lparr>clean_task_run = False, pairing_task_run = False, factory_task_run = False,
     tare_task_run = False, manage_finish_task_run = False, manage_start_task_run = False,
     ui_manage_f = False\<rparr>"

definition check_run_flag :: "bool \<Rightarrow> ui_state \<Rightarrow> bool" where
  "check_run_flag manage s =
     (if \<not> clean_task_run s \<and> \<not> pairing_task_run s \<and> \<not> factory_task_run s \<and> \<not> tare_task_run s
         \<and> \<not> manage_finish_task_run s \<and> \<not> manage_start_task_run s
      then (if manage then ui_manage_f s else \<not> ui_manage_f s)
      else False)"

definition check_task_runnable :: "u32 \<Rightarrow> ui_state \<Rightarrow> bool" where
  "check_task_runnable task s =
     (if task = UI_CLEAN_CMD then check_run_flag False s
      else if task = UI_MANAGE_FINISH_CMD then check_run_flag True s
      else if task = UI_TARE_ZERO_CMD then check_run_flag False s
      else if task = UI_MANAGE_START_CMD then check_run_flag False s
      else if task = UI_PAIRING_CMD then check_run_flag False s
      else if task = UI_FACTORY_CMD then check_run_flag False s
      else False)"

text \<open>One message of \<open>ui_task\<close>: the task it creates, if any.\<close>

definition ui_task :: "u32 \<Rightarrow> ui_state \<Rightarrow> ui_state \<times> ui_job option" where
  "ui_task cmd s =
     (if cmd = UI_CLEAN_CMD then (s, if check_task_runnable cmd s then Some Clean else None)
      else if cmd = UI_MANAGE_FINISH_CMD then
        (s, if check_task_runnable cmd s \<and> ui_manage_f s then Some Manage_finish else None)
      else if cmd = UI_TARE_ZERO_CMD then (s, if check_task_runnable cmd s then Some Tare else None)
      else if cmd = UI_MANAGE_START_CMD then
        (if check_task_runnable cmd s \<and> \<not> ui_manage_f s
         then (s\<lparr>ui_manage_f := True\<rparr>, Some Manage_start) else (s, None))
      else if cmd = UI_PAIRING_CMD then (s, if check_task_runnable cmd s then Some Pairing else None)
      else if cmd = UI_FACTORY_CMD then (s, if check_task_runnable cmd s then Some Factory else None)
      else (s, None))"

text \<open>What each one-shot task does to the flags when it starts and when it ends.\<close>

fun set_run :: "ui_job \<Rightarrow> bool \<Rightarrow> ui_state \<Rightarrow> ui_state" where
  "set_run Clean b s = s\<lparr>clean_task_run := b\<rparr>"
| "set_run Manage_finish b s = s\<lparr>manage_finish_task_run := b\<rparr>"
| "set_run Tare b s = s\<lparr>tare_task_run := b\<rparr>"
| "set_run Manage_start b s = s\<lparr>manage_start_task_run := b\<rparr>"
| "set_run Pairing b s = s\<lparr>pairing_task_run := b\<rparr>"
| "set_run Factory b s = s\<lparr>factory_task_run := b\<rparr>"

fun runs :: "ui_job \<Rightarrow> ui_state \<Rightarrow> bool" where
  "runs Clean s = clean_task_run s"
| "runs Manage_finish s = manage_finish_task_run s"
| "runs Tare s = tare_task_run s"
| "runs Manage_start s = manage_start_task_run s"
| "runs Pairing s = pairing_task_run s"
| "runs Factory s = factory_task_run s"

definition job_start :: "ui_job \<Rightarrow> ui_state \<Rightarrow> ui_state" where
  "job_start j s = set_run j True s"

definition job_end :: "ui_job \<Rightarrow> ui_state \<Rightarrow> ui_state" where
  "job_end j s = set_run j False (if j = Manage_finish then s\<lparr>ui_manage_f := False\<rparr> else s)"

text \<open>
  The calls of the tasks between the two assignments of their flag, with \<open>FEATURE_AWS_IOT\<close> unset,
  as the repository builds it.  The factory task restarts the device, so it does not come to its end.
\<close>

datatype job_act =
    Run_clean | Run_manage_finish | Run_manage_start | Job_delay nat | Job_led u32 | Erase_nvs
  | Job_reset u32

fun job_body :: "ui_job \<Rightarrow> job_act list" where
  "job_body Clean = [Run_clean]"
| "job_body Manage_finish = [Run_manage_finish]"
| "job_body Tare = [Job_delay 1000]"
| "job_body Manage_start = [Run_manage_start]"
| "job_body Pairing = [Job_led LED_PAIRING_CMD, Job_led LED_IDLE_CMD]"
| "job_body Factory = [Job_led LED_INITOK_CMD, Erase_nvs, Job_reset 3]"

definition check_operating :: "bool \<Rightarrow> ui_state \<Rightarrow> bool" where
  "check_operating diag s \<longleftrightarrow>
     clean_task_run s \<or> pairing_task_run s \<or> factory_task_run s \<or> tare_task_run s
     \<or> manage_finish_task_run s \<or> manage_start_task_run s \<or> ui_manage_f s \<or> diag"

section \<open>Proximity\<close>

datatype PROXI_MODE = PROXI_MODE_IDLE | PROXI_MODE_USE | PROXI_MODE_ESCAPE | PROXI_MODE_HARDEN

record proximity =
  cat_enter_f :: bool
  cat_enter_cnt :: int
  cat_use_cnt :: int
  proxi_mode :: PROXI_MODE
  prev_wg :: rat
  gap_wg :: rat
  system_ready :: bool

datatype prox_act = Led u32 | Boot_recovery | Start_clean

definition proximity_init :: proximity where
  "proximity_init = \<lparr>cat_enter_f = False, cat_enter_cnt = 0, cat_use_cnt = 0,
     proxi_mode = PROXI_MODE_IDLE, prev_wg = 0, gap_wg = 0, system_ready = False\<rparr>"

text \<open>\<open>PROXI_MODE_IDLE\<close>: \<open>w\<close> is the weight tested, \<open>w'\<close> the one read again inside.\<close>

definition prox_stable :: "rat \<Rightarrow> proximity \<Rightarrow> proximity \<times> prox_act list" where
  "prox_stable w' s =
     (let s = s\<lparr>cat_enter_cnt := 12, gap_wg := w'\<rparr>;
          s = (if prev_wg s < 100 then s\<lparr>prev_wg := gap_wg s\<rparr> else s)
      in if \<bar>float64 (gap_wg s - prev_wg s)\<bar> < 3 then
           (let s = s\<lparr>prev_wg := gap_wg s\<rparr>
            in if \<not> system_ready s then (s\<lparr>system_ready := True\<rparr>, [Led LED_IDLE_CMD, Boot_recovery])
               else (s, []))
         else (s\<lparr>prev_wg := gap_wg s\<rparr>, []))"

definition prox_idle :: "rat \<Rightarrow> rat \<Rightarrow> rat \<Rightarrow> proximity \<Rightarrow> proximity \<times> prox_act list" where
  "prox_idle cat_wg w w' s =
     (if w > cat_wg then
        (if \<not> cat_enter_f s then (s\<lparr>cat_enter_f := True, cat_enter_cnt := 0\<rparr>, [])
         else
           let s = s\<lparr>cat_enter_cnt := cat_enter_cnt s + 1\<rparr>
           in if cat_enter_cnt s > 10
              then (s\<lparr>cat_enter_f := False, cat_enter_cnt := 0, cat_use_cnt := 0,
                      proxi_mode := PROXI_MODE_USE\<rparr>, [Led LED_INUSE_CMD])
              else (s, []))
      else if cat_enter_f s then (s\<lparr>cat_enter_f := False, cat_enter_cnt := 0\<rparr>, [])
      else
        let s = s\<lparr>cat_enter_cnt := cat_enter_cnt s + 1\<rparr>
        in if cat_enter_cnt s > 10 then
             (if cat_enter_cnt s = 11 then (s\<lparr>prev_wg := w'\<rparr>, []) else prox_stable w' s)
           else (s, []))"

definition prox_use :: "rat \<Rightarrow> rat \<Rightarrow> proximity \<Rightarrow> proximity \<times> prox_act list" where
  "prox_use cat_wg w s =
     (if w > cat_wg then (s\<lparr>cat_use_cnt := cat_use_cnt s + 1, cat_enter_cnt := 0\<rparr>, [])
      else
        let s = s\<lparr>cat_enter_cnt := cat_enter_cnt s + 1\<rparr>
        in (if cat_enter_cnt s > 10 then s\<lparr>proxi_mode := PROXI_MODE_ESCAPE\<rparr> else s, []))"

definition prox_harden :: "proximity \<Rightarrow> proximity \<times> prox_act list" where
  "prox_harden s =
     (let s = s\<lparr>cat_enter_cnt := cat_enter_cnt s + 1\<rparr>
      in if cat_enter_cnt s > 20
         then (s\<lparr>cat_enter_cnt := 0, cat_enter_f := False, proxi_mode := PROXI_MODE_IDLE\<rparr>, [Start_clean])
         else (s, []))"

definition proximity_pass :: "rat \<Rightarrow> bool \<Rightarrow> rat \<Rightarrow> rat \<Rightarrow> proximity \<Rightarrow> proximity \<times> prox_act list" where
  "proximity_pass cat_wg operating w w' s =
     (if operating then
        (s\<lparr>cat_enter_f := False, cat_enter_cnt := 0, cat_use_cnt := 0, proxi_mode := PROXI_MODE_IDLE\<rparr>, [])
      else case proxi_mode s of
        PROXI_MODE_IDLE \<Rightarrow> prox_idle cat_wg w w' s
      | PROXI_MODE_USE \<Rightarrow> prox_use cat_wg w s
      | PROXI_MODE_ESCAPE \<Rightarrow> (s\<lparr>cat_enter_cnt := 0, proxi_mode := PROXI_MODE_HARDEN\<rparr>, [Led LED_IDLE_CMD])
      | PROXI_MODE_HARDEN \<Rightarrow> prox_harden s)"

fun proximity_run :: "rat \<Rightarrow> rat list \<Rightarrow> proximity \<Rightarrow> proximity \<times> prox_act list" where
  "proximity_run cat_wg [] s = (s, [])"
| "proximity_run cat_wg (w # ws) s =
     (case proximity_pass cat_wg False w w s of (s, a) \<Rightarrow>
        case proximity_run cat_wg ws s of (s, b) \<Rightarrow> (s, a @ b))"

section \<open>The interface as a step relation\<close>

text \<open>
  \<open>created\<close> are the tasks that exist and have not yet run, \<open>active\<close> those between their start and
  their end.
\<close>

record ui_system =
  flags :: ui_state
  created :: "ui_job list"
  active :: "ui_job list"

definition ui_boot :: ui_system where
  "ui_boot = \<lparr>flags = ui_init_state, created = [], active = []\<rparr>"

text \<open>A message is handled; the proximity task starts a clean; a task starts; a task ends.\<close>

inductive ui_step :: "ui_system \<Rightarrow> ui_system \<Rightarrow> bool" where
  message: "ui_task cmd (flags s) = (f, j) \<Longrightarrow>
     ui_step s (s\<lparr>flags := f, created := created s @ (case j of None \<Rightarrow> [] | Some j \<Rightarrow> [j])\<rparr>)"
| visit_over: "\<not> check_operating diag (flags s) \<Longrightarrow> ui_step s (s\<lparr>created := created s @ [Clean]\<rparr>)"
| start: "j \<in> set (created s) \<Longrightarrow>
     ui_step s (s\<lparr>flags := job_start j (flags s), created := remove1 j (created s), active := j # active s\<rparr>)"
| finish: "j \<in> set (active s) \<Longrightarrow>
     ui_step s (s\<lparr>flags := job_end j (flags s), active := remove1 j (active s)\<rparr>)"

text \<open>
  The schedule the code relies on: a created task runs before the next message or visit is
  handled (the tasks have equal priority and \<open>ui_task\<close> sleeps after each message).
\<close>

inductive ui_step_prompt :: "ui_system \<Rightarrow> ui_system \<Rightarrow> bool" where
  idle: "created s = [] \<Longrightarrow> ui_step s t \<Longrightarrow> ui_step_prompt s t"
| starts: "j \<in> set (created s) \<Longrightarrow>
     ui_step_prompt s (s\<lparr>flags := job_start j (flags s), created := remove1 j (created s), active := j # active s\<rparr>)"

inductive_cases ui_step_cases: "ui_step s t"
inductive_cases ui_step_prompt_cases: "ui_step_prompt s t"

section \<open>Mutual exclusion\<close>

definition ui_exclusive :: "ui_system \<Rightarrow> bool" where
  "ui_exclusive s \<longleftrightarrow> length (created s) + length (active s) \<le> 1
     \<and> (\<forall>j. runs j (flags s) \<longleftrightarrow> j \<in> set (active s))
     \<and> (ui_manage_f (flags s) \<longrightarrow> set (created s @ active s) \<subseteq> {Manage_start, Manage_finish})
     \<and> (set (created s @ active s) \<inter> {Manage_start, Manage_finish} \<noteq> {} \<longrightarrow> ui_manage_f (flags s))"

lemma runs_set_run [simp]: "runs j (set_run k b s) = (if j = k then b else runs j s)"
  by (cases j; cases k) auto

lemma runs_manage [simp]: "runs j (s\<lparr>ui_manage_f := b\<rparr>) = runs j s"
  by (cases j) auto

lemma manage_set_run [simp]: "ui_manage_f (set_run j b s) = ui_manage_f s"
  by (cases j) auto

lemma no_run_iff:
  "check_run_flag m s \<longleftrightarrow> (\<forall>j. \<not> runs j s) \<and> ui_manage_f s = m"
  unfolding check_run_flag_def by (cases m) (auto, (metis ui_job.exhaust runs.simps)+)

lemma ui_exclusive_boot: "ui_exclusive ui_boot"
proof -
  have "\<not> runs j ui_init_state" for j by (cases j) (auto simp: ui_init_state_def)
  then show ?thesis by (simp add: ui_exclusive_def ui_boot_def ui_init_state_def)
qed

lemma ui_start_exclusive:
  assumes "ui_exclusive s" "j \<in> set (created s)"
  shows "ui_exclusive (s\<lparr>flags := job_start j (flags s), created := remove1 j (created s), active := j # active s\<rparr>)"
proof -
  have "created s = [j]" "active s = []"
    using assms by (cases "created s"; auto simp: ui_exclusive_def)+
  then show ?thesis using assms by (auto simp: ui_exclusive_def job_start_def)
qed

lemma ui_message_exclusive:
  assumes "ui_exclusive s" "created s = []" "ui_task cmd (flags s) = (f, j)"
  shows "ui_exclusive (s\<lparr>flags := f, created := created s @ (case j of None \<Rightarrow> [] | Some j \<Rightarrow> [j])\<rparr>)"
proof (cases j)
  case None
  then show ?thesis using assms by (auto simp: ui_exclusive_def ui_task_def split: if_splits)
next
  case (Some k)
  then have "check_task_runnable cmd (flags s)" using assms(3) by (auto simp: ui_task_def split: if_splits)
  then have none: "\<forall>j. \<not> runs j (flags s)" by (auto simp: check_task_runnable_def no_run_iff split: if_splits)
  then have act: "active s = []" using assms(1) by (cases "active s") (auto simp: ui_exclusive_def)
  show ?thesis
    using assms Some none act
    by (auto simp: ui_exclusive_def ui_task_def check_task_runnable_def no_run_iff split: if_splits)
qed

lemma ui_finish_exclusive:
  assumes "ui_exclusive s" "j \<in> set (active s)"
  shows "ui_exclusive (s\<lparr>flags := job_end j (flags s), active := remove1 j (active s)\<rparr>)"
proof -
  have a: "active s = [j]" "created s = []"
    using assms by (cases "active s"; auto simp: ui_exclusive_def)+
  then show ?thesis using assms by (auto simp: ui_exclusive_def job_end_def)
qed

lemma ui_visit_exclusive:
  assumes "ui_exclusive s" "created s = []" "\<not> check_operating diag (flags s)"
  shows "ui_exclusive (s\<lparr>created := created s @ [Clean]\<rparr>)"
proof -
  have "\<not> runs j (flags s)" for j using assms(3) by (cases j) (auto simp: check_operating_def)
  then have "active s = []" "\<not> ui_manage_f (flags s)"
    using assms by (cases "active s"; auto simp: ui_exclusive_def check_operating_def)+
  then show ?thesis using assms by (auto simp: ui_exclusive_def)
qed

lemma ui_step_exclusive:
  assumes "ui_step s t" "ui_exclusive s" "created s = []"
  shows "ui_exclusive t"
  using assms(1)
proof (cases rule: ui_step.cases)
  case (message cmd f j)
  then show ?thesis using ui_message_exclusive [OF assms(2,3)] by simp
next
  case (visit_over diag)
  then show ?thesis using ui_visit_exclusive [OF assms(2,3)] by simp
next
  case (start j)
  then show ?thesis using ui_start_exclusive [OF assms(2)] by simp
next
  case (finish j)
  then show ?thesis using ui_finish_exclusive [OF assms(2)] by simp
qed

lemma ui_prompt_exclusive: "ui_step_prompt s t \<Longrightarrow> ui_exclusive s \<Longrightarrow> ui_exclusive t"
  by (erule ui_step_prompt_cases) (simp_all add: ui_step_exclusive ui_start_exclusive)

lemma ui_reachable_exclusive: "ui_step_prompt\<^sup>*\<^sup>* ui_boot s \<Longrightarrow> ui_exclusive s"
  by (induction rule: rtranclp_induct) (auto simp: ui_exclusive_boot intro: ui_prompt_exclusive)

section \<open>Properties\<close>

text \<open>
  C40: as long as every created task starts before the next message or visit is handled, there is never more
  than one of the one-shot tasks (clean, manage start and finish, tare, pairing, factory reset), created or running, of the same
  or of different kinds; the run flags say exactly which one runs; and none but the manage tasks is created or runs
  during a manage session.
\<close>

theorem ui_tasks_exclusive:
  assumes "ui_step_prompt\<^sup>*\<^sup>* ui_boot s"
  shows "length (created s @ active s) \<le> 1
    \<and> (\<forall>j. runs j (flags s) \<longleftrightarrow> j \<in> set (active s))
    \<and> (ui_manage_f (flags s) \<longrightarrow> set (created s @ active s) \<subseteq> {Manage_start, Manage_finish})"
  using ui_reachable_exclusive [OF assms] by (simp add: ui_exclusive_def)

definition after_clean_cmd :: ui_system where
  "after_clean_cmd = \<lparr>flags = ui_init_state, created = [Clean], active = []\<rparr>"

lemma clean_cmd_step: "ui_step ui_boot after_clean_cmd"
  using ui_step.message [of UI_CLEAN_CMD ui_boot ui_init_state "Some Clean"]
  by (simp add: ui_boot_def after_clean_cmd_def ui_task_def check_task_runnable_def check_run_flag_def
      ui_init_state_def)

theorem ui_tasks_exclusive_witness:
  "\<exists>s. ui_step_prompt\<^sup>*\<^sup>* ui_boot s \<and> active s = [Clean] \<and> runs Clean (flags s) \<and> \<not> ui_manage_f (flags s)"
proof -
  let ?s = "after_clean_cmd\<lparr>flags := job_start Clean ui_init_state, created := [], active := [Clean]\<rparr>"
  have "ui_step_prompt ui_boot after_clean_cmd"
    by (rule idle) (simp_all add: ui_boot_def clean_cmd_step [unfolded ui_boot_def])
  moreover have "ui_step_prompt after_clean_cmd ?s"
    using starts [of Clean after_clean_cmd] by (simp add: after_clean_cmd_def)
  ultimately have r: "ui_step_prompt\<^sup>*\<^sup>* ui_boot ?s" by (meson converse_rtranclp_into_rtranclp rtranclp.rtrancl_refl)
  have "runs Clean (flags ?s)" "active ?s = [Clean]" "\<not> ui_manage_f (flags ?s)" using ui_tasks_exclusive [OF r] by auto
  with r show ?thesis by blast
qed

text \<open>
  The run flag is set by the created task itself, so two clean commands handled before the
  first task runs pass the check twice and two cleans run at the same time.
\<close>

theorem two_cleans_can_run:
  "\<exists>s. ui_step\<^sup>*\<^sup>* ui_boot s \<and> active s = [Clean, Clean]"
proof -
  let ?f = "job_start Clean ui_init_state"
  let ?s2 = "\<lparr>flags = ui_init_state, created = [Clean, Clean], active = []\<rparr>"
  let ?s3 = "\<lparr>flags = ?f, created = [Clean], active = [Clean]\<rparr>"
  let ?s4 = "\<lparr>flags = job_start Clean ?f, created = [], active = [Clean, Clean]\<rparr>"
  have "ui_step after_clean_cmd ?s2"
    using ui_step.message [of UI_CLEAN_CMD after_clean_cmd ui_init_state "Some Clean"]
    by (simp add: after_clean_cmd_def ui_task_def check_task_runnable_def check_run_flag_def ui_init_state_def)
  moreover have "ui_step ?s2 ?s3" using ui_step.start [of Clean ?s2] by simp
  moreover have "ui_step ?s3 ?s4" using ui_step.start [of Clean ?s3] by simp
  ultimately have "ui_step\<^sup>*\<^sup>* ui_boot ?s4"
    using clean_cmd_step by (meson converse_rtranclp_into_rtranclp rtranclp.rtrancl_refl)
  then show ?thesis by fastforce
qed

lemma harden_count:
  assumes "proxi_mode s = PROXI_MODE_HARDEN" "cat_enter_cnt s + int (length ws) \<le> 20"
  shows "snd (proximity_run c ws s) = []
    \<and> proxi_mode (fst (proximity_run c ws s)) = PROXI_MODE_HARDEN
    \<and> cat_enter_cnt (fst (proximity_run c ws s)) = cat_enter_cnt s + int (length ws)"
  using assms
proof (induction ws arbitrary: s)
  case (Cons w ws)
  let ?t = "s\<lparr>cat_enter_cnt := cat_enter_cnt s + 1\<rparr>"
  have "proximity_pass c False w w s = (?t, [])"
    using Cons.prems by (simp add: proximity_pass_def prox_harden_def Let_def)
  then show ?case using Cons.IH [of ?t] Cons.prems by (simp add: case_prod_beta)
qed simp

lemma proximity_run_append:
  "proximity_run c (us @ vs) s =
    (let r = proximity_run c us s; r' = proximity_run c vs (fst r) in (fst r', snd r @ snd r'))"
  by (induction us arbitrary: s) (simp_all add: case_prod_beta Let_def)

text \<open>
  After a visit the clean starts 21 passes (10.5 s) later whatever the scale shows, so also
  while a cat is back inside; the configured clumping time is not used.
\<close>

theorem clean_starts_whatever_the_weight:
  assumes "proxi_mode s = PROXI_MODE_HARDEN" "cat_enter_cnt s = 0" "length ws = 21"
  shows "snd (proximity_run cat_wg ws s) = [Start_clean]"
proof -
  obtain us w where ws: "ws = us @ [w]" "length us = 20" using assms(3) by (cases ws rule: rev_cases) auto
  have "snd (proximity_run cat_wg us s) = []"
    "proxi_mode (fst (proximity_run cat_wg us s)) = PROXI_MODE_HARDEN"
    "cat_enter_cnt (fst (proximity_run cat_wg us s)) = 20"
    using harden_count [of s us cat_wg] assms ws by auto
  then show ?thesis
    by (simp add: ws proximity_run_append Let_def proximity_pass_def prox_harden_def case_prod_beta)
qed

theorem clean_starts_whatever_the_weight_witness:
  "snd (proximity_run 2000 (replicate 21 6000) (proximity_init\<lparr>proxi_mode := PROXI_MODE_HARDEN\<rparr>)) = [Start_clean]"
  by (rule clean_starts_whatever_the_weight) (simp_all add: proximity_init_def)

lemma idle_count:
  assumes "proxi_mode s = PROXI_MODE_IDLE" "cat_enter_f s" "\<forall>w \<in> set ws. cat_wg < w"
    "cat_enter_cnt s + int (length ws) \<le> 10"
  shows "snd (proximity_run cat_wg ws s) = []
    \<and> proxi_mode (fst (proximity_run cat_wg ws s)) = PROXI_MODE_IDLE
    \<and> cat_enter_f (fst (proximity_run cat_wg ws s))
    \<and> cat_enter_cnt (fst (proximity_run cat_wg ws s)) = cat_enter_cnt s + int (length ws)"
  using assms
proof (induction ws arbitrary: s)
  case (Cons w ws)
  let ?t = "s\<lparr>cat_enter_cnt := cat_enter_cnt s + 1\<rparr>"
  have "proximity_pass cat_wg False w w s = (?t, [])"
    using Cons.prems by (simp add: proximity_pass_def prox_idle_def Let_def)
  then show ?case using Cons.IH [of ?t] Cons.prems by (simp add: case_prod_beta)
qed simp

text \<open>
  A visit is recognised by exactly twelve consecutive readings above the entry weight: after
  fewer nothing has happened, and the twelfth switches to the in-use mode and its LED.
\<close>

theorem visit_needs_twelve_readings:
  assumes "proxi_mode s = PROXI_MODE_IDLE" "\<not> cat_enter_f s" "\<forall>w \<in> set ws. cat_wg < w"
    "0 < length ws" "length ws \<le> 12"
  shows "snd (proximity_run cat_wg ws s) = (if length ws < 12 then [] else [Led LED_INUSE_CMD])
    \<and> proxi_mode (fst (proximity_run cat_wg ws s)) = (if length ws < 12 then PROXI_MODE_IDLE else PROXI_MODE_USE)"
proof -
  obtain w us where ws: "ws = w # us" using assms(4) by (cases ws) auto
  let ?t = "s\<lparr>cat_enter_f := True, cat_enter_cnt := 0\<rparr>"
  have first: "proximity_pass cat_wg False w w s = (?t, [])"
    using assms ws by (simp add: proximity_pass_def prox_idle_def)
  show ?thesis
  proof (cases "length ws < 12")
    case True
    then show ?thesis using idle_count [of ?t us cat_wg] first ws assms by (simp add: case_prod_beta)
  next
    case False
    then have "length us = 11" using ws assms(5) by simp
    then obtain vs v where us: "us = vs @ [v]" "length vs = 10" by (cases us rule: rev_cases) auto
    have "snd (proximity_run cat_wg vs ?t) = []" "cat_enter_f (fst (proximity_run cat_wg vs ?t))"
      "proxi_mode (fst (proximity_run cat_wg vs ?t)) = PROXI_MODE_IDLE"
      "cat_enter_cnt (fst (proximity_run cat_wg vs ?t)) = 10"
      using idle_count [of ?t vs cat_wg] assms ws us by auto
    then show ?thesis using first ws us False assms(3)
      by (simp add: proximity_run_append Let_def case_prod_beta proximity_pass_def prox_idle_def)
  qed
qed

theorem visit_needs_twelve_readings_witness:
  "snd (proximity_run 2000 (replicate 12 3000) proximity_init) = [Led LED_INUSE_CMD]"
  using visit_needs_twelve_readings [of proximity_init "replicate 12 3000" 2000]
  by (simp add: proximity_init_def)

end
