(* ===== verification/Loadcell.thy ===== *)
theory Loadcell
  imports Ring_Buffers Messages Floats
begin

text \<open>
  The load cells, \<open>src/main/loadcell.c\<close>: the conversion of raw values to weights, the ring of the
  last 200 weights whose mean is the baseline, and the state machine that recognises a visit and
  asks for a clean three minutes after it.  \<open>float\<close> and \<open>double\<close> operations are rounded as in
  \<open>Floats\<close>.
\<close>

abbreviation (input) CAT_RING_BUFFER_SIZE :: nat where "CAT_RING_BUFFER_SIZE \<equiv> 200"
abbreviation (input) CAT_INIT_SAMPLE_COUNT :: nat where "CAT_INIT_SAMPLE_COUNT \<equiv> 30"
abbreviation (input) CAT_ENTRY_THRESHOLD_G :: rat where "CAT_ENTRY_THRESHOLD_G \<equiv> 1000"
abbreviation (input) CAT_EXIT_THRESHOLD_G :: rat where "CAT_EXIT_THRESHOLD_G \<equiv> 300"
abbreviation (input) CAT_CLEAN_DELAY_SEC :: int where "CAT_CLEAN_DELAY_SEC \<equiv> 180"
abbreviation (input) DEADBAND_GRAMS :: rat where "DEADBAND_GRAMS \<equiv> 30"

datatype cat_detect_state_t = CAT_STATE_INIT | CAT_STATE_IDLE | CAT_STATE_OCCUPIED | CAT_STATE_WAIT_CLEAN

record lc_state =
  g_cat_state :: cat_detect_state_t
  g_ring_buffer :: "rat list"
  g_ring_head :: nat
  g_ring_count :: nat
  g_ring_sum :: rat
  g_baseline_weight :: rat
  g_exit_timestamp_us :: int
  g_prev_clean_running :: bool
  g_log_idle_baseline :: rat
  g_log_peak_weight :: rat
  g_log_exit_weight :: rat
  g_last_logged_min :: int
  current_main_sum :: int
  current_waste_sum :: int
  base_main_sum :: int
  base_waste_sum :: int
  final_main_weight :: rat
  final_waste_weight :: rat
  lc_out :: "out list"
  nvs_saves :: "(int \<times> int list) list"

text \<open>What a call reads of other components: the clock, the clean's flags, the mutex.\<close>

record lc_env =
  lc_now :: int
  lc_clean_running :: bool
  lc_pause_flag :: bool
  lc_recovery_requested :: bool
  lc_mutex :: bool

section \<open>Ring of weights\<close>

definition reset_cat_ring_buffer :: "lc_state \<Rightarrow> lc_state" where
  "reset_cat_ring_buffer s =
     s\<lparr>g_ring_buffer := replicate CAT_RING_BUFFER_SIZE 0, g_ring_head := 0, g_ring_count := 0,
       g_ring_sum := 0, g_baseline_weight := 0, g_cat_state := CAT_STATE_INIT\<rparr>"

text \<open>The state after the push; the returned mean is \<open>ring_mean\<close> of it.\<close>

definition push_cat_ring_buffer :: "rat \<Rightarrow> lc_state \<Rightarrow> lc_state" where
  "push_cat_ring_buffer new_val s =
     (if g_ring_count s < CAT_RING_BUFFER_SIZE then
        s\<lparr>g_ring_buffer := (g_ring_buffer s)[g_ring_head s := new_val],
          g_ring_sum := float64 (g_ring_sum s + new_val),
          g_ring_count := g_ring_count s + 1,
          g_ring_head := (g_ring_head s + 1) mod CAT_RING_BUFFER_SIZE\<rparr>
      else
        s\<lparr>g_ring_sum := float64 (float64 (g_ring_sum s - g_ring_buffer s ! g_ring_head s) + new_val),
          g_ring_buffer := (g_ring_buffer s)[g_ring_head s := new_val],
          g_ring_head := (g_ring_head s + 1) mod CAT_RING_BUFFER_SIZE\<rparr>)"

definition ring_mean :: "lc_state \<Rightarrow> rat" where
  "ring_mean s = float32 (float64 (g_ring_sum s / of_nat (g_ring_count s)))"

section \<open>State machine\<close>

definition track_baseline :: "rat \<Rightarrow> lc_state \<Rightarrow> lc_state" where
  "track_baseline w s = (let s = push_cat_ring_buffer w s in s\<lparr>g_baseline_weight := ring_mean s\<rparr>)"

definition cat_init :: "rat \<Rightarrow> lc_state \<Rightarrow> lc_state" where
  "cat_init w s =
     (let s = track_baseline w s
      in if g_ring_count s \<ge> CAT_INIT_SAMPLE_COUNT then s\<lparr>g_cat_state := CAT_STATE_IDLE\<rparr> else s)"

definition cat_idle :: "rat \<Rightarrow> lc_state \<Rightarrow> lc_state" where
  "cat_idle w s =
     (if w \<le> float32 (g_baseline_weight s - CAT_ENTRY_THRESHOLD_G) then reset_cat_ring_buffer s
      else
        let s = track_baseline w s
        in if w \<ge> float32 (g_baseline_weight s + CAT_ENTRY_THRESHOLD_G)
           then s\<lparr>g_cat_state := CAT_STATE_OCCUPIED, g_log_idle_baseline := g_baseline_weight s,
                  g_log_peak_weight := w\<rparr>
           else s)"

definition cat_occupied :: "int \<Rightarrow> rat \<Rightarrow> lc_state \<Rightarrow> lc_state" where
  "cat_occupied time w s =
     (let s = (if w > g_log_peak_weight s then s\<lparr>g_log_peak_weight := w\<rparr> else s)
      in if w \<le> float32 (g_baseline_weight s + CAT_EXIT_THRESHOLD_G)
         then s\<lparr>g_cat_state := CAT_STATE_WAIT_CLEAN, g_exit_timestamp_us := time,
                g_last_logged_min := 0, g_log_exit_weight := w\<rparr>
         else s)"

definition cat_wait_clean :: "int \<Rightarrow> rat \<Rightarrow> lc_state \<Rightarrow> lc_state" where
  "cat_wait_clean time w s =
     (let s = track_baseline w s
      in if w \<ge> float32 (g_baseline_weight s + CAT_ENTRY_THRESHOLD_G)
         then s\<lparr>g_cat_state := CAT_STATE_OCCUPIED\<rparr>
         else
           let elapsed_sec = (time - g_exit_timestamp_us s) sdiv 1000000;
               current_elapsed_min = elapsed_sec sdiv 60;
               s = (if current_elapsed_min > g_last_logged_min s \<and> current_elapsed_min \<le> 3
                    then s\<lparr>g_last_logged_min := current_elapsed_min\<rparr> else s)
           in if elapsed_sec \<ge> CAT_CLEAN_DELAY_SEC
              then s\<lparr>g_cat_state := CAT_STATE_IDLE,
                     lc_out := lc_out s @ [UiQ (zero_ms\<lparr>ms_cmd := UI_CLEAN_CMD\<rparr>)]\<rparr>
              else s)"

definition process_cat_detection_fsm :: "lc_env \<Rightarrow> rat \<Rightarrow> lc_state \<Rightarrow> lc_state" where
  "process_cat_detection_fsm e w s =
     (let clean_running = lc_clean_running e;
          s = (if g_prev_clean_running s \<and> \<not> clean_running then reset_cat_ring_buffer s else s);
          s = s\<lparr>g_prev_clean_running := clean_running\<rparr>
      in if clean_running \<or> lc_pause_flag e \<or> lc_recovery_requested e then s
         else case g_cat_state s of
           CAT_STATE_INIT \<Rightarrow> cat_init w s
         | CAT_STATE_IDLE \<Rightarrow> cat_idle w s
         | CAT_STATE_OCCUPIED \<Rightarrow> cat_occupied (lc_now e) w s
         | CAT_STATE_WAIT_CLEAN \<Rightarrow> cat_wait_clean (lc_now e) w s)"

section \<open>Weights\<close>

definition raw_corr :: "int \<Rightarrow> int \<Rightarrow> rat \<Rightarrow> rat" where
  "raw_corr v offset gain = float64 (float64 (of_int (v - offset)) * float64 gain)"

definition deadband :: "rat \<Rightarrow> rat" where
  "deadband w = (if w > - DEADBAND_GRAMS \<and> w < DEADBAND_GRAMS then 0 else w)"

definition loadcell_proc :: "lc_env \<Rightarrow> int list \<Rightarrow> lc_state \<Rightarrow> lc_state" where
  "loadcell_proc e values s =
     (let raw2_corr = raw_corr (values ! 2) 144607 (714 / 1000);
          raw3_corr = raw_corr (values ! 3) 330013 (1244 / 1000);
          raw4_corr = raw_corr (values ! 4) 135682 (1208 / 1000);
          raw5_corr = raw_corr (values ! 5) 212343 (1029 / 1000);
          new_main_sum = trunc (float64 (float64 (float64 (raw2_corr + raw3_corr) + raw4_corr) + raw5_corr));
          new_waste_sum = values ! 0 + values ! 1;
          s = s\<lparr>current_main_sum := new_main_sum, current_waste_sum := new_waste_sum\<rparr>;
          temp_main_weight = deadband (float64 (float64 (of_int (current_main_sum s - base_main_sum s)) * float64 (10416 / 1000000)));
          temp_waste_weight = deadband (float64 (float64 (of_int (current_waste_sum s - base_waste_sum s)) * float64 (6666 / 1000000)));
          s = process_cat_detection_fsm e (float32 temp_main_weight) s
      in if lc_mutex e then s\<lparr>final_main_weight := temp_main_weight, final_waste_weight := temp_waste_weight\<rparr>
         else s)"

definition get_weight :: "lc_env \<Rightarrow> int \<Rightarrow> lc_state \<Rightarrow> rat" where
  "get_weight e mode s =
     (if lc_mutex e then
        (if mode = LOADCELL_MAIN then final_main_weight s
         else if mode = LOADCELL_WASTE then final_waste_weight s else 0)
      else 0)"

definition get_cat_detect_state :: "lc_state \<Rightarrow> cat_detect_state_t" where
  "get_cat_detect_state s = g_cat_state s"

definition get_cat_baseline_weight :: "lc_state \<Rightarrow> rat" where
  "get_cat_baseline_weight s = g_baseline_weight s"

definition loadcell_init :: "lc_state \<Rightarrow> lc_state" where
  "loadcell_init s = reset_cat_ring_buffer s"

section \<open>Tare\<close>

definition execute_tare :: "lc_env \<Rightarrow> int \<Rightarrow> lc_state \<Rightarrow> lc_state" where
  "execute_tare e state s =
     (if lc_mutex e then
        let s = s\<lparr>base_main_sum := current_main_sum s, base_waste_sum := current_waste_sum s\<rparr>;
            s = (if state > 0
                 then s\<lparr>nvs_saves := nvs_saves s @ [(state, replicate 4 (base_main_sum s sdiv 4))]\<rparr> else s)
        in reset_cat_ring_buffer s
      else s)"

text \<open>The comparison \<open>(int)cmd >= 0\<close> and \<open>cmd <= 3\<close>, and the state \<open>cmd - 1\<close> as an \<open>int\<close>.\<close>

definition loadcell_cmd_task :: "lc_env \<Rightarrow> u32 \<Rightarrow> lc_state \<Rightarrow> lc_state" where
  "loadcell_cmd_task e cmd s =
     (if sint cmd \<ge> 0 \<and> cmd \<le> LOADCELL_SAVE_STATE3_CMD then execute_tare e (sint (cmd - 1)) s else s)"

section \<open>The weights kept are the last 200\<close>

definition cat_ring_ok :: "lc_state \<Rightarrow> bool" where
  "cat_ring_ok s \<longleftrightarrow> slot_ok CAT_RING_BUFFER_SIZE (g_ring_buffer s) (g_ring_head s) (g_ring_count s)"

definition cat_window :: "lc_state \<Rightarrow> rat list" where
  "cat_window s = slot_window CAT_RING_BUFFER_SIZE (g_ring_buffer s) (g_ring_head s) (g_ring_count s)"

lemma push_cat_fields:
  "g_ring_buffer (push_cat_ring_buffer v s) = (g_ring_buffer s)[g_ring_head s := v]"
  "g_ring_head (push_cat_ring_buffer v s) = (g_ring_head s + 1) mod CAT_RING_BUFFER_SIZE"
  "g_ring_count (push_cat_ring_buffer v s)
    = (if g_ring_count s < CAT_RING_BUFFER_SIZE then g_ring_count s + 1 else g_ring_count s)"
  by (simp_all add: push_cat_ring_buffer_def)

interpretation cat: sliding_window cat_window "\<lambda>v. v" push_cat_ring_buffer cat_ring_ok CAT_RING_BUFFER_SIZE
proof (unfold_locales, goal_cases)
  case (2 q)
  then show ?case by (simp add: cat_ring_ok_def cat_window_def length_slot_window) (simp add: slot_ok_def)
next
  case (3 q a)
  then show ?case
    using slot_put_ok [of CAT_RING_BUFFER_SIZE "g_ring_buffer q" "g_ring_head q" "g_ring_count q" a]
    unfolding cat_ring_ok_def push_cat_fields by simp
next
  case (4 q a)
  then show ?case
    using slot_put_window [of CAT_RING_BUFFER_SIZE "g_ring_buffer q" "g_ring_head q" "g_ring_count q" a]
      length_slot_window [of CAT_RING_BUFFER_SIZE "g_ring_buffer q" "g_ring_head q" "g_ring_count q"]
    by (simp add: cat_ring_ok_def cat_window_def push_cat_fields)
qed simp

section \<open>Steps of the state machine\<close>

lemma reset_frame [simp]:
  "lc_out (reset_cat_ring_buffer s) = lc_out s" "g_cat_state (reset_cat_ring_buffer s) = CAT_STATE_INIT"
  "g_exit_timestamp_us (reset_cat_ring_buffer s) = g_exit_timestamp_us s"
  by (simp_all add: reset_cat_ring_buffer_def)

lemma track_frame [simp]:
  "lc_out (track_baseline w s) = lc_out s" "g_cat_state (track_baseline w s) = g_cat_state s"
  "g_exit_timestamp_us (track_baseline w s) = g_exit_timestamp_us s"
  by (simp_all add: track_baseline_def push_cat_ring_buffer_def Let_def)

lemma cat_steps_quiet [simp]:
  "lc_out (cat_init w s) = lc_out s" "lc_out (cat_idle w s) = lc_out s" "lc_out (cat_occupied t w s) = lc_out s"
  by (simp_all add: cat_init_def cat_idle_def cat_occupied_def Let_def)

lemma cat_steps_wait:
  "g_cat_state s = CAT_STATE_INIT \<Longrightarrow> g_cat_state (cat_init w s) \<noteq> CAT_STATE_WAIT_CLEAN"
  "g_cat_state s = CAT_STATE_IDLE \<Longrightarrow> g_cat_state (cat_idle w s) \<noteq> CAT_STATE_WAIT_CLEAN"
  "g_cat_state s = CAT_STATE_OCCUPIED \<Longrightarrow> g_cat_state (cat_occupied t w s) = CAT_STATE_WAIT_CLEAN \<Longrightarrow>
    g_exit_timestamp_us (cat_occupied t w s) = t"
  by (auto simp: cat_init_def cat_idle_def cat_occupied_def Let_def split: if_splits)

lemma cat_wait_clean_frame:
  "g_exit_timestamp_us (cat_wait_clean t w s) = g_exit_timestamp_us s"
  by (simp add: cat_wait_clean_def Let_def)

lemma cat_wait_clean_out:
  "lc_out (cat_wait_clean t w s) \<noteq> lc_out s \<Longrightarrow>
    lc_out (cat_wait_clean t w s) = lc_out s @ [UiQ (zero_ms\<lparr>ms_cmd := UI_CLEAN_CMD\<rparr>)]
    \<and> CAT_CLEAN_DELAY_SEC \<le> (t - g_exit_timestamp_us s) sdiv 1000000
    \<and> w < float32 (g_baseline_weight (cat_wait_clean t w s) + CAT_ENTRY_THRESHOLD_G)
    \<and> g_cat_state (cat_wait_clean t w s) = CAT_STATE_IDLE"
  by (auto simp: cat_wait_clean_def Let_def split: if_splits)

definition fsm_base :: "lc_env \<Rightarrow> lc_state \<Rightarrow> lc_state" where
  "fsm_base e s = (if g_prev_clean_running s \<and> \<not> lc_clean_running e then reset_cat_ring_buffer s else s)
     \<lparr>g_prev_clean_running := lc_clean_running e\<rparr>"

definition fsm_blocked :: "lc_env \<Rightarrow> bool" where
  "fsm_blocked e \<longleftrightarrow> lc_clean_running e \<or> lc_pause_flag e \<or> lc_recovery_requested e"

lemma fsm_unfold:
  "process_cat_detection_fsm e w s =
    (if fsm_blocked e then fsm_base e s
     else case g_cat_state (fsm_base e s) of
       CAT_STATE_INIT \<Rightarrow> cat_init w (fsm_base e s)
     | CAT_STATE_IDLE \<Rightarrow> cat_idle w (fsm_base e s)
     | CAT_STATE_OCCUPIED \<Rightarrow> cat_occupied (lc_now e) w (fsm_base e s)
     | CAT_STATE_WAIT_CLEAN \<Rightarrow> cat_wait_clean (lc_now e) w (fsm_base e s))"
  by (simp only: process_cat_detection_fsm_def fsm_base_def fsm_blocked_def Let_def)

lemma fsm_base_frame:
  "lc_out (fsm_base e s) = lc_out s" "g_exit_timestamp_us (fsm_base e s) = g_exit_timestamp_us s"
  "g_cat_state (fsm_base e s) = g_cat_state s \<or> g_cat_state (fsm_base e s) = CAT_STATE_INIT"
  by (simp_all add: fsm_base_def)

lemma fsm_request:
  assumes "lc_out (process_cat_detection_fsm e w s) \<noteq> lc_out s"
  shows "g_cat_state s = CAT_STATE_WAIT_CLEAN
    \<and> 180 \<le> (lc_now e - g_exit_timestamp_us s) sdiv 1000000
    \<and> w < float32 (g_baseline_weight (process_cat_detection_fsm e w s) + CAT_ENTRY_THRESHOLD_G)
    \<and> \<not> lc_clean_running e \<and> \<not> lc_pause_flag e \<and> \<not> lc_recovery_requested e
    \<and> lc_out (process_cat_detection_fsm e w s) = lc_out s @ [UiQ (zero_ms\<lparr>ms_cmd := UI_CLEAN_CMD\<rparr>)]"
proof -
  let ?b = "fsm_base e s"
  have nb: "\<not> fsm_blocked e" using assms by (auto simp: fsm_unfold fsm_base_frame)
  have st: "g_cat_state ?b = CAT_STATE_WAIT_CLEAN"
    using assms nb by (cases "g_cat_state ?b") (auto simp: fsm_unfold fsm_base_frame)
  then have "g_cat_state s = CAT_STATE_WAIT_CLEAN" using fsm_base_frame(3) [of e s] by auto
  moreover have "process_cat_detection_fsm e w s = cat_wait_clean (lc_now e) w ?b"
    using nb st by (simp add: fsm_unfold)
  ultimately show ?thesis
    using cat_wait_clean_out [of "lc_now e" w ?b] assms nb by (simp add: fsm_base_frame fsm_blocked_def)
qed

section \<open>Properties\<close>

text \<open>
  The ring behind the baseline always holds the last 200 weights.
\<close>

theorem cat_ring_last_200:
  "cat_window (fold push_cat_ring_buffer ws (reset_cat_ring_buffer s)) = drop (length ws - 200) ws"
proof -
  have "cat_ring_ok (reset_cat_ring_buffer s)" "cat_window (reset_cat_ring_buffer s) = []"
    by (simp_all add: cat_ring_ok_def cat_window_def slot_ok_def slot_window_def reset_cat_ring_buffer_def)
  then show ?thesis using cat.contents_pushes [of "reset_cat_ring_buffer s" ws] by simp
qed

text \<open>
  The state machine asks for a clean only from the waiting state, at least 180 s after the cat
  left, with no weight of a new visit on the scale, and never while a clean runs, is paused or
  recovers; the request is one \<open>UI_CLEAN_CMD\<close>.
\<close>

theorem clean_request_conditions:
  assumes "lc_out (process_cat_detection_fsm e w s) \<noteq> lc_out s"
  shows "g_cat_state s = CAT_STATE_WAIT_CLEAN
    \<and> 180 \<le> (lc_now e - g_exit_timestamp_us s) sdiv 1000000
    \<and> w < float32 (g_baseline_weight (process_cat_detection_fsm e w s) + CAT_ENTRY_THRESHOLD_G)
    \<and> \<not> lc_clean_running e \<and> \<not> lc_pause_flag e \<and> \<not> lc_recovery_requested e
    \<and> lc_out (process_cat_detection_fsm e w s) = lc_out s @ [UiQ (zero_ms\<lparr>ms_cmd := UI_CLEAN_CMD\<rparr>)]"
  using fsm_request [OF assms] .

definition quiet_env :: "int \<Rightarrow> lc_env" where
  "quiet_env t = \<lparr>lc_now = t, lc_clean_running = False, lc_pause_flag = False,
     lc_recovery_requested = False, lc_mutex = True\<rparr>"

definition lc_boot :: lc_state where
  "lc_boot = reset_cat_ring_buffer
     \<lparr>g_cat_state = CAT_STATE_INIT, g_ring_buffer = [], g_ring_head = 0, g_ring_count = 0,
      g_ring_sum = 0, g_baseline_weight = 0, g_exit_timestamp_us = 0, g_prev_clean_running = False,
      g_log_idle_baseline = 0, g_log_peak_weight = 0, g_log_exit_weight = 0, g_last_logged_min = 0,
      current_main_sum = 0, current_waste_sum = 0, base_main_sum = 0, base_waste_sum = 0,
      final_main_weight = 0, final_waste_weight = 0, lc_out = [], nvs_saves = []\<rparr>"

theorem clean_request_conditions_witness:
  "let s = lc_boot\<lparr>g_cat_state := CAT_STATE_WAIT_CLEAN\<rparr>; e = quiet_env 180000000
   in lc_out (process_cat_detection_fsm e 0 s) = [UiQ (zero_ms\<lparr>ms_cmd := UI_CLEAN_CMD\<rparr>)]
      \<and> 180 \<le> (lc_now e - g_exit_timestamp_us s) sdiv 1000000"
proof -
  let ?s = "lc_boot\<lparr>g_cat_state := CAT_STATE_WAIT_CLEAN\<rparr>" and ?e = "quiet_env 180000000"
  have "lc_out (process_cat_detection_fsm ?e 0 ?s) \<noteq> lc_out ?s" by code_simp
  from clean_request_conditions [OF this] show ?thesis by (simp add: Let_def lc_boot_def reset_cat_ring_buffer_def)
qed

text \<open>A run of the state machine over readings with their environments.\<close>

definition fsm_run :: "(lc_env \<times> rat) list \<Rightarrow> lc_state \<Rightarrow> lc_state" where
  "fsm_run xs s = fold (\<lambda>(e, w). process_cat_detection_fsm e w) xs s"

lemma fsm_run_snoc: "fsm_run (xs @ [(e, w)]) s = process_cat_detection_fsm e w (fsm_run xs s)"
  by (simp add: fsm_run_def)

text \<open>\<open>left_at xs s i\<close>: reading \<open>i\<close> of the run is the one with which the cat left.\<close>

definition left_at :: "(lc_env \<times> rat) list \<Rightarrow> lc_state \<Rightarrow> nat \<Rightarrow> bool" where
  "left_at xs s i \<longleftrightarrow> i < length xs \<and> g_cat_state (fsm_run (take i xs) s) = CAT_STATE_OCCUPIED
     \<and> g_cat_state (fsm_run (take (Suc i) xs) s) = CAT_STATE_WAIT_CLEAN"

lemma left_at_append: "left_at xs s i \<Longrightarrow> left_at (xs @ ys) s i"
  by (simp add: left_at_def)

lemma fsm_step_wait:
  assumes "g_cat_state (process_cat_detection_fsm e w s) = CAT_STATE_WAIT_CLEAN"
  shows "g_cat_state s = CAT_STATE_OCCUPIED \<and> g_exit_timestamp_us (process_cat_detection_fsm e w s) = lc_now e
    \<or> g_cat_state s = CAT_STATE_WAIT_CLEAN
      \<and> g_exit_timestamp_us (process_cat_detection_fsm e w s) = g_exit_timestamp_us s"
proof (cases "fsm_blocked e")
  case True
  then show ?thesis using assms fsm_base_frame(3) [of e s] by (auto simp: fsm_unfold fsm_base_frame(1,2))
next
  case False
  then show ?thesis
    using assms fsm_base_frame(3) [of e s] cat_steps_wait(1,2) [of "fsm_base e s" w]
      cat_steps_wait(3) [of "fsm_base e s" "lc_now e" w]
    by (cases "g_cat_state (fsm_base e s)")
      (auto simp: fsm_unfold fsm_base_frame cat_wait_clean_frame)
qed

lemma wait_has_exit:
  assumes "g_cat_state s \<noteq> CAT_STATE_WAIT_CLEAN"
  shows "g_cat_state (fsm_run xs s) = CAT_STATE_WAIT_CLEAN \<Longrightarrow>
    \<exists>i. left_at xs s i \<and> g_exit_timestamp_us (fsm_run xs s) = lc_now (fst (xs ! i))"
proof (induction xs rule: rev_induct)
  case Nil
  then show ?case using assms by (simp add: fsm_run_def)
next
  case (snoc x xs)
  obtain e w where x: "x = (e, w)" by (cases x)
  let ?t = "fsm_run xs s"
  have "g_cat_state (process_cat_detection_fsm e w ?t) = CAT_STATE_WAIT_CLEAN"
    using snoc.prems by (simp add: x fsm_run_snoc)
  from fsm_step_wait [OF this] show ?case
  proof
    assume "g_cat_state ?t = CAT_STATE_OCCUPIED \<and> g_exit_timestamp_us (process_cat_detection_fsm e w ?t) = lc_now e"
    then have "left_at (xs @ [x]) s (length xs)
        \<and> g_exit_timestamp_us (fsm_run (xs @ [x]) s) = lc_now (fst ((xs @ [x]) ! length xs))"
      using snoc.prems by (simp add: left_at_def x fsm_run_snoc)
    then show ?thesis by blast
  next
    assume "g_cat_state ?t = CAT_STATE_WAIT_CLEAN
      \<and> g_exit_timestamp_us (process_cat_detection_fsm e w ?t) = g_exit_timestamp_us ?t"
    with snoc.IH obtain i where "left_at xs s i" "g_exit_timestamp_us (fsm_run (xs @ [x]) s) = lc_now (fst (xs ! i))"
      by (auto simp: x fsm_run_snoc)
    moreover from this have "i < length xs" by (simp add: left_at_def)
    ultimately have "left_at (xs @ [x]) s i \<and> g_exit_timestamp_us (fsm_run (xs @ [x]) s) = lc_now (fst ((xs @ [x]) ! i))"
      by (simp add: left_at_append nth_append)
    then show ?thesis by blast
  qed
qed

text \<open>
  C4: over any run from start-up, a clean is requested only at least 180 s after a reading with
  which the machine saw a cat leave.
\<close>

theorem clean_request_follows_visit:
  assumes "lc_out (fsm_run (xs @ [(e, w)]) lc_boot) \<noteq> lc_out (fsm_run xs lc_boot)"
  shows "\<exists>i < length xs. left_at xs lc_boot i \<and> 180 \<le> (lc_now e - lc_now (fst (xs ! i))) sdiv 1000000"
proof -
  let ?t = "fsm_run xs lc_boot"
  have req: "lc_out (process_cat_detection_fsm e w ?t) \<noteq> lc_out ?t" using assms by (simp add: fsm_run_snoc)
  note c = fsm_request [OF req]
  have "g_cat_state lc_boot \<noteq> CAT_STATE_WAIT_CLEAN" by (simp add: lc_boot_def)
  from wait_has_exit [OF this, of xs] c obtain i where
    "left_at xs lc_boot i" "g_exit_timestamp_us ?t = lc_now (fst (xs ! i))" by auto
  then show ?thesis using c by (auto simp: left_at_def)
qed

text \<open>A visit: thirty readings of the empty box, one with a cat in it, and one without.\<close>

definition visit_run :: "(lc_env \<times> rat) list" where
  "visit_run = replicate 30 (quiet_env 0, 0) @ [(quiet_env 1000000, 5000), (quiet_env 2000000, 0)]"

theorem clean_request_follows_visit_witness:
  "lc_out (fsm_run (visit_run @ [(quiet_env 182000000, 0)]) lc_boot) \<noteq> lc_out (fsm_run visit_run lc_boot)
   \<and> (\<exists>i < length visit_run. left_at visit_run lc_boot i
       \<and> 180 \<le> (182000000 - lc_now (fst (visit_run ! i))) sdiv 1000000)"
proof -
  have m: "lc_out (fsm_run (visit_run @ [(quiet_env 182000000, 0)]) lc_boot) \<noteq> lc_out (fsm_run visit_run lc_boot)"
    by code_simp
  moreover have "lc_now (quiet_env 182000000) = 182000000" by (simp add: quiet_env_def)
  ultimately show ?thesis using clean_request_follows_visit [OF m] by simp
qed

lemma fsm_occupied_step:
  assumes "g_cat_state s = CAT_STATE_OCCUPIED" "\<not> g_prev_clean_running s" "\<not> fsm_blocked e"
    and "w > float32 (g_baseline_weight s + CAT_EXIT_THRESHOLD_G)"
  shows "process_cat_detection_fsm e w s = s\<lparr>g_log_peak_weight := max (g_log_peak_weight s) w\<rparr>"
proof -
  have "fsm_base e s = s" using assms(2,3) by (simp add: fsm_base_def fsm_blocked_def)
  with assms show ?thesis by (simp add: fsm_unfold cat_occupied_def Let_def)
qed

text \<open>
  While a cat is in the box, readings more than 300 g above the baseline never end the visit
  and never ask for a clean; the baseline and the ring behind it are frozen, and the peak is the
  largest weight seen.
\<close>

theorem visit_freezes_baseline:
  assumes "g_cat_state s = CAT_STATE_OCCUPIED" "\<not> g_prev_clean_running s"
    and "\<forall>(e, w) \<in> set xs. \<not> fsm_blocked e \<and> w > float32 (g_baseline_weight s + 300)"
  shows "fsm_run xs s = s\<lparr>g_log_peak_weight := fold max (map snd xs) (g_log_peak_weight s)\<rparr>"
  using assms
proof (induction xs arbitrary: s)
  case (Cons x xs)
  obtain e w where x: "x = (e, w)" by (cases x)
  let ?s = "s\<lparr>g_log_peak_weight := max (g_log_peak_weight s) w\<rparr>"
  have "process_cat_detection_fsm e w s = ?s" using Cons.prems x by (intro fsm_occupied_step) auto
  moreover have "fsm_run xs ?s = ?s\<lparr>g_log_peak_weight := fold max (map snd xs) (g_log_peak_weight ?s)\<rparr>"
    using Cons.prems by (intro Cons.IH) auto
  ultimately show ?case by (simp add: fsm_run_def x max.commute)
qed (simp add: fsm_run_def)

theorem visit_freezes_baseline_witness:
  "let s = lc_boot\<lparr>g_cat_state := CAT_STATE_OCCUPIED, g_log_peak_weight := 2000\<rparr>
   in fsm_run [(quiet_env 0, 5000), (quiet_env 1, 4000)] s = s\<lparr>g_log_peak_weight := 5000\<rparr>"
proof -
  let ?s = "lc_boot\<lparr>g_cat_state := CAT_STATE_OCCUPIED, g_log_peak_weight := 2000\<rparr>"
  let ?xs = "[(quiet_env 0, 5000), (quiet_env 1, 4000)]"
  have "g_baseline_weight ?s = 0" "\<not> g_prev_clean_running ?s" "g_log_peak_weight ?s = 2000"
    by (simp_all add: lc_boot_def reset_cat_ring_buffer_def)
  moreover have "float32 300 < 4000" by code_simp
  ultimately have "fsm_run ?xs ?s = ?s\<lparr>g_log_peak_weight := fold max (map snd ?xs) (g_log_peak_weight ?s)\<rparr>"
    by (intro visit_freezes_baseline) (auto simp: fsm_blocked_def quiet_env_def)
  then show ?thesis by (simp add: Let_def)
qed

lemma word_le_3:
  fixes x :: u32
  assumes "x \<le> 3"
  shows "x = 0 \<or> x = 1 \<or> x = 2 \<or> x = 3"
proof -
  have "unat x \<le> 3" using assms by (simp add: word_le_nat_alt)
  then have "unat x = 0 \<or> unat x = 1 \<or> unat x = 2 \<or> unat x = 3" by arith
  then show ?thesis by (simp add: word_unat_eq_iff)
qed

text \<open>
  The commands that store a calibration store slots 1 and 2 only.  The command for state 1
  stores nothing: it does what the plain tare does.
\<close>

theorem save_commands:
  "nvs_saves (loadcell_cmd_task e cmd s) = nvs_saves s @
     (if lc_mutex e \<and> (cmd = LOADCELL_SAVE_STATE2_CMD \<or> cmd = LOADCELL_SAVE_STATE3_CMD)
      then [(sint cmd - 1, replicate 4 (current_main_sum s sdiv 4))] else [])
   \<and> loadcell_cmd_task e LOADCELL_SAVE_STATE1_CMD s = loadcell_cmd_task e LOADCELL_TARE_CMD s"
proof -
  have nv: "nvs_saves (reset_cat_ring_buffer t) = nvs_saves t" for t by (simp add: reset_cat_ring_buffer_def)
  consider "cmd = 0" | "cmd = 1" | "cmd = 2" | "cmd = 3" | "\<not> cmd \<le> 3"
    using word_le_3 by blast
  then show ?thesis
    by cases (auto simp: loadcell_cmd_task_def execute_tare_def Let_def nv)
qed

end
