(* ===== verification/Led.thy ===== *)
theory Led
  imports Messages "HOL-Library.Signed_Division"
begin

text \<open>
  The status light, \<open>src/main/led.c\<close>.  \<open>led_task\<close> turns a command into a mode, and
  \<open>led_process_task\<close> plays the mode: every 20 ms one pass of a switch over \<open>led_mode\<close>.  A pass
  reads the mode once, at the switch, and may store a new mode at its end; a command that arrives
  in between is stored in between, so \<open>led_body\<close> takes the mode that was read as an argument of
  its own.  \<open>t\<close> and \<open>u\<close> are the times the first and the second call of
  \<open>esp_timer_get_time\<close> in a pass return.  What is sent to the strip is recorded, not interpreted:
  the strip driver is not code of the repository.
\<close>

section \<open>State\<close>

datatype led_mode_t =
    LED_IDLE_MODE | LED_NORMAL_MODE | LED_INITOK_MODE | LED_INITOK_MODE_1
  | LED_INITOK_MODE_2 | LED_PAIRING_MODE | LED_PAIRING_MODE_1 | LED_PAIRING_MODE_2
  | LED_UNLOCK_MODE | LED_UNLOCK_MODE_1 | LED_UNLOCK_MODE_2 | LED_UNLOCK_MODE_3
  | LED_UNLOCK_MODE_4 | LED_LOCK_MODE | LED_LOCK_MODE_1 | LED_LOCK_MODE_2
  | LED_INVALID_MODE | LED_INVALID_MODE_1 | LED_INVALID_MODE_2 | LED_INVALID_MODE_3
  | LED_INVALID_MODE_4 | LED_INUSE_MODE | LED_CLEANING_MODE | LED_CLEANING_MODE_1
  | LED_MANAGE_MODE | LED_MANAGE_MODE_1 | LED_BINFULL_MODE | LED_ERROR_MODE
  | LED_ERROR_MODE_1 | LED_ERROR_MODE_2 | LED_QCMODE_MODE | LED_QCMODE_MODE_1
  | LED_QCMODE_MODE_2 | LED_QCQUIT_MODE | LED_QCQUIT_MODE_1 | LED_QCQUIT_MODE_2
  | LED_QCQUIT_MODE_3 | LED_QCQUIT_MODE_4 | LED_QCQUIT_MODE_5 | LED_PAUSE_MODE
  | LED_PAUSE_MODE_1 | LED_PAUSE_MODE_2

text \<open>The four pixels set and refreshed, or the strip cleared.\<close>

datatype strip_op = Refresh "u32 list list" | Clear

record led_state =
  led_mode :: led_mode_t
  ani_color :: int
  ani_dir :: int
  start_tm :: int
  end_tm :: int
  elapsed :: int
  strip :: "strip_op list"

definition led_init :: led_state where
  "led_init = \<lparr>led_mode = LED_IDLE_MODE, ani_color = 0, ani_dir = 0, start_tm = 0, end_tm = 0,
     elapsed = 0, strip = [Clear]\<rparr>"

definition set_led_opmode :: "led_mode_t \<Rightarrow> led_state \<Rightarrow> led_state" where
  "set_led_opmode m s = s\<lparr>led_mode := m\<rparr>"

section \<open>Drawing\<close>

definition led_fill :: "u32 list \<Rightarrow> led_state \<Rightarrow> led_state" where
  "led_fill color s = s\<lparr>strip := strip s @ [Refresh (replicate 4 color)]\<rparr>"

definition led_full_rgbw :: "int \<Rightarrow> led_state \<Rightarrow> led_state" where
  "led_full_rgbw mode =
     led_fill (if mode = 0 then [255, 0, 0, 0]
               else if mode = 1 then [0, 255, 0, 0]
               else if mode = 2 then [0, 0, 255, 0]
               else if mode = 3 then [0, 0, 0, 255]
               else [0, 0, 0, 0])"

definition led_full_rgbw_color :: "int \<Rightarrow> u32 \<Rightarrow> led_state \<Rightarrow> led_state" where
  "led_full_rgbw_color mode value =
     led_fill (if mode = 0 then [value, 0, 0, 0]
               else if mode = 1 then [0, value, 0, 0]
               else if mode = 2 then [0, 0, value, 0]
               else if mode = 3 then [0, 0, 0, value]
               else if mode = 4 then [value, value, 0, 0]
               else [0, 0, 0, 0])"

definition led_full_white :: "led_state \<Rightarrow> led_state" where
  "led_full_white = led_full_rgbw 3"

definition led_full_off :: "led_state \<Rightarrow> led_state" where
  "led_full_off s = s\<lparr>strip := strip s @ [Clear]\<rparr>"

definition led_animation :: "int \<Rightarrow> int \<Rightarrow> led_state \<Rightarrow> led_state" where
  "led_animation mode color s =
     (if mode = 0 then s\<lparr>ani_color := 0, ani_dir := 0\<rparr>
      else
        let s = led_full_rgbw_color color (of_int (ani_color s)) s
        in if ani_dir s = 0 then
             (let s = s\<lparr>ani_color := ani_color s + 1\<rparr>
              in if ani_color s > 255 then s\<lparr>ani_dir := 1, ani_color := 255\<rparr> else s)
           else
             (let s = s\<lparr>ani_color := ani_color s - 1\<rparr>
              in if ani_color s < 0 then s\<lparr>ani_dir := 0, ani_color := 0\<rparr> else s))"

section \<open>One pass\<close>

text \<open>The three shapes of a timed branch: start a phase, change phase, leave the last phase.\<close>

definition show_for :: "int \<Rightarrow> (led_state \<Rightarrow> led_state) \<Rightarrow> led_mode_t \<Rightarrow> led_state \<Rightarrow> led_state" where
  "show_for t draw next s = set_led_opmode next ((draw s)\<lparr>start_tm := t\<rparr>)"

definition leave :: "int \<Rightarrow> int \<Rightarrow> (led_state \<Rightarrow> led_state) \<Rightarrow> led_mode_t \<Rightarrow> led_state \<Rightarrow> led_state" where
  "leave limit t draw next s =
     (let s = s\<lparr>end_tm := t\<rparr>; s = s\<lparr>elapsed := (end_tm s - start_tm s) sdiv 1000\<rparr>
      in if elapsed s \<ge> limit then set_led_opmode next (draw s) else s)"

definition after ::
    "int \<Rightarrow> int \<Rightarrow> int \<Rightarrow> (led_state \<Rightarrow> led_state) \<Rightarrow> led_mode_t \<Rightarrow> led_state \<Rightarrow> led_state" where
  "after limit t u draw = leave limit t (\<lambda>s. (draw s)\<lparr>start_tm := u\<rparr>)"

definition led_once :: "led_mode_t \<Rightarrow> int \<Rightarrow> int \<Rightarrow> led_state \<Rightarrow> led_state" where
  "led_once m t u s =
     (case m of
        LED_NORMAL_MODE \<Rightarrow> set_led_opmode LED_IDLE_MODE (led_full_white s)
      | LED_INUSE_MODE \<Rightarrow> set_led_opmode LED_IDLE_MODE (led_full_rgbw 1 s)
      | LED_BINFULL_MODE \<Rightarrow> set_led_opmode LED_IDLE_MODE (led_full_rgbw 0 s)
      | _ \<Rightarrow> s)"

definition led_initok :: "led_mode_t \<Rightarrow> int \<Rightarrow> int \<Rightarrow> led_state \<Rightarrow> led_state" where
  "led_initok m t u s =
     (case m of
        LED_INITOK_MODE \<Rightarrow> show_for t led_full_white LED_INITOK_MODE_1 s
      | LED_INITOK_MODE_1 \<Rightarrow> after 2000 t u led_full_off LED_INITOK_MODE_2 s
      | LED_INITOK_MODE_2 \<Rightarrow> leave 2000 t id LED_IDLE_MODE s
      | _ \<Rightarrow> s)"

definition led_pairing :: "led_mode_t \<Rightarrow> int \<Rightarrow> int \<Rightarrow> led_state \<Rightarrow> led_state" where
  "led_pairing m t u s =
     (case m of
        LED_PAIRING_MODE \<Rightarrow> show_for t (led_full_rgbw 2) LED_PAIRING_MODE_1 s
      | LED_PAIRING_MODE_1 \<Rightarrow> after 500 t u (led_full_rgbw 0) LED_PAIRING_MODE_2 s
      | LED_PAIRING_MODE_2 \<Rightarrow> leave 500 t id LED_PAIRING_MODE s
      | _ \<Rightarrow> s)"

definition led_unlock :: "led_mode_t \<Rightarrow> int \<Rightarrow> int \<Rightarrow> led_state \<Rightarrow> led_state" where
  "led_unlock m t u s =
     (case m of
        LED_UNLOCK_MODE \<Rightarrow> show_for t led_full_white LED_LOCK_MODE_1 s
      | LED_UNLOCK_MODE_1 \<Rightarrow> after 500 t u led_full_off LED_LOCK_MODE_2 s
      | LED_UNLOCK_MODE_2 \<Rightarrow> after 500 t u led_full_white LED_UNLOCK_MODE_3 s
      | LED_UNLOCK_MODE_3 \<Rightarrow> after 500 t u led_full_off LED_UNLOCK_MODE_4 s
      | LED_UNLOCK_MODE_4 \<Rightarrow> leave 500 t id LED_IDLE_MODE s
      | _ \<Rightarrow> s)"

definition led_lock :: "led_mode_t \<Rightarrow> int \<Rightarrow> int \<Rightarrow> led_state \<Rightarrow> led_state" where
  "led_lock m t u s =
     (case m of
        LED_LOCK_MODE \<Rightarrow> show_for t (led_full_rgbw 0) LED_LOCK_MODE_1 s
      | LED_LOCK_MODE_1 \<Rightarrow> after 2000 t u led_full_off LED_LOCK_MODE_2 s
      | LED_LOCK_MODE_2 \<Rightarrow> leave 2000 t id LED_IDLE_MODE s
      | _ \<Rightarrow> s)"

definition led_invalid :: "led_mode_t \<Rightarrow> int \<Rightarrow> int \<Rightarrow> led_state \<Rightarrow> led_state" where
  "led_invalid m t u s =
     (case m of
        LED_INVALID_MODE \<Rightarrow> show_for t (led_full_rgbw 0) LED_INVALID_MODE_1 s
      | LED_INVALID_MODE_1 \<Rightarrow> after 500 t u led_full_off LED_INVALID_MODE_2 s
      | LED_INVALID_MODE_2 \<Rightarrow> after 500 t u (led_full_rgbw 0) LED_INVALID_MODE_3 s
      | LED_INVALID_MODE_3 \<Rightarrow> after 500 t u led_full_off LED_INVALID_MODE_4 s
      | LED_INVALID_MODE_4 \<Rightarrow> leave 500 t id LED_IDLE_MODE s
      | _ \<Rightarrow> s)"

definition led_animate :: "led_mode_t \<Rightarrow> int \<Rightarrow> int \<Rightarrow> led_state \<Rightarrow> led_state" where
  "led_animate m t u s =
     (case m of
        LED_CLEANING_MODE \<Rightarrow> set_led_opmode LED_CLEANING_MODE_1 (led_animation 1 2 (led_animation 0 0 s))
      | LED_CLEANING_MODE_1 \<Rightarrow> led_animation 1 2 s
      | LED_MANAGE_MODE \<Rightarrow> set_led_opmode LED_MANAGE_MODE_1 (led_animation 1 4 (led_animation 0 0 s))
      | LED_MANAGE_MODE_1 \<Rightarrow> led_animation 1 4 s
      | _ \<Rightarrow> s)"

definition led_error :: "led_mode_t \<Rightarrow> int \<Rightarrow> int \<Rightarrow> led_state \<Rightarrow> led_state" where
  "led_error m t u s =
     (case m of
        LED_ERROR_MODE \<Rightarrow> show_for t (led_full_rgbw 0) LED_ERROR_MODE_1 s
      | LED_ERROR_MODE_1 \<Rightarrow> after 300 t u led_full_off LED_ERROR_MODE_2 s
      | LED_ERROR_MODE_2 \<Rightarrow> leave 300 t id LED_ERROR_MODE s
      | _ \<Rightarrow> s)"

definition led_qcmode :: "led_mode_t \<Rightarrow> int \<Rightarrow> int \<Rightarrow> led_state \<Rightarrow> led_state" where
  "led_qcmode m t u s =
     (case m of
        LED_QCMODE_MODE \<Rightarrow> show_for t led_full_white LED_QCMODE_MODE_1 s
      | LED_QCMODE_MODE_1 \<Rightarrow> after 300 t u led_full_off LED_QCMODE_MODE_2 s
      | LED_QCMODE_MODE_2 \<Rightarrow> leave 300 t id LED_QCMODE_MODE s
      | _ \<Rightarrow> s)"

definition led_qcquit :: "led_mode_t \<Rightarrow> int \<Rightarrow> int \<Rightarrow> led_state \<Rightarrow> led_state" where
  "led_qcquit m t u s =
     (case m of
        LED_QCQUIT_MODE \<Rightarrow> show_for t (led_full_rgbw 1) LED_QCQUIT_MODE_1 s
      | LED_QCQUIT_MODE_1 \<Rightarrow> after 300 t u led_full_off LED_QCQUIT_MODE_2 s
      | LED_QCQUIT_MODE_2 \<Rightarrow> after 300 t u (led_full_rgbw 1) LED_QCQUIT_MODE_3 s
      | LED_QCQUIT_MODE_3 \<Rightarrow> after 300 t u led_full_off LED_QCQUIT_MODE_4 s
      | LED_QCQUIT_MODE_4 \<Rightarrow> after 300 t u (led_full_rgbw 1) LED_QCQUIT_MODE_5 s
      | LED_QCQUIT_MODE_5 \<Rightarrow> leave 300 t led_full_white LED_IDLE_MODE s
      | _ \<Rightarrow> s)"

definition led_pause :: "led_mode_t \<Rightarrow> int \<Rightarrow> int \<Rightarrow> led_state \<Rightarrow> led_state" where
  "led_pause m t u s =
     (case m of
        LED_PAUSE_MODE \<Rightarrow> show_for t (led_full_rgbw_color 4 255) LED_PAUSE_MODE_1 s
      | LED_PAUSE_MODE_1 \<Rightarrow> after 500 t u led_full_off LED_PAUSE_MODE_2 s
      | LED_PAUSE_MODE_2 \<Rightarrow> leave 500 t id LED_PAUSE_MODE s
      | _ \<Rightarrow> s)"

definition led_body :: "led_mode_t \<Rightarrow> int \<Rightarrow> int \<Rightarrow> led_state \<Rightarrow> led_state" where
  "led_body m t u s =
     (case m of
        LED_IDLE_MODE \<Rightarrow> s
      | LED_NORMAL_MODE \<Rightarrow> led_once m t u s
      | LED_INITOK_MODE \<Rightarrow> led_initok m t u s
      | LED_INITOK_MODE_1 \<Rightarrow> led_initok m t u s
      | LED_INITOK_MODE_2 \<Rightarrow> led_initok m t u s
      | LED_PAIRING_MODE \<Rightarrow> led_pairing m t u s
      | LED_PAIRING_MODE_1 \<Rightarrow> led_pairing m t u s
      | LED_PAIRING_MODE_2 \<Rightarrow> led_pairing m t u s
      | LED_UNLOCK_MODE \<Rightarrow> led_unlock m t u s
      | LED_UNLOCK_MODE_1 \<Rightarrow> led_unlock m t u s
      | LED_UNLOCK_MODE_2 \<Rightarrow> led_unlock m t u s
      | LED_UNLOCK_MODE_3 \<Rightarrow> led_unlock m t u s
      | LED_UNLOCK_MODE_4 \<Rightarrow> led_unlock m t u s
      | LED_LOCK_MODE \<Rightarrow> led_lock m t u s
      | LED_LOCK_MODE_1 \<Rightarrow> led_lock m t u s
      | LED_LOCK_MODE_2 \<Rightarrow> led_lock m t u s
      | LED_INVALID_MODE \<Rightarrow> led_invalid m t u s
      | LED_INVALID_MODE_1 \<Rightarrow> led_invalid m t u s
      | LED_INVALID_MODE_2 \<Rightarrow> led_invalid m t u s
      | LED_INVALID_MODE_3 \<Rightarrow> led_invalid m t u s
      | LED_INVALID_MODE_4 \<Rightarrow> led_invalid m t u s
      | LED_INUSE_MODE \<Rightarrow> led_once m t u s
      | LED_CLEANING_MODE \<Rightarrow> led_animate m t u s
      | LED_CLEANING_MODE_1 \<Rightarrow> led_animate m t u s
      | LED_MANAGE_MODE \<Rightarrow> led_animate m t u s
      | LED_MANAGE_MODE_1 \<Rightarrow> led_animate m t u s
      | LED_BINFULL_MODE \<Rightarrow> led_once m t u s
      | LED_ERROR_MODE \<Rightarrow> led_error m t u s
      | LED_ERROR_MODE_1 \<Rightarrow> led_error m t u s
      | LED_ERROR_MODE_2 \<Rightarrow> led_error m t u s
      | LED_QCMODE_MODE \<Rightarrow> led_qcmode m t u s
      | LED_QCMODE_MODE_1 \<Rightarrow> led_qcmode m t u s
      | LED_QCMODE_MODE_2 \<Rightarrow> led_qcmode m t u s
      | LED_QCQUIT_MODE \<Rightarrow> led_qcquit m t u s
      | LED_QCQUIT_MODE_1 \<Rightarrow> led_qcquit m t u s
      | LED_QCQUIT_MODE_2 \<Rightarrow> led_qcquit m t u s
      | LED_QCQUIT_MODE_3 \<Rightarrow> led_qcquit m t u s
      | LED_QCQUIT_MODE_4 \<Rightarrow> led_qcquit m t u s
      | LED_QCQUIT_MODE_5 \<Rightarrow> led_qcquit m t u s
      | LED_PAUSE_MODE \<Rightarrow> led_pause m t u s
      | LED_PAUSE_MODE_1 \<Rightarrow> led_pause m t u s
      | LED_PAUSE_MODE_2 \<Rightarrow> led_pause m t u s)"

definition led_pass :: "int \<Rightarrow> int \<Rightarrow> led_state \<Rightarrow> led_state" where
  "led_pass t u s = led_body (led_mode s) t u s"

section \<open>Commands\<close>

definition led_task :: "u32 \<Rightarrow> led_state \<Rightarrow> led_state" where
  "led_task cmd s =
     (if cmd = LED_IDLE_CMD then set_led_opmode LED_NORMAL_MODE s
      else if cmd = LED_INITOK_CMD then set_led_opmode LED_INITOK_MODE s
      else if cmd = LED_PAIRING_CMD then set_led_opmode LED_PAIRING_MODE s
      else if cmd = LED_UNLOCK_CMD then set_led_opmode LED_UNLOCK_MODE s
      else if cmd = LED_LOCK_CMD then set_led_opmode LED_LOCK_MODE s
      else if cmd = LED_INVALID_CMD then set_led_opmode LED_INVALID_MODE s
      else if cmd = LED_INUSE_CMD then set_led_opmode LED_INUSE_MODE s
      else if cmd = LED_CLEANING_CMD then set_led_opmode LED_CLEANING_MODE s
      else if cmd = LED_MANAGE_CMD then set_led_opmode LED_MANAGE_MODE s
      else if cmd = LED_BINFULL_CMD then set_led_opmode LED_BINFULL_MODE s
      else if cmd = LED_ERROR_CMD then set_led_opmode LED_ERROR_MODE s
      else if cmd = LED_QCMODE_CMD then set_led_opmode LED_QCMODE_MODE s
      else if cmd = LED_QCQUIT_CMD then set_led_opmode LED_QCQUIT_MODE s
      else if cmd = LED_PAUSE_CMD then set_led_opmode LED_PAUSE_MODE s
      else s)"

section \<open>What a pass keeps\<close>

lemma draw_frame [simp]:
  "led_mode (led_fill c s) = led_mode s" "ani_color (led_fill c s) = ani_color s"
  "ani_dir (led_fill c s) = ani_dir s" "start_tm (led_fill c s) = start_tm s"
  "led_mode (led_full_rgbw k s) = led_mode s" "ani_color (led_full_rgbw k s) = ani_color s"
  "ani_dir (led_full_rgbw k s) = ani_dir s" "start_tm (led_full_rgbw k s) = start_tm s"
  "led_mode (led_full_rgbw_color k v s) = led_mode s" "ani_color (led_full_rgbw_color k v s) = ani_color s"
  "ani_dir (led_full_rgbw_color k v s) = ani_dir s" "start_tm (led_full_rgbw_color k v s) = start_tm s"
  "led_mode (led_full_white s) = led_mode s" "ani_color (led_full_white s) = ani_color s"
  "ani_dir (led_full_white s) = ani_dir s" "start_tm (led_full_white s) = start_tm s"
  "led_mode (led_full_off s) = led_mode s" "ani_color (led_full_off s) = ani_color s"
  "ani_dir (led_full_off s) = ani_dir s" "start_tm (led_full_off s) = start_tm s"
  "led_mode (led_animation k l s) = led_mode s" "start_tm (led_animation k l s) = start_tm s"
  by (simp_all add: led_fill_def led_full_rgbw_def led_full_rgbw_color_def led_full_white_def
      led_full_off_def led_animation_def Let_def)

lemmas led_branches = led_once_def led_initok_def led_pairing_def led_unlock_def led_lock_def
  led_invalid_def led_animate_def led_error_def led_qcmode_def led_qcquit_def led_pause_def

lemmas led_shapes = show_for_def leave_def after_def set_led_opmode_def Let_def


lemma led_task_mode: "led_task cmd s = s\<lparr>led_mode := led_mode (led_task cmd s)\<rparr>"
  by (simp add: led_task_def set_led_opmode_def)

lemma led_body_keeps_choice:
  assumes "led_mode (led_body m t u s) \<noteq> m" "led_mode s = m"
  shows "led_mode (led_body m t u (s\<lparr>led_mode := x\<rparr>)) = led_mode (led_body m t u s)"
  using assms by (cases m) (auto simp: led_body_def led_branches led_shapes split: if_splits)

section \<open>Runs\<close>

fun led_run :: "(int \<times> int) list \<Rightarrow> led_state \<Rightarrow> led_state" where
  "led_run [] s = s"
| "led_run ((t, u) # ps) s = led_run ps (led_pass t u s)"

inductive led_reach :: "led_state \<Rightarrow> bool" where
  reach_init: "led_reach led_init"
| reach_command: "led_reach s \<Longrightarrow> led_reach (led_task cmd s)"
| reach_pass: "led_reach s \<Longrightarrow> led_reach (led_body (led_mode s) t u (fold led_task cmds s))"

definition unlock_phase :: "led_mode_t \<Rightarrow> bool" where
  "unlock_phase m \<longleftrightarrow> m \<in> {LED_UNLOCK_MODE_1, LED_UNLOCK_MODE_2, LED_UNLOCK_MODE_3, LED_UNLOCK_MODE_4}"

definition ani_ok :: "led_state \<Rightarrow> bool" where
  "ani_ok s \<longleftrightarrow> 0 \<le> ani_color s \<and> ani_color s \<le> 255 \<and> ani_dir s \<in> {0, 1}"

definition led_ok :: "led_state \<Rightarrow> bool" where
  "led_ok s \<longleftrightarrow> \<not> unlock_phase (led_mode s) \<and> ani_ok s"

lemma led_task_ok: "led_ok s \<Longrightarrow> led_ok (led_task cmd s)"
  by (simp add: led_ok_def led_task_def set_led_opmode_def unlock_phase_def ani_ok_def)

lemma led_tasks_ok: "led_ok s \<Longrightarrow> led_ok (fold led_task cmds s)"
  by (induction cmds arbitrary: s) (auto simp: led_task_ok)

lemma ani_ok_simps [simp]:
  "ani_ok (s\<lparr>led_mode := m\<rparr>) = ani_ok s" "ani_ok (s\<lparr>start_tm := t\<rparr>) = ani_ok s"
  "ani_ok (s\<lparr>end_tm := t\<rparr>) = ani_ok s" "ani_ok (s\<lparr>elapsed := t\<rparr>) = ani_ok s"
  "ani_ok (led_full_rgbw k s) = ani_ok s" "ani_ok (led_full_rgbw_color k v s) = ani_ok s"
  "ani_ok (led_full_white s) = ani_ok s" "ani_ok (led_full_off s) = ani_ok s"
  by (simp_all add: ani_ok_def)

lemma ani_ok_animation [simp]: "ani_ok s \<Longrightarrow> ani_ok (led_animation k l s)"
  by (auto simp: led_animation_def Let_def ani_ok_def)

lemma led_body_ok: "\<not> unlock_phase m \<Longrightarrow> led_ok s \<Longrightarrow> led_ok (led_body m t u s)"
  by (cases m) (auto simp: led_ok_def led_body_def led_branches led_shapes unlock_phase_def)

text \<open>
  Whatever commands arrive, and whenever they arrive during a pass, the light never plays the
  four later phases of the unlock signal, and the animated brightness is a byte.
\<close>

theorem unlock_phases_unreachable:
  assumes "led_reach s"
  shows "led_mode s \<notin> {LED_UNLOCK_MODE_1, LED_UNLOCK_MODE_2, LED_UNLOCK_MODE_3, LED_UNLOCK_MODE_4}
    \<and> 0 \<le> ani_color s \<and> ani_color s \<le> 255"
proof -
  have "led_ok s" using assms
  proof induction
    case reach_init
    show ?case by (simp add: led_ok_def unlock_phase_def ani_ok_def led_init_def)
  next
    case (reach_command s cmd)
    then show ?case by (simp add: led_task_ok)
  next
    case (reach_pass s t u cmds)
    then show ?case using led_tasks_ok [of s cmds] by (intro led_body_ok) (auto simp: led_ok_def)
  qed
  then show ?thesis by (simp add: led_ok_def unlock_phase_def ani_ok_def)
qed

theorem unlock_phases_unreachable_witness:
  "led_mode (led_pass 0 0 (led_task LED_UNLOCK_CMD led_init)) \<notin>
     {LED_UNLOCK_MODE_1, LED_UNLOCK_MODE_2, LED_UNLOCK_MODE_3, LED_UNLOCK_MODE_4}"
proof -
  have "led_reach (led_pass 0 0 (led_task LED_UNLOCK_CMD led_init))"
    using led_reach.reach_pass [OF led_reach.reach_command [OF led_reach.reach_init], of LED_UNLOCK_CMD 0 0 "[]"]
    by (simp add: led_pass_def)
  from unlock_phases_unreachable [OF this] show ?thesis by simp
qed

text \<open>
  A command that arrives after a pass has read the mode is lost when that pass moves the
  signal on: the pass stores its own next mode over it.
\<close>

theorem led_command_lost:
  assumes "led_mode (led_pass t u s) \<noteq> led_mode s"
  shows "led_mode (led_body (led_mode s) t u (led_task cmd s)) = led_mode (led_pass t u s)"
proof -
  obtain x where x: "led_task cmd s = s\<lparr>led_mode := x\<rparr>" by (metis led_task_mode)
  show ?thesis using assms led_body_keeps_choice [of "led_mode s" t u s x] by (simp add: led_pass_def x)
qed

theorem led_command_lost_witness:
  "let s = led_task LED_INUSE_CMD led_init
   in led_mode (led_body (led_mode s) 0 0 (led_task LED_ERROR_CMD s)) = LED_IDLE_MODE"
proof -
  let ?s = "led_task LED_INUSE_CMD led_init"
  have m: "led_mode ?s = LED_INUSE_MODE" by (simp add: led_task_def set_led_opmode_def)
  have p: "led_mode (led_pass 0 0 ?s) = LED_IDLE_MODE"
    by (simp add: led_pass_def m led_body_def led_once_def set_led_opmode_def)
  from led_command_lost [of 0 0 ?s LED_ERROR_CMD] show ?thesis by (simp add: p m)
qed


section \<open>Animation\<close>

text \<open>The brightness of the \<open>k\<close>-th picture: up from 0 to 255 and down again, both ends shown twice.\<close>

definition triangle :: "nat \<Rightarrow> nat" where
  "triangle k = (let r = k mod 512 in if r < 256 then r else 511 - r)"

lemma mod_512_Suc: "Suc k mod 512 = (if k mod 512 = 511 then 0 else Suc (k mod 512))"
  by (simp add: mod_Suc)

lemma upt_shift: "[k..<k + Suc n] = k # [Suc k..<Suc k + n]"
  by (simp add: upt_conv_Cons del: upt_Suc)

lemma led_animation_step:
  assumes "ani_color s = int (triangle k)" "ani_dir s = (if k mod 512 < 256 then 0 else 1)"
  shows "ani_color (led_animation 1 c s) = int (triangle (Suc k))"
    "ani_dir (led_animation 1 c s) = (if Suc k mod 512 < 256 then 0 else 1)"
    "strip (led_animation 1 c s) = strip (led_full_rgbw_color c (of_nat (triangle k)) s)"
proof -
  have r: "k mod 512 < 512" by simp
  consider "k mod 512 < 255" | "k mod 512 = 255" | "255 < k mod 512" "k mod 512 < 511" | "k mod 512 = 511"
    using r by linarith
  note cs = this
  show "ani_color (led_animation 1 c s) = int (triangle (Suc k))"
    using assms by (cases rule: cs) (auto simp: led_animation_def Let_def triangle_def mod_512_Suc)
  show "ani_dir (led_animation 1 c s) = (if Suc k mod 512 < 256 then 0 else 1)"
    using assms by (cases rule: cs) (auto simp: led_animation_def Let_def triangle_def mod_512_Suc)
  show "strip (led_animation 1 c s) = strip (led_full_rgbw_color c (of_nat (triangle k)) s)"
    using assms by (simp add: led_animation_def Let_def)
qed

lemma led_run_animates:
  assumes "led_mode s = LED_CLEANING_MODE_1" "ani_color s = int (triangle k)"
    "ani_dir s = (if k mod 512 < 256 then 0 else 1)"
  shows "strip (led_run ps s) = strip s @
    map (\<lambda>i. Refresh (replicate 4 [0, 0, of_nat (triangle i), 0])) [k..<k + length ps]"
  using assms
proof (induction ps arbitrary: s k)
  case (Cons p ps)
  obtain t u where p: "p = (t, u)" by (cases p)
  let ?s = "led_animation 1 2 s"
  have step: "led_pass t u s = ?s"
    using Cons.prems(1) by (simp add: led_pass_def led_body_def led_animate_def)
  note a = led_animation_step [OF Cons.prems(2,3), of 2]
  have "strip (led_run ps ?s) = strip ?s @
      map (\<lambda>i. Refresh (replicate 4 [0, 0, of_nat (triangle i), 0])) [Suc k..<Suc k + length ps]"
    using Cons.prems(1) a by (intro Cons.IH) auto
  moreover have "strip ?s = strip s @ [Refresh (replicate 4 [0, 0, of_nat (triangle k), 0])]"
    using a(3) by (simp add: led_full_rgbw_color_def led_fill_def)
  moreover have "[k..<k + length (p # ps)] = k # [Suc k..<Suc k + length ps]"
    using upt_shift [of k "length ps"] by simp
  ultimately show ?case by (simp add: p step del: upt_Suc)
qed simp

text \<open>
  During a clean the light is blue with a brightness that runs from 0 to 255 and back, one step
  every pass and with a period of 512 passes.
\<close>

theorem cleaning_light_is_triangle:
  assumes "led_mode s = LED_CLEANING_MODE"
  shows "strip (led_run ps s) = strip s @
    map (\<lambda>k. Refresh (replicate 4 [0, 0, of_nat (triangle k), 0])) [0..<length ps]"
proof (cases ps)
  case (Cons p qs)
  obtain t u where p: "p = (t, u)" by (cases p)
  let ?z = "led_animation 0 0 s"
  let ?s = "led_pass t u s"
  have z: "ani_color ?z = int (triangle 0)" "ani_dir ?z = (if 0 mod 512 < (256::nat) then 0 else 1)" "strip ?z = strip s"
    by (simp_all add: led_animation_def triangle_def)
  have step: "?s = (led_animation 1 2 ?z)\<lparr>led_mode := LED_CLEANING_MODE_1\<rparr>"
    using assms by (simp add: led_pass_def led_body_def led_animate_def set_led_opmode_def)
  note a = led_animation_step [OF z(1,2), of 2]
  have "strip (led_run qs ?s) = strip ?s @
      map (\<lambda>i. Refresh (replicate 4 [0, 0, of_nat (triangle i), 0])) [Suc 0..<Suc 0 + length qs]"
    using a by (intro led_run_animates) (simp_all add: step)
  moreover have "strip ?s = strip s @ [Refresh (replicate 4 [0, 0, of_nat (triangle 0), 0])]"
    using a(3) z(3) by (simp add: step led_full_rgbw_color_def led_fill_def)
  moreover have "[0..<length ps] = 0 # [Suc 0..<Suc 0 + length qs]"
    using upt_shift [of 0 "length qs"] by (simp add: Cons)
  ultimately show ?thesis by (simp add: Cons p del: upt_Suc)
qed simp

theorem cleaning_light_is_triangle_witness:
  "let s = led_task LED_CLEANING_CMD led_init
   in strip (led_run [(0, 0), (20000, 20000)] s) =
        [Clear, Refresh (replicate 4 [0, 0, 0, 0]), Refresh (replicate 4 [0, 0, 1, 0])]"
proof -
  have m: "led_mode (led_task LED_CLEANING_CMD led_init) = LED_CLEANING_MODE"
    "strip (led_task LED_CLEANING_CMD led_init) = [Clear]"
    by (simp_all add: led_task_def set_led_opmode_def led_init_def)
  show ?thesis
    using cleaning_light_is_triangle [OF m(1), of "[(0, 0), (20000, 20000)]"]
    by (simp add: m(2) Let_def triangle_def upt_rec)
qed


section \<open>Length of a signal\<close>

text \<open>
  The milliseconds a signal still lasts, counted from the start of the phase; for a signal that was
  only asked for, from its first pass.  0 for the modes that do not end or have no phases.
\<close>

definition led_rest :: "led_mode_t \<Rightarrow> int" where
  "led_rest m =
     (if m \<in> {LED_INITOK_MODE, LED_INITOK_MODE_1, LED_UNLOCK_MODE, LED_LOCK_MODE, LED_LOCK_MODE_1} then 4000
      else if m \<in> {LED_INITOK_MODE_2, LED_LOCK_MODE_2, LED_INVALID_MODE, LED_INVALID_MODE_1} then 2000
      else if m = LED_INVALID_MODE_2 then 1500
      else if m = LED_INVALID_MODE_3 then 1000
      else if m = LED_INVALID_MODE_4 then 500
      else if m \<in> {LED_QCQUIT_MODE, LED_QCQUIT_MODE_1} then 1500
      else if m = LED_QCQUIT_MODE_2 then 1200
      else if m = LED_QCQUIT_MODE_3 then 900
      else if m = LED_QCQUIT_MODE_4 then 600
      else if m = LED_QCQUIT_MODE_5 then 300 else 0)"

definition signal_start :: "led_mode_t \<Rightarrow> bool" where
  "signal_start m \<longleftrightarrow> m \<in> {LED_INITOK_MODE, LED_UNLOCK_MODE, LED_LOCK_MODE, LED_INVALID_MODE, LED_QCQUIT_MODE}"

definition signal_phase :: "led_mode_t \<Rightarrow> bool" where
  "signal_phase m \<longleftrightarrow> 0 < led_rest m \<and> \<not> signal_start m"

lemma ms_elapsed: "n \<le> x sdiv 1000 \<Longrightarrow> 0 < n \<Longrightarrow> 1000 * n \<le> (x::int)"
  by (auto simp: signed_divide_int_def sgn_if split: if_splits)

lemma signal_first:
  assumes "signal_start (led_mode s)"
  shows "signal_phase (led_mode (led_pass t u s)) \<and> start_tm (led_pass t u s) = t
    \<and> led_rest (led_mode (led_pass t u s)) = led_rest (led_mode s)"
proof -
  have "led_mode s \<in> {LED_INITOK_MODE, LED_UNLOCK_MODE, LED_LOCK_MODE, LED_INVALID_MODE, LED_QCQUIT_MODE}"
    using assms by (simp add: signal_start_def)
  then show ?thesis
    by (elim insertE emptyE)
      (simp_all add: signal_start_def signal_phase_def led_rest_def led_pass_def led_body_def led_branches led_shapes)
qed

lemma signal_next:
  assumes "signal_phase (led_mode s)" "t \<le> u"
  shows "signal_phase (led_mode (led_pass t u s))
      \<and> start_tm s + 1000 * led_rest (led_mode s)
          \<le> start_tm (led_pass t u s) + 1000 * led_rest (led_mode (led_pass t u s))
    \<or> led_mode (led_pass t u s) = LED_IDLE_MODE \<and> start_tm s + 1000 * led_rest (led_mode s) \<le> t"
proof -
  have e: "300 \<le> (t - start_tm s) sdiv 1000 \<Longrightarrow> start_tm s + 300000 \<le> t"
    "500 \<le> (t - start_tm s) sdiv 1000 \<Longrightarrow> start_tm s + 500000 \<le> t"
    "2000 \<le> (t - start_tm s) sdiv 1000 \<Longrightarrow> start_tm s + 2000000 \<le> t"
    using ms_elapsed [of _ "t - start_tm s"] by fastforce+
  have "led_mode s \<in> {LED_INITOK_MODE_1, LED_INITOK_MODE_2, LED_LOCK_MODE_1, LED_LOCK_MODE_2,
      LED_INVALID_MODE_1, LED_INVALID_MODE_2, LED_INVALID_MODE_3, LED_INVALID_MODE_4,
      LED_QCQUIT_MODE_1, LED_QCQUIT_MODE_2, LED_QCQUIT_MODE_3, LED_QCQUIT_MODE_4, LED_QCQUIT_MODE_5}"
    using assms(1) by (auto simp: signal_start_def signal_phase_def led_rest_def split: if_splits)
  then show ?thesis
    using assms(2) e
    by (elim insertE emptyE)
      (simp_all add: signal_start_def signal_phase_def led_rest_def led_pass_def led_body_def
        led_branches led_shapes, linarith+)
qed


fun in_order :: "int \<Rightarrow> (int \<times> int) list \<Rightarrow> bool" where
  "in_order t0 [] \<longleftrightarrow> True"
| "in_order t0 ((t, u) # ps) \<longleftrightarrow> t0 \<le> t \<and> t \<le> u \<and> in_order u ps"

lemma in_order_last: "in_order t0 ps \<Longrightarrow> ps \<noteq> [] \<Longrightarrow> t0 \<le> fst (last ps)"
proof (induction ps arbitrary: t0)
  case (Cons p ps)
  then show ?case by (cases p; cases "ps = []") (auto dest: order_trans)
qed simp

lemma phase_run:
  "signal_phase (led_mode s) \<Longrightarrow> in_order t0 ps \<Longrightarrow> led_mode (led_run ps s) = LED_IDLE_MODE \<Longrightarrow>
    ps \<noteq> [] \<and> start_tm s + 1000 * led_rest (led_mode s) \<le> fst (last ps)"
proof (induction ps arbitrary: s t0)
  case Nil
  then show ?case by (simp add: signal_phase_def led_rest_def)
next
  case (Cons p ps)
  obtain t u where p: "p = (t, u)" by (cases p)
  have tu: "t \<le> u" "in_order u ps" using Cons.prems(2) p by auto
  let ?s = "led_pass t u s"
  have run: "led_mode (led_run ps ?s) = LED_IDLE_MODE" using Cons.prems(3) p by simp
  from signal_next [OF Cons.prems(1) tu(1)] show ?case
  proof (elim disjE conjE)
    assume "signal_phase (led_mode ?s)"
      and le: "start_tm s + 1000 * led_rest (led_mode s) \<le> start_tm ?s + 1000 * led_rest (led_mode ?s)"
    with Cons.IH [OF _ tu(2) run] have "ps \<noteq> []" "start_tm ?s + 1000 * led_rest (led_mode ?s) \<le> fst (last ps)"
      by auto
    with le show ?thesis by simp
  next
    assume "start_tm s + 1000 * led_rest (led_mode s) \<le> t"
    then show ?thesis using p tu in_order_last [OF tu(2)] by (cases "ps = []") auto
  qed
qed

text \<open>
  A signal that ends is never cut short by the light task: from its first pass to the pass that
  makes the light idle lie at least 4 s for a factory restore, lock or unlock signal, 2 s for
  an invalid tag, and 1.5 s for the end of the diagnosis.
\<close>

theorem signal_lasts:
  assumes "led_mode s \<in> {LED_INITOK_MODE, LED_UNLOCK_MODE, LED_LOCK_MODE, LED_INVALID_MODE, LED_QCQUIT_MODE}"
    and "t \<le> u" "in_order u ps" "led_mode (led_run ((t, u) # ps) s) = LED_IDLE_MODE"
  shows "t + 1000 * (if led_mode s = LED_INVALID_MODE then 2000
      else if led_mode s = LED_QCQUIT_MODE then 1500 else 4000) \<le> fst (last ((t, u) # ps))"
proof -
  have st: "signal_start (led_mode s)" using assms(1) by (simp add: signal_start_def)
  note f = signal_first [OF st, of t u]
  then have ps: "ps \<noteq> []"
    "start_tm (led_pass t u s) + 1000 * led_rest (led_mode (led_pass t u s)) \<le> fst (last ps)"
    using phase_run [of "led_pass t u s" u ps] assms(3,4) by auto
  have "led_rest (led_mode s) = (if led_mode s = LED_INVALID_MODE then 2000
      else if led_mode s = LED_QCQUIT_MODE then 1500 else 4000)"
    using assms(1) by (auto simp: led_rest_def)
  then show ?thesis using ps f by auto
qed

theorem signal_lasts_witness:
  "led_mode (led_run [(0, 0), (2000000, 2000000), (4000000, 4000000)] (led_task LED_UNLOCK_CMD led_init))
     = LED_IDLE_MODE
   \<and> 0 + 1000 * 4000 \<le> fst (last [(0::int, 0::int), (2000000, 2000000), (4000000, 4000000)])"
proof -
  let ?s = "led_task LED_UNLOCK_CMD led_init"
  have m: "led_mode (led_run [(0, 0), (2000000, 2000000), (4000000, 4000000)] ?s) = LED_IDLE_MODE" by code_simp
  moreover have "led_mode ?s = LED_UNLOCK_MODE" by (simp add: led_task_def set_led_opmode_def)
  ultimately show ?thesis
    using signal_lasts [of ?s 0 0 "[(2000000, 2000000), (4000000, 4000000)]"] by simp
qed

end
