(* ===== verification/App_Config.thy ===== *)
theory App_Config
  imports Prelude
begin

text \<open>
  The stored configuration: \<open>src/main/app_config_flash.c\<close>, and the users of it in
  \<open>src/main/main.c\<close> (\<open>check_boot_mode\<close>, \<open>system_reset\<close>).  The structure \<open>app_config_t\<close> is defined
  twice, in \<open>app_config_flash.h\<close> and in \<open>main.h\<close>, with the same fields in a different order; the
  translation units exchange a pointer to one object.  The model is that object: its words, and
  the two layouts as functions from fields to positions.  The character arrays behind the words
  are left out.

  The flash is not code of the repository: \<open>rd\<close> and \<open>wr\<close> read and write the stored blob, as
  \<open>read_nvs_blob\<close> and \<open>write_nvs_blob\<close> do when they succeed.
\<close>

section \<open>Two layouts\<close>

datatype config_field =
    Reset_reason | Min_valid_waste_raw | Clumping_wait_min
  | M1_jam_current | M2_jam_current | M3_jam_current | M4_jam_current | M5_jam_current
  | Cat_entry_min_weight | Waste_type_ratio_th | Effective_dwell_time
  | Gate_way_rssi_th | Tof_sense_threshold_l | Tof_sense_threshold_r | Motion_data_time

fun flash_index :: "config_field \<Rightarrow> nat" where
  "flash_index Min_valid_waste_raw = 0"
| "flash_index Clumping_wait_min = 1"
| "flash_index M1_jam_current = 2"
| "flash_index M2_jam_current = 3"
| "flash_index M3_jam_current = 4"
| "flash_index M4_jam_current = 5"
| "flash_index M5_jam_current = 6"
| "flash_index Cat_entry_min_weight = 7"
| "flash_index Waste_type_ratio_th = 8"
| "flash_index Effective_dwell_time = 9"
| "flash_index Reset_reason = 10"
| "flash_index Gate_way_rssi_th = 11"
| "flash_index Tof_sense_threshold_l = 12"
| "flash_index Tof_sense_threshold_r = 13"
| "flash_index Motion_data_time = 14"

fun main_index :: "config_field \<Rightarrow> nat" where
  "main_index Reset_reason = 0"
| "main_index Min_valid_waste_raw = 1"
| "main_index Clumping_wait_min = 2"
| "main_index M1_jam_current = 3"
| "main_index M2_jam_current = 4"
| "main_index M3_jam_current = 5"
| "main_index M4_jam_current = 6"
| "main_index M5_jam_current = 7"
| "main_index Cat_entry_min_weight = 8"
| "main_index Waste_type_ratio_th = 9"
| "main_index Effective_dwell_time = 10"
| "main_index Gate_way_rssi_th = 11"
| "main_index Tof_sense_threshold_l = 12"
| "main_index Tof_sense_threshold_r = 13"
| "main_index Motion_data_time = 14"

type_synonym config = "u32 list"

definition main_get :: "config_field \<Rightarrow> config \<Rightarrow> u32" where
  "main_get f c = c ! main_index f"

definition main_set :: "config_field \<times> u32 \<Rightarrow> config \<Rightarrow> config" where
  "main_set fv c = c[main_index (fst fv) := snd fv]"

definition flash_set :: "config_field \<times> u32 \<Rightarrow> config \<Rightarrow> config" where
  "flash_set fv c = c[flash_index (fst fv) := snd fv]"

text \<open>The values the factory restore assigns; the initialiser assigns them too.\<close>

definition factory_values :: "(config_field \<times> u32) list" where
  "factory_values =
     [(Min_valid_waste_raw, 50), (Clumping_wait_min, 10),
      (M1_jam_current, 495), (M2_jam_current, 495), (M3_jam_current, 495), (M4_jam_current, 495),
      (M5_jam_current, 495), (Cat_entry_min_weight, 500), (Waste_type_ratio_th, 20),
      (Effective_dwell_time, 5), (Gate_way_rssi_th, -85), (Tof_sense_threshold_l, 250),
      (Tof_sense_threshold_r, 250), (Motion_data_time, 1800)]"

definition default_config :: config where
  "default_config = fold flash_set (factory_values @ [(Reset_reason, 0)]) (replicate 15 0)"

text \<open>The reasons of a reset as \<open>main.h\<close> and as \<open>app_config_flash.h\<close> number them.\<close>

datatype main_reason = REASON_NORMAL | REASON_DIAG | REASON_OTA | REASON_FACTORY_RESTORE

fun main_reason_no :: "main_reason \<Rightarrow> u32" where
  "main_reason_no REASON_NORMAL = 0"
| "main_reason_no REASON_DIAG = 1"
| "main_reason_no REASON_OTA = 2"
| "main_reason_no REASON_FACTORY_RESTORE = 3"

datatype reset_reason_t =
  FL_REASON_NORMAL | FL_REASON_FAULT | FL_REASON_FACTORY_RESTORE | FL_REASON_OTA | FL_REASON_DIAG | FL_REASON_TEST

fun flash_reason_no :: "reset_reason_t \<Rightarrow> u32" where
  "flash_reason_no FL_REASON_NORMAL = 0"
| "flash_reason_no FL_REASON_FAULT = 1"
| "flash_reason_no FL_REASON_FACTORY_RESTORE = 2"
| "flash_reason_no FL_REASON_OTA = 3"
| "flash_reason_no FL_REASON_DIAG = 4"
| "flash_reason_no FL_REASON_TEST = 5"

section \<open>State and operations\<close>

record 'n config_sys =
  app_config :: config
  app_save_flag :: bool
  flash :: 'n
  reset_reason :: u32

definition app_nvs_save_set :: "'n config_sys \<Rightarrow> 'n config_sys" where
  "app_nvs_save_set s = s\<lparr>app_save_flag := True\<rparr>"

text \<open>One turn of \<open>flash_task\<close>, for the application configuration.\<close>

definition flash_task :: "(config \<Rightarrow> 'n \<Rightarrow> 'n) \<Rightarrow> 'n config_sys \<Rightarrow> 'n config_sys" where
  "flash_task wr s =
     (if app_save_flag s then s\<lparr>app_save_flag := False, flash := wr (app_config s) (flash s)\<rparr> else s)"

definition load_app_configuration ::
    "('n \<Rightarrow> config option) \<Rightarrow> (config \<Rightarrow> 'n \<Rightarrow> 'n) \<Rightarrow> 'n config_sys \<Rightarrow> 'n config_sys" where
  "load_app_configuration rd wr s =
     (case rd (flash s) of Some c \<Rightarrow> s\<lparr>app_config := c\<rparr>
      | None \<Rightarrow> s\<lparr>flash := wr (app_config s) (flash s)\<rparr>)"

text \<open>\<open>1<<mode\<close> is undefined when the shift does not fit the word; \<open>ub\<close> stands for its value.\<close>

definition shift_one :: "(int \<Rightarrow> u32) \<Rightarrow> int \<Rightarrow> u32" where
  "shift_one ub n = (if 0 \<le> n \<and> n < 32 then push_bit (nat n) 1 else ub n)"

definition check_boot_mode :: "(int \<Rightarrow> u32) \<Rightarrow> 'n config_sys \<Rightarrow> 'n config_sys" where
  "check_boot_mode ub s =
     (let mode = sint (main_get Reset_reason (app_config s));
          s = s\<lparr>reset_reason := reset_reason s OR shift_one ub mode\<rparr>
      in if mode \<noteq> 0
         then app_nvs_save_set (s\<lparr>app_config := main_set (Reset_reason, 0) (app_config s)\<rparr>) else s)"

text \<open>Up to the restart: the new state, and the delay before \<open>esp_restart\<close>.\<close>

definition system_reset :: "u32 \<Rightarrow> 'n config_sys \<Rightarrow> 'n config_sys \<times> nat" where
  "system_reset reason s =
     (let s = s\<lparr>app_config := main_set (Reset_reason, reason) (app_config s)\<rparr>
      in if reason = main_reason_no REASON_DIAG then (app_nvs_save_set s, 2000)
         else if reason = main_reason_no REASON_OTA then (app_nvs_save_set s, 5000)
         else if reason = main_reason_no REASON_FACTORY_RESTORE then
           (app_nvs_save_set (s\<lparr>app_config := fold main_set factory_values (app_config s)\<rparr>), 2000)
         else (app_nvs_save_set s, 500))"

text \<open>A start: the object is initialised, loaded and checked.\<close>

definition boot_config ::
    "('n \<Rightarrow> config option) \<Rightarrow> (config \<Rightarrow> 'n \<Rightarrow> 'n) \<Rightarrow> (int \<Rightarrow> u32) \<Rightarrow> 'n \<Rightarrow> 'n config_sys" where
  "boot_config rd wr ub n =
     check_boot_mode ub (load_app_configuration rd wr
       \<lparr>app_config = default_config, app_save_flag = False, flash = n, reset_reason = 0\<rparr>)"

text \<open>\<open>system_reset\<close>, with a turn of the flash task during its delay, and the start after it.\<close>

definition restart ::
    "('n \<Rightarrow> config option) \<Rightarrow> (config \<Rightarrow> 'n \<Rightarrow> 'n) \<Rightarrow> (int \<Rightarrow> u32) \<Rightarrow> u32 \<Rightarrow> 'n config_sys \<Rightarrow> 'n config_sys" where
  "restart rd wr ub reason s =
     boot_config rd wr ub (flash (flash_task wr (fst (system_reset reason s))))"

text \<open>The end of a successful update, in \<open>src/main/wifi/http_ota.c\<close>, which includes \<open>app_config_flash.h\<close>.\<close>

definition ota_done :: "'n config_sys \<Rightarrow> 'n config_sys \<times> nat" where
  "ota_done s = system_reset (flash_reason_no FL_REASON_OTA) s"

section \<open>Properties\<close>

lemma length_main_set [simp]: "length (main_set fv c) = length c"
  by (simp add: main_set_def)

lemma main_index_inj: "main_index f = main_index g \<longleftrightarrow> f = g"
  by (cases f; cases g) simp_all

lemma main_index_bound [simp]: "main_index f < 15"
  by (cases f) simp_all

lemma main_get_set: "length c = 15 \<Longrightarrow> main_get f (main_set (g, v) c) = (if f = g then v else main_get f c)"
  by (simp add: main_get_def main_set_def nth_list_update main_index_inj)

lemma length_fold_main_set [simp]: "length (fold main_set fvs c) = length c"
  by (induction fvs arbitrary: c) auto

lemma main_get_fold:
  "length c = 15 \<Longrightarrow> f \<notin> fst ` set fvs \<Longrightarrow> main_get f (fold main_set fvs c) = main_get f c"
  by (induction fvs arbitrary: c) (auto simp: main_get_set)

lemma length_default_config [simp]: "length default_config = 15"
  by (simp add: default_config_def factory_values_def flash_set_def)

lemma system_reset_reason:
  assumes "length (app_config s) = 15"
  shows "main_get Reset_reason (app_config (fst (system_reset r s))) = r"
    "app_save_flag (fst (system_reset r s))" "length (app_config (fst (system_reset r s))) = 15"
  using assms
  by (auto simp: system_reset_def app_nvs_save_set_def Let_def main_get_set main_get_fold factory_values_def)

lemma restart_unfold:
  assumes rt: "\<And>c n. rd (wr c n) = Some c" and len: "length (app_config s) = 15"
  shows "\<exists>c. restart rd wr ub r s
      = check_boot_mode ub \<lparr>app_config = c, app_save_flag = False, flash = wr c (flash s), reset_reason = 0\<rparr>
    \<and> c = app_config (fst (system_reset r s))"
proof -
  have "flash (fst (system_reset r s)) = flash s"
    by (simp add: system_reset_def app_nvs_save_set_def Let_def)
  then show ?thesis
    using system_reset_reason [OF len] rt
    by (simp add: restart_def boot_config_def load_app_configuration_def flash_task_def)
qed

text \<open>
  The two declarations of the configuration agree on the position of the last four fields only;
  in particular what one side stores as the minimum waste weight the other reads as the reset
  reason.
\<close>

theorem layouts_agree_on_last_four:
  "(flash_index f = main_index f) =
     (f \<in> {Gate_way_rssi_th, Tof_sense_threshold_l, Tof_sense_threshold_r, Motion_data_time})
   \<and> flash_index Min_valid_waste_raw = main_index Reset_reason"
  by (cases f) simp_all

text \<open>
  A reset reason survives the restart: when the flash keeps what is written, the start after
  \<open>system_reset(r)\<close> records exactly the bit of \<open>r\<close>, clears the stored reason, and asks for it
  to be saved unless it was the normal one.
\<close>

theorem reset_reason_survives:
  assumes "\<And>c n. rd (wr c n) = Some c" "length (app_config s) = 15" "r \<in> {0, 1, 2, 3}"
  shows "reset_reason (restart rd wr ub r s) = push_bit (unat r) 1
    \<and> main_get Reset_reason (app_config (restart rd wr ub r s)) = 0
    \<and> (app_save_flag (restart rd wr ub r s) = (r \<noteq> 0))"
proof -
  let ?c = "app_config (fst (system_reset r s))"
  note r = restart_unfold [where ub = ub and r = r, OF assms(1,2)] and c = system_reset_reason [OF assms(2), of r]
  have "sint r = int (unat r)" "unat r < 32" using assms(3) by auto
  then show ?thesis
    using r c assms(3) by (auto simp: check_boot_mode_def app_nvs_save_set_def Let_def main_get_set shift_one_def)
qed

theorem reset_reason_survives_witness:
  "let s = \<lparr>app_config = default_config, app_save_flag = False, flash = None, reset_reason = 0\<rparr>
   in reset_reason (restart (\<lambda>n. n) (\<lambda>c n. Some c) (\<lambda>_. 0) 1 s) = 2"
  using reset_reason_survives [of "\<lambda>n. n" "\<lambda>c n. Some c"
      "\<lparr>app_config = default_config, app_save_flag = False, flash = None, reset_reason = 0\<rparr>" 1 "\<lambda>_. 0"]
  by (simp add: Let_def)

text \<open>
  A firmware update ends in a factory restore.  The update passes its own number of the reason
  \<open>REASON_OTA\<close>, which \<open>system_reset\<close> takes for \<open>REASON_FACTORY_RESTORE\<close>: every setting gets its
  factory value, and the next start sees the bit that makes \<open>app_main\<close> enter pairing.
\<close>

theorem ota_restores_factory_settings:
  assumes "\<And>c n. rd (wr c n) = Some c" "length (app_config s) = 15"
  shows "ota_done s = system_reset (main_reason_no REASON_FACTORY_RESTORE) s
    \<and> (\<forall>(f, v) \<in> set factory_values. main_get f (app_config (fst (ota_done s))) = v)
    \<and> bit (reset_reason (restart rd wr ub (flash_reason_no FL_REASON_OTA) s)) 3"
proof -
  have eq: "ota_done s = system_reset (main_reason_no REASON_FACTORY_RESTORE) s" by (simp add: ota_done_def)
  have "app_config (fst (ota_done s)) = fold main_set factory_values (main_set (Reset_reason, 3) (app_config s))"
    by (simp add: eq system_reset_def app_nvs_save_set_def Let_def)
  then have vals: "\<forall>(f, v) \<in> set factory_values. main_get f (app_config (fst (ota_done s))) = v"
    using assms(2) by (simp add: factory_values_def main_get_set)
  have "flash_reason_no FL_REASON_OTA \<in> {0, 1, 2, 3}" by simp
  from restart_unfold [where ub = ub and r = 3, OF assms] system_reset_reason [OF assms(2), of 3]
  have "bit (reset_reason (restart rd wr ub (flash_reason_no FL_REASON_OTA) s)) 3"
    by (auto simp: check_boot_mode_def app_nvs_save_set_def Let_def shift_one_def bit_simps)
  then show ?thesis using eq vals by blast
qed

theorem ota_restores_factory_settings_witness:
  "let s = \<lparr>app_config = default_config, app_save_flag = False, flash = None, reset_reason = 0\<rparr>
   in bit (reset_reason (restart (\<lambda>n. n) (\<lambda>c n. Some c) (\<lambda>_. 0) (flash_reason_no FL_REASON_OTA) s)) 3"
  using ota_restores_factory_settings [of "\<lambda>n. n" "\<lambda>c n. Some c"
      "\<lparr>app_config = default_config, app_save_flag = False, flash = None, reset_reason = 0\<rparr>" "\<lambda>_. 0"]
  by (simp add: Let_def)

text \<open>
  On a device that has stored nothing yet, the start reads 50 as the reset reason, shifts by
  50, overwrites the minimum waste weight with 0 and saves that; the entry weight the user
  interface then reads is 20, where the initialiser meant 500.
\<close>

theorem first_start_misreads:
  assumes "rd n = None"
  shows "reset_reason (boot_config rd wr ub n) = ub 50
    \<and> app_config (boot_config rd wr ub n) = flash_set (Min_valid_waste_raw, 0) default_config
    \<and> app_save_flag (boot_config rd wr ub n)
    \<and> main_get Cat_entry_min_weight (app_config (boot_config rd wr ub n)) = 20
    \<and> (Cat_entry_min_weight, 500) \<in> set factory_values"
proof -
  have "main_get Reset_reason default_config = 50" "main_get Cat_entry_min_weight default_config = 20"
    by (simp_all add: main_get_def default_config_def factory_values_def flash_set_def)
  moreover have "main_set (Reset_reason, 0) c = flash_set (Min_valid_waste_raw, 0) c" for c
    by (simp add: main_set_def flash_set_def)
  moreover have "main_get Cat_entry_min_weight (main_set (Reset_reason, 0) default_config) = 20"
    using calculation(2) by (simp add: main_get_set)
  ultimately show ?thesis
    using assms
    by (simp add: boot_config_def load_app_configuration_def check_boot_mode_def app_nvs_save_set_def
        shift_one_def Let_def factory_values_def)
qed

theorem first_start_misreads_witness:
  "main_get Cat_entry_min_weight (app_config (boot_config (\<lambda>n. n) (\<lambda>c n. Some c) (\<lambda>_. 0) None)) = 20"
  by (rule first_start_misreads [THEN conjunct2, THEN conjunct2, THEN conjunct2, THEN conjunct1]) simp

end
