(* ===== verification/Uart_Ring.thy ===== *)
theory Uart_Ring
  imports Ring_Buffers
begin

text \<open>
  The receive ring of the console, \<open>RingBuffer_Push\<close> and \<open>RingBuffer_Pop\<close> in
  \<open>src/main/main.c\<close>: 256 slots, of which at most 255 hold bytes, so that a full ring can be told
  from an empty one.  It provides the contract \<open>bounded_fifo\<close>.
\<close>

abbreviation (input) RX_BUF_SIZE :: nat where "RX_BUF_SIZE \<equiv> 256"

record RingBuffer =
  buffer :: "char list"
  head :: nat
  tail :: nat

definition rx_ring_init :: RingBuffer where
  "rx_ring_init = \<lparr>buffer = replicate RX_BUF_SIZE (CHR 0x00), head = 0, tail = 0\<rparr>"

definition RingBuffer_Push :: "char \<Rightarrow> RingBuffer \<Rightarrow> RingBuffer" where
  "RingBuffer_Push data r =
     (let nxt = (head r + 1) mod RX_BUF_SIZE
      in if nxt \<noteq> tail r then r\<lparr>buffer := (buffer r)[head r := data], head := nxt\<rparr> else r)"

definition RingBuffer_Pop :: "RingBuffer \<Rightarrow> (char \<times> RingBuffer) option" where
  "RingBuffer_Pop r =
     (if head r = tail r then None
      else Some (buffer r ! tail r, r\<lparr>tail := (tail r + 1) mod RX_BUF_SIZE\<rparr>))"

section \<open>The ring is a queue\<close>

definition ring_ok :: "RingBuffer \<Rightarrow> bool" where
  "ring_ok r \<longleftrightarrow> length (buffer r) = RX_BUF_SIZE \<and> head r < RX_BUF_SIZE \<and> tail r < RX_BUF_SIZE"

definition ring_count :: "RingBuffer \<Rightarrow> nat" where
  "ring_count r = (head r + RX_BUF_SIZE - tail r) mod RX_BUF_SIZE"

definition ring_contents :: "RingBuffer \<Rightarrow> char list" where
  "ring_contents r = ring_seg (buffer r) (tail r) (ring_count r)"

lemma ring_count_less: "ring_count r < RX_BUF_SIZE"
  by (simp add: ring_count_def)

lemma ring_count_head:
  assumes "ring_ok r"
  shows "(tail r + ring_count r) mod RX_BUF_SIZE = head r"
  using assms by (auto simp: ring_ok_def ring_count_def mod_if)

lemma ring_count_empty: "ring_ok r \<Longrightarrow> ring_count r = 0 \<longleftrightarrow> head r = tail r"
  by (auto simp: ring_ok_def ring_count_def mod_if)

lemma ring_count_full: "ring_ok r \<Longrightarrow> ring_count r = 255 \<longleftrightarrow> (head r + 1) mod RX_BUF_SIZE = tail r"
  by (auto simp: ring_ok_def ring_count_def mod_if)

lemma ring_count_push:
  "ring_ok r \<Longrightarrow> (head r + 1) mod RX_BUF_SIZE \<noteq> tail r \<Longrightarrow>
    ((head r + 1) mod RX_BUF_SIZE + RX_BUF_SIZE - tail r) mod RX_BUF_SIZE = Suc (ring_count r)"
  by (auto simp: ring_ok_def ring_count_def mod_if)

lemma ring_count_pop:
  "ring_ok r \<Longrightarrow> head r \<noteq> tail r \<Longrightarrow>
    ring_count r = Suc ((head r + RX_BUF_SIZE - (tail r + 1) mod RX_BUF_SIZE) mod RX_BUF_SIZE)"
  by (auto simp: ring_ok_def ring_count_def mod_if)

interpretation rx: bounded_fifo ring_contents RingBuffer_Push RingBuffer_Pop ring_ok 255
proof (unfold_locales, goal_cases)
  case (1 q)
  then show ?case using ring_count_less [of q] by (simp add: ring_contents_def)
next
  case (2 q a)
  then show ?case by (auto simp: ring_ok_def RingBuffer_Push_def Let_def)
next
  case (3 q a)
  have len: "length (buffer q) = RX_BUF_SIZE" using 3 by (simp add: ring_ok_def)
  show ?case
  proof (cases "(head q + 1) mod RX_BUF_SIZE = tail q")
    case True
    then show ?thesis using 3 ring_count_full [OF 3] by (simp add: ring_contents_def RingBuffer_Push_def)
  next
    case False
    then have n: "ring_count q < 255" using ring_count_full [OF 3] ring_count_less [of q] by linarith
    have "ring_seg ((buffer q)[(tail q + ring_count q) mod length (buffer q) := a]) (tail q) (Suc (ring_count q))
        = ring_seg (buffer q) (tail q) (ring_count q) @ [a]"
      by (rule ring_seg_put) (use n len in simp)
    then have "ring_seg ((buffer q)[head q := a]) (tail q) (Suc (ring_count q)) = ring_contents q @ [a]"
      using ring_count_head [OF 3] len by (simp add: ring_contents_def)
    moreover have "ring_count (RingBuffer_Push a q) = Suc (ring_count q)"
      using False ring_count_push [OF 3 False] by (simp add: ring_count_def RingBuffer_Push_def)
    ultimately show ?thesis using False n by (simp add: ring_contents_def RingBuffer_Push_def)
  qed
next
  case (4 q)
  then show ?case using ring_count_empty [of q] by (simp add: ring_contents_def RingBuffer_Pop_def ring_seg_def)
next
  case (5 q a as)
  have len: "length (buffer q) = RX_BUF_SIZE" "tail q < RX_BUF_SIZE" using 5(1) by (auto simp: ring_ok_def)
  have ne: "head q \<noteq> tail q" using 5 ring_count_empty [OF 5(1)] by (auto simp: ring_contents_def)
  let ?q = "q\<lparr>tail := (tail q + 1) mod RX_BUF_SIZE\<rparr>"
  have "ring_count q = Suc (ring_count ?q)" using ring_count_pop [OF 5(1) ne] by (simp add: ring_count_def)
  then have "ring_contents q = buffer q ! tail q # ring_contents ?q"
    using ring_seg_hd [of "buffer q" "tail q" "ring_count ?q"] len by (simp add: ring_contents_def)
  then have "a = buffer q ! tail q" "as = ring_contents ?q" using 5(2) by auto
  moreover have "ring_ok ?q" using 5(1) by (simp add: ring_ok_def)
  ultimately show ?case using ne by (simp add: RingBuffer_Pop_def)
qed

lemma ring_ok_init: "ring_ok rx_ring_init" "ring_contents rx_ring_init = []"
  by (simp_all add: ring_ok_def rx_ring_init_def ring_contents_def ring_count_def)

section \<open>Properties\<close>

text \<open>
  Whatever the ring held before, a burst of bytes pushed into it comes out in order behind the
  old content, and what does not fit into its 255 places is dropped.
\<close>

theorem ring_keeps_order:
  assumes "ring_ok r"
  shows "fst (drain RingBuffer_Pop 255 (fold RingBuffer_Push xs r))
    = ring_contents r @ take (255 - length (ring_contents r)) xs"
proof -
  have ok: "ring_ok (fold RingBuffer_Push xs r)" using assms by (rule rx.inv_pushes)
  from rx.drain_all [OF ok rx.bound [OF ok]] rx.contents_pushes [OF assms, of xs]
  show ?thesis by auto
qed

theorem ring_keeps_order_witness:
  "fst (drain RingBuffer_Pop 255 (fold RingBuffer_Push ''ab'' rx_ring_init)) = ''ab''"
  using ring_keeps_order [OF ring_ok_init(1), of "''ab''"] ring_ok_init(2) by simp

end
