(* ===== verification/Console.thy ===== *)
theory Console
  imports Uart_Ring CText Clean_Safety
begin

text \<open>
  The serial console, \<open>src/main/main.c\<close>: \<open>uart_parser\<close> collects the bytes of the receive ring
  into lines, \<open>Process_Command\<close> acts on a line by its first character, and lines of the form
  \<open>M? direction angle\<close> drive a motor directly.  The console posts to the motor queues through the
  same state as the scenarios; the tasks it creates and the restart are recorded as actions.  A
  command that restarts the device never returns to the parser: the first component of a result is
  then \<open>False\<close>.
\<close>

abbreviation (input) PARSE_BUF_SIZE :: nat where "PARSE_BUF_SIZE \<equiv> 128"

datatype con_task = Demo_synario | Loadcell_tare | Motor_calib | Recovery_scenario | Scpspin_test

datatype con_act = Create con_task | Delete_spin_test | Print_sensors u32 | System_reset u32 | Show_usage

record console =
  con :: st
  parse_buf :: "char list"
  parse_idx :: nat
  spin_test_alive :: bool
  loadcell_queue :: bool
  con_acts :: "con_act list"

definition con_do :: "con_act \<Rightarrow> console \<Rightarrow> console" where
  "con_do a c = c\<lparr>con_acts := con_acts c @ [a]\<rparr>"

definition on_st :: "(st \<Rightarrow> st) \<Rightarrow> console \<Rightarrow> console" where
  "on_st f c = c\<lparr>con := f (con c)\<rparr>"

text \<open>\<open>strncmp(cmd, "a", 1) == 0\<close>\<close>

definition is_cmd :: "char \<Rightarrow> char list \<Rightarrow> bool" where
  "is_cmd ch cmd = starts_with [ch] cmd"

definition send_loadcell_msg :: "u32 \<Rightarrow> console \<Rightarrow> console" where
  "send_loadcell_msg cmd c =
     (if \<not> loadcell_queue c then c
      else on_st (\<lambda>s. s\<lparr>trace := trace s @ [LoadcellQ (zero_ms\<lparr>ms_cmd := cmd\<rparr>)]\<rparr>) c)"

definition delete_spin_test :: "console \<Rightarrow> console" where
  "delete_spin_test c =
     (if spin_test_alive c then (con_do Delete_spin_test c)\<lparr>spin_test_alive := False\<rparr> else c)"

section \<open>Commands\<close>

text \<open>The commands in the order of the tests; the two guards before them.\<close>

definition command_guards :: "char list \<Rightarrow> console \<Rightarrow> console" where
  "command_guards cmd c =
     (let c = (if \<not> is_cmd (CHR ''z'') cmd \<and> \<not> is_cmd (CHR ''Z'') cmd then on_st clear_emergency_stop c else c)
      in if \<not> is_cmd (CHR ''x'') cmd \<and> \<not> is_cmd (CHR ''X'') cmd then delete_spin_test c else c)"

definition motor_command :: "char list \<Rightarrow> (st \<Rightarrow> st) option" where
  "motor_command cmd =
     (if is_cmd (CHR ''a'') cmd then Some (send_plate_msg PLATE_CMD 0 FORWARD 0)
      else if is_cmd (CHR ''b'') cmd then Some (send_plate_msg PLATE_CMD 0 REVERSE 0)
      else if is_cmd (CHR ''c'') cmd then Some (send_plate_msg PLATE_CMD 0 STOP 0)
      else if is_cmd (CHR ''d'') cmd \<or> is_cmd (CHR ''D'') cmd then Some (send_scpinout_msg SCP_INOUT_CMD 30 FORWARD 10000)
      else if is_cmd (CHR ''e'') cmd then Some (send_scpinout_msg SCP_INOUT_CMD 30 REVERSE 10000)
      else if is_cmd (CHR ''f'') cmd then Some (send_scpinout_msg SCP_INOUT_CMD 0 STOP 0)
      else if is_cmd (CHR ''g'') cmd then Some (send_waste_motor_msg WASTE_STEP_CMD 1000 FORWARD 15000)
      else if is_cmd (CHR ''h'') cmd then Some (send_waste_motor_msg WASTE_STEP_CMD 1000 REVERSE 15000)
      else if is_cmd (CHR ''i'') cmd then Some (send_waste_motor_msg WASTE_STEP_CMD 0 STOP 0)
      else if is_cmd (CHR ''k'') cmd then Some (send_scpspin_motor_msg SCP_SPIN_CMD 120 FORWARD 15000)
      else if is_cmd (CHR ''l'') cmd then Some (send_scpspin_motor_msg SCP_SPIN_CMD 120 REVERSE 15000)
      else if is_cmd (CHR ''m'') cmd then Some (send_scpspin_motor_msg SCP_SPIN_CMD 0 STOP 0)
      else if is_cmd (CHR ''n'') cmd then Some (send_main_motor_msg MAIN_COVER_CMD 0 FORWARD 10000)
      else if is_cmd (CHR ''o'') cmd then Some (send_main_motor_msg MAIN_COVER_CMD 0 REVERSE 10000)
      else if is_cmd (CHR ''p'') cmd then Some (send_main_motor_msg MAIN_COVER_CMD 0 STOP 0)
      else None)"

definition command_body :: "char list \<Rightarrow> console \<Rightarrow> bool \<times> console" where
  "command_body cmd c =
     (case motor_command cmd of
        Some f \<Rightarrow> (True, on_st f c)
      | None \<Rightarrow>
          if is_cmd (CHR ''j'') cmd then (True, con_do (Create Demo_synario) (on_st clear_emergency_stop c))
          else if is_cmd (CHR ''q'') cmd then (True, con_do (Create Loadcell_tare) c)
          else if is_cmd (CHR ''s'') cmd \<or> is_cmd (CHR ''S'') cmd then (True, con_do (Create Motor_calib) c)
          else if is_cmd (CHR ''t'') cmd then (True, send_loadcell_msg LOADCELL_SAVE_STATE1_CMD c)
          else if is_cmd (CHR ''u'') cmd then (True, send_loadcell_msg LOADCELL_SAVE_STATE2_CMD c)
          else if is_cmd (CHR ''v'') cmd then (True, send_loadcell_msg LOADCELL_SAVE_STATE3_CMD c)
          else if is_cmd (CHR ''w'') cmd \<or> is_cmd (CHR ''W'') cmd then
            (let c = on_st clear_emergency_stop c
             in (True, if is_clean_running (con c) then on_st toggle_clean_pause c
                       else con_do (Create Recovery_scenario) c))
          else if is_cmd (CHR ''x'') cmd \<or> is_cmd (CHR ''X'') cmd then
            (True, (con_do (Create Scpspin_test) (delete_spin_test c))\<lparr>spin_test_alive := True\<rparr>)
          else if is_cmd (CHR ''y'') cmd \<or> is_cmd (CHR ''Y'') cmd then (True, con_do (Print_sensors (pt_of (con c))) c)
          else if is_cmd (CHR ''r'') cmd then (False, con_do (System_reset 3) c)
          else if is_cmd (CHR ''z'') cmd \<or> is_cmd (CHR ''Z'') cmd then
            (True, on_st (send_scpspin_motor_msg_ex SCP_SPIN_CMD 0 STOP 0 0 False) (on_st set_emergency_stop c))
          else (True, con_do Show_usage c))"

text \<open>A function with a local motor message: it starts at zero with the given task number.\<close>

definition local_msg :: "u32 \<Rightarrow> (console \<Rightarrow> bool \<times> console) \<Rightarrow> console \<Rightarrow> bool \<times> console" where
  "local_msg tid f c =
     (case f (on_st (\<lambda>s. s\<lparr>msg := zero_mt\<lparr>mt_task_id := tid\<rparr>\<rparr>) c) of
        (go, c') \<Rightarrow> (go, on_st (\<lambda>s. s\<lparr>msg := msg (con c)\<rparr>) c'))"

definition Process_Command :: "u32 \<Rightarrow> char list \<Rightarrow> console \<Rightarrow> bool \<times> console" where
  "Process_Command tid cmd = local_msg tid (\<lambda>c. command_body cmd (command_guards cmd c))"

text \<open>The tasks the commands create, up to their end.\<close>

definition scpspin_test_task :: "int \<Rightarrow> console \<Rightarrow> console" where
  "scpspin_test_task dir c = (on_st (motor_scpspin_test dir) c)\<lparr>spin_test_alive := False\<rparr>"

definition loadcell_tare_task :: "env \<Rightarrow> console \<Rightarrow> console" where
  "loadcell_tare_task E c = send_loadcell_msg LOADCELL_TARE_CMD (on_st (vTaskDelay E 5000) c)"

section \<open>Lines\<close>

text \<open>\<open>sscanf(line, "%15s %d %d", ...)\<close>: the word and the numbers, as far as they match.\<close>

definition scan_line :: "char list \<Rightarrow> char list \<times> int list" where
  "scan_line line =
     (let rest = dropWhile is_space line; word = take 15 (takeWhile (\<lambda>c. \<not> is_space c) rest)
      in (word, if word = [] then [] else scan_ints 2 (drop (length word) rest)))"

definition motor_line :: "char list \<Rightarrow> u32 \<Rightarrow> u32 \<Rightarrow> (st \<Rightarrow> st) option" where
  "motor_line word dir angle =
     (if word = ''MP'' then Some (send_plate_msg PLATE_CMD 0 dir 0)
      else if word = ''MI'' then Some (send_scpinout_msg SCP_INOUT_CMD 0 dir 0)
      else if word = ''MM'' then Some (send_main_motor_msg MAIN_COVER_CMD 0 dir 0)
      else if word = ''MW'' then Some (send_waste_motor_msg WASTE_COVER_CMD 0 dir 0)
      else if word = ''MS'' then Some (send_scpspin_motor_msg SCP_SPIN_CMD angle dir 0)
      else None)"

definition console_line :: "u32 \<Rightarrow> char list \<Rightarrow> console \<Rightarrow> bool \<times> console" where
  "console_line tid line c =
     (case scan_line line of (word, nums) \<Rightarrow>
        if nums \<noteq> [] then
          (let dir_val = hd nums; angle_val = (if length nums = 2 then nums ! 1 else 0);
               target_dir = (if dir_val = 1 then FORWARD else if dir_val = 2 then REVERSE else STOP)
           in case motor_line word target_dir (word_of_int angle_val) of
                Some f \<Rightarrow> local_msg 0 (\<lambda>c. (True, on_st f c)) c
              | None \<Rightarrow> Process_Command tid line c)
        else if length line > 0 then Process_Command tid line c
        else (True, c))"

section \<open>Bytes\<close>

text \<open>\<open>parse_buf[parse_idx] = ch\<close>; \<open>None\<close>: the write is behind the buffer.\<close>

definition put_parse :: "char \<Rightarrow> console \<Rightarrow> console option" where
  "put_parse ch c =
     (if parse_idx c < length (parse_buf c) then Some (c\<lparr>parse_buf := (parse_buf c)[parse_idx c := ch]\<rparr>) else None)"

text \<open>One byte of the ring.  \<open>False\<close>: the parser is left; \<open>None\<close>: a write behind the buffer.\<close>

definition parse_byte :: "u32 \<Rightarrow> char \<Rightarrow> console \<Rightarrow> (bool \<times> console) option" where
  "parse_byte tid ch c =
     (if ch = CHR ''$'' then Some (False, c\<lparr>parse_idx := 0\<rparr>)
      else if parse_idx c < PARSE_BUF_SIZE - 1 then
        (case put_parse ch c of None \<Rightarrow> None
         | Some c \<Rightarrow>
           let c = c\<lparr>parse_idx := parse_idx c + 1\<rparr>
           in if ch = CHR 0x0D \<or> ch = CHR 0x0A then
                (case put_parse (CHR 0x00) c of None \<Rightarrow> None
                 | Some c \<Rightarrow>
                   (case console_line tid (cstr (parse_buf c)) c of
                      (go, c) \<Rightarrow> Some (if go then (True, c\<lparr>parse_idx := 0\<rparr>) else (False, c))))
              else Some (True, c))
      else Some (True, c\<lparr>parse_idx := 0\<rparr>))"

partial_function (option) uart_parser :: "u32 \<Rightarrow> RingBuffer \<Rightarrow> console \<Rightarrow> (RingBuffer \<times> console) option" where
  "uart_parser tid r c =
     (case RingBuffer_Pop r of None \<Rightarrow> Some (r, c)
      | Some (ch, r) \<Rightarrow>
         (case parse_byte tid ch c of None \<Rightarrow> None
          | Some (go, c) \<Rightarrow> if go then uart_parser tid r c else Some (r, c)))"

text \<open>One turn of \<open>uart_process\<close>: the bytes read are pushed, then parsed.\<close>

definition uart_process :: "u32 \<Rightarrow> char list \<Rightarrow> RingBuffer \<Rightarrow> console \<Rightarrow> (RingBuffer \<times> console) option" where
  "uart_process arg data r c = uart_parser arg (fold RingBuffer_Push data r) c"

section \<open>Start-up\<close>

definition check_boot_origin_recovery :: "env \<Rightarrow> st \<Rightarrow> st option" where
  "check_boot_origin_recovery E s =
     (let pt = pt_of s;
          is_waste_closed = bit_set pt PT_BIT_WASTE_CLOSE;
          is_mcover_closed = bit_set pt PT_BIT_MCOVER_CLOSE;
          is_scp_in = bit_set pt PT_BIT_SCP_IN
      in if \<not> is_waste_closed \<or> \<not> is_mcover_closed \<or> \<not> is_scp_in
         then (case do_clean_resume_recovery E (clear_emergency_stop s) of None \<Rightarrow> None | Some (_, s) \<Rightarrow> Some s)
         else Some s)"

text \<open>The part of \<open>app_main\<close> after the queues were flushed.\<close>

definition app_main_motors :: "st \<Rightarrow> st" where
  "app_main_motors = scoped_exec (\<lambda>s.
     let s = clear_emergency_stop s;
         s = send_plate_msg PLATE_CMD 0 STOP 0 s;
         s = send_scpinout_msg SCP_INOUT_CMD 0 STOP 0 s;
         s = send_main_motor_msg MAIN_COVER_CMD 0 STOP 0 s;
         s = send_waste_motor_msg WASTE_COVER_CMD 0 STOP 0 s
     in send_scpspin_motor_msg_ex SCP_SPIN_CMD 0 STOP 0 0 False s)"

end
