(* ===== verification/Console_Props.thy ===== *)
theory Console_Props
  imports Console
begin

text \<open>
  What the console guarantees: the parser is a fold over the bytes of the ring and stays in its
  buffer, which commands touch the emergency stop, and what the start-up does to the motors.
\<close>


section \<open>The parser is a fold over the bytes\<close>

fun feed :: "u32 \<Rightarrow> char list \<Rightarrow> console \<Rightarrow> (char list \<times> console) option" where
  "feed tid [] c = Some ([], c)"
| "feed tid (ch # xs) c =
     (case parse_byte tid ch c of None \<Rightarrow> None | Some (go, d) \<Rightarrow> if go then feed tid xs d else Some (xs, d))"

lemma uart_parser_feed:
  assumes "ring_ok r" "feed tid (ring_contents r) c = Some (rest, d)"
  shows "\<exists>r'. uart_parser tid r c = Some (r', d) \<and> ring_contents r' = rest \<and> ring_ok r'"
  using assms
proof (induction "ring_contents r" arbitrary: r c)
  case Nil
  then have "RingBuffer_Pop r = None" using rx.pop_empty [of r] by simp
  moreover have "rest = []" "d = c" using Nil.prems(2) Nil.hyps by (metis feed.simps(1) option.inject prod.inject)+
  ultimately show ?case using Nil by (simp add: uart_parser.simps [of tid r c])
next
  case (Cons ch xs)
  obtain r1 where r1: "RingBuffer_Pop r = Some (ch, r1)" "ring_contents r1 = xs" "ring_ok r1"
    using rx.pop_Cons [OF Cons.prems(1) Cons.hyps(2) [symmetric]] by blast
  from Cons.prems(2) obtain go c1 where b: "parse_byte tid ch c = Some (go, c1)"
    "(if go then feed tid xs c1 else Some (xs, c1)) = Some (rest, d)"
    by (auto simp: Cons.hyps(2) [symmetric] split: option.splits)
  show ?case
  proof (cases go)
    case True
    with b(2) Cons.hyps(1) [OF r1(2) [symmetric] r1(3), of c1] r1 show ?thesis
      by (simp add: uart_parser.simps [of tid r c] b(1))
  next
    case False
    with b r1 show ?thesis by (simp add: uart_parser.simps [of tid r c])
  qed
qed

definition plain :: "char \<Rightarrow> bool" where
  "plain ch \<longleftrightarrow> ch \<noteq> CHR ''$'' \<and> ch \<noteq> CHR 0x0D \<and> ch \<noteq> CHR 0x0A \<and> ch \<noteq> CHR 0x00"

lemma feed_collect:
  "list_all plain line \<Longrightarrow> length (parse_buf c) = PARSE_BUF_SIZE \<Longrightarrow> parse_idx c + length line < PARSE_BUF_SIZE \<Longrightarrow>
    feed tid (line @ rest) c = feed tid rest (c\<lparr>parse_buf := take (parse_idx c) (parse_buf c) @ line
        @ drop (parse_idx c + length line) (parse_buf c), parse_idx := parse_idx c + length line\<rparr>)"
proof (induction line arbitrary: c)
  case (Cons ch line)
  let ?c = "c\<lparr>parse_buf := (parse_buf c)[parse_idx c := ch], parse_idx := parse_idx c + 1\<rparr>"
  have byte: "parse_byte tid ch c = Some (True, ?c)"
    using Cons.prems by (simp add: parse_byte_def put_parse_def plain_def Let_def)
  have "take (parse_idx c + 1) ((parse_buf c)[parse_idx c := ch]) = take (parse_idx c) (parse_buf c) @ [ch]"
    using Cons.prems by (simp add: take_Suc_conv_app_nth)
  moreover have "feed tid (line @ rest) ?c = feed tid rest (?c\<lparr>parse_buf := take (parse_idx ?c) (parse_buf ?c) @ line
        @ drop (parse_idx ?c + length line) (parse_buf ?c), parse_idx := parse_idx ?c + length line\<rparr>)"
    using Cons.prems by (intro Cons.IH) auto
  ultimately show ?case by (simp add: byte)
qed simp

text \<open>The console when a complete line is in its buffer.\<close>

definition line_ready :: "char list \<Rightarrow> console \<Rightarrow> console" where
  "line_ready line c = c\<lparr>parse_buf := line @ [CHR 0x0A, CHR 0x00] @ drop (length line + 2) (parse_buf c),
     parse_idx := length line + 1\<rparr>"

definition line_done :: "bool \<times> console \<Rightarrow> console" where
  "line_done r = (if fst r then (snd r)\<lparr>parse_idx := 0\<rparr> else snd r)"

text \<open>
  A line typed into an idle console, with its newline and at most 126 characters, makes the
  parser return, acts exactly once, on that line, and leaves the ring empty.
\<close>

theorem console_executes_line:
  assumes "ring_ok r" "ring_contents r = []" "length (parse_buf c) = 128" "parse_idx c = 0"
    and "list_all plain line" "length line < 127"
  shows "\<exists>r'. uart_process tid (line @ [CHR 0x0A]) r c
      = Some (r', line_done (console_line tid (line @ [CHR 0x0A]) (line_ready line c)))
    \<and> ring_ok r' \<and> ring_contents r' = []"
proof -
  let ?r = "fold RingBuffer_Push (line @ [CHR 0x0A]) r"
  have r: "ring_ok ?r" using assms(1) by (rule rx.inv_pushes)
  have rc: "ring_contents ?r = line @ [CHR 0x0A]"
    using rx.contents_pushes [OF assms(1), of "line @ [CHR 0x0A]"] assms(2,6) by simp
  let ?c = "c\<lparr>parse_buf := line @ drop (length line) (parse_buf c), parse_idx := length line\<rparr>"
  have feed: "feed tid (line @ [CHR 0x0A]) c = feed tid [CHR 0x0A] ?c"
    using feed_collect [OF assms(5), of c tid "[CHR 0x0A]"] assms(3,4,6) by simp
  have d1: "drop (length line) (parse_buf c) = parse_buf c ! length line # drop (length line + 1) (parse_buf c)"
    using assms(3,6) by (simp add: Cons_nth_drop_Suc)
  have d2: "drop (length line + 1) (parse_buf c) = parse_buf c ! (length line + 1) # drop (length line + 2) (parse_buf c)"
    using assms(3,6) by (simp add: Cons_nth_drop_Suc)
  have buf: "(line @ drop (length line) (parse_buf c))[length line := CHR 0x0A, length line + 1 := CHR 0x00]
      = line @ [CHR 0x0A, CHR 0x00] @ drop (length line + 2) (parse_buf c)"
    unfolding d1 d2 by (simp add: list_update_append)
  have "CHR 0x00 \<notin> set line" using assms(5) by (auto simp: list_all_iff plain_def)
  then have "takeWhile (\<lambda>ch. ch \<noteq> CHR 0x00) (line @ [CHR 0x0A, CHR 0x00] @ x) = line @ [CHR 0x0A]" for x
    by (subst takeWhile_append2) auto
  then have s: "cstr (parse_buf (line_ready line c)) = line @ [CHR 0x0A]"
    by (simp add: cstr_def line_ready_def)
  then have s': "cstr ((line @ drop (length line) (parse_buf c))[length line := CHR 0x0A, Suc (length line) := CHR 0x00])
      = line @ [CHR 0x0A]"
    using buf by (simp add: line_ready_def)
  have c': "c\<lparr>parse_idx := Suc (length line), parse_buf := (line @ drop (length line) (parse_buf c))
      [length line := CHR 0x0A, Suc (length line) := CHR 0x00]\<rparr> = line_ready line c"
    using buf by (simp add: line_ready_def)
  let ?l = "console_line tid (line @ [CHR 0x0A]) (line_ready line c)"
  have "parse_byte tid (CHR 0x0A) ?c = Some (fst ?l, line_done ?l)"
    using assms(3,6) by (simp add: parse_byte_def put_parse_def Let_def line_done_def case_prod_beta c' s s')
  then have "feed tid (ring_contents ?r) c = Some ([], line_done ?l)"
    using feed rc by simp
  with uart_parser_feed [OF r, of tid c] have "\<exists>r'. uart_parser tid ?r c = Some (r', line_done ?l)
      \<and> ring_contents r' = [] \<and> ring_ok r'" by (simp only: snd_conv fst_conv)
  then show ?thesis unfolding uart_process_def by blast
qed

definition idle_console :: "mem \<Rightarrow> console" where
  "idle_console m = \<lparr>con = start_st m, parse_buf = replicate 128 (CHR 0x00), parse_idx = 0,
     spin_test_alive = False, loadcell_queue = False, con_acts = []\<rparr>"

theorem console_executes_line_witness:
  "\<exists>r'. uart_process 7 (''MP 1'' @ [CHR 0x0A]) rx_ring_init (idle_console boot_mem)
      = Some (r', line_done (console_line 7 (''MP 1'' @ [CHR 0x0A]) (line_ready ''MP 1'' (idle_console boot_mem))))
    \<and> ring_ok r' \<and> ring_contents r' = []"
  by (rule console_executes_line) (simp_all add: ring_ok_init idle_console_def plain_def)

section \<open>The buffer\<close>

definition console_ok :: "console \<Rightarrow> bool" where
  "console_ok c \<longleftrightarrow> length (parse_buf c) = PARSE_BUF_SIZE \<and> parse_idx c < PARSE_BUF_SIZE"

definition same_buf :: "console \<Rightarrow> console \<Rightarrow> bool" where
  "same_buf c d \<longleftrightarrow> parse_buf d = parse_buf c \<and> parse_idx d = parse_idx c"

lemma same_buf_simps [simp]:
  "same_buf c c" "same_buf c (con_do a d) = same_buf c d" "same_buf c (on_st f d) = same_buf c d"
  "same_buf c (send_loadcell_msg k d) = same_buf c d" "same_buf c (delete_spin_test d) = same_buf c d"
  "same_buf c (d\<lparr>spin_test_alive := b\<rparr>) = same_buf c d"
  by (auto simp: same_buf_def con_do_def on_st_def send_loadcell_msg_def delete_spin_test_def)

lemma same_buf_guards [simp]: "same_buf c (command_guards cmd d) = same_buf c d"
  by (simp add: command_guards_def Let_def)

lemma same_buf_local: "(\<And>d. same_buf d (snd (f d))) \<Longrightarrow> same_buf c (snd (local_msg tid f c))"
  unfolding local_msg_def same_buf_def on_st_def by (fastforce simp: case_prod_beta)

lemma same_buf_body [simp]: "same_buf c (snd (command_body cmd d)) = same_buf c d"
proof (cases "motor_command cmd")
  case None
  show ?thesis
    unfolding command_body_def None option.case Let_def if_distrib [of snd] if_distrib [of "same_buf c"]
    by simp
qed (simp add: command_body_def)

lemma same_buf_command [simp]: "same_buf c (snd (Process_Command tid cmd c))"
  unfolding Process_Command_def by (rule same_buf_local) simp

lemma same_buf_line: "same_buf c (snd (console_line tid line c))"
proof -
  obtain word nums where l: "scan_line line = (word, nums)" by (cases "scan_line line")
  have m: "same_buf c (snd (local_msg 0 (\<lambda>c. (True, on_st f c)) c))" for f
    by (rule same_buf_local) simp
  show ?thesis
  proof (cases "nums = []")
    case True
    then show ?thesis by (simp add: console_line_def l)
  next
    case False
    then show ?thesis
      unfolding console_line_def l Let_def using m by (simp split: option.split)
  qed
qed

lemma parse_byte_ok:
  assumes "console_ok c"
  shows "\<exists>go d. parse_byte tid ch c = Some (go, d) \<and> console_ok d"
proof -
  have line: "length (parse_buf (snd (console_line tid l d))) = length (parse_buf d)"
    "parse_idx (snd (console_line tid l d)) = parse_idx d" for l d
    using same_buf_line [of d tid l] by (simp_all add: same_buf_def)
  have "length (parse_buf c) = 128" "parse_idx c < 128" using assms by (simp_all add: console_ok_def)
  then show ?thesis
    by (auto simp: parse_byte_def put_parse_def Let_def console_ok_def case_prod_beta line)
qed

lemma feed_ok: "console_ok c \<Longrightarrow> \<exists>rest d. feed tid xs c = Some (rest, d) \<and> console_ok d"
proof (induction xs arbitrary: c)
  case (Cons ch xs)
  obtain go d where "parse_byte tid ch c = Some (go, d)" "console_ok d" using parse_byte_ok [OF Cons.prems] by blast
  with Cons.IH [of d] show ?case by (cases go) auto
qed simp

text \<open>A line of 128 characters is dropped.\<close>

lemma feed_overlong:
  assumes "list_all plain long" "console_ok c" "parse_idx c + length long = PARSE_BUF_SIZE"
  shows "\<exists>b. feed tid long c = Some ([], c\<lparr>parse_buf := b, parse_idx := 0\<rparr>) \<and> length b = PARSE_BUF_SIZE"
proof -
  have n: "length (parse_buf c) = 128" "parse_idx c < 128" using assms(2) by (simp_all add: console_ok_def)
  then have "long \<noteq> []" using assms(3) by auto
  then obtain init ch where l: "long = init @ [ch]" by (cases long rule: rev_cases) auto
  let ?b = "take (parse_idx c) (parse_buf c) @ init @ drop (parse_idx c + length init) (parse_buf c)"
  have "feed tid long c = feed tid [ch] (c\<lparr>parse_buf := ?b, parse_idx := parse_idx c + length init\<rparr>)"
    unfolding l by (rule feed_collect) (use assms(1,3) n l in simp_all)
  also have "\<dots> = Some ([], c\<lparr>parse_buf := ?b, parse_idx := 0\<rparr>)"
    using assms(1,3) l by (simp add: parse_byte_def plain_def)
  finally have "feed tid long c = Some ([], c\<lparr>parse_buf := ?b, parse_idx := 0\<rparr>)" .
  moreover have "length ?b = 128" using n assms(3) l by simp
  ultimately show ?thesis by blast
qed

text \<open>
  C36: whatever bytes arrive, the parser returns and writes to no place outside its line
  buffer.  An overlong line is dropped with its 128th character, without effect: what follows is taken
  for a new line, and when it is one of at most 126 characters, it is carried out as if it had been typed alone.
\<close>

theorem console_returns_in_bounds:
  assumes "ring_ok r" "console_ok c"
  shows "(\<exists>r' c'. uart_process tid data r c = Some (r', c') \<and> ring_ok r' \<and> console_ok c')
    \<and> (ring_contents r = [] \<and> list_all plain long \<and> parse_idx c + length long = 128
         \<and> list_all plain line \<and> length line < 127 \<longrightarrow>
        (\<exists>r1 b r2. uart_process tid long r c = Some (r1, c\<lparr>parse_buf := b, parse_idx := 0\<rparr>)
          \<and> uart_process tid (line @ [CHR 0x0A]) r1 (c\<lparr>parse_buf := b, parse_idx := 0\<rparr>)
            = Some (r2, line_done (console_line tid (line @ [CHR 0x0A]) (line_ready line (c\<lparr>parse_buf := b, parse_idx := 0\<rparr>))))))"
proof (intro conjI impI)
  obtain rest d where "feed tid (ring_contents (fold RingBuffer_Push data r)) c = Some (rest, d)" "console_ok d"
    using feed_ok [OF assms(2)] by blast
  then show "\<exists>r' c'. uart_process tid data r c = Some (r', c') \<and> ring_ok r' \<and> console_ok c'"
    using uart_parser_feed [OF rx.inv_pushes [OF assms(1)]] unfolding uart_process_def by blast
next
  assume h: "ring_contents r = [] \<and> list_all plain long \<and> parse_idx c + length long = 128
         \<and> list_all plain line \<and> length line < 127"
  obtain b where b: "feed tid long c = Some ([], c\<lparr>parse_buf := b, parse_idx := 0\<rparr>)" "length b = 128"
    using feed_overlong [of long c tid] h assms(2) by auto
  have "ring_contents (fold RingBuffer_Push long r) = long"
    using rx.contents_pushes [OF assms(1), of long] h by simp
  then obtain r1 where r1: "uart_process tid long r c = Some (r1, c\<lparr>parse_buf := b, parse_idx := 0\<rparr>)"
    "ring_contents r1 = []" "ring_ok r1"
    using uart_parser_feed [OF rx.inv_pushes [OF assms(1)], of tid long c "[]"] b(1) unfolding uart_process_def by auto
  have "\<exists>r2. uart_process tid (line @ [CHR 0x0A]) r1 (c\<lparr>parse_buf := b, parse_idx := 0\<rparr>)
      = Some (r2, line_done (console_line tid (line @ [CHR 0x0A]) (line_ready line (c\<lparr>parse_buf := b, parse_idx := 0\<rparr>))))"
    using console_executes_line [OF r1(3,2), where c = "c\<lparr>parse_buf := b, parse_idx := 0\<rparr>" and line = line and tid = tid]
      h b(2) by auto
  with r1(1) show "\<exists>r1 b r2. uart_process tid long r c = Some (r1, c\<lparr>parse_buf := b, parse_idx := 0\<rparr>)
          \<and> uart_process tid (line @ [CHR 0x0A]) r1 (c\<lparr>parse_buf := b, parse_idx := 0\<rparr>)
            = Some (r2, line_done (console_line tid (line @ [CHR 0x0A]) (line_ready line (c\<lparr>parse_buf := b, parse_idx := 0\<rparr>))))"
    by blast
qed

theorem console_returns_in_bounds_witness:
  "(\<exists>r' c'. uart_process 7 (replicate 300 (CHR ''y'')) rx_ring_init (idle_console boot_mem) = Some (r', c')
     \<and> ring_ok r' \<and> console_ok c')
   \<and> (\<exists>r1 b. uart_process 7 (replicate 128 (CHR ''z'')) rx_ring_init (idle_console boot_mem)
        = Some (r1, (idle_console boot_mem)\<lparr>parse_buf := b, parse_idx := 0\<rparr>))"
proof -
  have h: "ring_ok rx_ring_init" "console_ok (idle_console boot_mem)" by (simp_all add: ring_ok_init idle_console_def console_ok_def)
  have z: "list_all plain (replicate 128 (CHR ''z''))" "parse_idx (idle_console boot_mem) + length (replicate 128 (CHR ''z'')) = 128"
    by (simp_all add: plain_def list_all_iff idle_console_def)
  show ?thesis
    using console_returns_in_bounds [OF h, of 7 "replicate 300 (CHR ''y'')" "replicate 128 (CHR ''z'')" "[]"] z ring_ok_init
    by auto
qed

section \<open>Emergency stop\<close>

abbreviation con_estop :: "console \<Rightarrow> bool" where
  "con_estop c \<equiv> emergency_stop_flag (mem (con c))"

lemma motor_command_mem: "motor_command cmd = Some f \<Longrightarrow> mem (f s) = mem s"
  by (auto simp: motor_command_def split: if_splits)

lemma is_cmd_unique: "is_cmd a cmd \<Longrightarrow> is_cmd b cmd \<Longrightarrow> a = b"
  by (cases cmd) (auto simp: is_cmd_def starts_with_def)

lemma motor_command_not_z:
  "motor_command cmd = Some f \<Longrightarrow> \<not> is_cmd (CHR ''z'') cmd \<and> \<not> is_cmd (CHR ''Z'') cmd"
  using is_cmd_unique [of _ cmd "CHR ''z''"] is_cmd_unique [of _ cmd "CHR ''Z''"]
  by (fastforce simp: motor_command_def split: if_splits)

lemma con_estop_simps [simp]:
  "con_estop (con_do a c) = con_estop c" "con_estop (delete_spin_test c) = con_estop c"
  "con_estop (send_loadcell_msg k c) = con_estop c"
  "con_estop (on_st clear_emergency_stop c) = False"
  "con_estop (on_st set_emergency_stop c) = True"
  "con_estop (on_st toggle_clean_pause c) = con_estop c"
  "con_estop (on_st (send_scpspin_motor_msg_ex k b d e f g) c) = con_estop c"
  by (simp_all add: con_do_def on_st_def delete_spin_test_def send_loadcell_msg_def clear_emergency_stop_def
      set_emergency_stop_def toggle_clean_pause_def scoped_exec_def pause_stops_def Let_def)

lemma command_guards_estop:
  "con_estop (command_guards cmd c) = (con_estop c \<and> (is_cmd (CHR ''z'') cmd \<or> is_cmd (CHR ''Z'') cmd))"
  by (auto simp: command_guards_def Let_def)

lemma command_body_estop:
  assumes "con_estop c \<Longrightarrow> is_cmd (CHR ''z'') cmd \<or> is_cmd (CHR ''Z'') cmd"
  shows "con_estop (snd (command_body cmd c)) = (is_cmd (CHR ''z'') cmd \<or> is_cmd (CHR ''Z'') cmd)"
proof (cases "motor_command cmd")
  case (Some f)
  then show ?thesis
    using assms motor_command_mem [OF Some] motor_command_not_z [OF Some] by (auto simp: command_body_def on_st_def)
next
  case None
  show ?thesis
  proof (cases "is_cmd (CHR ''z'') cmd \<or> is_cmd (CHR ''Z'') cmd")
    case True
    then have "\<not> is_cmd a cmd" if "a \<noteq> CHR ''z''" "a \<noteq> CHR ''Z''" for a
      using that is_cmd_unique [of a cmd] by blast
    with True None show ?thesis by (simp add: command_body_def)
  next
    case False
    then have "\<not> con_estop c" using assms by blast
    with False None show ?thesis by (simp add: command_body_def Let_def)
  qed
qed

text \<open>
  A console command leaves the emergency stop raised exactly when it starts with \<open>z\<close> or
  \<open>Z\<close>.  Every other line clears it: a query, a typing error, an empty line.
\<close>

theorem console_clears_emergency_stop:
  "emergency_stop_flag (mem (con (snd (Process_Command tid cmd c))))
    = (is_cmd (CHR ''z'') cmd \<or> is_cmd (CHR ''Z'') cmd)"
  using command_body_estop [of "command_guards cmd (on_st (\<lambda>s. s\<lparr>msg := zero_mt\<lparr>mt_task_id := tid\<rparr>\<rparr>) c)" cmd]
  by (simp add: Process_Command_def local_msg_def case_prod_beta command_guards_estop on_st_def)

text \<open>
  The emergency stop command posts a stop to every motor after everything else in the trace.
\<close>

theorem emergency_command_stops_all:
  assumes "is_cmd (CHR ''z'') cmd \<or> is_cmd (CHR ''Z'') cmd"
  shows "halted (trace (con (snd (Process_Command tid cmd c))))"
proof -
  have other: "\<not> is_cmd a cmd" if "a \<noteq> CHR ''z''" "a \<noteq> CHR ''Z''" for a
    using that assms is_cmd_unique [of a cmd] by blast
  have none: "motor_command cmd = None" by (simp add: motor_command_def other)
  have body: "command_body cmd d
      = (True, on_st (send_scpspin_motor_msg_ex SCP_SPIN_CMD 0 STOP 0 0 False) (on_st set_emergency_stop d))" for d
    using assms by (simp add: command_body_def none other)
  have stops: "halted (trace (send_scpspin_motor_msg_ex SCP_SPIN_CMD 0 STOP 0 0 False (set_emergency_stop s)))" for s
    unfolding halted_def set_emergency_stop_def scoped_exec_def Let_def
    by (simp add: ends_simps del: trace_sends)
  show ?thesis
    by (simp add: Process_Command_def local_msg_def body on_st_def case_prod_beta stops del: trace_sends)
qed

theorem emergency_command_stops_all_witness:
  "halted (trace (con (snd (Process_Command 0 (''z'' @ [CHR 0x0A]) (idle_console boot_mem)))))"
  by (rule emergency_command_stops_all) (simp add: is_cmd_def starts_with_def)

text \<open>
  A direct motor line (\<open>MP\<close>, \<open>MI\<close>, \<open>MM\<close>, \<open>MW\<close>, \<open>MS\<close> with a direction) posts exactly
  one message, to that motor, and looks at nothing else: a raised emergency stop neither blocks
  it nor is cleared by it.
\<close>

theorem motor_line_ignores_emergency_stop:
  assumes "scan_line line = (word, d # ds)" "(word, q) \<in>
      {(''MP'', PlateQ), (''MI'', ScpinoutQ), (''MM'', MainQ), (''MW'', WasteQ), (''MS'', ScpspinQ)}"
  shows "\<exists>m. trace (con (snd (console_line tid line c))) = trace (con c) @ [q m]
    \<and> mt_direction m = (if d = 1 then FORWARD else if d = 2 then REVERSE else STOP)
    \<and> mem (con (snd (console_line tid line c))) = mem (con c)
    \<and> con_acts (snd (console_line tid line c)) = con_acts c"
  using assms(2)
  by (elim insertE emptyE)
    (simp_all add: console_line_def assms(1) motor_line_def local_msg_def on_st_def case_prod_beta Let_def
      send_defs)

theorem motor_line_ignores_emergency_stop_witness:
  "let c = idle_console (boot_mem\<lparr>emergency_stop_flag := True\<rparr>);
       c' = snd (console_line 0 (''MI 1'' @ [CHR 0x0A]) c)
   in con_estop c' \<and> (\<exists>m. trace (con c') = [ScpinoutQ m] \<and> mt_direction m = FORWARD)"
proof -
  have "scan_line (''MI 1'' @ [CHR 0x0A]) = (''MI'', [1])" by code_simp
  from motor_line_ignores_emergency_stop [OF this, of ScpinoutQ 0 "idle_console (boot_mem\<lparr>emergency_stop_flag := True\<rparr>)"]
  show ?thesis by (auto simp: Let_def idle_console_def start_st_def)
qed

text \<open>
  Of the capital letters the usage text lists, only D, S, W, X, Y and Z are commands; a line
  starting with any other of them posts nothing and prints the usage text again.
\<close>

theorem usage_letters_not_commands:
  assumes "ch \<in> set ''ABCEFGHIJKLMNOPQRTUV''"
  shows "trace (con (snd (Process_Command tid (ch # cmd) c))) = trace (con c)
    \<and> Show_usage \<in> set (con_acts (snd (Process_Command tid (ch # cmd) c)))"
proof -
  have k: "is_cmd a (ch # cmd) \<longleftrightarrow> ch = a" for a by (auto simp: is_cmd_def starts_with_def)
  have "command_body (ch # cmd) d = (True, con_do Show_usage d)" for d
    using assms unfolding command_body_def motor_command_def k by (simp, elim disjE) simp_all
  then show ?thesis
    by (simp add: Process_Command_def local_msg_def on_st_def case_prod_beta con_do_def command_guards_def
        delete_spin_test_def clear_emergency_stop_def Let_def)
qed

theorem usage_letters_not_commands_witness:
  "trace (con (snd (Process_Command 0 ''A'' (idle_console boot_mem)))) = []"
  using usage_letters_not_commands [of "CHR ''A''" 0 "[]" "idle_console boot_mem"]
  by (simp add: idle_console_def start_st_def)

section \<open>Start-up\<close>

text \<open>
  After a start the mechanics are driven only when the waste cover, the main cover or the
  scoop is not at its origin; then the recovery runs with the emergency stop cleared.
\<close>

theorem boot_recovery_iff_unaligned:
  "check_boot_origin_recovery E s =
     (if bit_set (pt_of s) PT_BIT_WASTE_CLOSE \<and> bit_set (pt_of s) PT_BIT_MCOVER_CLOSE \<and> bit_set (pt_of s) PT_BIT_SCP_IN
      then Some s
      else map_option snd (do_clean_resume_recovery E (s\<lparr>mem := (mem s)\<lparr>emergency_stop_flag := False\<rparr>\<rparr>)))"
  by (auto simp: check_boot_origin_recovery_def clear_emergency_stop_def upd_mem_def
      split: option.splits)

text \<open>
  The start-up stops every motor: each motor queue gets exactly one message, a stop.
\<close>

theorem start_up_stops_motors:
  "halted (trace (app_main_motors s))
   \<and> (\<exists>a b c d e. trace (app_main_motors s) = trace s @ [PlateQ a, ScpinoutQ b, MainQ c, WasteQ d, ScpspinQ e])
   \<and> \<not> emergency_stop_flag (mem (app_main_motors s))"
proof (intro conjI)
  show "halted (trace (app_main_motors s))"
    unfolding halted_def app_main_motors_def scoped_exec_def Let_def
    by (simp add: ends_simps del: trace_sends)
  show "\<exists>a b c d e. trace (app_main_motors s) = trace s @ [PlateQ a, ScpinoutQ b, MainQ c, WasteQ d, ScpspinQ e]"
    by (simp add: app_main_motors_def scoped_exec_def Let_def clear_emergency_stop_def)
  show "\<not> emergency_stop_flag (mem (app_main_motors s))"
    by (simp add: app_main_motors_def scoped_exec_def Let_def clear_emergency_stop_def)
qed

end
