(* ===== verification/Diag.thy ===== *)
theory Diag
  imports Motor
begin

text \<open>
  The diagnosis mode, \<open>src/main/diag.c\<close>: a task that walks through five stages, in each of which
  one motor can be tried with the keys.  The two keys arrive as messages that another task turns
  into flags; a delay lets the other tasks run, so it maps the shared state \<open>diag_shared\<close> in an
  arbitrary way \<open>D\<close>, which also sees what the task has posted so far.
\<close>

section \<open>State\<close>

text \<open>\<open>DIAG_MODE_T\<close> of \<open>main.h\<close>.\<close>

datatype diag_mode = DIAG_SENSOR_RF_MODE | DIAG_PLATE_MODE | DIAG_SCPINOUT_MODE | DIAG_SCPSPIN_MODE | DIAG_WASTE_MODE

record diag_shared =
  sh_mem :: mem
  diag_next_step_f :: bool
  diag_next_func_f :: bool
  clean_key_down :: bool

record diag =
  board :: st
  next_step :: bool
  next_func :: bool
  key_down :: bool
  diag_func :: int
  resets :: "u32 list"

type_synonym denv = "out list \<Rightarrow> nat \<Rightarrow> diag_shared \<Rightarrow> diag_shared"

definition dDelay :: "denv \<Rightarrow> nat \<Rightarrow> diag \<Rightarrow> diag" where
  "dDelay D ms s =
     (let sh = D (trace (board s)) ms \<lparr>sh_mem = mem (board s), diag_next_step_f = next_step s,
            diag_next_func_f = next_func s, clean_key_down = key_down s\<rparr>
      in s\<lparr>board := (board s)\<lparr>mem := sh_mem sh\<rparr>, next_step := diag_next_step_f sh,
           next_func := diag_next_func_f sh, key_down := clean_key_down sh\<rparr>)"

definition dpost :: "(st \<Rightarrow> st) \<Rightarrow> diag \<Rightarrow> diag" where
  "dpost f s = s\<lparr>board := f (board s)\<rparr>"

abbreviation dpt :: "int \<Rightarrow> int \<Rightarrow> diag \<Rightarrow> int" where
  "dpt sel mt s \<equiv> pt_at sel mt (board s)"

definition ignore :: "('s \<Rightarrow> ('a \<times> 's) option) \<Rightarrow> 's stmt" where
  "ignore f s = (case f s of None \<Rightarrow> None | Some (_, s') \<Rightarrow> Some (True, s'))"

text \<open>A function with a local, zeroed motor message.\<close>

definition dscoped :: "diag stmt \<Rightarrow> diag stmt" where
  "dscoped f s =
     (case f (dpost (\<lambda>b. b\<lparr>msg := zero_mt\<rparr>) s) of None \<Rightarrow> None
      | Some (ok, s') \<Rightarrow> Some (ok, dpost (\<lambda>b. b\<lparr>msg := msg (board s)\<rparr>) s'))"

section \<open>Commands\<close>

definition diag_cmd_task :: "u32 \<Rightarrow> diag_shared \<Rightarrow> diag_shared" where
  "diag_cmd_task cmd s =
     (if cmd = DIAG_NEXT_STEP_CMD then s\<lparr>diag_next_step_f := True\<rparr>
      else if cmd = DIAG_NEXT_FUNC_CMD then s\<lparr>diag_next_func_f := True\<rparr>
      else s)"

section \<open>Waits\<close>

partial_function (option) wait_diag_loop ::
    "denv \<Rightarrow> int \<Rightarrow> int \<Rightarrow> int \<Rightarrow> int \<Rightarrow> int \<Rightarrow> diag \<Rightarrow> (int \<times> diag) option" where
  "wait_diag_loop D sel mt timeout status start s =
     (let s = dDelay D 10 s; ret = dpt sel mt s
      in if ret = 1 \<and> status = MT_OPEN then Some (0, s)
         else if ret = -1 \<and> status = MT_CLOSE then Some (0, s)
         else if elapsed_ms start (board s) \<ge> timeout then Some (-1, s)
         else if motor_stopped sel mt (board s) then Some (0, s)
         else wait_diag_loop D sel mt timeout status start s)"

definition wait_diag_operation :: "denv \<Rightarrow> int \<Rightarrow> int \<Rightarrow> int \<Rightarrow> int \<Rightarrow> diag \<Rightarrow> (int \<times> diag) option" where
  "wait_diag_operation D sel mt timeout status s =
     (let s = dDelay D 40 s in wait_diag_loop D sel mt timeout status (now (mem (board s))) s)"

partial_function (option) spin_end_wait :: "denv \<Rightarrow> diag \<Rightarrow> (bool \<times> diag) option" where
  "spin_end_wait D s =
     (let s = dDelay D 50 s
      in if \<not> get_stepmotor_run SCPSPIN_MOTOR (steppers (mem (board s))) then Some (True, s)
         else spin_end_wait D s)"

definition spin_at_origin :: "diag \<Rightarrow> bool" where
  "spin_at_origin s \<longleftrightarrow> bit_set (pt_of (board s)) PT_BIT_SCP_SPIN_ST \<and> bit_set (pt_of (board s)) PT_BIT_SCP_SPIN_ED"

partial_function (option) origin_wait :: "denv \<Rightarrow> diag \<Rightarrow> (bool \<times> diag) option" where
  "origin_wait D s =
     (let s = dDelay D 50 s
      in if spin_at_origin s then Some (True, dpost (send_scpspin_motor_msg SCP_SPIN_CMD 0 STOP 0) s)
         else if \<not> get_stepmotor_run SCPSPIN_MOTOR (steppers (mem (board s))) then Some (True, s)
         else origin_wait D s)"

declare wait_diag_loop.simps [code] spin_end_wait.simps [code] origin_wait.simps [code]

section \<open>Stages\<close>

text \<open>The scoop is sent out and waited for, unless it is out.\<close>

definition scoop_out :: "denv \<Rightarrow> diag stmt" where
  "scoop_out D = branch (\<lambda>s. dpt DC_MOTOR SCPINOUT_MOTOR s \<noteq> 1)
     (seqs [exec (dpost (send_scpinout_msg SCP_INOUT_CMD 0 FORWARD 10000)),
            ignore (wait_diag_operation D DC_MOTOR SCPINOUT_MOTOR 10000 MT_OPEN)])
     (seqs [])"

definition start_diag_mode :: "denv \<Rightarrow> diag_mode \<Rightarrow> diag stmt" where
  "start_diag_mode D mode = dscoped (seqs
     [case mode of
        DIAG_SENSOR_RF_MODE \<Rightarrow> exec (dpost (tof_enable True))
      | DIAG_PLATE_MODE \<Rightarrow> exec (dpost (send_plate_msg PLATE_CMD 0 FORWARD 0))
      | DIAG_SCPINOUT_MODE \<Rightarrow>
          branch (\<lambda>s. dpt DC_MOTOR SCPINOUT_MOTOR s \<noteq> 1)
            (exec (dpost (send_scpinout_msg SCP_INOUT_CMD 0 FORWARD 10000))) (seqs [])
      | DIAG_SCPSPIN_MODE \<Rightarrow>
          seqs [scoop_out D, exec (dpost (send_scpspin_motor_msg SCP_SPIN_CMD 360 FORWARD 15000))]
      | DIAG_WASTE_MODE \<Rightarrow>
          seqs [scoop_out D,
            branch (\<lambda>s. dpt STEP_MOTOR WASTE_COVER_MOTOR s \<noteq> 1)
              (exec (dpost (send_waste_motor_msg WASTE_COVER_CMD 0 FORWARD 15000))) (seqs [])],
      exec (\<lambda>s. s\<lparr>diag_func := 0\<rparr>)])"

definition finish_waste :: "denv \<Rightarrow> diag stmt" where
  "finish_waste D = seqs
     [branch (\<lambda>s. dpt STEP_MOTOR WASTE_COVER_MOTOR s \<noteq> -1)
        (seqs [exec (dpost (send_waste_motor_msg WASTE_COVER_CMD 0 REVERSE 15000)),
               ignore (wait_diag_operation D STEP_MOTOR WASTE_COVER_MOTOR 15000 MT_CLOSE),
               exec (dpost (send_waste_motor_msg WASTE_COVER_CMD 0 STOP 0))])
        (seqs []),
      branch (\<lambda>s. \<not> spin_at_origin s)
        (seqs [exec (dpost (send_scpspin_motor_msg SCP_SPIN_CMD 360 FORWARD 15000)), origin_wait D])
        (seqs []),
      exec (dpost (send_scpspin_motor_msg SCP_SPIN_CMD 90 REVERSE 10000)),
      spin_end_wait D,
      exec (dpost (send_scpinout_msg SCP_INOUT_CMD 0 REVERSE 10000)),
      ignore (wait_diag_operation D DC_MOTOR SCPINOUT_MOTOR 10000 MT_CLOSE),
      exec (dpost (send_scpinout_msg SCP_INOUT_CMD 0 STOP 0)),
      exec (dpost (send_scpspin_motor_msg SCP_SPIN_CMD 20 REVERSE 5000)),
      spin_end_wait D]"

definition finish_diag_mode :: "denv \<Rightarrow> diag_mode \<Rightarrow> diag stmt" where
  "finish_diag_mode D mode = dscoped (seqs
     [case mode of
        DIAG_SENSOR_RF_MODE \<Rightarrow> exec (dpost (tof_enable False))
      | DIAG_PLATE_MODE \<Rightarrow> exec (dpost (send_plate_msg PLATE_CMD 0 STOP 0))
      | DIAG_SCPINOUT_MODE \<Rightarrow> scoop_out D
      | DIAG_SCPSPIN_MODE \<Rightarrow> exec (dpost (send_scpspin_motor_msg SCP_SPIN_CMD 0 STOP 0))
      | DIAG_WASTE_MODE \<Rightarrow> finish_waste D,
      exec (\<lambda>s. s\<lparr>diag_func := 0\<rparr>)])"

text \<open>The first test wraps the counter, then 0 is forward and 1 is back.\<close>

definition wrap_func :: "diag \<Rightarrow> diag" where
  "wrap_func s = (if diag_func s \<ge> 2 then s\<lparr>diag_func := 0\<rparr> else s)"

definition next_diag_func :: "diag_mode \<Rightarrow> diag \<Rightarrow> diag" where
  "next_diag_func mode s =
     (let m = msg (board s); s = dpost (\<lambda>b. b\<lparr>msg := zero_mt\<rparr>) s;
          s = (case mode of
            DIAG_SENSOR_RF_MODE \<Rightarrow> s
          | DIAG_PLATE_MODE \<Rightarrow>
              (let s = wrap_func s
               in if diag_func s = 0 then dpost (send_plate_msg PLATE_CMD 0 FORWARD 0) s
                  else if diag_func s = 1 then dpost (send_plate_msg PLATE_CMD 0 REVERSE 0) s else s)
          | DIAG_SCPINOUT_MODE \<Rightarrow>
              (let s = wrap_func s
               in if diag_func s = 0 then
                    (if dpt DC_MOTOR SCPINOUT_MOTOR s \<noteq> 1
                     then dpost (send_scpinout_msg SCP_INOUT_CMD 0 FORWARD 10000) s else s)
                  else if diag_func s = 1 then
                    (if dpt DC_MOTOR SCPINOUT_MOTOR s \<noteq> -1
                     then dpost (send_scpinout_msg SCP_INOUT_CMD 0 REVERSE 10000) s else s)
                  else s)
          | DIAG_SCPSPIN_MODE \<Rightarrow>
              (let s = wrap_func s
               in if diag_func s = 0 then dpost (send_scpspin_motor_msg SCP_SPIN_CMD 360 FORWARD 15000) s
                  else if diag_func s = 1 then dpost (send_scpspin_motor_msg SCP_SPIN_CMD 360 REVERSE 15000) s
                  else s)
          | DIAG_WASTE_MODE \<Rightarrow>
              (let s = wrap_func s
               in if diag_func s = 0 then
                    (if dpt STEP_MOTOR WASTE_COVER_MOTOR s \<noteq> 1
                     then dpost (send_waste_motor_msg WASTE_COVER_CMD 0 FORWARD 15000) s else s)
                  else if diag_func s = 1 then
                    (if dpt STEP_MOTOR WASTE_COVER_MOTOR s \<noteq> -1
                     then dpost (send_waste_motor_msg WASTE_COVER_CMD 0 REVERSE 15000) s else s)
                  else s))
      in dpost (\<lambda>b. b\<lparr>msg := m\<rparr>) s)"

definition diag_sensor_rf :: "denv \<Rightarrow> diag_mode \<Rightarrow> diag \<Rightarrow> diag" where
  "diag_sensor_rf D mode s = (if mode = DIAG_SENSOR_RF_MODE then dDelay D 500 s else s)"

partial_function (option) diag_loop :: "denv \<Rightarrow> diag_mode \<Rightarrow> diag \<Rightarrow> (bool \<times> diag) option" where
  "diag_loop D mode s =
     (if next_step s then Some (True, s\<lparr>next_step := False\<rparr>)
      else
        let s = (if next_func s then (next_diag_func mode (s\<lparr>diag_func := diag_func s + 1\<rparr>))\<lparr>next_func := False\<rparr> else s)
        in diag_loop D mode (dDelay D 10 (diag_sensor_rf D mode s)))"

declare diag_loop.simps [code]

definition do_diag_mode :: "denv \<Rightarrow> diag_mode \<Rightarrow> diag stmt" where
  "do_diag_mode D mode = seqs [start_diag_mode D mode, diag_loop D mode, finish_diag_mode D mode]"

partial_function (option) key_release_wait :: "denv \<Rightarrow> diag \<Rightarrow> (bool \<times> diag) option" where
  "key_release_wait D s =
     (if \<not> key_down s then Some (True, dDelay D 100 s) else key_release_wait D (dDelay D 10 s))"

declare key_release_wait.simps [code]

definition diag_process_task :: "denv \<Rightarrow> diag stmt" where
  "diag_process_task D = seqs
     [exec (dpost (send_led_cmd_msg LED_QCMODE_CMD)),
      key_release_wait D,
      exec (\<lambda>s. s\<lparr>next_step := False, next_func := False\<rparr>),
      do_diag_mode D DIAG_SENSOR_RF_MODE,
      do_diag_mode D DIAG_PLATE_MODE,
      do_diag_mode D DIAG_SCPINOUT_MODE,
      do_diag_mode D DIAG_SCPSPIN_MODE,
      do_diag_mode D DIAG_WASTE_MODE,
      exec (\<lambda>s. s\<lparr>resets := resets s @ [1]\<rparr>)]"

section \<open>What the diagnosis may post\<close>

definition dem :: "(out \<Rightarrow> bool) \<Rightarrow> diag \<Rightarrow> diag \<Rightarrow> bool" where
  "dem Q s s' \<longleftrightarrow> emits Q (board s) (board s')"

interpretation dem: frame_relation "dem Q" for Q
  by unfold_locales (auto simp: dem_def intro: emits.refl emits.trans)

lemma dem_delay [simp]: "dem Q s (dDelay D ms s)"
  by (auto simp: dem_def dDelay_def Let_def intro: emits_same)

lemma dem_delay_trans: "dem Q (dDelay D ms s) t \<Longrightarrow> dem Q s t"
  using dem.trans dem_delay by blast

lemma dem_post: "emits Q (board s) (f (board s)) \<Longrightarrow> dem Q s (dpost f s)"
  by (simp add: dem_def dpost_def)

lemmas wait_diag_loop_induct = wait_diag_loop.raw_induct [rotated, consumes 1, case_names step]
lemmas spin_end_wait_induct = spin_end_wait.raw_induct [rotated, consumes 1, case_names step]
lemmas origin_wait_induct = origin_wait.raw_induct [rotated, consumes 1, case_names step]
lemmas diag_loop_induct = diag_loop.raw_induct [rotated, consumes 1, case_names step]
lemmas key_release_wait_induct = key_release_wait.raw_induct [rotated, consumes 1, case_names step]

lemma wait_diag_loop_dem: "wait_diag_loop D sel mt timeout status start s = Some r \<Longrightarrow> dem Q s (snd r)"
proof (induction rule: wait_diag_loop_induct)
  case (step f D sel mt timeout status start s r)
  from step(2) have "snd r = dDelay D 10 s \<or> f D sel mt timeout status start (dDelay D 10 s) = Some r"
    by (auto simp: Let_def split: if_splits)
  then show ?case using step(1) dem_delay_trans by (metis dem_delay)
qed

lemma wait_diag_dem: "obeys (dem Q) (wait_diag_operation D sel mt timeout status)"
proof (rule obeysI)
  fix s a s' assume "wait_diag_operation D sel mt timeout status s = Some (a, s')"
  from wait_diag_loop_dem [OF this [unfolded wait_diag_operation_def Let_def]] show "dem Q s s'"
    by (auto intro: dem_delay_trans)
qed

lemma spin_end_wait_dem: "spin_end_wait D s = Some r \<Longrightarrow> dem Q s (snd r) \<and> fst r"
proof (induction rule: spin_end_wait_induct)
  case (step f D s r)
  from step(2) have "r = (True, dDelay D 50 s) \<or> f D (dDelay D 50 s) = Some r"
    by (auto simp: Let_def split: if_splits)
  then show ?case using step(1) dem_delay_trans by (metis dem_delay fst_conv snd_conv)
qed

lemma dem_spin_stop:
  "(\<And>m. Q (ScpspinQ m)) \<Longrightarrow> dem Q s (dpost (send_scpspin_motor_msg c a d t) (dDelay D ms s))"
  by (rule dem_delay_trans, rule dem_post, rule emits_snoc [where x = "ScpspinQ _"]) (auto simp: send_defs)

lemma origin_wait_dem:
  "origin_wait D s = Some r \<Longrightarrow> (\<And>m. Q (ScpspinQ m)) \<Longrightarrow> dem Q s (snd r) \<and> fst r"
proof (induction rule: origin_wait_induct)
  case (step f D s r)
  from step(2) have "r = (True, dpost (send_scpspin_motor_msg SCP_SPIN_CMD 0 STOP 0) (dDelay D 50 s))
      \<or> r = (True, dDelay D 50 s) \<or> f D (dDelay D 50 s) = Some r"
    by (auto simp: Let_def split: if_splits)
  then show ?case using step(1) step.prems dem_spin_stop dem_delay_trans by (metis dem_delay fst_conv snd_conv)
qed

lemma key_release_wait_dem: "key_release_wait D s = Some r \<Longrightarrow> dem Q s (snd r) \<and> fst r"
proof (induction rule: key_release_wait_induct)
  case (step f D s r)
  from step(2) have "r = (True, dDelay D 100 s) \<or> f D (dDelay D 10 s) = Some r"
    by (auto split: if_splits)
  then show ?case using step(1) dem_delay_trans by (metis dem_delay fst_conv snd_conv)
qed


lemma obeys_dpost: "(\<And>s. emits Q s (f s)) \<Longrightarrow> obeys (dem Q) (exec (dpost f))"
  by (rule dem.exec_obeys) (rule dem_post)

lemma obeys_ignore: "obeys (dem Q) f \<Longrightarrow> obeys (dem Q) (ignore f)"
  by (auto simp: obeys_def ignore_def split: option.splits)

lemma obeys_dscoped: "obeys (dem Q) f \<Longrightarrow> obeys (dem Q) (dscoped f)"
  by (auto simp: obeys_def dscoped_def dem_def emits_def dpost_def split: option.splits) force

definition not_main :: "out \<Rightarrow> bool" where
  "not_main x \<longleftrightarrow> main_of x = []"

lemma not_main_sends:
  "emits not_main s (send_plate_msg a b c d s)" "emits not_main s (send_scpinout_msg a b c d s)"
  "emits not_main s (send_waste_motor_msg a b c d s)" "emits not_main s (send_scpspin_motor_msg a b c d s)"
  "emits not_main s (send_led_cmd_msg k s)" "emits not_main s (tof_enable e s)"
  by (simp_all add: emits_def send_defs send_led_cmd_msg_def not_main_def Let_def)

lemma obeys_loops:
  "obeys (dem not_main) (spin_end_wait D)" "obeys (dem not_main) (origin_wait D)"
  "obeys (dem not_main) (key_release_wait D)"
  using spin_end_wait_dem [of D] origin_wait_dem [of D _ _ not_main] key_release_wait_dem [of D]
  by (fastforce simp: obeys_def not_main_def)+

lemmas diag_obeys = dem.seqs_obeys dem.branch_obeys obeys_dpost obeys_ignore obeys_dscoped
  not_main_sends wait_diag_dem obeys_loops

lemma scoop_out_dem: "obeys (dem not_main) (scoop_out D)"
  unfolding scoop_out_def by (intro conjI diag_obeys | simp)+

lemma finish_waste_dem: "obeys (dem not_main) (finish_waste D)"
  unfolding finish_waste_def by (intro conjI diag_obeys | simp)+

lemma dem_func [simp]: "obeys (dem Q) (exec (\<lambda>s. s\<lparr>diag_func := k\<rparr>))"
  by (rule dem.exec_obeys) (simp add: dem_def emits.refl)

lemma start_dem: "obeys (dem not_main) (start_diag_mode D mode)"
  unfolding start_diag_mode_def
  by (cases mode; simp only: diag_mode.case; (intro conjI diag_obeys scoop_out_dem | simp)+)

lemma finish_dem: "obeys (dem not_main) (finish_diag_mode D mode)"
  unfolding finish_diag_mode_def
  by (cases mode; simp only: diag_mode.case; (intro conjI diag_obeys scoop_out_dem finish_waste_dem | simp)+)

lemma next_diag_func_dem: "dem not_main s (next_diag_func mode s)"
  by (cases mode)
    (simp_all add: next_diag_func_def wrap_func_def Let_def dpost_def dem_def emits_def send_defs not_main_def)

lemma diag_loop_dem: "diag_loop D mode s = Some r \<Longrightarrow> dem not_main s (snd r)"
proof (induction rule: diag_loop_induct)
  case (step f D mode s r)
  define t where "t = (if next_func s then (next_diag_func mode (s\<lparr>diag_func := diag_func s + 1\<rparr>))\<lparr>next_func := False\<rparr> else s)"
  have st: "dem not_main s t"
    using next_diag_func_dem [of "s\<lparr>diag_func := diag_func s + 1\<rparr>" mode] by (auto simp: t_def dem_def emits.refl)
  have "dem not_main t (dDelay D 10 (diag_sensor_rf D mode t))"
    by (simp add: diag_sensor_rf_def) (metis dem.trans dem_delay)
  with st have d: "dem not_main s (dDelay D 10 (diag_sensor_rf D mode t))" by (rule dem.trans)
  show ?case
  proof (cases "next_step s")
    case True
    with step(2) show ?thesis by (auto simp: dem_def emits.refl)
  next
    case False
    with step(2) have "f D mode (dDelay D 10 (diag_sensor_rf D mode t)) = Some r" by (simp add: t_def Let_def)
    from step(1) [OF this] d show ?thesis using dem.trans by blast
  qed
qed

lemma do_diag_mode_dem: "obeys (dem not_main) (do_diag_mode D mode)"
proof -
  have "obeys (dem not_main) (diag_loop D mode)" using diag_loop_dem by (fastforce simp: obeys_def)
  then show ?thesis unfolding do_diag_mode_def by (intro dem.seqs_obeys) (simp add: start_dem finish_dem)
qed


section \<open>Properties\<close>

text \<open>
  The diagnosis never commands the main cover, whatever keys are pressed and whatever the
  sensors report.
\<close>

theorem diag_never_moves_main_cover:
  assumes "diag_process_task D s = Some (ok, s')"
  shows "\<exists>tr. trace (board s') = trace (board s) @ tr \<and> received main_of tr = []"
proof -
  have "obeys (dem not_main) (exec (\<lambda>s. s\<lparr>next_step := False, next_func := False\<rparr>))"
    "obeys (dem not_main) (exec (\<lambda>s. s\<lparr>resets := resets s @ [1]\<rparr>))"
    by (rule dem.exec_obeys, simp add: dem_def emits.refl)+
  then have "obeys (dem not_main) (diag_process_task D)"
    unfolding diag_process_task_def
    by (intro dem.seqs_obeys) (simp add: do_diag_mode_dem obeys_loops obeys_dpost not_main_sends)
  then have "dem not_main s s'" using assms by (rule obeysD)
  then show ?thesis by (fastforce simp: dem_def emits_def list_all_iff not_main_def)
qed

text \<open>A diagnosis in which every delay takes ten times as long and ends with the step key pressed.\<close>

definition press_step :: denv where
  "press_step tr ms sh = diag_cmd_task DIAG_NEXT_STEP_CMD
     (sh\<lparr>sh_mem := (sh_mem sh)\<lparr>now := now (sh_mem sh) + 10000 * int ms\<rparr>, clean_key_down := False\<rparr>)"

definition diag_start :: diag where
  "diag_start = \<lparr>board = start_st boot_mem, next_step = False, next_func = False, key_down = True,
     diag_func = 0, resets = []\<rparr>"

lemmas diag_run_simps = diag_process_task_def do_diag_mode_def start_diag_mode_def finish_diag_mode_def
  finish_waste_def scoop_out_def dscoped_def ignore_def wait_diag_operation_def
  wait_diag_loop.simps spin_end_wait.simps origin_wait.simps diag_loop.simps key_release_wait.simps
  dDelay_def dpost_def diag_cmd_task_def press_step_def

theorem diag_never_moves_main_cover_witness:
  "\<exists>s'. diag_process_task press_step diag_start = Some (True, s') \<and> resets s' = [1]
     \<and> (\<exists>tr. trace (board s') = trace (board diag_start) @ tr \<and> received main_of tr = [])"
proof -
  have "case diag_process_task press_step diag_start of None \<Rightarrow> False | Some (ok, s') \<Rightarrow> ok \<and> resets s' = [1]"
    by code_simp
  then obtain s' where "diag_process_task press_step diag_start = Some (True, s')" "resets s' = [1]"
    by (auto split: option.splits)
  then show ?thesis using diag_never_moves_main_cover by blast
qed

text \<open>One press of the function key in a stage.\<close>

definition press_func :: "diag_mode \<Rightarrow> diag \<Rightarrow> diag" where
  "press_func mode s = next_diag_func mode (s\<lparr>diag_func := diag_func s + 1\<rparr>)"

definition direction_of_press :: "nat \<Rightarrow> u32" where
  "direction_of_press i = (if even i then REVERSE else FORWARD)"

lemma press_func_step:
  assumes "diag_func s = (if even n then 0 else 1)"
  shows "diag_func (press_func DIAG_PLATE_MODE s) = (if even (Suc n) then 0 else 1)"
    "diag_func (press_func DIAG_SCPSPIN_MODE s) = (if even (Suc n) then 0 else 1)"
    "map (map mt_direction \<circ> plate_of) (trace (board (press_func DIAG_PLATE_MODE s)))
      = map (map mt_direction \<circ> plate_of) (trace (board s)) @ [[direction_of_press n]]"
    "map (map mt_direction \<circ> scpspin_of) (trace (board (press_func DIAG_SCPSPIN_MODE s)))
      = map (map mt_direction \<circ> scpspin_of) (trace (board s)) @ [[direction_of_press n]]"
  using assms
  by (auto simp: press_func_def next_diag_func_def wrap_func_def Let_def dpost_def send_defs direction_of_press_def)

lemma presses_plate:
  "diag_func s = 0 \<Longrightarrow> diag_func ((press_func DIAG_PLATE_MODE ^^ n) s) = (if even n then 0 else 1)
    \<and> map (map mt_direction \<circ> plate_of) (trace (board ((press_func DIAG_PLATE_MODE ^^ n) s)))
      = map (map mt_direction \<circ> plate_of) (trace (board s)) @ map (\<lambda>i. [direction_of_press i]) [0..<n]"
  by (induction n) (simp_all add: press_func_step(1,3))

lemma presses_spin:
  "diag_func s = 0 \<Longrightarrow> diag_func ((press_func DIAG_SCPSPIN_MODE ^^ n) s) = (if even n then 0 else 1)
    \<and> map (map mt_direction \<circ> scpspin_of) (trace (board ((press_func DIAG_SCPSPIN_MODE ^^ n) s)))
      = map (map mt_direction \<circ> scpspin_of) (trace (board s)) @ map (\<lambda>i. [direction_of_press i]) [0..<n]"
  by (induction n) (simp_all add: press_func_step(2,4))

text \<open>
  In the plate and in the scoop rotation stage each press of the function key reverses the
  motor: the \<open>n\<close> presses after the start of the stage post \<open>n\<close> messages to that motor, the first
  backwards and then in turn.
\<close>

theorem diag_keys_alternate:
  assumes "diag_func s = 0"
  shows "map (map mt_direction \<circ> plate_of) (trace (board ((press_func DIAG_PLATE_MODE ^^ n) s)))
      = map (map mt_direction \<circ> plate_of) (trace (board s)) @ map (\<lambda>i. [if even i then REVERSE else FORWARD]) [0..<n]
    \<and> map (map mt_direction \<circ> scpspin_of) (trace (board ((press_func DIAG_SCPSPIN_MODE ^^ n) s)))
      = map (map mt_direction \<circ> scpspin_of) (trace (board s)) @ map (\<lambda>i. [if even i then REVERSE else FORWARD]) [0..<n]"
  using presses_plate [OF assms, of n] presses_spin [OF assms, of n] by (simp add: direction_of_press_def)

theorem diag_keys_alternate_witness:
  "map (map mt_direction \<circ> plate_of) (trace (board ((press_func DIAG_PLATE_MODE ^^ 3) diag_start)))
     = [[REVERSE], [FORWARD], [REVERSE]]"
proof -
  have "diag_func diag_start = 0" "trace (board diag_start) = []" by (simp_all add: diag_start_def start_st_def)
  then show ?thesis using diag_keys_alternate [of diag_start 3] by (simp add: upt_rec)
qed


definition clock_runs :: "denv \<Rightarrow> bool" where
  "clock_runs D \<longleftrightarrow> (\<forall>tr ms sh. now (sh_mem sh) + 1000 * int ms \<le> now (sh_mem (D tr ms sh)))"

lemma clock_delay:
  assumes "clock_runs D"
  shows "now (mem (board s)) + 1000 * int ms \<le> now (mem (board (dDelay D ms s)))"
  using assms [unfolded clock_runs_def, rule_format, of "\<lparr>sh_mem = mem (board s), diag_next_step_f = next_step s,
      diag_next_func_f = next_func s, clean_key_down = key_down s\<rparr>" ms "trace (board s)"]
  by (simp add: dDelay_def Let_def)

lemma elapsed_reached: "1000 * n \<le> x \<Longrightarrow> n \<le> (x::int) sdiv 1000"
  by (auto simp: signed_divide_int_def sgn_if)

lemma wait_diag_loop_ends:
  assumes "clock_runs D"
  shows "1000 * timeout \<le> now (mem (board s)) - start + 10000 * int n \<Longrightarrow>
    \<exists>r. wait_diag_loop D sel mt timeout status start s = Some r"
proof (induction n arbitrary: s)
  case 0
  have "now (mem (board s)) \<le> now (mem (board (dDelay D 10 s)))" using clock_delay [OF assms, of s 10] by simp
  then have "timeout \<le> elapsed_ms start (board (dDelay D 10 s))"
    unfolding elapsed_ms_def using 0 by (intro elapsed_reached) simp
  then show ?case by (simp add: wait_diag_loop.simps [of D _ _ _ _ _ s] Let_def del: split_paired_Ex)
next
  case (Suc n)
  have "1000 * timeout \<le> now (mem (board (dDelay D 10 s))) - start + 10000 * int n"
    using clock_delay [OF assms, of s 10] Suc.prems by simp
  from Suc.IH [OF this] show ?case
    by (simp add: wait_diag_loop.simps [of D _ _ _ _ _ s] Let_def del: split_paired_Ex)
qed

text \<open>
  While the clock runs, a wait of the diagnosis ends: by reaching its sensor, by the motor
  stopping or by its timeout.
\<close>

theorem diag_wait_ends:
  assumes "\<forall>tr ms sh. now (sh_mem sh) + 1000 * int ms \<le> now (sh_mem (D tr ms sh))"
  shows "\<exists>r s'. wait_diag_operation D sel mt timeout status s = Some (r, s')"
proof -
  let ?s = "dDelay D 40 s"
  have c: "clock_runs D" using assms by (simp add: clock_runs_def)
  obtain n where "1000 * timeout \<le> now (mem (board ?s)) - now (mem (board ?s)) + 10000 * int n"
    by (rule that [of "nat \<bar>timeout\<bar>"]) simp
  from wait_diag_loop_ends [OF c this] show ?thesis
    by (auto simp: wait_diag_operation_def Let_def)
qed

text \<open>An environment in which the clock runs, every motor is on and no sensor shows.\<close>

definition stuck_env :: denv where
  "stuck_env tr ms sh = sh\<lparr>sh_mem := (sh_mem sh)\<lparr>now := now (sh_mem sh) + 1000000 * int ms,
     dc := (dc (sh_mem sh))\<lparr>scp_inout := (scp_inout (dc (sh_mem sh)))\<lparr>mt_run := True\<rparr>\<rparr>\<rparr>\<rparr>"

theorem diag_wait_ends_witness:
  "\<exists>r s'. wait_diag_operation stuck_env DC_MOTOR SCPINOUT_MOTOR 10000 MT_OPEN diag_start = Some (r, s')"
  by (rule diag_wait_ends) (simp add: stuck_env_def)

text \<open>
  The rotation stage starts the rotation whatever became of the scoop: when the wait for the
  scoop to come out ends by its timeout, the scoop is turned all the same.
\<close>

theorem diag_spins_whatever_scoop:
  assumes "start_diag_mode D DIAG_SCPSPIN_MODE s = Some (ok, s')"
  shows "ok \<and> (\<exists>tr m. trace (board s') = tr @ [ScpspinQ m] \<and> mt_angle m = 360 \<and> mt_direction m = FORWARD)"
proof -
  have out: "scoop_out D t = Some (ok, t') \<Longrightarrow> ok" for t ok t'
    by (auto simp: scoop_out_def branch_def exec_def ignore_def split: if_splits option.splits)
  show ?thesis
    using assms
    by (auto simp: start_diag_mode_def dscoped_def exec_def dpost_def send_defs dest!: out
        split: option.splits if_splits)
qed

theorem diag_spins_whatever_scoop_witness:
  "\<exists>s'. start_diag_mode stuck_env DIAG_SCPSPIN_MODE diag_start = Some (True, s')
     \<and> fst (the (wait_diag_operation stuck_env DC_MOTOR SCPINOUT_MOTOR 10000 MT_OPEN diag_start)) = -1
     \<and> (\<exists>tr m. trace (board s') = tr @ [ScpspinQ m] \<and> mt_angle m = 360 \<and> mt_direction m = FORWARD)"
proof -
  have "fst (the (wait_diag_operation stuck_env DC_MOTOR SCPINOUT_MOTOR 10000 MT_OPEN diag_start)) = -1"
    by code_simp
  moreover have "case start_diag_mode stuck_env DIAG_SCPSPIN_MODE diag_start of None \<Rightarrow> False | Some _ \<Rightarrow> True"
    by code_simp
  then obtain ok s' where s': "start_diag_mode stuck_env DIAG_SCPSPIN_MODE diag_start = Some (ok, s')"
    by (auto split: option.splits)
  ultimately show ?thesis using diag_spins_whatever_scoop [OF s'] s' by auto
qed

end
