(* ===== verification/Peripherals.thy ===== *)
theory Peripherals
  imports Sensor
begin

text \<open>
  The current monitor, \<open>src/main/current_monitor.c\<close>, and the UV light, \<open>src/main/uv_led.c\<close>.
  A frame of the converter is the list of its samples, channel and 12-bit value each.  A frame
  holds at most 1024 bytes, so the sums fit their 64 bits and are natural numbers here.
\<close>

section \<open>Current monitor\<close>

datatype adc_motor = PLATE | SCP_INOUT | SCP_SPIN | MAIN | WASTE

fun adc_channel :: "adc_motor \<Rightarrow> nat" where
  "adc_channel SCP_INOUT = 2"
| "adc_channel PLATE = 1"
| "adc_channel MAIN = 3"
| "adc_channel WASTE = 9"
| "adc_channel SCP_SPIN = 6"

text \<open>The fault bits of \<open>main.h\<close>, which is the header the monitor includes.\<close>

fun fault_bit :: "adc_motor \<Rightarrow> nat" where
  "fault_bit PLATE = 0"
| "fault_bit SCP_INOUT = 1"
| "fault_bit SCP_SPIN = 2"
| "fault_bit MAIN = 3"
| "fault_bit WASTE = 4"

text \<open>The fault masks of \<open>current_monitor.h\<close>.\<close>

fun fault_mask_h :: "adc_motor \<Rightarrow> u8" where
  "fault_mask_h SCP_INOUT = 0x01"
| "fault_mask_h PLATE = 0x02"
| "fault_mask_h MAIN = 0x04"
| "fault_mask_h WASTE = 0x08"
| "fault_mask_h SCP_SPIN = 0x10"

type_synonym frame = "(nat \<times> u16) list"

text \<open>The loop over a frame: sum and count of one channel.\<close>

definition adc_sum :: "adc_motor \<Rightarrow> frame \<Rightarrow> nat \<times> nat" where
  "adc_sum m xs = fold (\<lambda>(chan, data) (acc, count).
     if chan = adc_channel m then (acc + unat (data AND 0xFFF), count + 1) else (acc, count)) xs (0, 0)"

definition adc_ma :: "nat \<Rightarrow> nat \<Rightarrow> u32" where
  "adc_ma acc count = of_nat (acc div count * 330 div 819)"

definition monitor_channel :: "(adc_motor \<Rightarrow> u32) \<Rightarrow> frame \<Rightarrow> adc_motor \<Rightarrow> u8 \<Rightarrow> u8" where
  "monitor_channel limit xs m faults =
     (case adc_sum m xs of (acc, count) \<Rightarrow>
        if count > 0 \<and> adc_ma acc count > limit m then faults OR push_bit (fault_bit m) 1 else faults)"

text \<open>One turn of the task: a frame, or a failed or empty read.\<close>

definition current_monitor_task :: "(adc_motor \<Rightarrow> u32) \<Rightarrow> frame option \<Rightarrow> u8 \<Rightarrow> u8" where
  "current_monitor_task limit read faults =
     (case read of None \<Rightarrow> faults
      | Some xs \<Rightarrow> fold (monitor_channel limit xs) [SCP_INOUT, PLATE, MAIN, WASTE, SCP_SPIN] faults)"

section \<open>UV light\<close>

definition check_uvled :: "sensor_state \<Rightarrow> bool" where
  "check_uvled s \<longleftrightarrow> \<not> bit_set (get_pt_status s) PT_BIT_REED_SW \<and> bit_set (get_pt_status s) PT_BIT_WASTE_CLOSE"

text \<open>\<open>uv_led_init\<close>: the level of the pin; the task that would follow the sensors is not created.\<close>

definition uv_led_init :: "sensor_state \<Rightarrow> bool" where
  "uv_led_init s = (if check_uvled s then True else False)"

section \<open>Faults\<close>

text \<open>The values of one channel in a frame.\<close>

definition samples_of :: "adc_motor \<Rightarrow> frame \<Rightarrow> nat list" where
  "samples_of m xs = [unat (data AND 0xFFF). (chan, data) \<leftarrow> xs, chan = adc_channel m]"

lemma adc_sum_samples: "adc_sum m xs = (sum_list (samples_of m xs), length (samples_of m xs))"
proof -
  have "fold (\<lambda>(chan, data) (acc, count).
     if chan = adc_channel m then (acc + unat (data AND 0xFFF), count + 1) else (acc, count)) xs (a, n)
     = (a + sum_list (samples_of m xs), n + length (samples_of m xs))" for a n
    by (induction xs arbitrary: a n) (auto simp: samples_of_def)
  from this [of 0 0] show ?thesis by (simp add: adc_sum_def)
qed

lemma sample_bound: "unat (d AND 0xFFF :: u16) \<le> 4095"
proof -
  have "d AND 0xFFF \<le> (0xFFF :: u16)" by (rule word_and_le1)
  then show ?thesis by (simp add: word_le_nat_alt)
qed

lemma samples_bound: "v \<in> set (samples_of m xs) \<Longrightarrow> v \<le> 4095"
  using sample_bound by (auto simp: samples_of_def)

lemma sum_list_bound: "(\<And>v. v \<in> set vs \<Longrightarrow> v \<le> (b::nat)) \<Longrightarrow> sum_list vs \<le> length vs * b"
proof (induction vs)
  case (Cons v vs)
  have "v \<le> b" "sum_list vs \<le> length vs * b" using Cons by auto
  then show ?case by simp
qed simp

text \<open>The mean current of a motor in a frame, in mA.\<close>

definition mean_ma :: "adc_motor \<Rightarrow> frame \<Rightarrow> nat" where
  "mean_ma m xs = sum_list (samples_of m xs) div length (samples_of m xs) * 330 div 819"

lemma mean_ma_bound: "mean_ma m xs \<le> 1650"
proof (cases "samples_of m xs = []")
  case False
  have "sum_list (samples_of m xs) \<le> length (samples_of m xs) * 4095"
    using samples_bound by (rule sum_list_bound)
  then have "sum_list (samples_of m xs) div length (samples_of m xs) \<le> 4095"
    using False by (metis div_le_mono length_0_conv nonzero_mult_div_cancel_left)
  then show ?thesis by (simp add: mean_ma_def)
qed (simp add: mean_ma_def)

definition trips :: "(adc_motor \<Rightarrow> u32) \<Rightarrow> frame option \<Rightarrow> adc_motor \<Rightarrow> bool" where
  "trips limit read m \<longleftrightarrow>
     (case read of None \<Rightarrow> False | Some xs \<Rightarrow> samples_of m xs \<noteq> [] \<and> unat (limit m) < mean_ma m xs)"

lemma fault_bit_inj: "fault_bit m = fault_bit k \<longleftrightarrow> m = k"
  by (cases m; cases k) simp_all

lemma fault_bit_small: "fault_bit m < 8"
  by (cases m) simp_all

lemma adc_ma_mean: "unat (adc_ma (sum_list (samples_of m xs)) (length (samples_of m xs))) = mean_ma m xs"
  using mean_ma_bound [of m xs] unfolding adc_ma_def mean_ma_def [symmetric] by (simp add: unat_of_nat)

lemma monitor_channel_bit:
  "bit (monitor_channel limit xs k f) (fault_bit m) = (bit f (fault_bit m) \<or> k = m \<and> trips limit (Some xs) m)"
  using fault_bit_small [of m]
  by (auto simp: monitor_channel_def adc_sum_samples trips_def word_less_nat_alt adc_ma_mean bit_simps fault_bit_inj)

lemma monitor_turn_bit:
  "bit (current_monitor_task limit read f) (fault_bit m) = (bit f (fault_bit m) \<or> trips limit read m)"
proof (cases read)
  case (Some xs)
  have "m \<in> {SCP_INOUT, PLATE, MAIN, WASTE, SCP_SPIN}" by (cases m) simp_all
  with Some show ?thesis by (auto simp: current_monitor_task_def monitor_channel_bit)
qed (simp add: current_monitor_task_def trips_def)

section \<open>Property\<close>

text \<open>
  Over any run of the monitor a motor's fault bit is set exactly when it was set before or
  some frame had samples of that motor whose mean current exceeded its limit; it is never cleared.
  No current is read above 1650 mA, so a limit from there on disables the check.
\<close>

theorem fault_bits_exact:
  "bit (fold (current_monitor_task limit) reads f) (fault_bit m)
     = (bit f (fault_bit m) \<or> (\<exists>read \<in> set reads. trips limit read m))
   \<and> (if 1650 \<le> unat (limit m) then \<not> trips limit read m else True)"
proof
  show "bit (fold (current_monitor_task limit) reads f) (fault_bit m)
     = (bit f (fault_bit m) \<or> (\<exists>read \<in> set reads. trips limit read m))"
    by (induction reads arbitrary: f) (auto simp: monitor_turn_bit)
  show "if 1650 \<le> unat (limit m) then \<not> trips limit read m else True"
  proof -
    have "\<not> (1650 \<le> unat (limit m) \<and> unat (limit m) < mean_ma m xs)" for xs
      using mean_ma_bound [of m xs] by linarith
    then show ?thesis by (auto simp: trips_def split: option.splits)
  qed
qed

end
