(* ===== verification/Sensor_Bridge.thy ===== *)
theory Sensor_Bridge
  imports Sensor_Props
begin

text \<open>
  The task \<open>uart1_to_uart0_task\<close> of \<open>src/main/main.c\<close>, which collects what the sensor board sends
  and hands it to the line parser of \<open>sensor.c\<close>.  Its buffer holds the unfinished line in front and
  NUL characters behind, so that the parser can read it as a C string.  A read of the UART returns
  an arbitrary piece of the stream; a piece is the argument of one turn.
\<close>

section \<open>Operations\<close>

record 'l bridge =
  br_buf :: "char list"
  br_idx :: nat
  br_board :: "'l board"

text \<open>\<open>memcpy(buf + i, xs, length xs)\<close>\<close>

definition put_at :: "nat \<Rightarrow> 'a list \<Rightarrow> 'a list \<Rightarrow> 'a list" where
  "put_at i xs buf = take i buf @ xs @ drop (i + length xs) buf"

definition cleared :: "char list" where
  "cleared = replicate UART_BUF_SIZE (CHR 0x00)"

definition bridge_start :: "'l board \<Rightarrow> 'l bridge" where
  "bridge_start b = \<lparr>br_buf = cleared, br_idx = 0, br_board = b\<rparr>"

definition bridge_store :: "char list \<Rightarrow> 'l bridge \<Rightarrow> 'l bridge" where
  "bridge_store data s =
     (let s = (if br_idx s + length data \<le> UART_BUF_SIZE
               then s\<lparr>br_buf := put_at (br_idx s) data (br_buf s)\<rparr>
               else s\<lparr>br_idx := 0, br_buf := put_at 0 data cleared\<rparr>)
      in s\<lparr>br_idx := br_idx s + length data\<rparr>)"

text \<open>The parser reads the buffer up to a NUL: without one it reads outside the buffer.\<close>

definition bridge_parse :: "(int list \<Rightarrow> 'l \<Rightarrow> 'l) \<Rightarrow> 'l bridge \<Rightarrow> (nat \<times> 'l board) option" where
  "bridge_parse lc s =
     (if CHR 0x00 \<in> set (br_buf s) then sensor_data_parser lc (br_buf s) (br_board s) else None)"

definition bridge_consume :: "nat \<Rightarrow> 'l bridge \<Rightarrow> 'l bridge" where
  "bridge_consume ret s =
     (if ret > 0 then
        (if br_idx s \<noteq> ret
         then s\<lparr>br_buf := put_at 0 (take (br_idx s - ret) (drop ret (br_buf s))) cleared,
                br_idx := br_idx s - ret\<rparr>
         else s\<lparr>br_buf := cleared, br_idx := 0\<rparr>)
      else s)"

text \<open>One turn of the loop, for the characters the UART returned.\<close>

definition uart1_to_uart0_task ::
    "(int list \<Rightarrow> 'l \<Rightarrow> 'l) \<Rightarrow> char list \<Rightarrow> 'l bridge \<Rightarrow> 'l bridge option" where
  "uart1_to_uart0_task lc data s =
     (if length data > 0 then
        (let s = bridge_store data s
         in case bridge_parse lc s of None \<Rightarrow> None
            | Some (ret, b) \<Rightarrow> Some (bridge_consume ret (s\<lparr>br_board := b\<rparr>)))
      else Some s)"

fun bridge_run :: "(int list \<Rightarrow> 'l \<Rightarrow> 'l) \<Rightarrow> char list list \<Rightarrow> 'l bridge \<Rightarrow> 'l bridge option" where
  "bridge_run lc [] s = Some s"
| "bridge_run lc (d # ds) s =
     (case uart1_to_uart0_task lc d s of None \<Rightarrow> None | Some s \<Rightarrow> bridge_run lc ds s)"

section \<open>The lines of a text\<close>

text \<open>The complete lines and the unfinished rest, without regard to how the text arrived.\<close>

fun split_text :: "char list \<Rightarrow> char list list \<times> char list" where
  "split_text [] = ([], [])"
| "split_text (c # cs) =
     (case split_text cs of (ls, r) \<Rightarrow>
        if c = CHR 0x0A then ([] # ls, r)
        else case ls of [] \<Rightarrow> ([], c # r) | l # ls' \<Rightarrow> ((c # l) # ls', r))"

lemma split_text_plain:
  "CHR 0x0A \<notin> set r \<Longrightarrow> split_text (r @ ys) =
     (case split_text ys of ([], q) \<Rightarrow> ([], r @ q) | (l # ls, q) \<Rightarrow> ((r @ l) # ls, q))"
  by (induction r) (auto split: prod.splits list.splits)

lemma split_text_join:
  "\<forall>l \<in> set ls. CHR 0x0A \<notin> set l \<Longrightarrow> split_text (join_lines ls @ ys) =
     (case split_text ys of (ks, q) \<Rightarrow> (ls @ ks, q))"
  by (induction ls) (auto simp: join_lines_def split_text_plain split: prod.splits)

lemma split_text_props:
  assumes "split_text xs = (ls, r)"
  shows "xs = join_lines ls @ r" "\<forall>l \<in> set ls. CHR 0x0A \<notin> set l" "CHR 0x0A \<notin> set r"
proof -
  have "xs = join_lines (fst (split_text xs)) @ snd (split_text xs)
      \<and> (\<forall>l \<in> set (fst (split_text xs)). CHR 0x0A \<notin> set l) \<and> CHR 0x0A \<notin> set (snd (split_text xs))"
    by (induction xs) (auto simp: join_lines_def split: prod.splits list.splits)
  then show "xs = join_lines ls @ r" "\<forall>l \<in> set ls. CHR 0x0A \<notin> set l" "CHR 0x0A \<notin> set r"
    using assms by auto
qed

lemma split_text_append:
  assumes "split_text xs = (ls, r)"
  shows "split_text (xs @ ys) = (case split_text (r @ ys) of (ks, q) \<Rightarrow> (ls @ ks, q))"
  using split_text_props [OF assms] split_text_join [of ls "r @ ys"] by (metis append_assoc)

text \<open>An unfinished rest is the beginning of a line, or of the rest, of every longer text.\<close>

lemma split_text_rest_bound:
  assumes "\<forall>l \<in> insert (snd (split_text (xs @ ys))) (set (fst (split_text (xs @ ys)))). length l \<le> m"
  shows "length (snd (split_text xs)) \<le> m"
proof -
  obtain ls r where s: "split_text xs = (ls, r)" by (cases "split_text xs")
  obtain ks q where t: "split_text ys = (ks, q)" by (cases "split_text ys")
  have "split_text (xs @ ys) = (case ks of [] \<Rightarrow> (ls, r @ q) | k # ks \<Rightarrow> (ls @ (r @ k) # ks, q))"
    using split_text_append [OF s, of ys] split_text_plain [OF split_text_props(3) [OF s], of ys] t
    by (simp split: list.splits)
  then show ?thesis using assms s by (cases ks) auto
qed

section \<open>The buffer\<close>

definition holds_text :: "'l bridge \<Rightarrow> char list \<Rightarrow> bool" where
  "holds_text s r \<longleftrightarrow> length r < UART_BUF_SIZE \<and> br_idx s = length r
     \<and> br_buf s = r @ replicate (UART_BUF_SIZE - length r) (CHR 0x00)"

lemma holds_start: "holds_text (bridge_start b) []"
  by (simp add: holds_text_def bridge_start_def cleared_def)

lemma put_at_cleared: "length xs \<le> UART_BUF_SIZE \<Longrightarrow>
  put_at 0 xs cleared = xs @ replicate (UART_BUF_SIZE - length xs) (CHR 0x00)"
  by (simp add: put_at_def cleared_def)

lemma bridge_store_fits:
  assumes "holds_text s r" "length r + length data \<le> UART_BUF_SIZE"
  shows "bridge_store data s = s\<lparr>br_idx := length (r @ data),
      br_buf := (r @ data) @ replicate (UART_BUF_SIZE - length (r @ data)) (CHR 0x00)\<rparr>"
  using assms by (simp add: holds_text_def bridge_store_def put_at_def)

lemma cstr_padded: "CHR 0x00 \<notin> set t \<Longrightarrow> cstr (t @ replicate n (CHR 0x00)) = t"
  by (cases n) (auto simp: cstr_def takeWhile_append takeWhile_eq_all_conv)

lemma parser_padded:
  "CHR 0x00 \<notin> set t \<Longrightarrow> sensor_data_parser lc (t @ replicate n (CHR 0x00)) b = sensor_data_parser lc t b"
  by (simp add: sensor_data_parser_def cstr_padded)

lemma board_consume [simp]: "br_board (bridge_consume n s) = br_board s"
  by (simp add: bridge_consume_def)

lemma bridge_consume_front:
  assumes "br_buf s = j @ q @ replicate (UART_BUF_SIZE - (length j + length q)) (CHR 0x00)"
    "br_idx s = length j + length q" "length j + length q < UART_BUF_SIZE"
  shows "holds_text (bridge_consume (length j) s) q"
proof (cases "j = []")
  case True
  then show ?thesis using assms by (simp add: bridge_consume_def holds_text_def)
next
  case False
  then show ?thesis
    using assms put_at_cleared [of q]
    by (cases "q = []") (simp_all add: bridge_consume_def holds_text_def cleared_def)
qed

lemma bridge_turn:
  assumes r: "holds_text s r" and fits: "length r + length data < UART_BUF_SIZE"
    and nul: "CHR 0x00 \<notin> set r" "CHR 0x00 \<notin> set data"
    and sp: "split_text (r @ data) = (ls, q)" and nl: "CHR 0x0A \<notin> set r"
  shows "case run_lines lc ls (br_board s) of
      None \<Rightarrow> uart1_to_uart0_task lc data s = None
    | Some b \<Rightarrow> \<exists>t. uart1_to_uart0_task lc data s = Some t \<and> holds_text t q \<and> br_board t = b"
proof (cases "data = []")
  case True
  then have "ls = []" "q = r" using sp nl split_text_plain [of r "[]"] by auto
  then show ?thesis using True r by (simp add: uart1_to_uart0_task_def)
next
  case False
  let ?t = "r @ data"
  let ?b = "?t @ replicate (UART_BUF_SIZE - length ?t) (CHR 0x00)"
  have t: "?t = join_lines ls @ q" and lq: "\<forall>l \<in> set ls. CHR 0x0A \<notin> set l" "CHR 0x0A \<notin> set q"
    using split_text_props [OF sp] by auto
  have n: "CHR 0x00 \<notin> set ?t" using nul by simp
  then have "\<forall>l \<in> set ls. CHR 0x0A \<notin> set l \<and> CHR 0x00 \<notin> set l" "CHR 0x00 \<notin> set q"
    using t lq by (auto simp: join_lines_def split: if_splits)
  note runs = parser_runs_lines [OF this(1) lq(2) this(2), where lc = lc and b = "br_board s"]
  have parse: "bridge_parse lc (bridge_store data s)
      = map_option (\<lambda>b. (length (join_lines ls), b)) (run_lines lc ls (br_board s))"
    using bridge_store_fits [OF r] fits runs parser_padded [OF n, of lc _ "br_board s"]
    by (simp add: bridge_parse_def t [symmetric])
  have store: "br_buf ((bridge_store data s)\<lparr>br_board := b\<rparr>) = join_lines ls @ q @ replicate (UART_BUF_SIZE - length ?t) (CHR 0x00)"
      "br_idx ((bridge_store data s)\<lparr>br_board := b\<rparr>) = length (join_lines ls) + length q" for b
    using bridge_store_fits [OF r, of data] fits by (simp_all add: t)
  have len: "length ?t = length (join_lines ls) + length q" using t by simp
  then have "length (join_lines ls) + length q < UART_BUF_SIZE" using fits by simp
  then have consume: "holds_text (bridge_consume (length (join_lines ls)) ((bridge_store data s)\<lparr>br_board := b\<rparr>)) q" for b
    using store len by (intro bridge_consume_front) auto
  show ?thesis
    using False parse consume by (cases "run_lines lc ls (br_board s)")
      (simp_all add: uart1_to_uart0_task_def Let_def)
qed

lemma run_lines_append:
  "run_lines lc (ls @ ks) b = (case run_lines lc ls b of None \<Rightarrow> None | Some b \<Rightarrow> run_lines lc ks b)"
  by (induction ls arbitrary: b) (auto split: option.splits)

lemma bridge_run_text:
  assumes "holds_text s r" "CHR 0x0A \<notin> set r" "CHR 0x00 \<notin> set r" "CHR 0x00 \<notin> set (concat ds)"
    and "\<forall>l \<in> insert (snd (split_text (r @ concat ds))) (set (fst (split_text (r @ concat ds)))). length l \<le> m"
    and "\<forall>d \<in> set ds. m + length d < UART_BUF_SIZE"
  shows "map_option br_board (bridge_run lc ds s) = run_lines lc (fst (split_text (r @ concat ds))) (br_board s)"
  using assms
proof (induction ds arbitrary: s r)
  case Nil
  then show ?case using split_text_plain [of r "[]"] by simp
next
  case (Cons d ds)
  obtain ls q where sp: "split_text (r @ d) = (ls, q)" by (cases "split_text (r @ d)")
  obtain ks p where sq: "split_text (q @ concat ds) = (ks, p)" by (cases "split_text (q @ concat ds)")
  have all: "split_text (r @ d @ concat ds) = (ls @ ks, p)"
    using split_text_append [OF sp, of "concat ds"] sq by simp
  have "length r \<le> m"
    using split_text_rest_bound [of r "d @ concat ds" m] Cons.prems(2,5) split_text_plain [of r "[]"] by simp
  then have fits: "length r + length d < UART_BUF_SIZE" using Cons.prems(6) by fastforce
  have "set q \<subseteq> set (r @ d)" unfolding split_text_props(1) [OF sp] by simp
  then have q: "CHR 0x0A \<notin> set q" "CHR 0x00 \<notin> set q"
    using split_text_props(3) [OF sp] Cons.prems(3,4) by auto
  note turn = bridge_turn [OF Cons.prems(1) fits Cons.prems(3) _ sp Cons.prems(2), where lc = lc]
  show ?case
  proof (cases "run_lines lc ls (br_board s)")
    case None
    then show ?thesis using turn Cons.prems(4) all by (simp add: run_lines_append)
  next
    case (Some b)
    then obtain t where t: "uart1_to_uart0_task lc d s = Some t" "holds_text t q" "br_board t = b"
      using turn Cons.prems(4) by auto
    have "map_option br_board (bridge_run lc ds t) = run_lines lc (fst (split_text (q @ concat ds))) (br_board t)"
      using Cons.prems(4-6) all sq by (intro Cons.IH t q) auto
    then show ?thesis using t Some all sq by (simp add: run_lines_append)
  qed
qed

section \<open>Properties\<close>

text \<open>
  C29: what the sensor board sends is read the same however the UART cuts it into pieces: if no
  line has more than \<open>m\<close> characters, and no piece more than \<open>511 - m\<close>, the board ends as if the
  complete lines of the whole stream had been given to the line parser one by one.
\<close>

theorem stream_read_whatever_pieces:
  assumes "CHR 0x00 \<notin> set (concat ds)" "\<forall>d \<in> set ds. m + length d < 512"
    and "\<forall>l \<in> insert (snd (split_text (concat ds))) (set (fst (split_text (concat ds)))). length l \<le> m"
  shows "map_option br_board (bridge_run lc ds (bridge_start b)) = run_lines lc (fst (split_text (concat ds))) b"
  using bridge_run_text [OF holds_start, of ds m lc b] assms by (simp add: bridge_start_def)

theorem stream_read_whatever_pieces_witness:
  "map_option (cells \<circ> br_board) (bridge_run (\<lambda>v _. v) [''SS: 1 2'', '' 3 4 5'', '' 6 300 17\<newline>ST: O'', ''K\<newline>SS''] (bridge_start idle_board))
    = Some [1, 2, 3, 4, 5, 6, 300, 17, 0, 0]"
proof -
  let ?ds = "[''SS: 1 2'', '' 3 4 5'', '' 6 300 17\<newline>ST: O'', ''K\<newline>SS'']"
  have "map_option br_board (bridge_run (\<lambda>v _. v) ?ds (bridge_start idle_board))
      = run_lines (\<lambda>v _. v) (fst (split_text (concat ?ds))) idle_board"
    by (rule stream_read_whatever_pieces [where m = 60]) (simp, simp, code_simp)
  moreover have "map_option cells (run_lines (\<lambda>v _. v) (fst (split_text (concat ?ds))) idle_board)
      = Some [1, 2, 3, 4, 5, 6, 300, 17, 0, 0]"
    by code_simp
  ultimately show ?thesis by (metis option.map_comp)
qed

text \<open>
  A buffer that the pieces fill exactly, without a complete line, has no room for the final
  NUL: the parser reads past its end.
\<close>

theorem full_buffer_read_past_end:
  assumes "holds_text s r" "length r + length data = 512" "CHR 0x00 \<notin> set (r @ data)"
  shows "uart1_to_uart0_task lc data s = None"
proof -
  have "length data > 0" using assms(1,2) by (auto simp: holds_text_def)
  then show ?thesis
    using assms bridge_store_fits [OF assms(1), of data]
    by (simp add: uart1_to_uart0_task_def bridge_parse_def)
qed

theorem full_buffer_read_past_end_witness:
  "uart1_to_uart0_task (\<lambda>v _. v) (replicate 512 (CHR ''x'')) (bridge_start idle_board) = None"
  by (rule full_buffer_read_past_end [OF holds_start]) simp_all

end
