(* ===== verification/Mqtt_State.thy ===== *)
theory Mqtt_State
  imports Prelude
begin

text \<open>
  The publish state engine of the MQTT library, \<open>core_mqtt_state.c\<close>: the tables of the outgoing and of
  the incoming publishes that are not yet acknowledged.  A table is a fixed array of slots; a slot with packet
  number 0 is free.  The tables are never empty and the pointers never NULL (\<open>MQTT_InitStatefulQoS\<close> is
  called with two arrays of ten).  Every caller of \<open>findInRecord\<close> and \<open>addRecord\<close> but one checks their asserted
  preconditions itself; \<open>MQTT_RemoveStateRecord\<close> does not, and is \<open>None\<close> where the assertion fails.

  The specification is an ordered log: what is in flight, oldest first.
\<close>

section \<open>Types\<close>

datatype MQTTPublishState =
    MQTTStateNull | MQTTPublishSend | MQTTPubAckSend | MQTTPubRecSend | MQTTPubRelSend | MQTTPubCompSend
  | MQTTPubAckPending | MQTTPubRecPending | MQTTPubRelPending | MQTTPubCompPending | MQTTPublishDone

datatype MQTTPubAckType = MQTTPuback | MQTTPubrec | MQTTPubrel | MQTTPubcomp

datatype MQTTQoS = MQTTQoS0 | MQTTQoS1 | MQTTQoS2

datatype MQTTStateOperation = MQTT_SEND | MQTT_RECEIVE

datatype MQTTStatus =
    MQTTSuccess | MQTTBadParameter | MQTTNoMemory | MQTTSendFailed | MQTTRecvFailed | MQTTBadResponse
  | MQTTServerRefused | MQTTNoDataAvailable | MQTTIllegalState | MQTTStateCollision | MQTTKeepAliveTimeout
  | MQTTNeedMoreBytes

record MQTTPubAckInfo =
  packetId :: u16
  qos :: MQTTQoS
  publishState :: MQTTPublishState

type_synonym records = "MQTTPubAckInfo list"

record MQTTContext =
  outgoingPublishRecords :: records
  incomingPublishRecords :: records

abbreviation (input) MQTT_PACKET_ID_INVALID :: u16 where "MQTT_PACKET_ID_INVALID \<equiv> 0"

abbreviation (input) entry :: "u16 \<Rightarrow> MQTTQoS \<Rightarrow> MQTTPublishState \<Rightarrow> MQTTPubAckInfo" where
  "entry k q s \<equiv> \<lparr>packetId = k, qos = q, publishState = s\<rparr>"

abbreviation (input) number_of :: "MQTTPubAckInfo \<Rightarrow> u16" where
  "number_of r \<equiv> packetId r"

definition free_record :: MQTTPubAckInfo where
  "free_record = \<lparr>packetId = MQTT_PACKET_ID_INVALID, qos = MQTTQoS0, publishState = MQTTStateNull\<rparr>"

section \<open>Transitions\<close>

fun validateTransitionPublish :: "MQTTPublishState \<Rightarrow> MQTTPublishState \<Rightarrow> MQTTStateOperation \<Rightarrow> MQTTQoS \<Rightarrow> bool" where
  "validateTransitionPublish MQTTStateNull new op q =
     (op = MQTT_RECEIVE \<and> (new = MQTTPubAckSend \<or> new = MQTTPubRecSend))"
| "validateTransitionPublish MQTTPublishSend new op q =
     (case q of MQTTQoS1 \<Rightarrow> new = MQTTPubAckPending | MQTTQoS2 \<Rightarrow> new = MQTTPubRecPending | MQTTQoS0 \<Rightarrow> False)"
| "validateTransitionPublish MQTTPubAckPending new op q = (new = MQTTPubAckPending)"
| "validateTransitionPublish MQTTPubRecPending new op q = (new = MQTTPubRecPending)"
| "validateTransitionPublish _ new op q = False"

fun validateTransitionAck :: "MQTTPublishState \<Rightarrow> MQTTPublishState \<Rightarrow> bool" where
  "validateTransitionAck MQTTPubAckSend new = (new = MQTTPublishDone)"
| "validateTransitionAck MQTTPubAckPending new = (new = MQTTPublishDone)"
| "validateTransitionAck MQTTPubRecSend new = (new = MQTTPubRelPending)"
| "validateTransitionAck MQTTPubRelPending new = (new = MQTTPubCompSend \<or> new = MQTTPubRelPending)"
| "validateTransitionAck MQTTPubCompSend new = (new = MQTTPublishDone \<or> new = MQTTPubCompSend)"
| "validateTransitionAck MQTTPubRecPending new = (new = MQTTPubRelSend)"
| "validateTransitionAck MQTTPubRelSend new = (new = MQTTPubCompPending)"
| "validateTransitionAck MQTTPubCompPending new = (new = MQTTPublishDone \<or> new = MQTTPubCompPending)"
| "validateTransitionAck _ new = False"

fun isPublishOutgoing :: "MQTTPubAckType \<Rightarrow> MQTTStateOperation \<Rightarrow> bool" where
  "isPublishOutgoing MQTTPubrel op = (op = MQTT_SEND)"
| "isPublishOutgoing _ op = (op = MQTT_RECEIVE)"

definition MQTT_CalculateStatePublish :: "MQTTStateOperation \<Rightarrow> MQTTQoS \<Rightarrow> MQTTPublishState" where
  "MQTT_CalculateStatePublish op q =
     (case q of
        MQTTQoS0 \<Rightarrow> MQTTPublishDone
      | MQTTQoS1 \<Rightarrow> if op = MQTT_SEND then MQTTPubAckPending else MQTTPubAckSend
      | MQTTQoS2 \<Rightarrow> if op = MQTT_SEND then MQTTPubRecPending else MQTTPubRecSend)"

definition MQTT_CalculateStateAck :: "MQTTPubAckType \<Rightarrow> MQTTStateOperation \<Rightarrow> MQTTQoS \<Rightarrow> MQTTPublishState" where
  "MQTT_CalculateStateAck t op q =
     (let (valid, new) =
        (case t of
           MQTTPuback \<Rightarrow> (q = MQTTQoS1, MQTTPublishDone)
         | MQTTPubrec \<Rightarrow> (q = MQTTQoS2, if op = MQTT_SEND then MQTTPubRelPending else MQTTPubRelSend)
         | MQTTPubrel \<Rightarrow> (q = MQTTQoS2, if op = MQTT_SEND then MQTTPubCompPending else MQTTPubCompSend)
         | MQTTPubcomp \<Rightarrow> (q = MQTTQoS2, MQTTPublishDone))
      in if valid then new else MQTTStateNull)"

section \<open>The table\<close>

fun find_from :: "u16 \<Rightarrow> nat \<Rightarrow> records \<Rightarrow> (nat \<times> MQTTQoS \<times> MQTTPublishState) option" where
  "find_from k i [] = None"
| "find_from k i (r # rs) = (if packetId r = k then Some (i, qos r, publishState r) else find_from k (i + 1) rs)"

definition findInRecord :: "records \<Rightarrow> u16 \<Rightarrow> (nat \<times> MQTTQoS \<times> MQTTPublishState) option" where
  "findInRecord rs k = find_from k 0 rs"

text \<open>The loop of \<open>compactRecords\<close> over the remaining indices; \<open>e\<close> is \<open>emptyIndex\<close>.\<close>

fun compact_from :: "nat option \<Rightarrow> nat list \<Rightarrow> records \<Rightarrow> records" where
  "compact_from e [] rs = rs"
| "compact_from e (i # is) rs =
     (if packetId (rs ! i) = MQTT_PACKET_ID_INVALID
      then compact_from (case e of None \<Rightarrow> Some i | Some j \<Rightarrow> Some j) is rs
      else case e of
        None \<Rightarrow> compact_from None is rs
      | Some j \<Rightarrow> compact_from (Some (j + 1)) is (rs[j := rs ! i, i := free_record]))"

definition compactRecords :: "records \<Rightarrow> records" where
  "compactRecords rs = compact_from None [0..<length rs] rs"

text \<open>
  The search of \<open>addRecord\<close>, from the highest index down: \<open>Inl\<close> for a collision, otherwise the
  available index, if there is one.
\<close>

fun slot_from :: "u16 \<Rightarrow> records \<Rightarrow> nat option \<Rightarrow> bool \<Rightarrow> nat list \<Rightarrow> unit + nat option" where
  "slot_from k rs avail valid [] = Inr avail"
| "slot_from k rs avail valid (i # is) =
     (if packetId (rs ! i) = MQTT_PACKET_ID_INVALID
      then slot_from k rs (if \<not> valid then Some i else avail) valid is
      else if packetId (rs ! i) = k then Inl () else slot_from k rs avail True is)"

definition addRecord :: "u16 \<Rightarrow> MQTTQoS \<Rightarrow> MQTTPublishState \<Rightarrow> records \<Rightarrow> MQTTStatus \<times> records" where
  "addRecord k q s rs =
     (let rs = (if packetId (rs ! (length rs - 1)) \<noteq> MQTT_PACKET_ID_INVALID then compactRecords rs else rs)
      in case slot_from k rs None False (rev [0..<length rs]) of
           Inl _ \<Rightarrow> (MQTTStateCollision, rs)
         | Inr None \<Rightarrow> (MQTTNoMemory, rs)
         | Inr (Some i) \<Rightarrow> (MQTTSuccess, rs[i := \<lparr>packetId = k, qos = q, publishState = s\<rparr>]))"

definition updateRecord :: "nat \<Rightarrow> MQTTPublishState \<Rightarrow> bool \<Rightarrow> records \<Rightarrow> records" where
  "updateRecord i new shouldDelete rs =
     rs[i := (if shouldDelete then free_record else (rs ! i)\<lparr>publishState := new\<rparr>)]"

text \<open>\<open>searchStates\<close> is a bit map in the code, indexed by the states; here the set of its states as a list.\<close>

fun select_from :: "MQTTPublishState list \<Rightarrow> nat \<Rightarrow> records \<Rightarrow> u16 \<times> nat" where
  "select_from ss i [] = (MQTT_PACKET_ID_INVALID, i)"
| "select_from ss i (r # rs) = (if publishState r \<in> set ss then (packetId r, i + 1) else select_from ss (i + 1) rs)"

definition stateSelect :: "MQTTPublishState list \<Rightarrow> nat \<Rightarrow> MQTTContext \<Rightarrow> u16 \<times> nat" where
  "stateSelect ss cursor c = select_from ss cursor (drop cursor (outgoingPublishRecords c))"

section \<open>Operations\<close>

definition updateStateAck ::
  "nat \<Rightarrow> u16 \<Rightarrow> MQTTPublishState \<Rightarrow> MQTTPublishState \<Rightarrow> records \<Rightarrow> MQTTStatus \<times> records" where
  "updateStateAck i k cur new rs =
     (if validateTransitionAck cur new then
        if cur \<noteq> new then
          let rs = updateRecord i new (new = MQTTPublishDone \<or> new = MQTTPubRelSend) rs
          in if new = MQTTPubRelSend then addRecord k MQTTQoS2 MQTTPubRelSend rs else (MQTTSuccess, rs)
        else (MQTTSuccess, rs)
      else (MQTTIllegalState, rs))"

definition updateStatePublish ::
  "nat \<Rightarrow> u16 \<Rightarrow> MQTTStateOperation \<Rightarrow> MQTTQoS \<Rightarrow> MQTTPublishState \<Rightarrow> MQTTPublishState \<Rightarrow> MQTTContext
     \<Rightarrow> MQTTStatus \<times> MQTTContext" where
  "updateStatePublish i k op q cur new c =
     (if validateTransitionPublish cur new op q then
        case op of
          MQTT_RECEIVE \<Rightarrow>
            let (st, rs) = addRecord k q new (incomingPublishRecords c) in (st, c\<lparr>incomingPublishRecords := rs\<rparr>)
        | MQTT_SEND \<Rightarrow>
            (MQTTSuccess,
             if cur \<noteq> new
             then c\<lparr>outgoingPublishRecords := updateRecord i new False (outgoingPublishRecords c)\<rparr> else c)
      else (MQTTIllegalState, c))"

definition MQTT_ReserveState :: "u16 \<Rightarrow> MQTTQoS \<Rightarrow> MQTTContext \<Rightarrow> MQTTStatus \<times> MQTTContext" where
  "MQTT_ReserveState k q c =
     (if q = MQTTQoS0 then (MQTTSuccess, c)
      else if k = MQTT_PACKET_ID_INVALID then (MQTTBadParameter, c)
      else let (st, rs) = addRecord k q MQTTPublishSend (outgoingPublishRecords c)
           in (st, c\<lparr>outgoingPublishRecords := rs\<rparr>))"

text \<open>The state handed back through the pointer is part of the result: \<open>None\<close> where it is not written.\<close>

definition MQTT_UpdateStatePublish ::
  "u16 \<Rightarrow> MQTTStateOperation \<Rightarrow> MQTTQoS \<Rightarrow> MQTTContext \<Rightarrow> MQTTStatus \<times> MQTTPublishState option \<times> MQTTContext" where
  "MQTT_UpdateStatePublish k op q c =
     (let finish = (\<lambda>i cur.
        let new = MQTT_CalculateStatePublish op q; (st, c') = updateStatePublish i k op q cur new c
        in (st, if st = MQTTSuccess then Some new else None, c'))
      in if q = MQTTQoS0 then (MQTTSuccess, Some MQTTPublishDone, c)
         else if k = MQTT_PACKET_ID_INVALID then (MQTTBadParameter, None, c)
         else case op of
           MQTT_SEND \<Rightarrow>
             (case findInRecord (outgoingPublishRecords c) k of
                None \<Rightarrow> (MQTTBadParameter, None, c)
              | Some (i, q', cur) \<Rightarrow> if q' \<noteq> q then (MQTTBadParameter, None, c) else finish i cur)
         | MQTT_RECEIVE \<Rightarrow> finish 0 MQTTStateNull)"

definition MQTT_RemoveStateRecord :: "u16 \<Rightarrow> MQTTContext \<Rightarrow> (MQTTStatus \<times> MQTTContext) option" where
  "MQTT_RemoveStateRecord k c =
     (if k = MQTT_PACKET_ID_INVALID then None
      else Some
        (case findInRecord (outgoingPublishRecords c) k of
           None \<Rightarrow> (MQTTBadParameter, c)
         | Some (i, q, cur) \<Rightarrow>
             if cur = MQTTStateNull then (MQTTBadParameter, c)
             else if q \<noteq> MQTTQoS1 \<and> q \<noteq> MQTTQoS2 then (MQTTBadParameter, c)
             else (MQTTSuccess,
               c\<lparr>outgoingPublishRecords := updateRecord i MQTTStateNull True (outgoingPublishRecords c)\<rparr>)))"

definition MQTT_UpdateStateAck ::
  "u16 \<Rightarrow> MQTTPubAckType \<Rightarrow> MQTTStateOperation \<Rightarrow> MQTTContext \<Rightarrow> MQTTStatus \<times> MQTTPublishState option \<times> MQTTContext" where
  "MQTT_UpdateStateAck k t op c =
     (if k = MQTT_PACKET_ID_INVALID then (MQTTBadParameter, None, c)
      else
        let out = isPublishOutgoing t op; rs = (if out then outgoingPublishRecords c else incomingPublishRecords c)
        in case findInRecord rs k of
             None \<Rightarrow> (MQTTBadResponse, None, c)
           | Some (i, q, cur) \<Rightarrow>
               let new = MQTT_CalculateStateAck t op q;
                   (st, rs') = updateStateAck i k cur new rs;
                   c' = (if out then c\<lparr>outgoingPublishRecords := rs'\<rparr> else c\<lparr>incomingPublishRecords := rs'\<rparr>)
               in (st, if st = MQTTSuccess then Some new else None, c'))"

text \<open>\<open>MQTT_PubrelToResend\<close> writes the state to resend from through a pointer, when there is a packet.\<close>

definition MQTT_PubrelToResend :: "nat \<Rightarrow> MQTTPublishState \<Rightarrow> MQTTContext \<Rightarrow> u16 \<times> nat \<times> MQTTPublishState" where
  "MQTT_PubrelToResend cursor st c =
     (let (k, n) = stateSelect [MQTTPubCompPending, MQTTPubRelSend] cursor c
      in (k, n, if k \<noteq> MQTT_PACKET_ID_INVALID then MQTTPubRelSend else st))"

definition MQTT_PublishToResend :: "nat \<Rightarrow> MQTTContext \<Rightarrow> u16 \<times> nat" where
  "MQTT_PublishToResend cursor c = stateSelect [MQTTPublishSend, MQTTPubAckPending, MQTTPubRecPending] cursor c"

section \<open>The log\<close>

text \<open>
  The specification: a log of at most \<open>n\<close> entries in order of age.  Adding refuses a number that is in the
  log and a full log; an acknowledgement removes, changes or, for PUBREC, renews an entry.
\<close>

definition active :: "records \<Rightarrow> records" where
  "active rs = filter (\<lambda>r. packetId r \<noteq> 0) rs"

definition ids_of :: "records \<Rightarrow> u16 list" where
  "ids_of L = map packetId L"

definition log_add :: "nat \<Rightarrow> MQTTPubAckInfo \<Rightarrow> records \<Rightarrow> MQTTStatus \<times> records" where
  "log_add n r L =
     (if packetId r \<in> set (ids_of L) then (MQTTStateCollision, L)
      else if length L < n then (MQTTSuccess, L @ [r]) else (MQTTNoMemory, L))"

definition log_find :: "u16 \<Rightarrow> records \<Rightarrow> MQTTPubAckInfo option" where
  "log_find k L = find (\<lambda>r. packetId r = k) L"

definition log_del :: "u16 \<Rightarrow> records \<Rightarrow> records" where
  "log_del k L = filter (\<lambda>r. packetId r \<noteq> k) L"

definition log_set :: "u16 \<Rightarrow> MQTTPublishState \<Rightarrow> records \<Rightarrow> records" where
  "log_set k s L = map (\<lambda>r. if packetId r = k then r\<lparr>publishState := s\<rparr> else r) L"

text \<open>A well-formed table: at least one slot, free slots are zero, the numbers in use are different.\<close>

definition table_ok :: "records \<Rightarrow> bool" where
  "table_ok rs \<longleftrightarrow> rs \<noteq> [] \<and> (\<forall>r \<in> set rs. packetId r = 0 \<longrightarrow> r = free_record) \<and> distinct (ids_of (active rs))"

named_theorems table_simps \<open>how the log sees the table\<close>

lemma packetId_free [simp]: "packetId free_record = 0"
  by (simp add: free_record_def)

lemma active_simps [table_simps]:
  "active [] = []" "active (r # rs) = (if packetId r = 0 then active rs else r # active rs)"
  "active (rs @ rs') = active rs @ active rs'" "active (replicate n free_record) = []"
  by (auto simp: active_def)

lemma ids_of_simps [table_simps]:
  "ids_of [] = []" "ids_of (r # rs) = packetId r # ids_of rs" "ids_of (rs @ rs') = ids_of rs @ ids_of rs'"
  by (simp_all add: ids_of_def)

lemma active_nonzero: "r \<in> set (active rs) \<longleftrightarrow> r \<in> set rs \<and> packetId r \<noteq> 0"
  by (auto simp: active_def)

lemma active_active [simp]: "active (active rs) = active rs"
  by (simp add: active_def)

lemma length_active_le: "length (active rs) \<le> length rs"
  by (simp add: active_def)

section \<open>Compaction\<close>

lemma compact_from_spec:
  assumes "\<forall>r \<in> set xs. packetId r = 0 \<longrightarrow> r = free_record"
  shows "compact_from (if m = 0 then None else Some (length A)) [length A + m..<length A + m + length xs]
      (A @ replicate m free_record @ xs)
    = A @ active xs @ replicate (m + length xs - length (active xs)) free_record"
  using assms
proof (induction xs arbitrary: A m)
  case Nil
  then show ?case by (simp add: table_simps)
next
  case (Cons x xs)
  define R where "R = A @ replicate m free_record @ x # xs"
  define J where "J = [length A + Suc m..<length A + Suc m + length xs]"
  let ?e = "if m = 0 then None else Some (length A)"
  have up: "[length A + m..<length A + m + length (x # xs)] = (length A + m) # J"
    by (simp add: J_def upt_rec)
  have x: "R ! (length A + m) = x" by (simp add: R_def nth_append)
  have ok: "\<forall>r \<in> set xs. packetId r = 0 \<longrightarrow> r = free_record" using Cons.prems by simp
  have "compact_from ?e ((length A + m) # J) R
      = A @ active (x # xs) @ replicate (m + length (x # xs) - length (active (x # xs))) free_record"
  proof (cases "packetId x = 0")
    case True
    then have "R = A @ replicate (Suc m) free_record @ xs"
      using Cons.prems by (simp add: R_def replicate_app_Cons_same)
    moreover have "compact_from ?e ((length A + m) # J) R = compact_from (Some (length A)) J R"
      using True x by simp
    ultimately show ?thesis using Cons.IH [OF ok, of "Suc m" A, folded J_def] True
      by (simp add: active_simps(2))
  next
    case used: False
    show ?thesis
    proof (cases m)
      case 0
      moreover have "J = [length (A @ [x])..<length (A @ [x]) + length xs]" using 0 by (simp add: J_def)
      ultimately show ?thesis using Cons.IH [OF ok, of 0 "A @ [x]"] used x
        by (simp add: active_simps(2) R_def)
    next
      case (Suc n)
      have R': "R [length A := x, length A + m := free_record] = (A @ [x]) @ replicate m free_record @ xs"
        using Suc by (simp add: R_def list_update_append replicate_app_Cons_same)
      have J: "J = [length (A @ [x]) + m..<length (A @ [x]) + m + length xs]" by (simp add: J_def)
      have "compact_from ?e ((length A + m) # J) R
          = compact_from (Some (length A + 1)) J (R [length A := x, length A + m := free_record])"
        using used x Suc by simp
      also have "\<dots> = (A @ [x]) @ active xs @ replicate (m + length xs - length (active xs)) free_record"
        using Cons.IH [OF ok, of m "A @ [x]"] Suc unfolding R' J by simp
      finally show ?thesis using used by (simp add: active_simps(2))
    qed
  qed
  then show ?case unfolding up R_def .
qed

lemma compactRecords_spec:
  assumes "\<forall>r \<in> set rs. packetId r = 0 \<longrightarrow> r = free_record"
  shows "compactRecords rs = active rs @ replicate (length rs - length (active rs)) free_record"
  using compact_from_spec [of rs 0 "[]"] assms by (simp add: compactRecords_def)

section \<open>Finding a slot\<close>

lemma slot_from_valid:
  "k \<noteq> 0 \<Longrightarrow> slot_from k rs a True is = (if \<exists>i \<in> set is. packetId (rs ! i) = k then Inl () else Inr a)"
  by (induction "is") auto

lemma slot_from_free:
  "slot_from k (B @ replicate m free_record) a False (rev [length B..<length B + n] @ is)
   = slot_from k (B @ replicate m free_record) (if n = 0 then a else Some (length B)) False is" if "n \<le> m"
  using that
proof (induction n arbitrary: a)
  case (Suc n)
  then show ?case by (cases n) (simp_all add: nth_append)
qed simp

lemma slot_from_packed:
  assumes "k \<noteq> 0" "B = [] \<or> packetId (last B) \<noteq> 0"
  shows "slot_from k (B @ replicate m free_record) None False (rev [0..<length B + m])
    = (if k \<in> set (ids_of B) then Inl () else Inr (if m = 0 then None else Some (length B)))"
proof -
  let ?rs = "B @ replicate m free_record" and ?a = "if m = 0 then None else Some (length B)"
  have "rev [0..<length B + m] = rev [length B..<length B + m] @ rev [0..<length B]"
    using upt_add_eq_append [of 0 "length B" m] by simp
  then have "slot_from k ?rs None False (rev [0..<length B + m]) = slot_from k ?rs ?a False (rev [0..<length B])"
    using slot_from_free [of m m k B None "rev [0..<length B]"] by simp
  also have "\<dots> = (if k \<in> set (ids_of B) then Inl () else Inr ?a)"
  proof (cases B rule: rev_cases)
    case (snoc C b)
    have "(\<exists>i \<in> {0..<length C}. packetId (?rs ! i) = k) \<longleftrightarrow> k \<in> set (ids_of C)"
      using snoc by (fastforce simp: ids_of_def in_set_conv_nth nth_append Bex_def)
    moreover have "?rs ! length C = b" using snoc by simp
    ultimately show ?thesis using assms snoc slot_from_valid [of k ?rs ?a "rev [0..<length C]"]
      by (auto simp: table_simps)
  qed (simp add: table_simps)
  finally show ?thesis .
qed

text \<open>Every table is a block ending in a used slot, followed by free slots.\<close>

lemma table_packed:
  assumes "\<forall>r \<in> set rs. packetId r = 0 \<longrightarrow> r = free_record"
  obtains B m where "rs = B @ replicate m free_record" "B = [] \<or> packetId (last B) \<noteq> 0"
  using assms
proof (induction rs arbitrary: thesis rule: rev_induct)
  case Nil
  from Nil(1) [of "[]" 0] show ?case by simp
next
  case (snoc r rs)
  show ?case
  proof (cases "packetId r = 0")
    case True
    then have r: "r = free_record" using snoc.prems(2) by simp
    obtain B m where "rs = B @ replicate m free_record" "B = [] \<or> packetId (last B) \<noteq> 0"
      using snoc.IH snoc.prems(2) by auto
    then show ?thesis using snoc.prems(1) [of B "Suc m"] r by (simp add: replicate_append_same)
  next
    case False
    then show ?thesis using snoc.prems(1) [of "rs @ [r]" 0] by simp
  qed
qed

lemma addRecord_packed:
  assumes "k \<noteq> 0" "B = [] \<or> packetId (last B) \<noteq> 0" "m > 0 \<or> active B = B"
  defines "rs \<equiv> B @ replicate m free_record"
  assumes "table_ok rs"
  shows "\<exists>rs'. (case slot_from k rs None False (rev [0..<length rs]) of
           Inl _ \<Rightarrow> (MQTTStateCollision, rs)
         | Inr None \<Rightarrow> (MQTTNoMemory, rs)
         | Inr (Some i) \<Rightarrow> (MQTTSuccess, rs[i := \<lparr>packetId = k, qos = q, publishState = s\<rparr>]))
      = (fst (log_add (length rs) \<lparr>packetId = k, qos = q, publishState = s\<rparr> (active rs)), rs')
    \<and> active rs' = snd (log_add (length rs) \<lparr>packetId = k, qos = q, publishState = s\<rparr> (active rs))
    \<and> table_ok rs' \<and> length rs' = length rs"
proof -
  let ?r = "\<lparr>packetId = k, qos = q, publishState = s\<rparr>"
  have a: "active rs = active B" by (simp add: rs_def table_simps)
  have k: "k \<in> set (ids_of B) \<longleftrightarrow> k \<in> set (ids_of (active B))"
    using assms(1) by (auto simp: ids_of_def active_def)
  note slot = slot_from_packed [OF assms(1,2), of m, folded rs_def]
  show ?thesis
  proof (cases "k \<in> set (ids_of B)")
    case True
    then show ?thesis using slot k a assms(5) by (intro exI [of _ rs]) (simp add: log_add_def rs_def)
  next
    case new: False
    show ?thesis
    proof (cases m)
      case 0
      then show ?thesis using slot k a assms(3,5) new
        by (intro exI [of _ rs]) (simp add: log_add_def rs_def)
    next
      case (Suc n)
      have l: "length (active B) < length rs" using Suc length_active_le [of B] by (simp add: rs_def)
      have u: "rs[length B := ?r] = B @ ?r # replicate n free_record" by (simp add: rs_def Suc)
      have "table_ok (B @ ?r # replicate n free_record)"
        using assms(1,5) new k by (auto simp: table_ok_def rs_def table_simps)
      moreover have "active (B @ ?r # replicate n free_record) = active B @ [?r]"
        using assms(1) by (simp add: table_simps)
      ultimately show ?thesis using slot k a new Suc l u
        by (intro exI [of _ "B @ ?r # replicate n free_record"]) (simp add: log_add_def rs_def)
    qed
  qed
qed

lemma addRecord_spec:
  assumes "table_ok rs" "k \<noteq> 0"
  obtains rs' where "addRecord k q s rs
      = (fst (log_add (length rs) \<lparr>packetId = k, qos = q, publishState = s\<rparr> (active rs)), rs')"
    "active rs' = snd (log_add (length rs) \<lparr>packetId = k, qos = q, publishState = s\<rparr> (active rs))"
    "table_ok rs'" "length rs' = length rs"
proof -
  have free: "\<forall>r \<in> set rs. packetId r = 0 \<longrightarrow> r = free_record" and ne: "rs \<noteq> []"
    using assms(1) by (auto simp: table_ok_def)
  show ?thesis
  proof (cases "packetId (last rs) = 0")
    case True
    obtain B m where B: "rs = B @ replicate m free_record" "B = [] \<or> packetId (last B) \<noteq> 0"
      using table_packed [OF free] by metis
    have "m > 0" using True ne B by (cases m) auto
    then show ?thesis
      using addRecord_packed [OF assms(2) B(2), of m q s, folded B(1), OF _ assms(1)] True ne that
      by (auto simp: addRecord_def last_conv_nth)
  next
    case False
    let ?m = "length rs - length (active rs)" and ?rs = "compactRecords rs"
    have c: "?rs = active rs @ replicate ?m free_record" using compactRecords_spec [OF free] .
    have a: "active ?rs = active rs" "length ?rs = length rs"
      using length_active_le [of rs] unfolding c by (simp_all add: table_simps)
    have ok: "table_ok ?rs" using assms(1) a unfolding table_ok_def
      by (auto simp: c table_simps active_nonzero)
    have l: "active rs = [] \<or> packetId (last (active rs)) \<noteq> 0"
      using last_in_set [of "active rs"] by (auto simp: active_nonzero)
    show ?thesis
      using addRecord_packed [OF assms(2) l, of ?m q s, folded c, OF _ ok] False ne that
      unfolding addRecord_def Let_def a by (auto simp: last_conv_nth a)
  qed
qed

section \<open>Finding and changing an entry\<close>

lemma find_from_spec:
  "find_from k i rs = Some (j, q, s) \<Longrightarrow>
     \<exists>A B. rs = A @ \<lparr>packetId = k, qos = q, publishState = s\<rparr> # B \<and> j = i + length A \<and> k \<notin> set (ids_of A)"
proof (induction k i rs rule: find_from.induct)
  case (2 k i r rs)
  show ?case
  proof (cases "packetId r = k")
    case True
    then show ?thesis using 2 by (intro exI [of _ "[]"] exI [of _ rs]) (auto simp: table_simps)
  next
    case False
    then obtain A B where "rs = A @ \<lparr>packetId = k, qos = q, publishState = s\<rparr> # B" "j = i + 1 + length A" "k \<notin> set (ids_of A)"
      using 2 by auto
    then show ?thesis using False by (intro exI [of _ "r # A"] exI [of _ B]) (auto simp: table_simps)
  qed
qed simp

lemma find_from_None: "find_from k i rs = None \<longleftrightarrow> k \<notin> set (ids_of rs)"
  by (induction k i rs rule: find_from.induct) (auto simp: table_simps)

lemma log_find_None: "log_find k L = None \<longleftrightarrow> k \<notin> set (ids_of L)"
  by (auto simp: log_find_def ids_of_def find_None_iff)

lemma findInRecord_None:
  "k \<noteq> 0 \<Longrightarrow> findInRecord rs k = None \<longleftrightarrow> log_find k (active rs) = None"
  by (auto simp: findInRecord_def find_from_None log_find_None ids_of_def active_def)

text \<open>Where \<open>findInRecord\<close> finds a number, and what \<open>updateRecord\<close> does there.\<close>

lemma findInRecord_Some:
  assumes "table_ok rs" "k \<noteq> 0" "findInRecord rs k = Some (i, q, s)"
  shows "log_find k (active rs) = Some \<lparr>packetId = k, qos = q, publishState = s\<rparr>"
    and "active (updateRecord i new False rs) = log_set k new (active rs)"
    and "active (updateRecord i new True rs) = log_del k (active rs)"
    and "table_ok (updateRecord i new d rs)" "length (updateRecord i new d rs) = length rs"
    and "length (log_del k (active rs)) < length rs"
proof -
  let ?r = "\<lparr>packetId = k, qos = q, publishState = s\<rparr>"
  obtain A B where rs: "rs = A @ ?r # B" "i = length A" "k \<notin> set (ids_of A)"
    using find_from_spec [of k 0 rs i q s] assms(3) by (auto simp: findInRecord_def)
  have d: "k \<notin> set (ids_of (active A))" "k \<notin> set (ids_of (active B))"
    using assms(1,2) by (auto simp: rs table_ok_def table_simps)
  have n: "filter (\<lambda>r. packetId r \<noteq> k) L = L" "map (\<lambda>r. if packetId r = k then r\<lparr>publishState := new\<rparr> else r) L = L"
    "find (\<lambda>r. packetId r = k) L = None" if "k \<notin> set (ids_of L)" for L
    using that by (induction L) (auto simp: ids_of_def)
  have f: "find P (xs @ ys) = (case find P xs of None \<Rightarrow> find P ys | Some x \<Rightarrow> Some x)" for P and xs ys :: records
    by (induction xs) auto
  show "log_find k (active rs) = Some ?r"
    using assms(2) n [OF d(1)] by (simp add: log_find_def rs table_simps f)
  show "active (updateRecord i new False rs) = log_set k new (active rs)"
    using assms(2) n [OF d(1)] n [OF d(2)] by (simp add: log_set_def updateRecord_def rs table_simps)
  show "active (updateRecord i new True rs) = log_del k (active rs)"
    using assms(2) n [OF d(1)] n [OF d(2)] by (simp add: log_del_def updateRecord_def rs table_simps)
  show "table_ok (updateRecord i new d rs)"
    using assms(1,2) by (auto simp: table_ok_def updateRecord_def rs table_simps)
  show "length (updateRecord i new d rs) = length rs" by (simp add: updateRecord_def)
  show "length (log_del k (active rs)) < length rs"
    using assms(2) n [OF d(1)] n [OF d(2)] length_active_le [of A] length_active_le [of B]
    by (simp add: log_del_def rs table_simps)
qed

section \<open>Refinement\<close>

text \<open>The specification of the operations, over the logs of the two directions and their capacities.\<close>

record flight =
  outgoing :: records
  incoming :: records
  cap_out :: nat
  cap_in :: nat

definition abs_context :: "MQTTContext \<Rightarrow> flight" where
  "abs_context c = \<lparr>outgoing = active (outgoingPublishRecords c), incoming = active (incomingPublishRecords c),
     cap_out = length (outgoingPublishRecords c), cap_in = length (incomingPublishRecords c)\<rparr>"

text \<open>The states an entry can be in, by direction and quality of service.\<close>

definition legal :: "MQTTStateOperation \<Rightarrow> MQTTPubAckInfo \<Rightarrow> bool" where
  "legal dir r \<longleftrightarrow> publishState r \<in> set
     (case (dir, qos r) of
        (_, MQTTQoS0) \<Rightarrow> []
      | (MQTT_SEND, MQTTQoS1) \<Rightarrow> [MQTTPublishSend, MQTTPubAckPending]
      | (MQTT_SEND, MQTTQoS2) \<Rightarrow> [MQTTPublishSend, MQTTPubRecPending, MQTTPubRelSend, MQTTPubCompPending]
      | (MQTT_RECEIVE, MQTTQoS1) \<Rightarrow> [MQTTPubAckSend]
      | (MQTT_RECEIVE, MQTTQoS2) \<Rightarrow> [MQTTPubRecSend, MQTTPubRelPending, MQTTPubCompSend])"

lemma legal_cases:
  assumes "legal dir \<lparr>packetId = k, qos = q, publishState = s\<rparr>"
  obtains "dir = MQTT_SEND" "q = MQTTQoS1" "s = MQTTPublishSend" | "dir = MQTT_SEND" "q = MQTTQoS1" "s = MQTTPubAckPending"
    | "dir = MQTT_SEND" "q = MQTTQoS2" "s = MQTTPublishSend" | "dir = MQTT_SEND" "q = MQTTQoS2" "s = MQTTPubRecPending"
    | "dir = MQTT_SEND" "q = MQTTQoS2" "s = MQTTPubRelSend" | "dir = MQTT_SEND" "q = MQTTQoS2" "s = MQTTPubCompPending"
    | "dir = MQTT_RECEIVE" "q = MQTTQoS1" "s = MQTTPubAckSend" | "dir = MQTT_RECEIVE" "q = MQTTQoS2" "s = MQTTPubRecSend"
    | "dir = MQTT_RECEIVE" "q = MQTTQoS2" "s = MQTTPubRelPending" | "dir = MQTT_RECEIVE" "q = MQTTQoS2" "s = MQTTPubCompSend"
  using assms by (cases dir; cases q; cases s) (simp_all add: legal_def)

definition log_ok :: "MQTTStateOperation \<Rightarrow> records \<Rightarrow> bool" where
  "log_ok dir rs \<longleftrightarrow> table_ok rs \<and> (\<forall>r \<in> set (active rs). legal dir r)"

definition context_ok :: "MQTTContext \<Rightarrow> bool" where
  "context_ok c \<longleftrightarrow> log_ok MQTT_SEND (outgoingPublishRecords c) \<and> log_ok MQTT_RECEIVE (incomingPublishRecords c)"

datatype state_op =
    Reserve u16 MQTTQoS
  | Sent u16 MQTTQoS
  | Received u16 MQTTQoS
  | Ack_received u16 MQTTPubAckType
  | Ack_sent u16 MQTTPubAckType

definition state_do :: "state_op \<Rightarrow> MQTTContext \<Rightarrow> MQTTStatus \<times> MQTTContext" where
  "state_do a c =
     (case a of
        Reserve k q \<Rightarrow> MQTT_ReserveState k q c
      | Sent k q \<Rightarrow> (case MQTT_UpdateStatePublish k MQTT_SEND q c of (st, _, c) \<Rightarrow> (st, c))
      | Received k q \<Rightarrow> (case MQTT_UpdateStatePublish k MQTT_RECEIVE q c of (st, _, c) \<Rightarrow> (st, c))
      | Ack_received k t \<Rightarrow> (case MQTT_UpdateStateAck k t MQTT_RECEIVE c of (st, _, c) \<Rightarrow> (st, c))
      | Ack_sent k t \<Rightarrow> (case MQTT_UpdateStateAck k t MQTT_SEND c of (st, _, c) \<Rightarrow> (st, c)))"

text \<open>
  An acknowledgement over one log.  The protocol as a table: the state an entry has to be in, and
  the state it is left in, \<open>None\<close> when its exchange is complete.  PUBREC renews the entry, so that the PUBRELs are
  sent in the order of the PUBRECs.
\<close>

fun ack_next :: "MQTTQoS \<Rightarrow> MQTTPubAckType \<Rightarrow> MQTTStateOperation \<Rightarrow> (MQTTPublishState list \<times> MQTTPublishState option) option" where
  "ack_next MQTTQoS1 MQTTPuback MQTT_SEND = Some ([MQTTPubAckSend], None)"
| "ack_next MQTTQoS1 MQTTPuback MQTT_RECEIVE = Some ([MQTTPubAckPending], None)"
| "ack_next MQTTQoS2 MQTTPubrec MQTT_SEND = Some ([MQTTPubRecSend, MQTTPubRelPending], Some MQTTPubRelPending)"
| "ack_next MQTTQoS2 MQTTPubrec MQTT_RECEIVE = Some ([MQTTPubRecPending], Some MQTTPubRelSend)"
| "ack_next MQTTQoS2 MQTTPubrel MQTT_SEND = Some ([MQTTPubRelSend, MQTTPubCompPending], Some MQTTPubCompPending)"
| "ack_next MQTTQoS2 MQTTPubrel MQTT_RECEIVE = Some ([MQTTPubRelPending, MQTTPubCompSend], Some MQTTPubCompSend)"
| "ack_next MQTTQoS2 MQTTPubcomp MQTT_SEND = Some ([MQTTPubCompSend], None)"
| "ack_next MQTTQoS2 MQTTPubcomp MQTT_RECEIVE = Some ([MQTTPubCompPending], None)"
| "ack_next q t op = None"

definition log_ack :: "u16 \<Rightarrow> MQTTPubAckType \<Rightarrow> MQTTStateOperation \<Rightarrow> records \<Rightarrow> MQTTStatus \<times> records" where
  "log_ack k t op L =
     (case log_find k L of
        None \<Rightarrow> (MQTTBadResponse, L)
      | Some r \<Rightarrow>
          (case ack_next (qos r) t op of
             None \<Rightarrow> (MQTTIllegalState, L)
           | Some (from_states, to) \<Rightarrow>
               if publishState r \<notin> set from_states then (MQTTIllegalState, L)
               else case to of
                 None \<Rightarrow> (MQTTSuccess, log_del k L)
               | Some s \<Rightarrow> (MQTTSuccess,
                   if s = MQTTPubRelSend then log_del k L @ [r\<lparr>publishState := s\<rparr>] else log_set k s L)))"

definition flight_do :: "state_op \<Rightarrow> flight \<Rightarrow> MQTTStatus \<times> flight" where
  "flight_do a f =
     (let out = (\<lambda>(st, L). (st, f\<lparr>outgoing := L\<rparr>)); inc = (\<lambda>(st, L). (st, f\<lparr>incoming := L\<rparr>))
      in case a of
        Reserve k q \<Rightarrow>
          if q = MQTTQoS0 then (MQTTSuccess, f) else if k = 0 then (MQTTBadParameter, f)
          else out (log_add (cap_out f) \<lparr>packetId = k, qos = q, publishState = MQTTPublishSend\<rparr> (outgoing f))
      | Sent k q \<Rightarrow>
          if q = MQTTQoS0 then (MQTTSuccess, f) else if k = 0 then (MQTTBadParameter, f)
          else (case log_find k (outgoing f) of
            None \<Rightarrow> (MQTTBadParameter, f)
          | Some r \<Rightarrow>
              let s = (if q = MQTTQoS1 then MQTTPubAckPending else MQTTPubRecPending)
              in if qos r \<noteq> q then (MQTTBadParameter, f)
                 else if publishState r \<in> {MQTTPublishSend, s} then (MQTTSuccess, f\<lparr>outgoing := log_set k s (outgoing f)\<rparr>) else (MQTTIllegalState, f))
      | Received k q \<Rightarrow>
          if q = MQTTQoS0 then (MQTTSuccess, f) else if k = 0 then (MQTTBadParameter, f)
          else inc (log_add (cap_in f)
            \<lparr>packetId = k, qos = q, publishState = (if q = MQTTQoS1 then MQTTPubAckSend else MQTTPubRecSend)\<rparr> (incoming f))
      | Ack_received k t \<Rightarrow>
          if k = 0 then (MQTTBadParameter, f)
          else if t = MQTTPubrel then inc (log_ack k t MQTT_RECEIVE (incoming f))
          else out (log_ack k t MQTT_RECEIVE (outgoing f))
      | Ack_sent k t \<Rightarrow>
          if k = 0 then (MQTTBadParameter, f)
          else if t = MQTTPubrel then out (log_ack k t MQTT_SEND (outgoing f))
          else inc (log_ack k t MQTT_SEND (incoming f)))"

lemma log_find_only:
  "log_find k L = Some r \<Longrightarrow> distinct (ids_of L) \<Longrightarrow> x \<in> set L \<Longrightarrow> packetId x = k \<Longrightarrow> x = r"
  by (induction L) (auto simp: log_find_def ids_of_def split: if_splits)

lemma log_set_same:
  assumes "log_find k L = Some r" "distinct (ids_of L)" shows "log_set k (publishState r) L = L"
  unfolding log_set_def
proof (rule map_idI)
  show "(if packetId x = k then x\<lparr>publishState := publishState r\<rparr> else x) = x" if "x \<in> set L" for x
    using log_find_only [OF assms that] by auto
qed

lemma log_find_in: "log_find k L = Some r \<Longrightarrow> r \<in> set L \<and> packetId r = k"
  by (auto simp: log_find_def find_Some_iff)

lemma log_okD: "log_ok dir rs \<Longrightarrow> table_ok rs" "log_ok dir rs \<Longrightarrow> distinct (ids_of (active rs))"
  by (simp_all add: log_ok_def table_ok_def)

lemma updateStateAck_refines:
  assumes log: "log_ok dir rs" and k: "k \<noteq> 0" and dir: "(dir = MQTT_SEND) = isPublishOutgoing t op"
    and f: "findInRecord rs k = Some (i, q, cur)"
    and u: "updateStateAck i k cur (MQTT_CalculateStateAck t op q) rs = (st, rs')"
  shows "(st, active rs') = log_ack k t op (active rs) \<and> table_ok rs' \<and> length rs' = length rs"
proof -
  let ?r = "\<lparr>packetId = k, qos = q, publishState = cur\<rparr>"
  note ok = log_okD(1) [OF log]
  note facts = findInRecord_Some [OF ok k f]
  note same = log_set_same [OF facts(1) log_okD(2) [OF log], simplified]
  have legal: "legal dir ?r" using log facts(1) log_find_in by (auto simp: log_ok_def)
  let ?rs = "updateRecord i MQTTPubRelSend True rs"
  have "packetId ?r \<notin> set (ids_of (active ?rs))" "length (active ?rs) < length ?rs"
    using facts(3,6) facts(5) [of MQTTPubRelSend True] by (auto simp: log_del_def ids_of_def)
  then have add: "log_add (length ?rs) \<lparr>packetId = k, qos = MQTTQoS2, publishState = MQTTPubRelSend\<rparr> (active ?rs)
      = (MQTTSuccess, log_del k (active rs) @ [\<lparr>packetId = k, qos = MQTTQoS2, publishState = MQTTPubRelSend\<rparr>])"
    using facts(3) by (simp add: log_add_def)
  obtain rs2 where rs2: "addRecord k MQTTQoS2 MQTTPubRelSend ?rs = (MQTTSuccess, rs2)"
    "active rs2 = log_del k (active rs) @ [\<lparr>packetId = k, qos = MQTTQoS2, publishState = MQTTPubRelSend\<rparr>]"
    "table_ok rs2" "length rs2 = length rs"
    using addRecord_spec [OF facts(4) [of MQTTPubRelSend True] k, of MQTTQoS2 MQTTPubRelSend] facts(5) add
    by (metis fst_conv snd_conv)
  note defs = updateStateAck_def MQTT_CalculateStateAck_def log_ack_def facts rs2 ok
  let ?u = "updateStateAck i k cur (MQTT_CalculateStateAck t op q) rs"
  have "(fst ?u, active (snd ?u)) = log_ack k t op (active rs) \<and> table_ok (snd ?u) \<and> length (snd ?u) = length rs"
    using legal dir same by (cases rule: legal_cases; cases t; cases op; simp add: defs)
  then show ?thesis unfolding u by simp
qed

text \<open>The log operations keep the entries legal.\<close>

lemma log_ack_legal:
  assumes "\<forall>r \<in> set L. legal dir r" "(dir = MQTT_SEND) = isPublishOutgoing t op" "distinct (ids_of L)"
  shows "\<forall>r \<in> set (snd (log_ack k t op L)). legal dir r"
proof (cases "log_find k L")
  case (Some r)
  have r: "r \<in> set L" "packetId r = k" using log_find_in [OF Some] by auto
  have only: "x = r" if "x \<in> set L" "packetId x = k" for x
    using log_find_only [OF Some assms(3) that] .
  have "legal dir (r\<lparr>publishState := s\<rparr>)"
    if "ack_next (qos r) t op = Some (from_states, Some s)" "publishState r \<in> set from_states" for from_states s
    using that assms(1,2) r(1) by (cases "(qos r, t, op)" rule: ack_next.cases) (auto simp: legal_def split: MQTTStateOperation.splits)
  then show ?thesis using Some assms(1) only
    by (auto simp: log_ack_def log_del_def log_set_def split: option.splits)
qed (use assms in \<open>simp add: log_ack_def\<close>)

lemma log_add_legal:
  "\<forall>x \<in> set L. legal dir x \<Longrightarrow> legal dir r \<Longrightarrow> \<forall>x \<in> set (snd (log_add n r L)). legal dir x"
  by (auto simp: log_add_def)

lemma log_set_legal:
  "\<forall>x \<in> set L. legal dir x \<Longrightarrow> (\<And>x. x \<in> set L \<Longrightarrow> packetId x = k \<Longrightarrow> legal dir (x\<lparr>publishState := s\<rparr>))
    \<Longrightarrow> \<forall>x \<in> set (log_set k s L). legal dir x"
  by (auto simp: log_set_def)

lemma addRecord_refines:
  assumes "log_ok dir rs" "k \<noteq> 0" "legal dir \<lparr>packetId = k, qos = q, publishState = s\<rparr>" "addRecord k q s rs = (st, rs')"
  shows "log_add (length rs) \<lparr>packetId = k, qos = q, publishState = s\<rparr> (active rs) = (st, active rs')
    \<and> log_ok dir rs' \<and> length rs' = length rs"
proof -
  let ?r = "\<lparr>packetId = k, qos = q, publishState = s\<rparr>"
  obtain rs1 where rs1: "addRecord k q s rs = (fst (log_add (length rs) ?r (active rs)), rs1)"
    "active rs1 = snd (log_add (length rs) ?r (active rs))" "table_ok rs1" "length rs1 = length rs"
    using addRecord_spec [OF log_okD(1) [OF assms(1)] assms(2)] by blast
  moreover have "\<forall>x \<in> set (snd (log_add (length rs) ?r (active rs))). legal dir x"
    using log_add_legal [OF _ assms(3)] assms(1) by (auto simp: log_ok_def)
  ultimately show ?thesis using assms(4) by (auto simp: log_ok_def prod_eq_iff)
qed

lemma reserve_refines:
  assumes "context_ok c" "MQTT_ReserveState k q c = (st, c')"
  shows "flight_do (Reserve k q) (abs_context c) = (st, abs_context c') \<and> context_ok c'"
proof (cases "q = MQTTQoS0 \<or> k = 0")
  case False
  obtain rs' where r: "addRecord k q MQTTPublishSend (outgoingPublishRecords c) = (st, rs')"
    "c' = c\<lparr>outgoingPublishRecords := rs'\<rparr>"
    using assms(2) False by (auto simp: MQTT_ReserveState_def split: prod.splits)
  have "legal MQTT_SEND \<lparr>packetId = k, qos = q, publishState = MQTTPublishSend\<rparr>"
    using False by (cases q) (auto simp: legal_def)
  from addRecord_refines [OF _ _ this r(1)] show ?thesis
    using assms(1) False r(2) by (auto simp: context_ok_def flight_do_def abs_context_def Let_def)
qed (use assms in \<open>auto simp: MQTT_ReserveState_def flight_do_def\<close>)

lemma received_refines:
  assumes "context_ok c" "MQTT_UpdateStatePublish k MQTT_RECEIVE q c = (st, s, c')"
  shows "flight_do (Received k q) (abs_context c) = (st, abs_context c') \<and> context_ok c'"
proof (cases "q = MQTTQoS0 \<or> k = 0")
  case False
  let ?s = "if q = MQTTQoS1 then MQTTPubAckSend else MQTTPubRecSend"
  have s: "MQTT_CalculateStatePublish MQTT_RECEIVE q = ?s" "validateTransitionPublish MQTTStateNull ?s MQTT_RECEIVE q"
    using False by (cases q; simp add: MQTT_CalculateStatePublish_def)+
  obtain rs' where r: "addRecord k q ?s (incomingPublishRecords c) = (st, rs')"
    "c' = c\<lparr>incomingPublishRecords := rs'\<rparr>"
    using assms(2) False s
    by (auto simp: MQTT_UpdateStatePublish_def updateStatePublish_def Let_def split: prod.splits)
  have "legal MQTT_RECEIVE \<lparr>packetId = k, qos = q, publishState = ?s\<rparr>"
    using False by (cases q) (auto simp: legal_def)
  from addRecord_refines [OF _ _ this r(1)] show ?thesis
    using assms(1) False r(2) by (auto simp: context_ok_def flight_do_def abs_context_def Let_def)
qed (use assms in \<open>auto simp: MQTT_UpdateStatePublish_def flight_do_def\<close>)

lemma sent_refines:
  assumes "context_ok c" "MQTT_UpdateStatePublish k MQTT_SEND q c = (st, s, c')"
  shows "flight_do (Sent k q) (abs_context c) = (st, abs_context c') \<and> context_ok c'"
proof (cases "q = MQTTQoS0 \<or> k = 0 \<or> findInRecord (outgoingPublishRecords c) k = None")
  case True
  then show ?thesis
    using assms findInRecord_None [of k "outgoingPublishRecords c"]
    by (auto simp: MQTT_UpdateStatePublish_def flight_do_def abs_context_def)
next
  case False
  then obtain i q' cur where f: "findInRecord (outgoingPublishRecords c) k = Some (i, q', cur)" by (cases "findInRecord (outgoingPublishRecords c) k") auto
  let ?new = "if q = MQTTQoS1 then MQTTPubAckPending else MQTTPubRecPending" and ?rs = "outgoingPublishRecords c"
  have log: "log_ok MQTT_SEND ?rs" and k: "k \<noteq> 0" "q \<noteq> MQTTQoS0" using assms(1) False by (auto simp: context_ok_def)
  have new: "MQTT_CalculateStatePublish MQTT_SEND q = ?new" using k by (cases q) (auto simp: MQTT_CalculateStatePublish_def)
  note facts = findInRecord_Some [OF log_okD(1) [OF log] k(1) f]
  note same = log_set_same [OF facts(1) log_okD(2) [OF log], simplified]
  have legal: "legal MQTT_SEND \<lparr>packetId = k, qos = q', publishState = cur\<rparr>"
    using log facts(1) log_find_in by (auto simp: log_ok_def)
  have nl: "\<forall>x \<in> set (log_set k ?new (active ?rs)). legal MQTT_SEND x" if "q' = q"
  proof (rule log_set_legal)
    fix x assume x: "x \<in> set (active ?rs)" "packetId x = k"
    then have "x = \<lparr>packetId = k, qos = q', publishState = cur\<rparr>"
      using log_find_only [OF facts(1) log_okD(2) [OF log]] by blast
    then show "legal MQTT_SEND (x\<lparr>publishState := ?new\<rparr>)" using that k by (cases q) (auto simp: legal_def)
  qed (use log in \<open>auto simp: log_ok_def\<close>)
  note defs = MQTT_UpdateStatePublish_def updateStatePublish_def flight_do_def abs_context_def Let_def context_ok_def
  let ?u = "MQTT_UpdateStatePublish k MQTT_SEND q c"
  have "flight_do (Sent k q) (abs_context c) = (fst ?u, abs_context (snd (snd ?u))) \<and> context_ok (snd (snd ?u))"
  proof (cases "q' = q")
    case True
    have c: "log_ok MQTT_SEND ?rs" "log_ok MQTT_RECEIVE (incomingPublishRecords c)"
      using assms(1) by (simp_all add: context_ok_def)
    have u: "log_ok MQTT_SEND (updateRecord i ?new False ?rs)"
      using nl [OF True] facts(2,4) by (simp add: log_ok_def)
    show ?thesis using legal c u True same
      by (cases rule: legal_cases; simp add: defs MQTT_CalculateStatePublish_def f facts k)
  next
    case False
    then show ?thesis using assms(1) f k facts by (simp add: defs)
  qed
  then show ?thesis unfolding assms(2) by simp
qed

lemma ack_refines:
  assumes "context_ok c" "MQTT_UpdateStateAck k t op c = (st, s, c')"
  shows "flight_do (if op = MQTT_SEND then Ack_sent k t else Ack_received k t) (abs_context c) = (st, abs_context c')
    \<and> context_ok c'"
proof -
  let ?out = "isPublishOutgoing t op"
  define rs where "rs = (if ?out then outgoingPublishRecords c else incomingPublishRecords c)"
  define dir where "dir = (if ?out then MQTT_SEND else MQTT_RECEIVE)"
  have log: "log_ok dir rs" using assms(1) by (simp add: rs_def dir_def context_ok_def)
  have out: "?out \<longleftrightarrow> (op = MQTT_SEND) = (t = MQTTPubrel)" by (cases t; cases op) simp_all
  have key: "log_ack k t op (active rs) = (st, active rs') \<and> log_ok dir rs' \<and> length rs' = length rs"
    if f: "findInRecord rs k = Some (i, q, cur)" and k: "k \<noteq> 0"
      and u: "updateStateAck i k cur (MQTT_CalculateStateAck t op q) rs = (st, rs')" for i q cur rs'
  proof -
    have d: "(dir = MQTT_SEND) = ?out" by (simp add: dir_def)
    note r = updateStateAck_refines [OF log k d f u]
    have "\<forall>r \<in> set (snd (log_ack k t op (active rs))). legal dir r"
      using log_ack_legal [OF _ d log_okD(2) [OF log]] log by (simp add: log_ok_def)
    then show ?thesis using r by (metis log_ok_def snd_conv)
  qed
  show ?thesis
  proof (cases "k = 0 \<or> findInRecord rs k = None")
    case True
    then show ?thesis using assms findInRecord_None [of k rs] out
      by (cases op; cases ?out)
        (auto simp: MQTT_UpdateStateAck_def flight_do_def abs_context_def rs_def log_ack_def Let_def split: if_splits)
  next
    case False
    then obtain i q cur where f: "findInRecord rs k = Some (i, q, cur)" and k: "k \<noteq> 0"
      by (cases "findInRecord rs k") auto
    obtain st1 rs' where u: "updateStateAck i k cur (MQTT_CalculateStateAck t op q) rs = (st1, rs')" by fastforce
    have c': "st1 = st" "c' = (if ?out then c\<lparr>outgoingPublishRecords := rs'\<rparr> else c\<lparr>incomingPublishRecords := rs'\<rparr>)"
      using assms(2) f k u by (auto simp: MQTT_UpdateStateAck_def Let_def rs_def)
    show ?thesis using key [OF f k u [unfolded c'(1)]] assms(1) c'(2) out k
      by (cases op; cases ?out)
        (auto simp: flight_do_def abs_context_def rs_def dir_def context_ok_def Let_def split: if_splits)
  qed
qed

lemma state_do_refines:
  assumes "context_ok c" "state_do a c = (st, c')"
  shows "flight_do a (abs_context c) = (st, abs_context c') \<and> context_ok c'"
proof (cases a)
  case (Sent k q)
  then obtain s where "MQTT_UpdateStatePublish k MQTT_SEND q c = (st, s, c')"
    using assms(2) by (auto simp: state_do_def split: prod.splits)
  from sent_refines [OF assms(1) this] Sent show ?thesis by simp
next
  case (Received k q)
  then obtain s where "MQTT_UpdateStatePublish k MQTT_RECEIVE q c = (st, s, c')"
    using assms(2) by (auto simp: state_do_def split: prod.splits)
  from received_refines [OF assms(1) this] Received show ?thesis by simp
next
  case (Ack_received k t)
  then obtain s where "MQTT_UpdateStateAck k t MQTT_RECEIVE c = (st, s, c')"
    using assms(2) by (auto simp: state_do_def split: prod.splits)
  from ack_refines [OF assms(1) this] Ack_received show ?thesis by simp
next
  case (Ack_sent k t)
  then obtain s where "MQTT_UpdateStateAck k t MQTT_SEND c = (st, s, c')"
    using assms(2) by (auto simp: state_do_def split: prod.splits)
  from ack_refines [OF assms(1) this] Ack_sent show ?thesis by simp
qed (use assms reserve_refines in \<open>simp add: state_do_def\<close>)

fun state_run :: "state_op list \<Rightarrow> MQTTContext \<Rightarrow> MQTTStatus list \<times> MQTTContext" where
  "state_run [] c = ([], c)"
| "state_run (a # as) c = (let (st, c) = state_do a c; (sts, c) = state_run as c in (st # sts, c))"

fun flight_run :: "state_op list \<Rightarrow> flight \<Rightarrow> MQTTStatus list \<times> flight" where
  "flight_run [] f = ([], f)"
| "flight_run (a # as) f = (let (st, f) = flight_do a f; (sts, f) = flight_run as f in (st # sts, f))"

lemma state_run_ok: "context_ok c \<Longrightarrow> context_ok (snd (state_run as c))"
proof (induction as arbitrary: c)
  case (Cons a as)
  obtain st c1 where a: "state_do a c = (st, c1)" by fastforce
  from state_do_refines [OF Cons.prems a] Cons.IH [of c1] a show ?case by (simp add: case_prod_unfold Let_def)
qed simp

text \<open>
  C12: refinement.  Over any sequence of reservations, sent and received publishes and acknowledgements, the two arrays of
  slots behave as two bounded logs in order of age: the same statuses, the same entries in the same order,
  however the free slots are spread and whenever the arrays are compacted; and every entry stays in a state
  that its direction and quality of service allow, each number at most once.
\<close>

theorem state_engine_refines_logs:
  assumes "context_ok c"
  shows "case state_run as c of (sts, c') \<Rightarrow> flight_run as (abs_context c) = (sts, abs_context c') \<and> context_ok c'"
  using assms
proof (induction as arbitrary: c)
  case (Cons a as)
  obtain st c1 where a: "state_do a c = (st, c1)" by fastforce
  from state_do_refines [OF Cons.prems a] Cons.IH [of c1] a show ?case by (auto split: prod.splits)
qed simp

text \<open>Two messages of the second quality of service; the first is received first and so released first.\<close>

definition no_flight :: MQTTContext where
  "no_flight = \<lparr>outgoingPublishRecords = replicate 10 free_record, incomingPublishRecords = replicate 10 free_record\<rparr>"

lemma no_flight_ok [simp]: "context_ok no_flight"
  by (simp add: context_ok_def no_flight_def log_ok_def table_ok_def table_simps)

lemma no_flight_abs [simp]: "abs_context no_flight = \<lparr>outgoing = [], incoming = [], cap_out = 10, cap_in = 10\<rparr>"
  by (simp add: abs_context_def no_flight_def table_simps)

theorem state_engine_refines_logs_witness:
  "\<exists>c'. state_run [Reserve 1 MQTTQoS2, Reserve 2 MQTTQoS1, Sent 1 MQTTQoS2, Sent 2 MQTTQoS1, Reserve 1 MQTTQoS1,
      Ack_received 1 MQTTPubrec, Ack_received 2 MQTTPubrec, Ack_sent 1 MQTTPubrel] no_flight
    = ([MQTTSuccess, MQTTSuccess, MQTTSuccess, MQTTSuccess, MQTTStateCollision,
        MQTTSuccess, MQTTIllegalState, MQTTSuccess], c')
    \<and> active (outgoingPublishRecords c')
      = [\<lparr>packetId = 2, qos = MQTTQoS1, publishState = MQTTPubAckPending\<rparr>,
         \<lparr>packetId = 1, qos = MQTTQoS2, publishState = MQTTPubCompPending\<rparr>]"
proof -
  let ?as = "[Reserve 1 MQTTQoS2, Reserve 2 MQTTQoS1, Sent 1 MQTTQoS2, Sent 2 MQTTQoS1, Reserve 1 MQTTQoS1,
      Ack_received 1 MQTTPubrec, Ack_received 2 MQTTPubrec, Ack_sent 1 MQTTPubrel]"
  obtain sts c' where r: "state_run ?as no_flight = (sts, c')" by fastforce
  have "flight_run ?as \<lparr>outgoing = [], incoming = [], cap_out = 10, cap_in = 10\<rparr>
    = ([MQTTSuccess, MQTTSuccess, MQTTSuccess, MQTTSuccess, MQTTStateCollision,
        MQTTSuccess, MQTTIllegalState, MQTTSuccess],
       \<lparr>outgoing = [\<lparr>packetId = 2, qos = MQTTQoS1, publishState = MQTTPubAckPending\<rparr>,
         \<lparr>packetId = 1, qos = MQTTQoS2, publishState = MQTTPubCompPending\<rparr>], incoming = [], cap_out = 10, cap_in = 10\<rparr>)"
    by code_simp
  moreover have "flight_run ?as (abs_context no_flight) = (sts, abs_context c')"
    using state_engine_refines_logs [OF no_flight_ok, of ?as, unfolded r prod.case] by (rule conjunct1)
  ultimately show ?thesis unfolding r no_flight_abs by (auto simp: abs_context_def simp del: flight_run.simps)
qed

end
