(* ===== verification/Mqtt_Session.thy ===== *)
theory Mqtt_Session
  imports Mqtt_State "HOL-Library.Monad_Syntax"
begin

text \<open>
  The session with the broker, \<open>src/main/provisioning/mqtt_operations.c\<close>, with the two small library
  functions it leans on: the back-off of \<open>backoff_algorithm.c\<close> and the packet numbers of
  \<open>core_mqtt.c\<close>.  What the network and the MQTT library answer are arguments.  Topics and payloads
  are handed on by address, so the memory is a partial map from addresses to texts; \<open>None\<close> as a result is
  a read of memory that is no longer allocated, or a failed assertion.
\<close>

section \<open>Connecting with back-off\<close>

record backoff =
  nextJitterMax :: u16
  maxBackoffDelay :: u16
  attemptsDone :: u32
  maxRetryAttempts :: u32

definition BackoffAlgorithm_InitializeParams :: "u16 \<Rightarrow> u16 \<Rightarrow> u32 \<Rightarrow> backoff" where
  "BackoffAlgorithm_InitializeParams backOffBase maxBackOff maxAttempts =
     \<lparr>nextJitterMax = backOffBase, maxBackoffDelay = maxBackOff, attemptsDone = 0, maxRetryAttempts = maxAttempts\<rparr>"

text \<open>\<open>None\<close>: the retries are exhausted.\<close>

definition BackoffAlgorithm_GetNextBackoff :: "backoff \<Rightarrow> u32 \<Rightarrow> (u16 \<times> backoff) option" where
  "BackoffAlgorithm_GetNextBackoff b randomValue =
     (if maxRetryAttempts b = 0 \<or> attemptsDone b < maxRetryAttempts b then
        Some (ucast (randomValue mod (ucast (nextJitterMax b) + 1)),
          b\<lparr>attemptsDone := attemptsDone b + 1,
            nextJitterMax := (if nextJitterMax b < maxBackoffDelay b div 2
                              then nextJitterMax b + nextJitterMax b else maxBackoffDelay b)\<rparr>)
      else None)"

text \<open>
  The loop: \<open>tls i\<close> is the result of attempt \<open>i\<close>, \<open>rnd i\<close> the random number drawn after it.  The result is
  whether a connection was made, the attempts that were made and the delays slept.
\<close>

partial_function (option) connect_loop ::
  "(nat \<Rightarrow> bool) \<Rightarrow> (nat \<Rightarrow> u32) \<Rightarrow> nat \<Rightarrow> backoff \<Rightarrow> (bool \<times> nat \<times> u16 list) option" where
  "connect_loop tls rnd i b =
     (if tls i then Some (True, i + 1, [])
      else case BackoffAlgorithm_GetNextBackoff b (rnd i) of
        None \<Rightarrow> Some (False, i + 1, [])
      | Some (d, b') \<Rightarrow>
          do { (r, n, ds) \<leftarrow> connect_loop tls rnd (i + 1) b'; Some (r, n, d # ds) })"

definition connectToBrokerWithBackoffRetries :: "(nat \<Rightarrow> bool) \<Rightarrow> (nat \<Rightarrow> u32) \<Rightarrow> (bool \<times> nat \<times> u16 list) option" where
  "connectToBrokerWithBackoffRetries tls rnd =
     connect_loop tls rnd 0 (BackoffAlgorithm_InitializeParams 500 5000 5)"

section \<open>State\<close>

record publish_packet =
  packetId :: u16
  pTopicName :: nat
  pPayload :: nat
  dup :: bool

abbreviation (input) MAX_OUTGOING_PUBLISHES :: nat where "MAX_OUTGOING_PUBLISHES \<equiv> 5"

definition no_packet :: publish_packet where
  "no_packet = \<lparr>packetId = MQTT_PACKET_ID_INVALID, pTopicName = 0, pPayload = 0, dup = False\<rparr>"

text \<open>\<open>published\<close>: what the library was given to send, read from memory at that moment.\<close>

record mqtt =
  outgoingPublishPackets :: "publish_packet list"
  nextPacketId :: u16
  globalAckPacketIdentifier :: u16
  globalSubscribePacketIdentifier :: u16
  globalUnsubscribePacketIdentifier :: u16
  mqttSessionEstablished :: bool
  memory :: "nat \<rightharpoonup> char list"
  published :: "(u16 \<times> char list \<times> char list \<times> bool) list"
  subscribed :: "(u16 \<times> char list) list"

definition mqtt_boot :: mqtt where
  "mqtt_boot = \<lparr>outgoingPublishPackets = replicate MAX_OUTGOING_PUBLISHES no_packet, nextPacketId = 0,
     globalAckPacketIdentifier = 0, globalSubscribePacketIdentifier = 0, globalUnsubscribePacketIdentifier = 0,
     mqttSessionEstablished = False, memory = Map.empty, published = [], subscribed = []\<rparr>"

section \<open>The table of unacknowledged publishes\<close>

fun free_index :: "nat \<Rightarrow> publish_packet list \<Rightarrow> nat option" where
  "free_index i [] = None"
| "free_index i (p # ps) = (if packetId p = MQTT_PACKET_ID_INVALID then Some i else free_index (i + 1) ps)"

definition getNextFreeIndexForOutgoingPublishes :: "mqtt \<Rightarrow> nat option" where
  "getNextFreeIndexForOutgoingPublishes m = free_index 0 (outgoingPublishPackets m)"

definition cleanupOutgoingPublishAt :: "nat \<Rightarrow> mqtt \<Rightarrow> mqtt" where
  "cleanupOutgoingPublishAt i m = m\<lparr>outgoingPublishPackets := (outgoingPublishPackets m)[i := no_packet]\<rparr>"

definition cleanupOutgoingPublishes :: "mqtt \<Rightarrow> mqtt" where
  "cleanupOutgoingPublishes m = m\<lparr>outgoingPublishPackets := replicate MAX_OUTGOING_PUBLISHES no_packet\<rparr>"

fun id_index :: "u16 \<Rightarrow> nat \<Rightarrow> publish_packet list \<Rightarrow> nat option" where
  "id_index k i [] = None"
| "id_index k i (p # ps) = (if packetId p = k then Some i else id_index k (i + 1) ps)"

definition cleanupOutgoingPublishWithPacketID :: "u16 \<Rightarrow> mqtt \<Rightarrow> mqtt option" where
  "cleanupOutgoingPublishWithPacketID k m =
     (if k = MQTT_PACKET_ID_INVALID then None
      else case id_index k 0 (outgoingPublishPackets m) of
        None \<Rightarrow> Some m
      | Some i \<Rightarrow> Some (cleanupOutgoingPublishAt i m))"

section \<open>Packets\<close>

definition MQTT_GetPacketId :: "mqtt \<Rightarrow> u16 \<times> mqtt" where
  "MQTT_GetPacketId m =
     (nextPacketId m, m\<lparr>nextPacketId := (if nextPacketId m = 0xFFFF then 1 else nextPacketId m + 1)\<rparr>)"

text \<open>\<open>MQTT_Publish\<close> reads topic and payload; its status \<open>ok\<close> is an argument.\<close>

definition MQTT_Publish :: "bool \<Rightarrow> publish_packet \<Rightarrow> mqtt \<Rightarrow> mqtt option" where
  "MQTT_Publish ok p m =
     do { topic \<leftarrow> memory m (pTopicName p); payload \<leftarrow> memory m (pPayload p);
          Some (if ok then m\<lparr>published := published m @ [(packetId p, topic, payload, dup p)]\<rparr> else m) }"

definition PublishToTopic :: "bool \<Rightarrow> nat \<Rightarrow> nat \<Rightarrow> mqtt \<Rightarrow> (bool \<times> mqtt) option" where
  "PublishToTopic ok topic payload m =
     (case getNextFreeIndexForOutgoingPublishes m of
        None \<Rightarrow> Some (False, m)
      | Some i \<Rightarrow>
          let (k, m) = MQTT_GetPacketId m;
              p = (outgoingPublishPackets m ! i)\<lparr>pTopicName := topic, pPayload := payload, packetId := k\<rparr>;
              m = m\<lparr>outgoingPublishPackets := (outgoingPublishPackets m)[i := p]\<rparr>
          in do { m \<leftarrow> MQTT_Publish ok p m;
                  Some (if ok then (True, m) else (False, cleanupOutgoingPublishAt i m)) })"

text \<open>Resending from index \<open>i\<close> on; \<open>oks\<close> are the statuses.\<close>

fun resend_from :: "(nat \<Rightarrow> bool) \<Rightarrow> nat list \<Rightarrow> mqtt \<Rightarrow> (bool \<times> mqtt) option" where
  "resend_from oks [] m = Some (True, m)"
| "resend_from oks (i # is) m =
     (let p = outgoingPublishPackets m ! i
      in if packetId p = MQTT_PACKET_ID_INVALID then resend_from oks is m
         else
           let p = p\<lparr>dup := True\<rparr>; m = m\<lparr>outgoingPublishPackets := (outgoingPublishPackets m)[i := p]\<rparr>
           in do { m \<leftarrow> MQTT_Publish (oks i) p m;
                   if oks i then resend_from oks is m else Some (False, m) })"

definition handlePublishResend :: "(nat \<Rightarrow> bool) \<Rightarrow> mqtt \<Rightarrow> (bool \<times> mqtt) option" where
  "handlePublishResend oks m = resend_from oks [0..<MAX_OUTGOING_PUBLISHES] m"

datatype packet = PUBLISH u16 "char list" | SUBACK u16 | UNSUBACK u16 | PINGRESP | PUBACK u16 | OTHER_PACKET

text \<open>\<open>app\<close> is the callback for incoming publishes; it keeps the application's own state outside.\<close>

definition mqttCallback :: "packet \<Rightarrow> mqtt \<Rightarrow> mqtt option" where
  "mqttCallback p m =
     (case p of
        SUBACK k \<Rightarrow> if globalSubscribePacketIdentifier m = k then Some (m\<lparr>globalAckPacketIdentifier := k\<rparr>) else None
      | UNSUBACK k \<Rightarrow> if globalUnsubscribePacketIdentifier m = k then Some (m\<lparr>globalAckPacketIdentifier := k\<rparr>) else None
      | PUBACK k \<Rightarrow> cleanupOutgoingPublishWithPacketID k (m\<lparr>globalAckPacketIdentifier := k\<rparr>)
      | _ \<Rightarrow> Some m)"

section \<open>Waiting\<close>

text \<open>The loops go on while \<open>MQTT_ProcessLoop\<close> returns one of two statuses.\<close>

definition going :: "MQTTStatus \<Rightarrow> bool" where
  "going st \<longleftrightarrow> st = MQTTSuccess \<or> st = MQTTNeedMoreBytes"

lemma going_simps [simp]: "going MQTTSuccess" "going MQTTNeedMoreBytes"
  by (simp_all add: going_def)

text \<open>
  One call of \<open>MQTT_ProcessLoop\<close>: the packets it passes to the callback, its status, and the clock after it.
\<close>

type_synonym turn = "packet list \<times> MQTTStatus \<times> u32"

fun callbacks :: "packet list \<Rightarrow> mqtt \<Rightarrow> mqtt option" where
  "callbacks [] m = Some m"
| "callbacks (p # ps) m = do { m \<leftarrow> mqttCallback p m; callbacks ps m }"

text \<open>
  The loop of \<open>waitForPacketAck\<close> over the turns \<open>net i\<close>, \<open>net (i + 1)\<close>, \<open>\<dots>\<close>: status, acknowledgement,
  number of turns made.
\<close>

partial_function (option) ack_loop ::
  "(nat \<Rightarrow> turn) \<Rightarrow> u16 \<Rightarrow> u32 \<Rightarrow> u32 \<Rightarrow> MQTTStatus \<Rightarrow> nat \<Rightarrow> mqtt \<Rightarrow> (MQTTStatus \<times> nat \<times> mqtt) option" where
  "ack_loop net k deadline now st i m =
     (if globalAckPacketIdentifier m \<noteq> k \<and> now < deadline \<and> going st then
        (case net i of (ps, st', now') \<Rightarrow>
           do { m' \<leftarrow> callbacks ps m; ack_loop net k deadline now' st' (i + 1) m' })
      else Some (st, i, m))"

definition waitForPacketAck :: "(nat \<Rightarrow> turn) \<Rightarrow> u32 \<Rightarrow> u16 \<Rightarrow> u32 \<Rightarrow> mqtt \<Rightarrow> (bool \<times> nat \<times> mqtt) option" where
  "waitForPacketAck net now k timeout m =
     do { (st, n, m) \<leftarrow> ack_loop net k (now + timeout) now MQTTSuccess 0 (m\<lparr>globalAckPacketIdentifier := 0\<rparr>);
          Some (\<not> (\<not> going st \<or> globalAckPacketIdentifier m \<noteq> k), n, m) }"

text \<open>The results of the two loops hold the number of turns made, so what they delivered to the application.\<close>

definition SubscribeToTopic :: "(nat \<Rightarrow> turn) \<Rightarrow> u32 \<Rightarrow> bool \<Rightarrow> char list \<Rightarrow> mqtt \<Rightarrow> (bool \<times> nat \<times> mqtt) option" where
  "SubscribeToTopic net now ok topic m =
     (let (k, m) = MQTT_GetPacketId m; m = m\<lparr>globalSubscribePacketIdentifier := k\<rparr>
      in if \<not> ok then Some (False, 0, m)
         else waitForPacketAck net now k 1000 (m\<lparr>subscribed := subscribed m @ [(k, topic)]\<rparr>))"

definition UnsubscribeFromTopic :: "(nat \<Rightarrow> turn) \<Rightarrow> u32 \<Rightarrow> bool \<Rightarrow> mqtt \<Rightarrow> (bool \<times> nat \<times> mqtt) option" where
  "UnsubscribeFromTopic net now ok m =
     (let (k, m) = MQTT_GetPacketId m; m = m\<lparr>globalUnsubscribePacketIdentifier := k\<rparr>
      in if \<not> ok then Some (False, 0, m) else waitForPacketAck net now k 1000 m)"

text \<open>\<open>ProcessLoopWithTimeout\<close>: whether the connection still works.\<close>

partial_function (option) process_loop ::
  "(nat \<Rightarrow> turn) \<Rightarrow> u32 \<Rightarrow> u32 \<Rightarrow> MQTTStatus \<Rightarrow> nat \<Rightarrow> mqtt \<Rightarrow> (MQTTStatus \<times> nat \<times> mqtt) option" where
  "process_loop net deadline now st i m =
     (if now < deadline \<and> going st then
        (case net i of (ps, st', now') \<Rightarrow>
           do { m' \<leftarrow> callbacks ps m; process_loop net deadline now' st' (i + 1) m' })
      else Some (st, i, m))"

definition ProcessLoopWithTimeout :: "(nat \<Rightarrow> turn) \<Rightarrow> u32 \<Rightarrow> u32 \<Rightarrow> mqtt \<Rightarrow> (bool \<times> nat \<times> mqtt) option" where
  "ProcessLoopWithTimeout net now timeout m =
     do { (st, n, m) \<leftarrow> process_loop net (now + timeout) now MQTTSuccess 0 m; Some (going st, n, m) }"

declare connect_loop.simps [code] ack_loop.simps [code] process_loop.simps [code]

section \<open>Sessions\<close>

text \<open>
  \<open>init\<close>, \<open>stateful\<close>: whether the two initialisations of the library succeed, \<open>conn\<close>: whether the broker accepts,
  \<open>present\<close>: whether it still has the session, \<open>oks\<close>: the statuses of the resent publishes.
\<close>

definition EstablishMqttSession ::
  "(nat \<Rightarrow> bool) \<Rightarrow> (nat \<Rightarrow> u32) \<Rightarrow> bool \<Rightarrow> bool \<Rightarrow> bool \<Rightarrow> bool \<Rightarrow> (nat \<Rightarrow> bool) \<Rightarrow> mqtt \<Rightarrow> (bool \<times> mqtt) option" where
  "EstablishMqttSession tls rnd init stateful conn present oks m =
     (case connectToBrokerWithBackoffRetries tls rnd of
        None \<Rightarrow> None
      | Some (False, _) \<Rightarrow> Some (False, m\<lparr>nextPacketId := 0\<rparr>)
      | Some (True, _) \<Rightarrow>
          if \<not> init then Some (False, m\<lparr>nextPacketId := 0\<rparr>)
          else if \<not> stateful then Some (False, m\<lparr>nextPacketId := 1\<rparr>)
          else if \<not> conn then Some (False, m\<lparr>nextPacketId := 1\<rparr>)
          else
            let m = m\<lparr>nextPacketId := 1, mqttSessionEstablished := True\<rparr>
            in if present then handlePublishResend oks m else Some (True, cleanupOutgoingPublishes m))"

text \<open>\<open>ok\<close>: whether the DISCONNECT could be sent.\<close>

definition DisconnectMqttSession :: "bool \<Rightarrow> mqtt \<Rightarrow> bool" where
  "DisconnectMqttSession ok m \<longleftrightarrow> mqttSessionEstablished m \<and> ok"

section \<open>Connecting\<close>

text \<open>The largest delays after each failed attempt, for \<open>n\<close> retries from a jitter of \<open>j\<close>.\<close>

fun caps :: "nat \<Rightarrow> nat \<Rightarrow> nat list" where
  "caps 0 j = []"
| "caps (Suc n) j = j # caps n (if j < 2500 then 2 * j else 5000)"

lemma backoff_delay:
  assumes "BackoffAlgorithm_GetNextBackoff b r = Some (d, b')"
  shows "unat d \<le> unat (nextJitterMax b)"
proof -
  let ?j = "nextJitterMax b"
  have j: "unat ?j < 2 ^ 16" using unsigned_less [of ?j] by simp
  then have d1: "unat (ucast ?j + 1 :: u32) = unat ?j + 1"
    by (simp add: unat_word_ariths unsigned_ucast_eq take_bit_nat_eq_self)
  have "unat (r mod (ucast ?j + 1)) \<le> unat ?j"
    unfolding unat_mod_distrib d1 by (simp add: less_Suc_eq_le [symmetric])
  moreover have "unat (ucast w :: u16) \<le> unat w" for w :: u32
    by (simp add: unsigned_ucast_eq take_bit_nat_less_eq_self)
  ultimately show ?thesis
    using assms by (auto simp: BackoffAlgorithm_GetNextBackoff_def split: if_splits intro: order_trans)
qed

text \<open>A context with \<open>n\<close> retries left.\<close>

definition retries_left :: "nat \<Rightarrow> backoff \<Rightarrow> bool" where
  "retries_left n b \<longleftrightarrow> maxRetryAttempts b = 5 \<and> n \<le> 5 \<and> unat (attemptsDone b) = 5 - n \<and> maxBackoffDelay b = 5000"

lemma backoff_none: "retries_left 0 b \<Longrightarrow> BackoffAlgorithm_GetNextBackoff b r = None"
  by (auto simp: retries_left_def BackoffAlgorithm_GetNextBackoff_def word_less_nat_alt)

lemma backoff_next:
  assumes "retries_left (Suc n) b"
  obtains d b' where "BackoffAlgorithm_GetNextBackoff b r = Some (d, b')" "retries_left n b'"
    "unat (nextJitterMax b') = (if unat (nextJitterMax b) < 2500 then 2 * unat (nextJitterMax b) else 5000)"
proof -
  have n: "n < 5" and spent: "unat (attemptsDone b) = 4 - n" using assms by (auto simp: retries_left_def)
  let ?j = "nextJitterMax b"
  let ?b = "b\<lparr>attemptsDone := attemptsDone b + 1,
     nextJitterMax := (if ?j < maxBackoffDelay b div 2 then ?j + ?j else maxBackoffDelay b)\<rparr>"
  have "unat (attemptsDone b + 1) = Suc (unat (attemptsDone b))"
    by (simp add: unat_word_ariths(1) spent)
  then have "retries_left n ?b" using assms n by (auto simp: retries_left_def)
  moreover have "attemptsDone b < maxRetryAttempts b" using assms n by (auto simp: retries_left_def word_less_nat_alt)
  moreover have "unat (nextJitterMax ?b) = (if unat ?j < 2500 then 2 * unat ?j else 5000)"
  proof -
    have h: "maxBackoffDelay b = 5000" using assms by (simp add: retries_left_def)
    have "?j < 5000 div 2 \<longleftrightarrow> unat ?j < 2500" by (simp add: word_less_nat_alt)
    moreover have "unat (?j + ?j) = 2 * unat ?j" if "unat ?j < 2500" using that by (simp add: unat_word_ariths)
    ultimately show ?thesis by (simp add: h)
  qed
  ultimately show ?thesis using that [of "ucast (r mod (ucast ?j + 1))" ?b]
    by (simp add: BackoffAlgorithm_GetNextBackoff_def)
qed

lemma connect_loop_bounds:
  "retries_left n b \<Longrightarrow> \<exists>ds. connect_loop tls rnd i b = Some (\<exists>j \<le> n. tls (i + j), i + length ds + 1, ds)
     \<and> length ds \<le> n \<and> list_all2 (\<lambda>d c. unat d \<le> c) ds (take (length ds) (caps n (unat (nextJitterMax b))))"
proof (induction n arbitrary: i b)
  case 0
  then show ?case by (subst connect_loop.simps) (simp add: backoff_none)
next
  case (Suc n)
  have split: "(\<exists>j \<le> Suc n. tls (i + j)) \<longleftrightarrow> tls i \<or> (\<exists>j \<le> n. tls (Suc i + j))"
    by (metis add_Suc_right add_Suc add.right_neutral le0 not0_implies_Suc Suc_le_mono)
  show ?case
  proof (cases "tls i")
    case True
    then show ?thesis using split by (subst connect_loop.simps) (auto intro!: exI [of _ "[]"])
  next
    case False
    obtain d b' where nx: "BackoffAlgorithm_GetNextBackoff b (rnd i) = Some (d, b')" "retries_left n b'"
      "unat (nextJitterMax b') = (if unat (nextJitterMax b) < 2500 then 2 * unat (nextJitterMax b) else 5000)"
      using Suc.prems by (rule backoff_next)
    obtain ds where ds: "connect_loop tls rnd (Suc i) b' = Some (\<exists>j \<le> n. tls (Suc i + j), Suc i + length ds + 1, ds)"
      "length ds \<le> n" "list_all2 (\<lambda>d c. unat d \<le> c) ds (take (length ds) (caps n (unat (nextJitterMax b'))))"
      using Suc.IH [OF nx(2), of "Suc i"] by auto
    have "connect_loop tls rnd i b = Some (\<exists>j \<le> Suc n. tls (i + j), i + length (d # ds) + 1, d # ds)"
      using False split ds(1) nx(1) by (subst connect_loop.simps) simp
    moreover have "unat d \<le> unat (nextJitterMax b)" using nx(1) by (rule backoff_delay)
    ultimately show ?thesis using ds(2,3) nx(3) by (intro exI [of _ "d # ds"]) simp
  qed
qed

lemma list_all2_sum_le: "list_all2 (\<lambda>d c. f d \<le> (c :: nat)) ds cs \<Longrightarrow> sum_list (map f ds) \<le> sum_list cs"
  by (induction rule: list_all2_induct) auto

lemma sum_list_take_le: "sum_list (take n cs) \<le> sum_list (cs :: nat list)"
  by (metis append_take_drop_id le_add1 sum_list_append)

text \<open>
  C33: whatever the network answers and whatever random numbers are drawn, connecting ends: after at
  most six attempts and at most 12.5 s of delays in all, and it succeeds exactly when one of the first six
  attempts does.
\<close>

theorem connecting_ends:
  "\<exists>n ds. connectToBrokerWithBackoffRetries tls rnd = Some (\<exists>j < 6. tls j, n, ds)
     \<and> n \<le> 6 \<and> length ds = n - 1 \<and> list_all2 (\<lambda>d c. unat d \<le> c) ds (take (n - 1) [500, 1000, 2000, 4000, 5000])
     \<and> sum_list (map unat ds) \<le> 12500"
proof -
  let ?b = "BackoffAlgorithm_InitializeParams 500 5000 5"
  have b: "retries_left 5 ?b" "unat (nextJitterMax ?b) = 500"
    by (simp_all add: retries_left_def BackoffAlgorithm_InitializeParams_def)
  have c: "caps 5 500 = [500, 1000, 2000, 4000, 5000]" by code_simp
  obtain ds where ds: "connect_loop tls rnd 0 ?b = Some (\<exists>j \<le> 5. tls j, length ds + 1, ds)" "length ds \<le> 5"
    "list_all2 (\<lambda>d c. unat d \<le> c) ds (take (length ds) [500, 1000, 2000, 4000, 5000])"
    using connect_loop_bounds [OF b(1), of tls rnd 0] by (auto simp: b(2) c)
  have "j < 6 \<longleftrightarrow> j \<le> 5" for j :: nat by arith
  then have "(\<exists>j < 6. tls j) = (\<exists>j \<le> 5. tls j)" by simp
  moreover have "sum_list (map unat ds) \<le> 12500"
    using list_all2_sum_le [OF ds(3)] sum_list_take_le [of "length ds" "[500, 1000, 2000, 4000, 5000]"] by simp
  ultimately show ?thesis using ds by (auto simp: connectToBrokerWithBackoffRetries_def)
qed

section \<open>Unacknowledged publishes\<close>

lemma free_index_Some: "free_index i ps = Some k \<Longrightarrow> i \<le> k \<and> k - i < length ps \<and> packetId (ps ! (k - i)) = 0"
  by (induction ps arbitrary: i) (fastforce simp: nth_Cons' Suc_diff_le split: if_splits)+

lemma free_index_None: "free_index i ps = None \<longleftrightarrow> (\<forall>p \<in> set ps. packetId p \<noteq> 0)"
  by (induction ps arbitrary: i) auto

lemma id_index_Some: "id_index x i ps = Some k \<Longrightarrow> i \<le> k \<and> k - i < length ps \<and> packetId (ps ! (k - i)) = x"
  by (induction ps arbitrary: i) (fastforce simp: nth_Cons' Suc_diff_le split: if_splits)+

lemma id_index_None: "id_index x i ps = None \<longleftrightarrow> (\<forall>p \<in> set ps. packetId p \<noteq> x)"
  by (induction ps arbitrary: i) auto

text \<open>The numbers in the table, 0 for a free place; the messages in flight; no number is used twice.\<close>

definition ids :: "mqtt \<Rightarrow> u16 list" where
  "ids m = map packetId (outgoingPublishPackets m)"

definition nonzero :: "u16 list \<Rightarrow> u16 set" where
  "nonzero xs = {k \<in> set xs. k \<noteq> 0}"

definition ids_ok :: "u16 list \<Rightarrow> bool" where
  "ids_ok xs \<longleftrightarrow> (\<forall>i < length xs. \<forall>j < length xs. xs ! i = xs ! j \<and> xs ! i \<noteq> 0 \<longrightarrow> i = j)"

lemma nonzero_nth: "k \<in> nonzero xs \<longleftrightarrow> (\<exists>i < length xs. xs ! i = k \<and> k \<noteq> 0)"
  by (auto simp: nonzero_def in_set_conv_nth)

lemma ids_ok_put:
  assumes "ids_ok xs" "i < length xs" "xs ! i = 0" "k \<notin> nonzero xs" "k \<noteq> 0"
  shows "ids_ok (xs[i := k])" "nonzero (xs[i := k]) = insert k (nonzero xs)"
proof -
  show "ids_ok (xs[i := k])" using assms
    unfolding ids_ok_def by (simp add: nth_list_update nonzero_nth) metis
  show "nonzero (xs[i := k]) = insert k (nonzero xs)"
  proof (rule set_eqI)
    fix l show "l \<in> nonzero (xs[i := k]) \<longleftrightarrow> l \<in> insert k (nonzero xs)"
      using assms by (auto simp: nonzero_nth nth_list_update)
  qed
qed

lemma ids_ok_clear:
  assumes "ids_ok xs" "i < length xs"
  shows "ids_ok (xs[i := 0])" "nonzero (xs[i := 0]) = nonzero xs - {xs ! i}"
proof -
  show "ids_ok (xs[i := 0])" using assms
    unfolding ids_ok_def by (simp add: nth_list_update) blast
  show "nonzero (xs[i := 0]) = nonzero xs - {xs ! i}"
  proof (rule set_eqI)
    fix l show "l \<in> nonzero (xs[i := 0]) \<longleftrightarrow> l \<in> nonzero xs - {xs ! i}"
      using assms unfolding ids_ok_def by (auto simp: nonzero_nth nth_list_update)
  qed
qed

lemma card_nonzero:
  assumes "ids_ok xs" "length xs = 5"
  shows "card (nonzero xs) = 5 \<longleftrightarrow> 0 \<notin> set xs"
proof
  assume "card (nonzero xs) = 5"
  moreover have "card (set xs) \<le> 5" using card_length [of xs] assms(2) by simp
  ultimately have "nonzero xs = set xs" by (intro card_seteq) (auto simp: nonzero_def)
  then show "0 \<notin> set xs" by (auto simp: nonzero_def)
next
  assume z: "0 \<notin> set xs"
  then have "distinct xs" using assms(1) unfolding ids_ok_def distinct_conv_nth by (metis nth_mem)
  moreover have "nonzero xs = set xs" using z by (auto simp: nonzero_def)
  ultimately show "card (nonzero xs) = 5" using assms(2) by (simp add: distinct_card)
qed

text \<open>What the application and the broker do in one connection.\<close>

datatype mqtt_op = Send bool nat nat | Acked u16

fun mqtt_do :: "mqtt_op \<Rightarrow> mqtt \<Rightarrow> (bool \<times> mqtt) option" where
  "mqtt_do (Send ok topic payload) m = PublishToTopic ok topic payload m"
| "mqtt_do (Acked k) m = map_option (\<lambda>m. (True, m)) (mqttCallback (PUBACK k) m)"

fun mqtt_run :: "mqtt_op list \<Rightarrow> mqtt \<Rightarrow> (bool list \<times> mqtt) option" where
  "mqtt_run [] m = Some ([], m)"
| "mqtt_run (a # as) m = do { (r, m) \<leftarrow> mqtt_do a m; (rs, m) \<leftarrow> mqtt_run as m; Some (r # rs, m) }"

text \<open>
  The contract: a counter and the set of messages that are not acknowledged, at most five.
\<close>

fun spec_do :: "mqtt_op \<Rightarrow> u16 \<times> u16 set \<Rightarrow> bool \<times> (u16 \<times> u16 set)" where
  "spec_do (Send ok topic payload) (n, U) =
     (if card U = 5 then (False, n, U) else (ok, n + 1, if ok then insert n U else U))"
| "spec_do (Acked k) (n, U) = (True, n, U - {k})"

fun spec_run :: "mqtt_op list \<Rightarrow> u16 \<times> u16 set \<Rightarrow> bool list \<times> (u16 \<times> u16 set)" where
  "spec_run [] s = ([], s)"
| "spec_run (a # as) s = (case spec_do a s of (r, s) \<Rightarrow> case spec_run as s of (rs, s) \<Rightarrow> (r # rs, s))"

definition abs_mqtt :: "mqtt \<Rightarrow> u16 \<times> u16 set" where
  "abs_mqtt m = (nextPacketId m, nonzero (ids m))"

text \<open>\<open>j\<close> more messages fit before the numbers start again.\<close>

definition mqtt_ok :: "nat \<Rightarrow> mqtt \<Rightarrow> bool" where
  "mqtt_ok j m \<longleftrightarrow> length (outgoingPublishPackets m) = 5 \<and> ids_ok (ids m) \<and> nextPacketId m \<noteq> 0
     \<and> unat (nextPacketId m) + j \<le> 65535 \<and> (\<forall>k \<in> nonzero (ids m). k < nextPacketId m)"

fun op_ok :: "mqtt_op \<Rightarrow> mqtt \<Rightarrow> bool" where
  "op_ok (Send ok topic payload) m \<longleftrightarrow> topic \<in> dom (memory m) \<and> payload \<in> dom (memory m)"
| "op_ok (Acked k) m \<longleftrightarrow> k \<noteq> 0"

lemma ids_update: "ids (m\<lparr>outgoingPublishPackets := (outgoingPublishPackets m)[i := p]\<rparr>) = (ids m)[i := packetId p]"
  by (simp add: ids_def map_update)

lemma ids_simps [simp]:
  "ids (m\<lparr>nextPacketId := n\<rparr>) = ids m" "ids (m\<lparr>published := x\<rparr>) = ids m" "ids (m\<lparr>globalAckPacketIdentifier := k\<rparr>) = ids m"
  by (simp_all add: ids_def)

lemma mqtt_do_refines:
  assumes ok: "mqtt_ok (Suc j) m" and op: "op_ok a m"
  shows "\<exists>r m'. mqtt_do a m = Some (r, m') \<and> spec_do a (abs_mqtt m) = (r, abs_mqtt m') \<and> mqtt_ok j m' \<and> memory m' = memory m"
proof (cases a)
  case (Acked k)
  have k: "k \<noteq> 0" using op Acked by simp
  show ?thesis
  proof (cases "id_index k 0 (outgoingPublishPackets m)")
    case None
    then have "k \<notin> nonzero (ids m)" by (auto simp: id_index_None nonzero_def ids_def)
    then show ?thesis using ok None k Acked
      by (auto simp: mqttCallback_def cleanupOutgoingPublishWithPacketID_def abs_mqtt_def mqtt_ok_def)
  next
    case (Some i)
    then have i: "i < length (ids m)" "ids m ! i = k" using id_index_Some [OF Some] by (simp_all add: ids_def)
    let ?m = "cleanupOutgoingPublishAt i (m\<lparr>globalAckPacketIdentifier := k\<rparr>)"
    have m': "ids ?m = (ids m)[i := 0]" by (simp add: cleanupOutgoingPublishAt_def ids_update no_packet_def ids_def map_update)
    have c: "ids_ok (ids ?m)" "nonzero (ids ?m) = nonzero (ids m) - {k}"
      unfolding m' using ids_ok_clear [of "ids m" i] ok i by (simp_all add: mqtt_ok_def)
    have "mqtt_ok j ?m \<and> memory ?m = memory m" using ok c by (auto simp: mqtt_ok_def cleanupOutgoingPublishAt_def)
    moreover have "abs_mqtt ?m = (nextPacketId m, nonzero (ids m) - {k})"
      using c(2) by (simp add: abs_mqtt_def cleanupOutgoingPublishAt_def)
    moreover have "mqtt_do a m = Some (True, ?m)" using Some k Acked
      by (simp add: mqttCallback_def cleanupOutgoingPublishWithPacketID_def)
    moreover have "spec_do a (abs_mqtt m) = (True, abs_mqtt ?m)" using Acked \<open>abs_mqtt ?m = _\<close>
      by (simp add: abs_mqtt_def [of m])
    ultimately show ?thesis by blast
  qed
next
  case (Send ok' topic payload)
  have len: "length (ids m) = 5" "ids_ok (ids m)" using ok by (simp_all add: mqtt_ok_def ids_def)
  show ?thesis
  proof (cases "free_index 0 (outgoingPublishPackets m)")
    case None
    then have "0 \<notin> set (ids m)" by (auto simp: free_index_None ids_def)
    then have "card (nonzero (ids m)) = 5" using card_nonzero [OF len(2,1)] by simp
    then show ?thesis using ok None Send
      by (intro exI [of _ False] exI [of _ m])
        (simp add: PublishToTopic_def getNextFreeIndexForOutgoingPublishes_def abs_mqtt_def mqtt_ok_def)
  next
    case (Some i)
    then have i: "i < length (ids m)" "ids m ! i = 0" using free_index_Some [OF Some] by (simp_all add: ids_def)
    then have "0 \<in> set (ids m)" by (metis nth_mem)
    then have card: "card (nonzero (ids m)) \<noteq> 5" using card_nonzero [OF len(2,1)] by simp
    obtain t q where mem: "memory m topic = Some t" "memory m payload = Some q" using op Send by auto
    let ?k = "nextPacketId m"
    have k: "?k \<noteq> 0" "?k \<notin> nonzero (ids m)" using ok by (auto simp: mqtt_ok_def)
    have n: "?k \<noteq> 0xFFFF" "unat (?k + 1) = unat ?k + 1" "?k + 1 \<noteq> 0" "?k < ?k + 1"
    proof -
      have b: "unat ?k + 1 \<le> 65535" using ok by (simp add: mqtt_ok_def)
      then show "?k \<noteq> 0xFFFF" by auto
      show u: "unat (?k + 1) = unat ?k + 1" using b by (simp add: unat_word_ariths)
      show "?k + 1 \<noteq> 0" using u by auto
      show "?k < ?k + 1" using u by (simp add: word_less_nat_alt)
    qed
    let ?p = "(outgoingPublishPackets m ! i)\<lparr>pTopicName := topic, pPayload := payload, packetId := ?k\<rparr>"
    let ?m1 = "m\<lparr>nextPacketId := ?k + 1, outgoingPublishPackets := (outgoingPublishPackets m)[i := ?p]\<rparr>"
    let ?m2 = "?m1\<lparr>published := published m @ [(?k, t, q, dup (outgoingPublishPackets m ! i))]\<rparr>"
    let ?m3 = "?m1\<lparr>outgoingPublishPackets := (outgoingPublishPackets m)[i := no_packet]\<rparr>"
    have run: "mqtt_do a m = Some (if ok' then (True, ?m2) else (False, ?m3))"
      using Some mem n(1) Send
      by (simp add: PublishToTopic_def getNextFreeIndexForOutgoingPublishes_def MQTT_GetPacketId_def MQTT_Publish_def
          cleanupOutgoingPublishAt_def Let_def)
    have ids': "ids ?m2 = (ids m)[i := ?k]" "ids ?m3 = (ids m)[i := 0]"
      by (simp_all add: ids_def map_update no_packet_def)
    note put = ids_ok_put [OF len(2) i k(2,1)] and clear = ids_ok_clear [OF len(2) i(1), unfolded i(2)]
    have nz: "nonzero (ids m) - {0} = nonzero (ids m)" by (auto simp: nonzero_def)
    have less: "\<forall>l \<in> nonzero (ids m). l < ?k + 1" using ok n(4) by (auto simp: mqtt_ok_def intro: less_trans)
    have b: "unat ?k + 1 + j \<le> 65535" using ok by (simp add: mqtt_ok_def)
    have "mqtt_ok j ?m2" unfolding mqtt_ok_def ids' using put less n(2,3,4) b ok by (simp add: mqtt_ok_def)
    moreover have "mqtt_ok j ?m3" unfolding mqtt_ok_def ids' using clear less n(2,3,4) b ok nz by (simp add: mqtt_ok_def)
    moreover have "abs_mqtt ?m2 = (?k + 1, insert ?k (nonzero (ids m)))" "abs_mqtt ?m3 = (?k + 1, nonzero (ids m))"
      unfolding abs_mqtt_def ids' using put clear nz by simp_all
    ultimately show ?thesis using run card Send
      by (intro exI [of _ ok'] exI [of _ "if ok' then ?m2 else ?m3"]) (simp add: abs_mqtt_def [of m])
  qed
qed

lemma op_ok_memory: "memory m' = memory m \<Longrightarrow> op_ok a m' = op_ok a m"
  by (cases a) simp_all

text \<open>
  C11: refinement.  Over one connection, up to the 65534th message, the table of packets behaves as a set of at most five
  unacknowledged messages with fresh numbers: a message is refused exactly when five are
  unacknowledged, one that the library does not take is forgotten, and an acknowledgement removes exactly its message.
\<close>

theorem publishes_tracked:
  assumes "mqtt_ok (length as) m" "\<forall>a \<in> set as. op_ok a m"
  shows "\<exists>rs m'. mqtt_run as m = Some (rs, m') \<and> spec_run as (abs_mqtt m) = (rs, abs_mqtt m')
    \<and> finite (snd (abs_mqtt m')) \<and> card (snd (abs_mqtt m')) \<le> 5"
  using assms
proof (induction as arbitrary: m)
  case Nil
  have "card (nonzero (ids m)) \<le> card (set (ids m))" by (rule card_mono) (auto simp: nonzero_def)
  also have "\<dots> \<le> 5" using Nil card_length [of "ids m"] by (simp add: mqtt_ok_def ids_def)
  finally show ?case by (simp add: abs_mqtt_def nonzero_def)
next
  case (Cons a as)
  obtain r m1 where m1: "mqtt_do a m = Some (r, m1)" "spec_do a (abs_mqtt m) = (r, abs_mqtt m1)"
    "mqtt_ok (length as) m1" "memory m1 = memory m"
    using mqtt_do_refines [of "length as" m a] Cons.prems by auto
  obtain rs m' where m': "mqtt_run as m1 = Some (rs, m')" "spec_run as (abs_mqtt m1) = (rs, abs_mqtt m')"
    "finite (snd (abs_mqtt m')) \<and> card (snd (abs_mqtt m')) \<le> 5"
    using Cons.IH [OF m1(3)] Cons.prems(2) op_ok_memory [OF m1(4)] by auto
  show ?case using m1(1,2) m' by (intro exI [of _ "r # rs"] exI [of _ m']) simp
qed

text \<open>A session just established, with a topic and a payload in memory.\<close>

definition fresh_session :: mqtt where
  "fresh_session = mqtt_boot\<lparr>nextPacketId := 1, mqttSessionEstablished := True, memory := [1 \<mapsto> ''topic'', 2 \<mapsto> ''payload'']\<rparr>"

theorem publishes_tracked_witness:
  "\<exists>m'. mqtt_run (replicate 6 (Send True 1 2) @ [Acked 2, Send True 1 2]) fresh_session
       = Some ([True, True, True, True, True, False, True, True], m')
     \<and> abs_mqtt m' = (7, {1, 3, 4, 5, 6})"
proof -
  let ?as = "replicate 6 (Send True 1 2) @ [Acked 2, Send True 1 2]"
  have "ids fresh_session = replicate 5 0"
    by (simp add: ids_def fresh_session_def mqtt_boot_def no_packet_def map_replicate_const)
  then have n: "nonzero (ids fresh_session) = {}" "ids_ok (ids fresh_session)"
    by (auto simp: nonzero_def ids_ok_def)
  then have ok: "mqtt_ok (length ?as) fresh_session"
    by (simp add: mqtt_ok_def fresh_session_def mqtt_boot_def ids_def)
  have "\<forall>a \<in> set ?as. op_ok a fresh_session" by (simp add: fresh_session_def)
  from publishes_tracked [OF ok this] obtain rs m' where
    m': "mqtt_run ?as fresh_session = Some (rs, m')" "spec_run ?as (abs_mqtt fresh_session) = (rs, abs_mqtt m')"
    by blast
  have "abs_mqtt fresh_session = (1, {})" using n by (simp add: abs_mqtt_def fresh_session_def)
  moreover have "spec_run ?as (1, {}) = ([True, True, True, True, True, False, True, True], 7, {1, 3, 4, 5, 6})"
    by code_simp
  ultimately show ?thesis using m' by auto
qed

section \<open>Waiting for an acknowledgement\<close>

lemma ack_loop_quiet:
  assumes "\<forall>j. i \<le> j \<and> j < n \<longrightarrow> fst (net j) = [] \<and> going (fst (snd (net j))) \<and> snd (snd (net j)) < deadline"
    and "i \<le> n" "now < deadline" "going st" "globalAckPacketIdentifier m \<noteq> k"
  shows "\<exists>now' st'. ack_loop net k deadline now st i m = ack_loop net k deadline now' st' n m
    \<and> now' < deadline \<and> going st'"
  using assms
proof (induction "n - i" arbitrary: i now st)
  case 0
  then show ?case by auto
next
  case (Suc d)
  obtain st' now' where t: "net i = ([], st', now')" "going st'" "now' < deadline"
    using Suc.prems(1) [rule_format, of i] Suc.hyps(2) by (cases "net i") auto
  have "ack_loop net k deadline now st i m = ack_loop net k deadline now' st' (Suc i) m"
    using Suc.prems(3,4,5) t(1) by (subst ack_loop.simps) simp
  moreover have "d = n - Suc i" "Suc i \<le> n" using Suc.hyps(2) by auto
  ultimately show ?case using Suc.hyps(1) [of "Suc i" now' st'] Suc.prems(1,5) t(2,3) by auto
qed

text \<open>
  Waiting for the acknowledgement of a subscription.  When it arrives in a turn that starts before
  the time is over, after turns without packets, waiting succeeds right after that turn.  The deadline is a 32-bit
  number of milliseconds: once in 49.7 days, within the last second before the clock starts again, it wraps, and
  waiting fails at once without a single turn.
\<close>

theorem subscription_wait:
  assumes "k \<noteq> 0"
  shows "if unat now + unat timeout < 2 ^ 32
    then (\<forall>n st t. 0 < timeout \<and> globalSubscribePacketIdentifier m = k \<and> net n = ([SUBACK k], st, t) \<and> going st
            \<and> (\<forall>j < n. fst (net j) = [] \<and> going (fst (snd (net j))) \<and> snd (snd (net j)) < now + timeout)
          \<longrightarrow> waitForPacketAck net now k timeout m = Some (True, n + 1, m\<lparr>globalAckPacketIdentifier := k\<rparr>))
    else waitForPacketAck net now k timeout m = Some (False, 0, m\<lparr>globalAckPacketIdentifier := 0\<rparr>)"
proof (cases "unat now + unat timeout < 2 ^ 32")
  case True
  let ?m = "m\<lparr>globalAckPacketIdentifier := 0\<rparr>"
  have "waitForPacketAck net now k timeout m = Some (True, n + 1, m\<lparr>globalAckPacketIdentifier := k\<rparr>)"
    if h: "0 < timeout" "globalSubscribePacketIdentifier m = k" "net n = ([SUBACK k], st, t)" "going st"
      "\<forall>j < n. fst (net j) = [] \<and> going (fst (snd (net j))) \<and> snd (snd (net j)) < now + timeout" for n st t
  proof -
    have "unat (now + timeout) = unat now + unat timeout" using True by (subst unat_add_lem [THEN iffD1]) simp_all
    then have "now < now + timeout" using h(1) by (simp add: word_less_nat_alt unat_gt_0)
    then obtain now' st' where l: "ack_loop net k (now + timeout) now MQTTSuccess 0 ?m
        = ack_loop net k (now + timeout) now' st' n ?m" "now' < now + timeout" "going st'"
      using ack_loop_quiet [of 0 n net "now + timeout" now MQTTSuccess ?m k] h(5) assms by auto
    have "ack_loop net k (now + timeout) now' st' n ?m
        = ack_loop net k (now + timeout) t st (n + 1) (m\<lparr>globalAckPacketIdentifier := k\<rparr>)"
      using l(2,3) assms h(2,3) by (subst ack_loop.simps) (simp add: mqttCallback_def)
    also have "\<dots> = Some (st, n + 1, m\<lparr>globalAckPacketIdentifier := k\<rparr>)" by (subst ack_loop.simps) simp
    finally show ?thesis using l(1) h(4) by (simp add: waitForPacketAck_def)
  qed
  then show ?thesis using True by auto
next
  case False
  have l: "unat now < 2 ^ 32" "unat timeout < 2 ^ 32" using unsigned_less [of now] unsigned_less [of timeout] by simp_all
  have "unat (now + timeout) = (unat now + unat timeout) mod 2 ^ 32" by (simp add: unat_word_ariths(1))
  also have "\<dots> = unat now + unat timeout - 2 ^ 32" using l False by (subst mod_if) (simp del: power_numeral)
  finally have "unat (now + timeout) \<le> unat now" using l(2) by linarith
  then have "\<not> now < now + timeout" by (simp add: word_less_nat_alt)
  then have "ack_loop net k (now + timeout) now MQTTSuccess 0 (m\<lparr>globalAckPacketIdentifier := 0\<rparr>)
      = Some (MQTTSuccess, 0, m\<lparr>globalAckPacketIdentifier := 0\<rparr>)"
    by (subst ack_loop.simps) simp
  then show ?thesis using False assms by (simp add: waitForPacketAck_def)
qed

theorem subscription_wait_witness:
  "waitForPacketAck (\<lambda>i. if i = 0 then ([], MQTTNeedMoreBytes, 60) else ([SUBACK 3], MQTTSuccess, 70)) 50 3 1000
     (mqtt_boot\<lparr>globalSubscribePacketIdentifier := 3\<rparr>)
   = Some (True, 2, mqtt_boot\<lparr>globalSubscribePacketIdentifier := 3, globalAckPacketIdentifier := 3\<rparr>)
   \<and> waitForPacketAck (\<lambda>i. ([SUBACK 3], MQTTSuccess, 0)) 0xFFFFFF00 3 1000 mqtt_boot
     = Some (False, 0, mqtt_boot\<lparr>globalAckPacketIdentifier := 0\<rparr>)"
proof -
  let ?net = "\<lambda>i :: nat. if i = 0 then ([], MQTTNeedMoreBytes, 60 :: u32) else ([SUBACK 3], MQTTSuccess, 70)"
  let ?m = "mqtt_boot\<lparr>globalSubscribePacketIdentifier := 3\<rparr>"
  have d: "unat (50 :: u32) + unat (1000 :: u32) < 2 ^ 32" "\<not> unat (0xFFFFFF00 :: u32) + unat (1000 :: u32) < 2 ^ 32"
    by simp_all
  have h: "(0::u32) < 1000 \<and> globalSubscribePacketIdentifier ?m = 3 \<and> ?net 1 = ([SUBACK 3], MQTTSuccess, 70)
      \<and> going MQTTSuccess
      \<and> (\<forall>j < 1. fst (?net j) = [] \<and> going (fst (snd (?net j))) \<and> snd (snd (?net j)) < 50 + 1000)"
    by simp
  have "waitForPacketAck ?net 50 3 1000 ?m = Some (True, 1 + 1, ?m\<lparr>globalAckPacketIdentifier := 3\<rparr>)"
    using mp [OF spec [OF spec [OF spec [OF subscription_wait [of 3 50 1000 ?m ?net, unfolded if_P [OF d(1)]]]]] h] by simp
  moreover have "waitForPacketAck (\<lambda>i. ([SUBACK 3], MQTTSuccess, 0)) 0xFFFFFF00 3 1000 mqtt_boot = Some (False, 0, mqtt_boot\<lparr>globalAckPacketIdentifier := 0\<rparr>)"
    using subscription_wait [of 3 "0xFFFFFF00" 1000 mqtt_boot "\<lambda>i. ([SUBACK 3], MQTTSuccess, 0)", unfolded if_not_P [OF d(2)]] by simp
  ultimately show ?thesis by simp
qed

text \<open>Waiting neither publishes nor subscribes.\<close>

lemma callbacks_keep:
  "callbacks ps m = Some m' \<Longrightarrow> subscribed m' = subscribed m \<and> published m' = published m \<and> memory m' = memory m"
proof (induction ps arbitrary: m)
  case (Cons p ps)
  then obtain m1 where 1: "mqttCallback p m = Some m1" "callbacks ps m1 = Some m'" by (auto split: bind_splits)
  have "subscribed m1 = subscribed m \<and> published m1 = published m \<and> memory m1 = memory m"
    using 1(1) by (auto simp: mqttCallback_def cleanupOutgoingPublishWithPacketID_def cleanupOutgoingPublishAt_def
        split: packet.splits if_splits option.splits)
  then show ?case using Cons.IH [OF 1(2)] by simp
qed simp

lemmas ack_loop_induct = ack_loop.raw_induct [rotated, consumes 1, case_names step]

lemma ack_loop_keeps:
  "ack_loop net k deadline now st i m = Some r \<Longrightarrow> subscribed (snd (snd r)) = subscribed m \<and> published (snd (snd r)) = published m"
proof (induction rule: ack_loop_induct)
  case (step f net k deadline now st i m r)
  obtain ps st' now' where n: "net i = (ps, st', now')" by (cases "net i")
  from step(2) n have "r = (st, i, m) \<or> (\<exists>m'. callbacks ps m = Some m' \<and> f net k deadline now' st' (i + 1) m' = Some r)"
    by (auto split: if_splits bind_splits)
  then show ?case
  proof (elim disjE exE conjE)
    fix m' assume "callbacks ps m = Some m'" "f net k deadline now' st' (i + 1) m' = Some r"
    then show ?thesis using step(1) [of net k deadline now' st' "i + 1" m' r] callbacks_keep [of ps m m'] by simp
  qed simp
qed

lemma subscribe_keeps:
  assumes "SubscribeToTopic net now ok topic m = Some (r, n, m')"
  shows "published m' = published m
    \<and> map snd (subscribed m') = map snd (subscribed m) @ (if ok then [topic] else [])"
proof -
  obtain k m1 where 1: "MQTT_GetPacketId m = (k, m1)" "published m1 = published m" "subscribed m1 = subscribed m"
    by (simp add: MQTT_GetPacketId_def)
  show ?thesis
  proof (cases ok)
    case True
    obtain st where "ack_loop net k (now + 1000) now MQTTSuccess 0
        (m1\<lparr>globalSubscribePacketIdentifier := k, subscribed := subscribed m @ [(k, topic)], globalAckPacketIdentifier := 0\<rparr>)
        = Some (st, n, m')"
      using assms 1 True by (auto simp: SubscribeToTopic_def waitForPacketAck_def Let_def split: bind_splits)
    from ack_loop_keeps [OF this] show ?thesis using 1 True by simp
  next
    case False
    then show ?thesis using assms 1 by (auto simp: SubscribeToTopic_def Let_def)
  qed
qed

section \<open>Resending\<close>

text \<open>Resending stops at the first message whose payload is no longer in memory.\<close>

lemma resend_freed:
  assumes "i \<in> set is" "distinct is" "\<forall>j \<in> set is. j < length (outgoingPublishPackets m)"
    and "packetId (outgoingPublishPackets m ! i) \<noteq> 0" "memory m (pPayload (outgoingPublishPackets m ! i)) = None"
  shows "resend_from (\<lambda>_. True) is m = None"
  using assms
proof (induction "is" arbitrary: m)
  case (Cons j js)
  let ?p = "(outgoingPublishPackets m ! j)\<lparr>dup := True\<rparr>"
  let ?m = "m\<lparr>outgoingPublishPackets := (outgoingPublishPackets m)[j := ?p]\<rparr>"
  show ?case
  proof (cases "packetId (outgoingPublishPackets m ! j) = 0")
    case True
    then show ?thesis using Cons by auto
  next
    case pending: False
    show ?thesis
    proof (cases "j = i")
      case True
      then have "MQTT_Publish True ?p ?m = None"
        using Cons.prems by (auto simp: MQTT_Publish_def split: bind_splits)
      then show ?thesis using pending by (simp add: Let_def)
    next
      case False
      then have "resend_from (\<lambda>_. True) js m' = None" if "MQTT_Publish True ?p ?m = Some m'" for m'
        using that Cons.prems by (intro Cons.IH) (auto simp: MQTT_Publish_def split: if_splits bind_splits)
      then show ?thesis using pending by (auto simp: Let_def split: bind_splits)
    qed
  qed
qed simp

end
