(* ===== verification/Ble_Tracker.thy ===== *)
theory Ble_Tracker
  imports Prelude
begin

text \<open>
  The table of pet trackers, \<open>src/main/ble/ble_tracker_id.c\<close>: trackers that come near are entered,
  trackers not seen for 5 s are switched off, and a measured amount of water is shared among those
  that were near, in proportion to their time.  A slot of the table is a pointer, \<open>None\<close> when
  \<open>NULL\<close>; memory is taken as available.  Each loop over the slots touches only the slot it is at,
  so it is a \<open>map\<close>.
\<close>

section \<open>State\<close>

record tracker_device =
  Device_ID :: "char list"
  total_Device_Time :: u32
  Device_Time :: u32
  Disable_Time :: u32
  diff_Time :: u32
  Enable :: u32
  Water_intake :: u32

abbreviation (input) TRACKER_DEVICE_MAX :: nat where "TRACKER_DEVICE_MAX \<equiv> 20"

record trackers =
  Tracker_Device :: "tracker_device option list"
  Tracker_UNKNOWN :: tracker_device
  Motion_Send_enable :: bool
  Motion_Send_tick :: int
  motion_requests :: nat

definition zero_device :: tracker_device where
  "zero_device = \<lparr>Device_ID = [], total_Device_Time = 0, Device_Time = 0, Disable_Time = 0,
     diff_Time = 0, Enable = 0, Water_intake = 0\<rparr>"

definition trackers_init :: trackers where
  "trackers_init = \<lparr>Tracker_Device = replicate TRACKER_DEVICE_MAX None,
     Tracker_UNKNOWN = zero_device\<lparr>Device_ID := ''UNKNOWN''\<rparr>,
     Motion_Send_enable = False, Motion_Send_tick = 50, motion_requests = 0\<rparr>"

definition on_devices :: "(tracker_device \<Rightarrow> tracker_device) \<Rightarrow> trackers \<Rightarrow> trackers" where
  "on_devices f s = s\<lparr>Tracker_Device := map (map_option f) (Tracker_Device s)\<rparr>"

definition devices :: "trackers \<Rightarrow> tracker_device list" where
  "devices s = List.map_filter id (Tracker_Device s)"

section \<open>Operations\<close>

text \<open>\<open>Tracker_Device_disable\<close>, on the device of the slot.\<close>

definition Tracker_Device_disable :: "tracker_device \<Rightarrow> tracker_device" where
  "Tracker_Device_disable d =
     d\<lparr>total_Device_Time := total_Device_Time d + Device_Time d, diff_Time := Device_Time d,
       Enable := 0, Device_Time := 0\<rparr>"

definition Tracker_device_time_add :: "tracker_device \<Rightarrow> tracker_device" where
  "Tracker_device_time_add d = (if Enable d \<noteq> 0 then d\<lparr>Device_Time := Device_Time d + 100\<rparr> else d)"

text \<open>The share of one device: a 64-bit product, divided, and cut to 32 bits.\<close>

definition allocated_water :: "u32 \<Rightarrow> u32 \<Rightarrow> u32 \<Rightarrow> u32" where
  "allocated_water weight total_time diff = of_nat (unat diff * unat weight div unat total_time)"

definition give_water :: "u32 \<Rightarrow> u32 \<Rightarrow> tracker_device \<Rightarrow> tracker_device" where
  "give_water weight total_time d =
     (if diff_Time d > 0
      then d\<lparr>Water_intake := Water_intake d + allocated_water weight total_time (diff_Time d), diff_Time := 0\<rparr>
      else d)"

definition Tracker_waterintake_end :: "u32 \<Rightarrow> trackers \<Rightarrow> trackers" where
  "Tracker_waterintake_end weight s =
     (let s = on_devices (\<lambda>d. if Enable d \<noteq> 0 then Tracker_Device_disable d else d) s;
          total_time_sum = sum_list (map diff_Time (devices s))
      in if total_time_sum = 0
         then s\<lparr>Tracker_UNKNOWN := (Tracker_UNKNOWN s)\<lparr>Water_intake := Water_intake (Tracker_UNKNOWN s) + weight\<rparr>\<rparr>
         else on_devices (give_water weight total_time_sum) s)"

text \<open>
  The scan of \<open>Tracker_In_ID\<close>: the slot of a device with this ID ends it, otherwise it yields the
  first free slot.
\<close>

fun find_id :: "char list \<Rightarrow> nat \<Rightarrow> nat option \<Rightarrow> tracker_device option list \<Rightarrow> nat + nat option" where
  "find_id ident i target [] = Inr target"
| "find_id ident i target (Some d # ds) =
     (if Device_ID d = ident then Inl i else find_id ident (i + 1) target ds)"
| "find_id ident i target (None # ds) =
     find_id ident (i + 1) (if target = None then Some i else target) ds"

text \<open>\<open>strncpy\<close> of at most 31 characters into a zeroed structure.\<close>

definition new_device :: "char list \<Rightarrow> tracker_device" where
  "new_device ident = zero_device\<lparr>Device_ID := take 31 ident, Enable := 1\<rparr>"

definition Tracker_In_ID :: "char list \<Rightarrow> trackers \<Rightarrow> trackers" where
  "Tracker_In_ID ident s =
     (case find_id ident 0 None (Tracker_Device s) of
        Inl i \<Rightarrow> s\<lparr>Tracker_Device := (Tracker_Device s)[i := map_option
                  (\<lambda>d. d\<lparr>Enable := 1, Disable_Time := 0\<rparr>) (Tracker_Device s ! i)]\<rparr>
      | Inr None \<Rightarrow> s
      | Inr (Some i) \<Rightarrow> s\<lparr>Tracker_Device := (Tracker_Device s)[i := Some (new_device ident)]\<rparr>)"

definition MotionSetTimer :: "bool \<Rightarrow> trackers \<Rightarrow> trackers" where
  "MotionSetTimer status s =
     (let s = s\<lparr>Motion_Send_enable := status\<rparr>
      in if Motion_Send_enable s then s\<lparr>Motion_Send_tick := 50\<rparr> else s)"

definition GetTracker_Id_active :: "trackers \<Rightarrow> bool" where
  "GetTracker_Id_active s \<longleftrightarrow> list_ex (\<lambda>d. Enable d \<noteq> 0) (devices s)"

text \<open>One turn of \<open>vTrackerCaptureTask\<close>, every 100 ms; the tick is stored as an \<open>int\<close>.\<close>

definition motion_tick :: "u32 \<Rightarrow> trackers \<Rightarrow> trackers" where
  "motion_tick motion_data_time s =
     (if Motion_Send_enable s then
        (let s = s\<lparr>Motion_Send_tick := Motion_Send_tick s - 1\<rparr>
         in if Motion_Send_tick s \<le> 0
            then s\<lparr>Motion_Send_tick := sint (motion_data_time * 10), motion_requests := motion_requests s + 1\<rparr>
            else s)
      else s)"

definition age_device :: "tracker_device \<Rightarrow> tracker_device" where
  "age_device d =
     (if Enable d \<noteq> 0 then
        (let d = d\<lparr>Disable_Time := Disable_Time d + 100\<rparr>
         in if Disable_Time d \<ge> 5000 then Tracker_Device_disable d else d)
      else d)"

definition vTrackerCaptureTask :: "u32 \<Rightarrow> trackers \<Rightarrow> trackers" where
  "vTrackerCaptureTask motion_data_time s = on_devices age_device (motion_tick motion_data_time s)"

section \<open>Sharing water\<close>

lemma map_filter_map_option: "List.map_filter id (map (map_option f) xs) = map f (List.map_filter id xs)"
  by (induction xs) (auto simp: List.map_filter_def)

lemma devices_on [simp]: "devices (on_devices f s) = map f (devices s)"
  by (simp add: devices_def on_devices_def map_filter_map_option)

lemma devices_unknown [simp]: "devices (s\<lparr>Tracker_UNKNOWN := u\<rparr>) = devices s"
  by (simp add: devices_def)

lemma unknown_on [simp]: "Tracker_UNKNOWN (on_devices f s) = Tracker_UNKNOWN s"
  by (simp add: on_devices_def)

lemma sum_list_div_le:
  fixes ds :: "nat list"
  shows "sum_list (map (\<lambda>d. d * w div n) ds) * n \<le> sum_list ds * w"
proof (induction ds)
  case (Cons d ds)
  have "d * w div n * n \<le> d * w" by (rule div_times_less_eq_dividend)
  with Cons show ?case by (simp only: list.map sum_list.Cons distrib_right add_mono)
qed simp

lemma sum_list_div_gt:
  fixes ds :: "nat list"
  assumes "0 < n"
  shows "sum_list ds * w \<le> sum_list (map (\<lambda>d. d * w div n) ds) * n + length (filter (\<lambda>d. 0 < d) ds) * (n - 1)"
proof (induction ds)
  case (Cons d ds)
  have e: "d * w div n * n + d * w mod n = d * w" by (rule div_mult_mod_eq)
  have "d * w mod n < n" using assms by simp
  with e have "d * w \<le> d * w div n * n + (n - 1)" by linarith
  with Cons show ?case by (cases "d = 0") (simp_all add: distrib_right del: One_nat_def)
qed simp

text \<open>The devices as the first loop of \<open>Tracker_waterintake_end\<close> leaves them.\<close>

definition settled :: "trackers \<Rightarrow> tracker_device list" where
  "settled s = map (\<lambda>d. if Enable d \<noteq> 0 then Tracker_Device_disable d else d) (devices s)"

lemma unat_sum_list:
  "sum_list (map unat ws) < 2 ^ 32 \<Longrightarrow> unat (sum_list ws :: u32) = sum_list (map unat ws)"
proof (induction ws)
  case (Cons w ws)
  then show ?case by (simp add: unat_add_lem [THEN iffD1])
qed simp

lemma waterintake_devices:
  "devices (Tracker_waterintake_end weight s) =
     (let S = sum_list (map diff_Time (settled s))
      in if S = 0 then settled s else map (give_water weight S) (settled s))"
  by (simp add: Tracker_waterintake_end_def settled_def Let_def)

lemma waterintake_unknown:
  "Tracker_UNKNOWN (Tracker_waterintake_end weight s) =
     (let u = Tracker_UNKNOWN s
      in if sum_list (map diff_Time (settled s)) = 0 then u\<lparr>Water_intake := Water_intake u + weight\<rparr> else u)"
  by (simp add: Tracker_waterintake_end_def settled_def Let_def)

lemma settled_water [simp]: "map Water_intake (settled s) = map Water_intake (devices s)"
  by (simp add: settled_def Tracker_Device_disable_def)

definition share :: "nat \<Rightarrow> u32 \<Rightarrow> tracker_device \<Rightarrow> nat" where
  "share S weight d = unat (diff_Time d) * unat weight div S"

lemma give_water_share:
  assumes "unat S = sum_list (map (unat \<circ> diff_Time) ds)" "d \<in> set ds"
  shows "unat (Water_intake (give_water weight S d) - Water_intake d) = share (unat S) weight d"
    "diff_Time (give_water weight S d) = 0"
proof -
  have "unat (diff_Time d) \<le> unat S" using assms member_le_sum_list [of "unat (diff_Time d)" "map (unat \<circ> diff_Time) ds"] by auto
  then have "share (unat S) weight d \<le> unat S * unat weight div unat S"
    unfolding share_def by (intro div_le_mono mult_right_mono) simp_all
  also have "\<dots> \<le> unat weight" by (cases "unat S = 0") simp_all
  also have "\<dots> < 2 ^ LENGTH(32)" by (rule unsigned_less)
  finally have "share (unat S) weight d < 2 ^ 32" by simp
  then show "unat (Water_intake (give_water weight S d) - Water_intake d) = share (unat S) weight d"
    by (auto simp: give_water_def allocated_water_def share_def unsigned_of_nat take_bit_nat_eq_self word_gt_0)
  show "diff_Time (give_water weight S d) = 0"
    by (auto simp: give_water_def word_gt_0)
qed

text \<open>What tracker \<open>i\<close> of the table was credited by an intake.\<close>

definition water_gain :: "u32 \<Rightarrow> trackers \<Rightarrow> nat \<Rightarrow> nat" where
  "water_gain weight s i =
     unat (Water_intake (devices (Tracker_waterintake_end weight s) ! i) - Water_intake (devices s ! i))"

definition drinkers :: "trackers \<Rightarrow> nat" where
  "drinkers s = length (filter (\<lambda>d. 0 < unat (diff_Time d)) (settled s))"

lemma water_gain_share:
  assumes S: "S = sum_list (map (unat \<circ> diff_Time) (settled s))" "0 < S" "S < 2 ^ 32"
    and i: "i < length (devices s)"
  shows "water_gain weight s i = share S weight (settled s ! i)
    \<and> diff_Time (devices (Tracker_waterintake_end weight s) ! i) = 0"
proof -
  let ?S = "sum_list (map diff_Time (settled s))" and ?ds = "settled s"
  have len: "length ?ds = length (devices s)" by (simp add: settled_def)
  have uS: "unat ?S = S" using unat_sum_list [of "map diff_Time ?ds"] S by (simp add: comp_def)
  then have "?S \<noteq> 0" using S(2) by auto
  then have after: "devices (Tracker_waterintake_end weight s) = map (give_water weight ?S) ?ds"
    by (simp add: waterintake_devices Let_def)
  have "Water_intake (devices s ! i) = Water_intake (?ds ! i)"
    using i by (simp add: settled_def Tracker_Device_disable_def)
  then show ?thesis
    using i len give_water_share [of ?S ?ds "?ds ! i" weight] uS S(1) by (simp add: water_gain_def after)
qed

text \<open>
  Water is shared out in proportion.  While the drinking times add up to less than \<open>2^32\<close> ms,
  each tracker gets the floor of its proportional share, together they get at most what was drunk,
  and less than one unit per drinker is lost by rounding; the times are then cleared.
\<close>

theorem water_shared_out:
  assumes S: "S = sum_list (map (unat \<circ> diff_Time) (settled s))" "0 < S" "S < 2 ^ 32"
  shows "(\<forall>i < length (devices s). water_gain weight s i = share S weight (settled s ! i)
      \<and> diff_Time (devices (Tracker_waterintake_end weight s) ! i) = 0)
    \<and> sum_list (map (water_gain weight s) [0..<length (devices s)]) \<le> unat weight
    \<and> unat weight < sum_list (map (water_gain weight s) [0..<length (devices s)]) + drinkers s"
proof -
  let ?ds = "settled s" and ?g = "sum_list (map (water_gain weight s) [0..<length (devices s)])"
  have len: "length ?ds = length (devices s)" by (simp add: settled_def)
  have "map (water_gain weight s) [0..<length (devices s)] = map (\<lambda>i. share S weight (?ds ! i)) [0..<length ?ds]"
    using water_gain_share [OF S] by (simp add: len)
  also have "\<dots> = map (share S weight) ?ds" by (rule nth_equalityI) simp_all
  finally have g: "?g = sum_list (map (\<lambda>d. d * unat weight div S) (map (unat \<circ> diff_Time) ?ds))"
    by (simp add: share_def [abs_def] comp_def)
  have le: "?g * S \<le> S * unat weight"
    using sum_list_div_le [of "unat weight" S "map (unat \<circ> diff_Time) ?ds"] by (simp only: g S(1) [symmetric])
  have n: "length (filter (\<lambda>d. 0 < d) (map (unat \<circ> diff_Time) ?ds)) = drinkers s"
    by (simp add: drinkers_def filter_map comp_def)
  have gt: "S * unat weight \<le> ?g * S + drinkers s * (S - 1)"
    using sum_list_div_gt [OF S(2), of "map (unat \<circ> diff_Time) ?ds" "unat weight"]
    by (simp only: g n S(1) [symmetric])
  have "drinkers s \<noteq> 0"
  proof
    assume "drinkers s = 0"
    then have "\<forall>d \<in> set ?ds. unat (diff_Time d) = 0" by (auto simp: drinkers_def filter_empty_conv)
    then have "sum_list (map (unat \<circ> diff_Time) ?ds) = 0" by (simp add: sum_list_eq_0_iff)
    then show False using S(1,2) by linarith
  qed
  then have "drinkers s * (S - 1) < drinkers s * S" using S(2) by simp
  with gt have "S * unat weight < S * (?g + drinkers s)" by (simp only: distrib_left mult.commute)
  then show ?thesis using water_gain_share [OF S] le S(2) by (simp add: mult.commute)
qed

text \<open>Two trackers were near for 1 s and 2 s; 10 units were drunk.\<close>

definition two_drinkers :: trackers where
  "two_drinkers = trackers_init\<lparr>Tracker_Device := (Tracker_Device trackers_init)
     [0 := Some ((new_device ''A'')\<lparr>Device_Time := 1000\<rparr>), 3 := Some ((new_device ''B'')\<lparr>Device_Time := 2000\<rparr>)]\<rparr>"

theorem water_shared_out_witness:
  "map (water_gain 10 two_drinkers) [0, 1] = [3, 6] \<and> drinkers two_drinkers = 2"
proof -
  have d: "settled two_drinkers = [Tracker_Device_disable ((new_device ''A'')\<lparr>Device_Time := 1000\<rparr>),
      Tracker_Device_disable ((new_device ''B'')\<lparr>Device_Time := 2000\<rparr>)]" and l: "length (devices two_drinkers) = 2"
    by code_simp+
  have S: "3000 = sum_list (map (unat \<circ> diff_Time) (settled two_drinkers))"
    by (simp add: d Tracker_Device_disable_def)
  note w = water_shared_out [OF S, of 10, simplified l, simplified]
  show ?thesis
    using spec [OF conjunct1 [OF w], of 0] spec [OF conjunct1 [OF w], of 1]
    by (simp add: d share_def Tracker_Device_disable_def drinkers_def)
qed

section \<open>Runs\<close>

text \<open>The calls other tasks make, in any order.\<close>

datatype tracker_op = Sighting "char list" | Tick u32 | Intake u32 | Timer bool

fun tracker_do :: "tracker_op \<Rightarrow> trackers \<Rightarrow> trackers" where
  "tracker_do (Sighting ident) = Tracker_In_ID ident"
| "tracker_do (Tick t) = vTrackerCaptureTask t"
| "tracker_do (Intake w) = Tracker_waterintake_end w"
| "tracker_do (Timer b) = MotionSetTimer b"

fun intake_of :: "tracker_op \<Rightarrow> u32" where
  "intake_of (Intake w) = w"
| "intake_of _ = 0"

fun sighting_of :: "tracker_op \<Rightarrow> char list list" where
  "sighting_of (Sighting ident) = [ident]"
| "sighting_of _ = []"

definition tracker_run :: "tracker_op list \<Rightarrow> trackers" where
  "tracker_run ops = fold tracker_do ops trackers_init"

lemma find_id_Inl:
  "find_id ident i t ds = Inl j \<Longrightarrow> i \<le> j \<and> j - i < length ds \<and> (\<exists>d. ds ! (j - i) = Some d \<and> Device_ID d = ident)"
proof (induction ident i t ds rule: find_id.induct)
  case (2 ident i t d ds)
  then show ?case by (auto split: if_splits simp: nth_Cons' Suc_diff_le)
next
  case (3 ident i t ds)
  then show ?case by (auto simp: nth_Cons')
qed simp

lemma find_id_Inr:
  "find_id ident i t ds = Inr r \<Longrightarrow> (\<forall>d. Some d \<in> set ds \<longrightarrow> Device_ID d \<noteq> ident)
    \<and> (\<forall>j. r = Some j \<longrightarrow> t = Some j \<or> i \<le> j \<and> j - i < length ds \<and> ds ! (j - i) = None)"
proof (induction ident i t ds rule: find_id.induct)
  case (2 ident i t d ds)
  then show ?case by (auto split: if_splits simp: nth_Cons' Suc_diff_le)
next
  case (3 ident i t ds)
  then show ?case by (auto simp: nth_Cons' split: if_splits)
qed simp

lemma devices_iff: "d \<in> set (devices s) \<longleftrightarrow> Some d \<in> set (Tracker_Device s)"
  by (force simp: devices_def List.map_filter_def)

lemma on_devices_nth: "i < length (Tracker_Device s) \<Longrightarrow>
  Tracker_Device (on_devices f s) ! i = map_option f (Tracker_Device s ! i)"
  by (simp add: on_devices_def)

lemma motion_tick_frame [simp]:
  "Tracker_Device (motion_tick t s) = Tracker_Device s" "Tracker_UNKNOWN (motion_tick t s) = Tracker_UNKNOWN s"
  by (simp_all add: motion_tick_def Let_def)

lemma MotionSetTimer_frame [simp]:
  "Tracker_Device (MotionSetTimer b s) = Tracker_Device s" "Tracker_UNKNOWN (MotionSetTimer b s) = Tracker_UNKNOWN s"
  by (simp_all add: MotionSetTimer_def Let_def)

text \<open>What a sighting can do to the table.\<close>

lemma Tracker_In_ID_cases:
  obtains (known) i d where "Tracker_Device s ! i = Some d" "i < length (Tracker_Device s)" "Device_ID d = ident"
      "Tracker_In_ID ident s = s\<lparr>Tracker_Device := (Tracker_Device s)[i := Some (d\<lparr>Enable := 1, Disable_Time := 0\<rparr>)]\<rparr>"
  | (fresh) i where "Tracker_Device s ! i = None" "i < length (Tracker_Device s)"
      "\<forall>d. Some d \<in> set (Tracker_Device s) \<longrightarrow> Device_ID d \<noteq> ident"
      "Tracker_In_ID ident s = s\<lparr>Tracker_Device := (Tracker_Device s)[i := Some (new_device ident)]\<rparr>"
  | (full) "Tracker_In_ID ident s = s"
proof (cases "find_id ident 0 None (Tracker_Device s)")
  case (Inl i)
  then show ?thesis using find_id_Inl [OF Inl] known [of i] by (auto simp: Tracker_In_ID_def)
next
  case (Inr r)
  then show ?thesis using find_id_Inr [OF Inr] fresh full by (cases r) (auto simp: Tracker_In_ID_def)
qed

text \<open>A device that was never timed: \<open>Tracker_device_time_add\<close> is compiled out of the task.\<close>

definition untimed :: "tracker_device \<Rightarrow> bool" where
  "untimed d \<longleftrightarrow> Device_Time d = 0 \<and> diff_Time d = 0 \<and> Water_intake d = 0"

lemma tracker_do_untimed:
  assumes "\<forall>d \<in> set (devices s). untimed d"
  shows "(\<forall>d \<in> set (devices (tracker_do a s)). untimed d)
    \<and> Water_intake (Tracker_UNKNOWN (tracker_do a s)) = Water_intake (Tracker_UNKNOWN s) + intake_of a"
proof (cases a)
  case (Sighting ident)
  show ?thesis
    using assms Sighting
    by (cases rule: Tracker_In_ID_cases [of s ident])
      (auto simp: devices_iff untimed_def new_device_def zero_device_def dest!: set_update_subset_insert [THEN subsetD] nth_mem)
next
  case (Tick t)
  have "untimed (age_device d)" if "untimed d" for d
    using that by (simp add: age_device_def untimed_def Tracker_Device_disable_def Let_def)
  then show ?thesis using assms Tick by (auto simp: vTrackerCaptureTask_def devices_def [of "motion_tick t s"] devices_def [of s])
next
  case (Intake w)
  have u: "\<forall>d \<in> set (settled s). untimed d"
    using assms by (auto simp: settled_def untimed_def Tracker_Device_disable_def)
  then have "map diff_Time (settled s) = map (\<lambda>_. 0) (settled s)" by (simp add: untimed_def)
  then have "sum_list (map diff_Time (settled s)) = 0" using sum_list_0 [of "settled s"] by metis
  then show ?thesis using u Intake by (simp add: waterintake_devices waterintake_unknown Let_def)
next
  case (Timer b)
  then show ?thesis using assms by (simp add: devices_def)
qed

lemma tracker_fold_untimed:
  "\<forall>d \<in> set (devices s). untimed d \<Longrightarrow>
    (\<forall>d \<in> set (devices (fold tracker_do ops s)). untimed d)
    \<and> Water_intake (Tracker_UNKNOWN (fold tracker_do ops s))
      = Water_intake (Tracker_UNKNOWN s) + sum_list (map intake_of ops)"
proof (induction ops arbitrary: s)
  case (Cons a ops)
  note now = tracker_do_untimed [OF Cons.prems, of a]
  note later = Cons.IH [OF conjunct1 [OF now]]
  have "Water_intake (Tracker_UNKNOWN (fold tracker_do (a # ops) s))
      = Water_intake (Tracker_UNKNOWN s) + sum_list (map intake_of (a # ops))"
    using later now by (simp only: fold.simps o_apply list.map sum_list.Cons add.assoc)
  moreover have "\<forall>d \<in> set (devices (fold tracker_do (a # ops) s)). untimed d"
    unfolding fold.simps o_apply by (rule conjunct1 [OF later])
  ultimately show ?case by blast
qed simp

text \<open>
  As the program is built no tracker is ever credited with water: the only function that adds
  drinking time is compiled out, so whatever was seen and drunk, all of it is booked as unknown.
\<close>

theorem all_water_unknown:
  "(\<forall>d \<in> set (devices (tracker_run ops)). Water_intake d = 0)
   \<and> Water_intake (Tracker_UNKNOWN (tracker_run ops)) = sum_list (map intake_of ops)"
proof -
  have "devices trackers_init = []" "Water_intake (Tracker_UNKNOWN trackers_init) = 0" by code_simp+
  then show ?thesis
    using tracker_fold_untimed [of trackers_init ops] by (simp add: tracker_run_def untimed_def)
qed

section \<open>Identity and absence\<close>

definition ids_apart :: "trackers \<Rightarrow> bool" where
  "ids_apart s \<longleftrightarrow> (\<forall>i j a b. i < length (Tracker_Device s) \<longrightarrow> j < length (Tracker_Device s) \<longrightarrow>
     Tracker_Device s ! i = Some a \<longrightarrow> Tracker_Device s ! j = Some b \<longrightarrow> Device_ID a = Device_ID b \<longrightarrow> i = j)"

lemma ids_apart_on: "(\<And>d. Device_ID (f d) = Device_ID d) \<Longrightarrow> ids_apart s \<Longrightarrow> ids_apart (on_devices f s)"
  by (auto simp: ids_apart_def on_devices_def)

lemma ids_apart_same: "Tracker_Device t = Tracker_Device s \<Longrightarrow> ids_apart t = ids_apart s"
  by (simp add: ids_apart_def)

lemma disable_id [simp]: "Device_ID (Tracker_Device_disable d) = Device_ID d"
  by (simp add: Tracker_Device_disable_def)

lemma ids_apart_upd:
  assumes "ids_apart s" "i < length (Tracker_Device s)"
    and "\<And>j b. j < length (Tracker_Device s) \<Longrightarrow> j \<noteq> i \<Longrightarrow> Tracker_Device s ! j = Some b \<Longrightarrow> Device_ID b \<noteq> Device_ID d"
  shows "ids_apart (s\<lparr>Tracker_Device := (Tracker_Device s)[i := Some d]\<rparr>)"
  unfolding ids_apart_def
proof (intro allI impI)
  fix j k a b
  let ?T = "Tracker_Device (s\<lparr>Tracker_Device := (Tracker_Device s)[i := Some d]\<rparr>)"
  assume "j < length ?T" "k < length ?T" "?T ! j = Some a" "?T ! k = Some b" "Device_ID a = Device_ID b"
  then show "j = k"
    using assms(3) [of j a] assms(3) [of k b] assms(1,2) unfolding ids_apart_def
    by (cases "j = i"; cases "k = i") simp_all
qed

lemma ids_apart_do:
  assumes "ids_apart s" "\<forall>ident \<in> set (sighting_of a). length ident \<le> 31"
  shows "ids_apart (tracker_do a s)"
proof (cases a)
  case (Sighting ident)
  have short: "take 31 ident = ident" using assms(2) Sighting by simp
  show ?thesis
  proof (cases rule: Tracker_In_ID_cases [of s ident])
    case (known i d)
    then have "Device_ID b \<noteq> Device_ID d" if "j < length (Tracker_Device s)" "j \<noteq> i" "Tracker_Device s ! j = Some b" for j b
      using that assms(1) unfolding ids_apart_def by metis
    then show ?thesis
      using known ids_apart_upd [OF assms(1) known(2), of "d\<lparr>Enable := 1, Disable_Time := 0\<rparr>"] Sighting by simp
  next
    case (fresh i)
    then have "Device_ID b \<noteq> ident" if "j < length (Tracker_Device s)" "Tracker_Device s ! j = Some b" for j b
      using that nth_mem by metis
    then show ?thesis
      using fresh ids_apart_upd [OF assms(1) fresh(2), of "new_device ident"] Sighting short
      by (simp add: new_device_def)
  next
    case full
    then show ?thesis using assms(1) Sighting by simp
  qed
next
  case (Tick t)
  then show ?thesis
    using assms(1) ids_apart_same [of "motion_tick t s" s]
    by (simp add: vTrackerCaptureTask_def ids_apart_on age_device_def Let_def)
next
  case (Intake w)
  have "Device_ID (give_water x y d) = Device_ID d" for x y d by (simp add: give_water_def)
  then show ?thesis
    using assms(1) Intake
    by (auto simp: Tracker_waterintake_end_def Let_def ids_apart_on ids_apart_same [of "on_devices f s\<lparr>Tracker_UNKNOWN := u\<rparr>" "on_devices f s" for f u])
next
  case (Timer b)
  then show ?thesis using assms(1) ids_apart_same [of "MotionSetTimer b s" s] by simp
qed

text \<open>
  The table never holds a tracker twice, as long as the names seen have at most 31 characters.
  (Longer names are stored cut, so that they are not recognised: see the witness.)
\<close>

theorem trackers_kept_apart:
  assumes "\<forall>a \<in> set ops. \<forall>ident \<in> set (sighting_of a). length ident \<le> 31"
  shows "ids_apart (tracker_run ops)"
proof -
  have "ids_apart (fold tracker_do ops s)" if "ids_apart s" for s
    using that assms
  proof (induction ops arbitrary: s)
    case (Cons a ops)
    then show ?case using ids_apart_do [of s a] by simp
  qed simp
  moreover have "ids_apart trackers_init" by (simp add: ids_apart_def trackers_init_def)
  ultimately show ?thesis by (simp add: tracker_run_def)
qed

theorem trackers_kept_apart_witness:
  "ids_apart (tracker_run [Sighting ''A'', Sighting ''B'', Sighting ''A''])
   \<and> length (devices (tracker_run (replicate 3 (Sighting (replicate 32 (CHR ''x'')))))) = 3"
proof
  show "ids_apart (tracker_run [Sighting ''A'', Sighting ''B'', Sighting ''A''])"
    by (rule trackers_kept_apart) simp
  show "length (devices (tracker_run (replicate 3 (Sighting (replicate 32 (CHR ''x'')))))) = 3"
    by code_simp
qed

lemma age_young:
  "Enable d \<noteq> 0 \<Longrightarrow> Disable_Time d + 100 < 5000 \<Longrightarrow>
    Enable (age_device d) = Enable d \<and> Disable_Time (age_device d) = Disable_Time d + 100"
  by (auto simp: age_device_def Let_def linorder_not_le [symmetric])

lemma age_off: "Enable d = 0 \<Longrightarrow> age_device d = d"
  by (simp add: age_device_def)

lemma age_old: "Disable_Time d + 100 \<ge> 5000 \<Longrightarrow> Enable (age_device d) = 0"
  by (simp add: age_device_def Let_def Tracker_Device_disable_def)

text \<open>
  A tracker that was just seen stays on for 49 turns of the task without being seen again,
  and is off from the fiftieth, 5 s later.
\<close>

theorem tracker_off_after_five_seconds:
  assumes "Enable d \<noteq> 0" "Disable_Time d = 0"
  shows "Enable ((age_device ^^ n) d) \<noteq> 0 \<longleftrightarrow> n < 50"
proof -
  have on: "Enable ((age_device ^^ n) d) = Enable d \<and> Disable_Time ((age_device ^^ n) d) = of_nat (100 * n)"
    if "n < 50" for n
    using that
  proof (induction n)
    case (Suc n)
    have "(of_nat (100 * Suc n) :: u32) < 5000" using Suc.prems
      by (simp only: word_less_nat_alt unsigned_of_nat) (simp add: take_bit_nat_eq_self)
    then show ?case
      using Suc assms age_young [of "(age_device ^^ n) d"] by (simp add: algebra_simps)
  qed (use assms in simp)
  have off: "Enable ((age_device ^^ (50 + k)) d) = 0" for k
  proof (induction k)
    case 0
    have "(age_device ^^ 50) d = age_device ((age_device ^^ 49) d)"
      using funpow.simps(2) [of 49 age_device] by simp
    then show ?case using on [of 49] assms age_old [of "(age_device ^^ 49) d"] by simp
  next
    case (Suc k)
    have "(age_device ^^ (50 + Suc k)) d = age_device ((age_device ^^ (50 + k)) d)"
      by (simp only: add_Suc_right funpow.simps(2) comp_apply)
    with Suc show ?case using age_off by simp
  qed
  show ?thesis using on [of n] off [of "n - 50"] assms by (cases "n < 50") simp_all
qed

theorem tracker_off_after_five_seconds_witness:
  "Enable ((age_device ^^ 49) (new_device ''A'')) \<noteq> 0 \<and> Enable ((age_device ^^ 50) (new_device ''A'')) = 0"
  using tracker_off_after_five_seconds [of "new_device ''A''" 49] tracker_off_after_five_seconds [of "new_device ''A''" 50]
  by (simp add: new_device_def zero_device_def del: funpow.simps)

end
