(* ===== verification/Ble_Link.thy ===== *)
theory Ble_Link
  imports Ble_Tracker "HOL-Library.Monad_Syntax"
begin

text \<open>
  The Bluetooth link, \<open>src/main/ble/ble_task.c\<close> and the packet part of \<open>src/main/ble/ble_parse.c\<close>:
  the events of the stack with the filter and the cache of beacons, the queues to and from the phone
  with the task that cuts a message into notifications, and the motion data transfer of a tracker.
  The stack itself is a parameter: its events and answers are arguments, and what the code asks it
  to send is collected in the state.
\<close>

section \<open>State\<close>

record dev_info =
  addr :: "u8 list"
  dev_name :: "char list"
  dev_rssi :: int

abbreviation (input) BLE_HS_CONN_HANDLE_NONE :: u16 where "BLE_HS_CONN_HANDLE_NONE \<equiv> 0xFFFF"
abbreviation (input) CONFIG_BT_NIMBLE_MAX_CONNECTIONS :: nat where "CONFIG_BT_NIMBLE_MAX_CONNECTIONS \<equiv> 5"
abbreviation (input) BLE_QUEUE_LEN :: nat where "BLE_QUEUE_LEN \<equiv> 10"

text \<open>
  The first \<open>dev_count\<close> entries of \<open>dev_list\<close>, the rolling index, the connection, the queue to the
  phone (\<open>None\<close> before \<open>ble_task_init\<close>), and the table of trackers.
\<close>

record ble =
  conn_handle_subs :: "bool list"
  current_conn_handle :: u16
  is_phone_connected :: bool
  tracker_found_f :: bool
  g_ble_max_payload :: u16
  ble_tx_queue :: "u8 list list option"
  dev_list :: "dev_info list"
  rolling_idx :: nat
  mac_timer :: bool
  advertised :: nat
  tracker_table :: trackers

definition ble_boot :: ble where
  "ble_boot = \<lparr>conn_handle_subs = replicate (CONFIG_BT_NIMBLE_MAX_CONNECTIONS + 1) False,
     current_conn_handle = BLE_HS_CONN_HANDLE_NONE, is_phone_connected = False, tracker_found_f = False,
     g_ble_max_payload = 20, ble_tx_queue = None, dev_list = [], rolling_idx = 0, mac_timer = False,
     advertised = 0, tracker_table = trackers_init\<rparr>"

section \<open>Events of the stack\<close>

text \<open>
  What the parser of the stack finds in an advertisement: the name and the service data, when it has
  them.  \<open>behind\<close> is the byte of memory after the service data, which the code reads when they are one
  byte long.
\<close>

record adv_fields =
  fname :: "char list option"
  svc_data_uuid16 :: "u8 list option"
  behind :: u8

record disc_event =
  disc_addr :: "u8 list"
  disc_rssi :: int
  disc_fields :: "adv_fields option"

fun find_addr :: "u8 list \<Rightarrow> nat \<Rightarrow> dev_info list \<Rightarrow> nat option" where
  "find_addr a i [] = None"
| "find_addr a i (d # ds) = (if addr d = a then Some i else find_addr a (i + 1) ds)"

definition packet_name :: "adv_fields \<Rightarrow> nat option \<Rightarrow> dev_info list \<Rightarrow> char list" where
  "packet_name f idx ds =
     (case fname f of
        Some n \<Rightarrow> if length n > 0 then cstr (take 31 n) else (case idx of None \<Rightarrow> [] | Some i \<Rightarrow> dev_name (ds ! i))
      | None \<Rightarrow> (case idx of None \<Rightarrow> [] | Some i \<Rightarrow> dev_name (ds ! i)))"

text \<open>The slot for an address that is not in the cache: the next free one, or the rolling one.\<close>

definition cache_slot :: "nat option \<Rightarrow> ble \<Rightarrow> nat \<times> ble" where
  "cache_slot idx s =
     (case idx of
        Some i \<Rightarrow> (i, s)
      | None \<Rightarrow>
          if length (dev_list s) < 20
          then (length (dev_list s), s\<lparr>dev_list := dev_list s @ [\<lparr>addr = [], dev_name = [], dev_rssi = 0\<rparr>]\<rparr>)
          else (rolling_idx s, s\<lparr>rolling_idx := (rolling_idx s + 1) mod 20\<rparr>))"

definition printable :: "u8 \<Rightarrow> char" where
  "printable c = (if 32 \<le> unat c \<and> unat c \<le> 126 then char_of (unat c) else CHR ''.'')"

definition payload_text :: "u8 list \<Rightarrow> char list" where
  "payload_text ds = map printable (take 63 ds)"

definition svc_uuid :: "u8 list \<Rightarrow> u8 \<Rightarrow> u16" where
  "svc_uuid ds after = push_bit 8 (ucast ((ds @ [after]) ! 1)) OR ucast (ds ! 0)"

definition gap_disc :: "int \<Rightarrow> disc_event \<Rightarrow> ble \<Rightarrow> ble" where
  "gap_disc gate_way_rssi_th e s =
     (case disc_fields e of
        None \<Rightarrow> s
      | Some f \<Rightarrow>
          if disc_rssi e < gate_way_rssi_th then s\<lparr>tracker_found_f := False\<rparr>
          else
            let s = s\<lparr>tracker_found_f := True\<rparr>;
                idx = find_addr (disc_addr e) 0 (dev_list s);
                n = packet_name f idx (dev_list s)
            in case svc_data_uuid16 f of
                 None \<Rightarrow> s
               | Some ds \<Rightarrow>
                   if length ds = 0 then s
                   else if svc_uuid ds (behind f) \<noteq> 0x1234 then s
                   else
                     let (i, s) = cache_slot idx s;
                         s = s\<lparr>dev_list := (dev_list s)[i := \<lparr>addr = disc_addr e, dev_name = n, dev_rssi = disc_rssi e\<rparr>]\<rparr>
                     in if length (drop 2 ds) > 0
                        then s\<lparr>tracker_table := Tracker_In_ID (payload_text (drop 2 ds)) (tracker_table s)\<rparr>
                        else s)"

datatype gap_event =
    Gap_Connect u16 int
  | Gap_Disconnect u16
  | Gap_Subscribe u16
  | Gap_Adv_Complete
  | Gap_Conn_Update
  | Gap_Disc disc_event
  | Gap_Other

definition ble_spp_server_gap_event :: "int \<Rightarrow> gap_event \<Rightarrow> ble \<Rightarrow> ble" where
  "ble_spp_server_gap_event th e s =
     (case e of
        Gap_Connect handle status \<Rightarrow>
          s\<lparr>is_phone_connected := True, mac_timer := True, current_conn_handle := handle,
            tracker_table := MotionSetTimer True (tracker_table s)\<rparr>
      | Gap_Disconnect handle \<Rightarrow>
          let s = s\<lparr>mac_timer := False, current_conn_handle := BLE_HS_CONN_HANDLE_NONE,
                    is_phone_connected := False, tracker_table := MotionSetTimer False (tracker_table s)\<rparr>;
              s = (if unat handle \<le> CONFIG_BT_NIMBLE_MAX_CONNECTIONS
                   then s\<lparr>conn_handle_subs := (conn_handle_subs s)[unat handle := False]\<rparr> else s)
          in s\<lparr>advertised := advertised s + 1\<rparr>
      | Gap_Subscribe handle \<Rightarrow>
          if unat handle \<le> CONFIG_BT_NIMBLE_MAX_CONNECTIONS
          then s\<lparr>conn_handle_subs := (conn_handle_subs s)[unat handle := True]\<rparr> else s
      | Gap_Adv_Complete \<Rightarrow> s\<lparr>advertised := advertised s + 1\<rparr>
      | Gap_Conn_Update \<Rightarrow> s
      | Gap_Disc d \<Rightarrow> gap_disc th d s
      | Gap_Other \<Rightarrow> s)"

section \<open>Sending\<close>

text \<open>\<open>mem\<close>: whether memory for the copy is available.  The queue holds ten messages.\<close>

definition ble_send_data_to_queue :: "bool \<Rightarrow> u8 list \<Rightarrow> ble \<Rightarrow> bool \<times> ble" where
  "ble_send_data_to_queue mem data s =
     (if length data = 0 then (False, s)
      else case ble_tx_queue s of
        None \<Rightarrow> (False, s)
      | Some q \<Rightarrow>
          if \<not> mem then (False, s)
          else if length q < BLE_QUEUE_LEN then (True, s\<lparr>ble_tx_queue := Some (q @ [data])\<rparr>)
          else (False, s))"

text \<open>
  The loop of \<open>ble_tx_processing_task\<close> from an offset on: the notifications it sends, or \<open>None\<close> when it never
  ends.  Offset and length are 16 bits wide.
\<close>

partial_function (option) tx_loop :: "u16 \<Rightarrow> u8 list \<Rightarrow> u16 \<Rightarrow> u8 list list option" where
  "tx_loop max_payload data offset =
     (if unat offset < length data then
        (let send_len = (if length data - unat offset > unat max_payload then max_payload
                         else of_nat (length data - unat offset));
             piece = take (unat send_len) (drop (unat offset) data);
             offset' = offset + send_len
         in if unat offset' = length data then Some [piece]
            else do { ps \<leftarrow> tx_loop max_payload data offset'; Some (piece # ps) })
      else Some [])"

text \<open>One turn of the task: the notifications of the first message of the queue.\<close>

definition ble_tx_processing_task :: "ble \<Rightarrow> (u8 list list \<times> ble) option" where
  "ble_tx_processing_task s =
     (case ble_tx_queue s of
        Some (data # q) \<Rightarrow>
          if is_phone_connected s \<and> current_conn_handle s \<noteq> BLE_HS_CONN_HANDLE_NONE
          then map_option (\<lambda>ps. (ps, s\<lparr>ble_tx_queue := Some q\<rparr>)) (tx_loop (g_ble_max_payload s) data 0)
          else Some ([], s\<lparr>ble_tx_queue := Some q\<rparr>)
      | _ \<Rightarrow> Some ([], s))"

text \<open>The bytes of a \<open>Motion_Packet_t\<close>: the code, the sub-command, and 18 zeros.\<close>

definition motion_msg :: "u8 \<Rightarrow> u8 \<Rightarrow> u8 list option" where
  "motion_msg cmd sub_cmd =
     (if cmd \<in> {0x20, 0x12, 0x21, 0x30} then Some (cmd # sub_cmd # replicate 18 0) else None)"

definition motion_msg_send :: "bool \<Rightarrow> u8 \<Rightarrow> u8 \<Rightarrow> ble \<Rightarrow> ble" where
  "motion_msg_send mem cmd sub_cmd s =
     (case motion_msg cmd sub_cmd of None \<Rightarrow> s | Some p \<Rightarrow> snd (ble_send_data_to_queue mem p s))"

section \<open>The cache of beacons\<close>

definition cache_ok :: "ble \<Rightarrow> bool" where
  "cache_ok s \<longleftrightarrow> length (dev_list s) \<le> 20 \<and> rolling_idx s < 20 \<and> distinct (map addr (dev_list s))
     \<and> (\<forall>d \<in> set (dev_list s). length (dev_name d) \<le> 31) \<and> length (conn_handle_subs s) = 6"

lemma find_addr_Some: "find_addr a i ds = Some k \<Longrightarrow> i \<le> k \<and> k - i < length ds \<and> addr (ds ! (k - i)) = a"
  by (induction ds arbitrary: i) (fastforce simp: nth_Cons' Suc_diff_le split: if_splits)+

lemma find_addr_None: "find_addr a i ds = None \<longleftrightarrow> a \<notin> addr ` set ds"
  by (induction ds arbitrary: i) auto

text \<open>Entering a device in the slot chosen for its address keeps the cache in order.\<close>

definition entered :: "dev_info \<Rightarrow> ble \<Rightarrow> ble" where
  "entered d s = (case cache_slot (find_addr (addr d) 0 (dev_list s)) s of
     (i, s') \<Rightarrow> s'\<lparr>dev_list := (dev_list s')[i := d]\<rparr>)"

lemma entered_ok:
  assumes ok: "cache_ok s" and n: "length (dev_name d) \<le> 31"
  shows "cache_ok (entered d s) \<and> d \<in> set (dev_list (entered d s))"
proof (cases "find_addr (addr d) 0 (dev_list s)")
  case (Some i)
  then have i: "i < length (dev_list s)" "addr (dev_list s ! i) = addr d" using find_addr_Some [OF Some] by auto
  have "map addr ((dev_list s)[i := d]) = map addr (dev_list s)"
    using i by (metis list_update_id map_update nth_map)
  then have "distinct (map addr ((dev_list s)[i := d]))" using ok by (simp add: cache_ok_def)
  moreover have "\<forall>x \<in> set ((dev_list s)[i := d]). length (dev_name x) \<le> 31"
    using ok n by (auto simp: cache_ok_def dest!: set_update_subset_insert [THEN subsetD])
  moreover have "d \<in> set ((dev_list s)[i := d])" using i(1) by (rule set_update_memI)
  ultimately show ?thesis using ok Some by (simp add: entered_def cache_slot_def cache_ok_def)
next
  case None
  then have new: "addr d \<notin> addr ` set (dev_list s)" by (simp add: find_addr_None)
  show ?thesis
  proof (cases "length (dev_list s) < 20")
    case True
    then show ?thesis using ok n new None by (auto simp: entered_def cache_slot_def cache_ok_def)
  next
    case False
    then have r: "rolling_idx s < length (dev_list s)" "length (dev_list s) = 20" using ok by (auto simp: cache_ok_def)
    let ?ds = "(dev_list s)[rolling_idx s := d]"
    have "distinct (map addr ?ds)"
      unfolding map_update using ok new by (intro distinct_list_update) (auto simp: cache_ok_def)
    moreover have "\<forall>x \<in> set ?ds. length (dev_name x) \<le> 31"
      using ok n by (auto simp: cache_ok_def dest!: set_update_subset_insert [THEN subsetD])
    moreover have "d \<in> set ?ds" using r(1) by (rule set_update_memI)
    ultimately show ?thesis using ok r None by (simp add: entered_def cache_slot_def cache_ok_def)
  qed
qed

lemma cache_ok_found [simp]: "cache_ok (s\<lparr>tracker_found_f := b\<rparr>) = cache_ok s"
  by (simp add: cache_ok_def)

lemma cache_ok_table [simp]: "cache_ok (s\<lparr>tracker_table := t\<rparr>) = cache_ok s"
  by (simp add: cache_ok_def)

text \<open>Whether an advertisement passes the filters, and the device it enters then.\<close>

definition passes :: "int \<Rightarrow> disc_event \<Rightarrow> bool" where
  "passes th e \<longleftrightarrow> th \<le> disc_rssi e \<and> (\<exists>f ds. disc_fields e = Some f \<and> svc_data_uuid16 f = Some ds
     \<and> 0 < length ds \<and> svc_uuid ds (behind f) = 0x1234)"

definition disc_info :: "disc_event \<Rightarrow> ble \<Rightarrow> dev_info" where
  "disc_info e s = \<lparr>addr = disc_addr e,
     dev_name = packet_name (the (disc_fields e)) (find_addr (disc_addr e) 0 (dev_list s)) (dev_list s),
     dev_rssi = disc_rssi e\<rparr>"

definition payload :: "disc_event \<Rightarrow> u8 list" where
  "payload e = drop 2 (the (svc_data_uuid16 (the (disc_fields e))))"

lemma cache_slot_found:
  "cache_slot idx (s\<lparr>tracker_found_f := b\<rparr>) = (case cache_slot idx s of (i, s') \<Rightarrow> (i, s'\<lparr>tracker_found_f := b\<rparr>))"
  by (simp add: cache_slot_def split: option.splits)

lemma cache_slot_table: "cache_slot idx s = (i, s') \<Longrightarrow> tracker_table s' = tracker_table s"
  by (auto simp: cache_slot_def split: option.splits if_splits)

lemma gap_disc_passes:
  assumes "passes th e"
  shows "gap_disc th e s =
    (let s' = entered (disc_info e s) (s\<lparr>tracker_found_f := True\<rparr>)
     in if payload e = [] then s'
        else s'\<lparr>tracker_table := Tracker_In_ID (payload_text (payload e)) (tracker_table s)\<rparr>)"
proof -
  obtain i s' where c: "cache_slot (find_addr (disc_addr e) 0 (dev_list s)) (s\<lparr>tracker_found_f := True\<rparr>) = (i, s')"
    by (cases "cache_slot (find_addr (disc_addr e) 0 (dev_list s)) (s\<lparr>tracker_found_f := True\<rparr>)")
  have "tracker_table s' = tracker_table s" using cache_slot_table [OF c] by simp
  then show ?thesis using assms c
    by (auto simp: passes_def gap_disc_def entered_def disc_info_def payload_def Let_def)
qed

lemma gap_disc_blocked:
  assumes "\<not> passes th e"
  shows "gap_disc th e s = s \<or> (\<exists>b. gap_disc th e s = s\<lparr>tracker_found_f := b\<rparr>)"
  using assms by (auto simp: passes_def gap_disc_def Let_def split: option.splits)

lemma packet_name_le:
  assumes "cache_ok s"
  shows "length (dev_name (disc_info e s)) \<le> 31"
proof -
  have "length (dev_name (dev_list s ! i)) \<le> 31" if "find_addr a 0 (dev_list s) = Some i" for a i
    using find_addr_Some [OF that] assms by (auto simp: cache_ok_def)
  moreover have "length (cstr (take 31 n)) \<le> 31" for n
    using length_cstr_le [of "take 31 n"] by simp
  ultimately show ?thesis by (auto simp: disc_info_def packet_name_def split: option.splits)
qed

lemma gap_disc_cache:
  assumes ok: "cache_ok s"
  shows "cache_ok (gap_disc th e s)"
proof (cases "passes th e")
  case True
  have "cache_ok (entered (disc_info e s) (s\<lparr>tracker_found_f := True\<rparr>))"
    using entered_ok [of "s\<lparr>tracker_found_f := True\<rparr>" "disc_info e s"] ok packet_name_le [OF ok] by simp
  then show ?thesis by (simp add: gap_disc_passes [OF True] Let_def)
next
  case False
  then show ?thesis using gap_disc_blocked [OF False, of s] ok by auto
qed

lemma gap_event_cache: "cache_ok s \<Longrightarrow> cache_ok (ble_spp_server_gap_event th e s)"
  by (cases e) (simp_all add: ble_spp_server_gap_event_def gap_disc_cache, simp_all add: cache_ok_def Let_def)

definition gap_events :: "int \<Rightarrow> gap_event list \<Rightarrow> ble \<Rightarrow> ble" where
  "gap_events th es s = fold (ble_spp_server_gap_event th) es s"

lemma gap_events_cache: "cache_ok s \<Longrightarrow> cache_ok (gap_events th es s)"
  by (induction es arbitrary: s) (simp_all add: gap_events_def gap_event_cache)

text \<open>
  Whatever the stack reports, every write to the cache and to the subscription flags is inside
  its array: at most 20 devices are cached, each address once, with a name that fits its 32 bytes.
\<close>

theorem beacon_cache_in_order:
  "let s = gap_events th es ble_boot
   in length (dev_list s) \<le> 20 \<and> rolling_idx s < 20 \<and> distinct (map addr (dev_list s))
      \<and> (\<forall>d \<in> set (dev_list s). length (dev_name d) \<le> 31) \<and> length (conn_handle_subs s) = 6"
  using gap_events_cache [of ble_boot th es] by (simp add: ble_boot_def cache_ok_def Let_def)

theorem beacon_cache_in_order_witness:
  "let s = gap_events (-85) (map (\<lambda>i. Gap_Disc \<lparr>disc_addr = [of_nat i], disc_rssi = -50,
             disc_fields = Some \<lparr>fname = None, svc_data_uuid16 = Some [0x34, 0x12, 0x41], behind = 0\<rparr>\<rparr>) [0..<22]) ble_boot
   in length (dev_list s) = 20 \<and> rolling_idx s = 2 \<and> distinct (map addr (dev_list s))"
proof -
  let ?s = "gap_events (-85) (map (\<lambda>i. Gap_Disc \<lparr>disc_addr = [of_nat i], disc_rssi = -50,
             disc_fields = Some \<lparr>fname = None, svc_data_uuid16 = Some [0x34, 0x12, 0x41], behind = 0\<rparr>\<rparr>) [0..<22]) ble_boot"
  have "(length (dev_list ?s), rolling_idx ?s) = (20, 2)" by code_simp
  then show ?thesis
    using beacon_cache_in_order [of "-85" "map (\<lambda>i. Gap_Disc \<lparr>disc_addr = [of_nat i], disc_rssi = -50,
             disc_fields = Some \<lparr>fname = None, svc_data_uuid16 = Some [0x34, 0x12, 0x41], behind = 0\<rparr>\<rparr>) [0..<22]"]
    by (simp only: Let_def prod.inject simp_thms)
qed

text \<open>
  Only an advertisement that is at least as strong as the threshold and carries service \<open>0x1234\<close>
  reaches the trackers: its sender is then cached with its signal, and its payload, cut to 63
  printable characters, is the identity that is sighted.  Every other one leaves cache and trackers alone.
\<close>

theorem beacons_filtered:
  assumes "cache_ok s"
  shows "if passes th e
    then (\<exists>d \<in> set (dev_list (gap_disc th e s)). addr d = disc_addr e \<and> dev_rssi d = disc_rssi e)
      \<and> tracker_table (gap_disc th e s) =
          (if payload e = [] then tracker_table s else Tracker_In_ID (payload_text (payload e)) (tracker_table s))
      \<and> length (payload_text (payload e)) \<le> 63
      \<and> (\<forall>c \<in> set (payload_text (payload e)). 32 \<le> (of_char c :: nat) \<and> (of_char c :: nat) \<le> 126)
    else dev_list (gap_disc th e s) = dev_list s \<and> tracker_table (gap_disc th e s) = tracker_table s"
proof (cases "passes th e")
  case True
  let ?d = "disc_info e s" and ?s = "s\<lparr>tracker_found_f := True\<rparr>"
  have "?d \<in> set (dev_list (entered ?d ?s))" using entered_ok [of ?s ?d] assms packet_name_le [OF assms] by simp
  moreover have "addr ?d = disc_addr e" "dev_rssi ?d = disc_rssi e" by (simp_all add: disc_info_def)
  moreover have "tracker_table (entered ?d ?s) = tracker_table s"
    by (auto simp: entered_def split: prod.splits dest: cache_slot_table)
  moreover have "32 \<le> (of_char (printable c) :: nat) \<and> (of_char (printable c) :: nat) \<le> 126" for c
    by (auto simp: printable_def)
  ultimately show ?thesis using True by (auto simp: gap_disc_passes [OF True] Let_def payload_text_def)
next
  case False
  then show ?thesis using gap_disc_blocked [OF False, of s] by auto
qed

theorem beacons_filtered_witness:
  "let e = \<lparr>disc_addr = [1, 2, 3, 4, 5, 6], disc_rssi = -60,
            disc_fields = Some \<lparr>fname = Some ''Mimi'', svc_data_uuid16 = Some [0x34, 0x12, 0x41, 0x07], behind = 0\<rparr>\<rparr>
   in tracker_table (gap_disc (-85) e ble_boot) = Tracker_In_ID ''A.'' trackers_init"
proof -
  let ?e = "\<lparr>disc_addr = [1, 2, 3, 4, 5, 6], disc_rssi = -60,
            disc_fields = Some \<lparr>fname = Some ''Mimi'', svc_data_uuid16 = Some [0x34, 0x12, 0x41, 0x07], behind = 0\<rparr>\<rparr>"
  have c: "cache_ok ble_boot" by (simp add: cache_ok_def ble_boot_def)
  have p: "passes (-85) ?e" by (simp add: passes_def svc_uuid_def)
  have t: "payload_text (payload ?e) = ''A.''" by code_simp
  have "payload ?e \<noteq> []" "tracker_table ble_boot = trackers_init" by (simp_all add: payload_def ble_boot_def)
  then show ?thesis using beacons_filtered [OF c, of "-85" ?e] p t by (simp add: Let_def)
qed

section \<open>Cutting a message into notifications\<close>

lemma tx_loop_step:
  assumes "unat offset < length data" "0 < max_payload" "length data < 2 ^ 16"
  defines "n \<equiv> min (unat max_payload) (length data - unat offset)"
  shows "0 < n" "unat (offset + of_nat n) = unat offset + n"
    "tx_loop max_payload data offset =
       (let piece = take n (drop (unat offset) data)
        in if unat offset + n = length data then Some [piece]
           else do { ps \<leftarrow> tx_loop max_payload data (offset + of_nat n); Some (piece # ps) })"
proof -
  let ?send = "if length data - unat offset > unat max_payload then max_payload
                         else of_nat (length data - unat offset)"
  show pos: "0 < n" using assms(1,2) by (simp add: n_def word_gt_0_no unat_gt_0)
  have le: "unat offset + n \<le> length data" "unat offset + n < 2 ^ 16" using assms(1,3) by (auto simp: n_def)
  have un: "unat (of_nat n :: u16) = n" using le by (simp add: unsigned_of_nat take_bit_nat_eq_self)
  have send: "?send = of_nat n"
  proof (cases "length data - unat offset > unat max_payload")
    case True
    then show ?thesis by (simp add: n_def min_def)
  next
    case False
    then have "n = length data - unat offset" by (simp add: n_def)
    then show ?thesis using False by simp
  qed
  show off: "unat (offset + of_nat n) = unat offset + n"
    using le un by (subst unat_add_lem [THEN iffD1]) simp_all
  show "tx_loop max_payload data offset =
       (let piece = take n (drop (unat offset) data)
        in if unat offset + n = length data then Some [piece]
           else do { ps \<leftarrow> tx_loop max_payload data (offset + of_nat n); Some (piece # ps) })"
    using assms(1) by (subst tx_loop.simps) (simp only: send un off Let_def if_True)
qed

definition pieces_of :: "nat \<Rightarrow> 'a list \<Rightarrow> nat" where
  "pieces_of m data = (length data + m - 1) div m"

lemma tx_loop_returns:
  assumes m: "0 < max_payload" and len: "length data < 2 ^ 16" and o: "unat offset \<le> length data"
  shows "\<exists>ps. tx_loop max_payload data offset = Some ps \<and> concat ps = drop (unat offset) data
    \<and> (\<forall>p \<in> set ps. p \<noteq> [] \<and> length p \<le> unat max_payload)
    \<and> length ps = pieces_of (unat max_payload) (drop (unat offset) data)"
  using o
proof (induction "length data - unat offset" arbitrary: offset rule: less_induct)
  case less
  have m': "0 < unat max_payload" using m by (simp add: unat_gt_0 word_gt_0)
  show ?case
  proof (cases "unat offset < length data")
    case False
    then have "tx_loop max_payload data offset = Some []" by (subst tx_loop.simps) simp
    then show ?thesis using False m' by (simp add: pieces_of_def)
  next
    case True
    define n where "n = min (unat max_payload) (length data - unat offset)"
    note step = tx_loop_step [OF True m len, folded n_def]
    let ?piece = "take n (drop (unat offset) data)"
    have n: "n \<le> unat max_payload" "n \<le> length data - unat offset" by (simp_all add: n_def)
    have piece: "?piece \<noteq> []" "length ?piece \<le> unat max_payload" using step(1) True n by simp_all
    show ?thesis
    proof (cases "unat offset + n = length data")
      case last: True
      have "(length data - unat offset + unat max_payload - 1) div unat max_payload = 1"
        using last step(1) n by (intro div_nat_eqI) auto
      then show ?thesis using last piece step(3) by (simp add: Let_def pieces_of_def)
    next
      case False
      then have n_eq: "n = unat max_payload" using True by (auto simp: n_def min_def split: if_splits)
      have "length data - unat (offset + of_nat n) < length data - unat offset"
        "unat (offset + of_nat n) \<le> length data"
        using True step(1,2) n by linarith+
      from less.hyps [OF this] obtain ps where ps: "tx_loop max_payload data (offset + of_nat n) = Some ps"
        "concat ps = drop (unat offset + n) data" "\<forall>p \<in> set ps. p \<noteq> [] \<and> length p \<le> unat max_payload"
        "length ps = pieces_of (unat max_payload) (drop (unat offset + n) data)"
        unfolding step(2) by blast
      have e: "length data - unat offset + unat max_payload - 1
          = length data - (unat offset + n) + unat max_payload - 1 + unat max_payload"
        using n(2) m' unfolding n_eq by linarith
      have "pieces_of (unat max_payload) (drop (unat offset) data) = Suc (length ps)"
        unfolding ps(4) pieces_of_def length_drop e using m' by (subst div_add_self2) simp_all
      moreover have "?piece @ drop (unat offset + n) data = drop (unat offset) data"
        by (metis append_take_drop_id drop_drop add.commute)
      ultimately show ?thesis using False step(3) ps piece by (simp add: Let_def)
    qed
  qed
qed

text \<open>
  Sending to the phone.  With a payload size above 0 and a phone connected, the task takes the
  first message from the queue and sends it as the fewest notifications of at most that size, in
  order and without loss; every message the queue accepts (its length is 16 bits) is sent completely.
\<close>

theorem message_sent_in_pieces:
  assumes q: "ble_tx_queue s = Some (data # q)" and conn: "is_phone_connected s" "current_conn_handle s \<noteq> 0xFFFF"
    and m: "0 < g_ble_max_payload s" and len: "length data < 2 ^ 16"
  shows "\<exists>ps. ble_tx_processing_task s = Some (ps, s\<lparr>ble_tx_queue := Some q\<rparr>) \<and> concat ps = data
    \<and> (\<forall>p \<in> set ps. p \<noteq> [] \<and> length p \<le> unat (g_ble_max_payload s))
    \<and> length ps = pieces_of (unat (g_ble_max_payload s)) data"
  using tx_loop_returns [OF m len, of 0] q conn by (auto simp: ble_tx_processing_task_def)

theorem message_sent_in_pieces_witness:
  "let s = ble_boot\<lparr>ble_tx_queue := Some [replicate 45 7], is_phone_connected := True, current_conn_handle := 1\<rparr>
   in \<exists>ps. ble_tx_processing_task s = Some (ps, s\<lparr>ble_tx_queue := Some []\<rparr>) \<and> concat ps = replicate 45 7 \<and> length ps = 3"
  using message_sent_in_pieces [of "ble_boot\<lparr>ble_tx_queue := Some [replicate 45 7], is_phone_connected := True,
      current_conn_handle := 1\<rparr>" "replicate 45 7" "[]"]
  by (auto simp: ble_boot_def pieces_of_def)

text \<open>
  The payload size is whatever number the phone last announced; after an announced 0 the task
  never gets past the first message: it sends empty notifications forever.
\<close>

theorem zero_payload_never_ends:
  assumes "ble_tx_queue s = Some (data # q)" "data \<noteq> []" "is_phone_connected s"
    "current_conn_handle s \<noteq> 0xFFFF" "g_ble_max_payload s = 0"
  shows "ble_tx_processing_task s = None"
proof -
  have "tx_loop 0 data 0 = do { ps \<leftarrow> tx_loop 0 data 0; Some ([] # ps) }"
    using assms(2) by (subst tx_loop.simps) simp
  then have "tx_loop 0 data 0 = None" by (cases "tx_loop 0 data 0") auto
  then show ?thesis using assms by (simp add: ble_tx_processing_task_def)
qed

theorem zero_payload_never_ends_witness:
  "ble_tx_processing_task (ble_boot\<lparr>ble_tx_queue := Some [[1, 2]], is_phone_connected := True,
     current_conn_handle := 1, g_ble_max_payload := 0\<rparr>) = None"
  using zero_payload_never_ends [of "ble_boot\<lparr>ble_tx_queue := Some [[1, 2]], is_phone_connected := True,
     current_conn_handle := 1, g_ble_max_payload := 0\<rparr>" "[1, 2]" "[]"] by simp

end
