(* ===== verification/Ble_Motion.thy ===== *)
theory Ble_Motion
  imports Ble_Link
begin

text \<open>
  The motion data transfer of a tracker, \<open>BLE_Receive_data\<close> and its timer in
  \<open>src/main/ble/ble_parse.c\<close>.  The uploads to the broker are collected, the commands of the phone
  are a parameter of the packet handler.
\<close>

section \<open>State and operations\<close>

record motion =
  total_count :: u32
  input_count :: u32
  motion_timer :: bool
  uploads :: "u8 list list"
  link :: ble

text \<open>
  Byte \<open>i\<close> of a received packet.  The code overlays a 20-byte structure without looking at the
  length; \<open>heap\<close> is what lies behind a shorter packet.
\<close>

definition byte_at :: "(nat \<Rightarrow> u8) \<Rightarrow> u8 list \<Rightarrow> nat \<Rightarrow> u8" where
  "byte_at heap data i = (if i < length data then data ! i else heap i)"

definition total_points :: "(nat \<Rightarrow> u8) \<Rightarrow> u8 list \<Rightarrow> u16" where
  "total_points heap data = push_bit 8 (ucast (byte_at heap data 3)) OR ucast (byte_at heap data 2)"

definition Motion_Timer_Set :: "bool \<Rightarrow> motion \<Rightarrow> motion" where
  "Motion_Timer_Set state m = m\<lparr>motion_timer := state\<rparr>"

text \<open>The one-shot timer expires after 5 s.\<close>

definition Motion_Timeout_callback :: "bool \<Rightarrow> motion \<Rightarrow> motion" where
  "Motion_Timeout_callback mem m = m\<lparr>motion_timer := False, link := motion_msg_send mem 0x20 2 (link m)\<rparr>"

definition BLE_Receive_data ::
  "(u8 list \<Rightarrow> motion \<Rightarrow> motion) \<Rightarrow> (nat \<Rightarrow> u8) \<Rightarrow> bool \<Rightarrow> u8 list \<Rightarrow> motion \<Rightarrow> motion" where
  "BLE_Receive_data BLE_APP_Command heap mem data m =
     (let event_code = byte_at heap data 0 in
      if event_code = 0x10 then
        (let n = unat (total_points heap data)
         in if n \<noteq> 0
            then Motion_Timer_Set True (m\<lparr>total_count := of_nat (n + (9 - n mod 9)), input_count := 0\<rparr>)
            else m)
      else if event_code = 0x11 then
        (let m = m\<lparr>input_count := input_count m + 9, uploads := uploads m @ [data]\<rparr>
         in if input_count m = total_count m
            then m\<lparr>link := motion_msg_send mem 0x21 (byte_at heap data 1) (link m)\<rparr>
            else Motion_Timer_Set True m)
      else if event_code = 0x13 then m
      else BLE_APP_Command data m)"

definition receive_all ::
  "(u8 list \<Rightarrow> motion \<Rightarrow> motion) \<Rightarrow> (nat \<Rightarrow> u8) \<Rightarrow> u8 list list \<Rightarrow> motion \<Rightarrow> motion" where
  "receive_all app heap ps m = fold (BLE_Receive_data app heap True) ps m"

section \<open>A transfer\<close>

lemma of_nat_u32_eq: "a < 2 ^ 32 \<Longrightarrow> b < 2 ^ 32 \<Longrightarrow> (of_nat a :: u32) = of_nat b \<longleftrightarrow> a = b"
  by (simp add: word_of_nat_eq_iff take_bit_nat_eq_self)

lemma receive_start:
  assumes "byte_at heap p 0 = 0x10" "total_points heap p \<noteq> 0"
  shows "BLE_Receive_data app heap mem p m =
    m\<lparr>total_count := of_nat (9 * (unat (total_points heap p) div 9 + 1)), input_count := 0, motion_timer := True\<rparr>"
proof -
  let ?n = "unat (total_points heap p)"
  have "?n + (9 - ?n mod 9) = 9 * (?n div 9 + 1)" by presburger
  then show ?thesis using assms by (simp add: BLE_Receive_data_def Motion_Timer_Set_def Let_def unat_eq_0)
qed

definition ack :: "u8 \<Rightarrow> u8 list" where
  "ack seq = 0x21 # seq # replicate 18 0"

lemma receive_data:
  assumes "byte_at heap p 0 = 0x11" "ble_tx_queue (link m) = Some q" "length q < 10"
  shows "BLE_Receive_data app heap True p m =
    (let m = m\<lparr>input_count := input_count m + 9, uploads := uploads m @ [p]\<rparr>
     in if input_count m = total_count m
        then m\<lparr>link := (link m)\<lparr>ble_tx_queue := Some (q @ [ack (byte_at heap p 1)])\<rparr>\<rparr>
        else m\<lparr>motion_timer := True\<rparr>)"
  using assms
  by (simp add: BLE_Receive_data_def Motion_Timer_Set_def Let_def motion_msg_send_def motion_msg_def
      ble_send_data_to_queue_def ack_def)

text \<open>
  What \<open>j\<close> data packets do after a start packet with \<open>n\<close> points.
\<close>

lemma receive_transfer:
  assumes data: "\<forall>p \<in> set ps. byte_at heap p 0 = 0x11" and len: "9 * length ps < 2 ^ 32"
    and m: "ble_tx_queue (link m) = Some q" "length q < 10" "input_count m = 0" "motion_timer m"
      "total_count m = of_nat (9 * (N + 1))" "N < 2 ^ 16"
  shows "let m' = receive_all app heap ps m
    in input_count m' = of_nat (9 * length ps) \<and> total_count m' = total_count m \<and> motion_timer m'
      \<and> uploads m' = uploads m @ ps
      \<and> link m' = (if N < length ps
          then (link m)\<lparr>ble_tx_queue := Some (q @ [ack (byte_at heap (ps ! N) 1)])\<rparr> else link m)"
  using data len
proof (induction ps rule: rev_induct)
  case Nil
  then show ?case using m by (simp add: receive_all_def Let_def)
next
  case (snoc p ps)
  let ?m = "receive_all app heap ps m"
  have IH: "input_count ?m = of_nat (9 * length ps)" "total_count ?m = total_count m" "motion_timer ?m"
    "uploads ?m = uploads m @ ps"
    "link ?m = (if N < length ps
          then (link m)\<lparr>ble_tx_queue := Some (q @ [ack (byte_at heap (ps ! N) 1)])\<rparr> else link m)"
    using snoc by (simp_all add: Let_def)
  have step: "receive_all app heap (ps @ [p]) m = BLE_Receive_data app heap True p ?m"
    by (simp add: receive_all_def)
  have eq: "input_count ?m + 9 = total_count m \<longleftrightarrow> length ps = N"
  proof -
    have "input_count ?m + 9 = (of_nat (9 * (length ps + 1)) :: u32)" unfolding IH(1) by (simp add: algebra_simps)
    moreover have "9 * (length ps + 1) < 2 ^ 32" "9 * (N + 1) < 2 ^ 32" using snoc.prems(2) m(6) by simp_all
    ultimately show ?thesis unfolding m(5) by (simp only: of_nat_u32_eq) simp
  qed
  have p: "byte_at heap p 0 = 0x11" using snoc.prems(1) by simp
  show ?case
  proof (cases "length ps = N")
    case True
    then have "link ?m = link m" using IH(5) by simp
    then have "BLE_Receive_data app heap True p ?m =
        (?m\<lparr>input_count := input_count ?m + 9, uploads := uploads ?m @ [p],
          link := (link m)\<lparr>ble_tx_queue := Some (q @ [ack (byte_at heap p 1)])\<rparr>\<rparr>)"
      using receive_data [OF p, of ?m q app] m(1,2) eq IH(2) True by (simp add: Let_def)
    then show ?thesis using step IH True by (simp add: Let_def nth_append algebra_simps)
  next
    case False
    then have ne: "input_count ?m + 9 \<noteq> total_count ?m" using eq IH(2) by simp
    have "BLE_Receive_data app heap True p ?m =
        ?m\<lparr>input_count := input_count ?m + 9, uploads := uploads ?m @ [p], motion_timer := True\<rparr>"
      using p ne by (simp add: BLE_Receive_data_def Motion_Timer_Set_def Let_def)
    then show ?thesis using step IH False by (simp add: Let_def nth_append algebra_simps)
  qed
qed

text \<open>
  A transfer of \<open>n\<close> points.  Every data packet is uploaded in order; nine points fit in a packet,
  and exactly one acknowledgement is queued, for packet number \<open>n div 9 + 1\<close>, once that many arrived.
  So when \<open>n\<close> is a multiple of 9, the \<open>n div 9\<close> packets that hold all the points are not acknowledged.  The
  timer that asks for the data again is still running after the acknowledgement.
\<close>

theorem motion_transfer_acknowledged:
  assumes start: "byte_at heap p0 0 = 0x10" "n = unat (total_points heap p0)" "0 < n"
    and data: "\<forall>p \<in> set ps. byte_at heap p 0 = 0x11" "9 * length ps < 2 ^ 32"
    and queue: "ble_tx_queue (link m) = Some q" "length q < 10"
  shows "let m' = receive_all app heap (p0 # ps) m
    in uploads m' = uploads m @ ps
      \<and> ble_tx_queue (link m') = Some (q @ (if n div 9 + 1 \<le> length ps then [ack (byte_at heap (ps ! (n div 9)) 1)] else []))
      \<and> motion_timer m'"
proof -
  let ?m = "m\<lparr>total_count := of_nat (9 * (n div 9 + 1)), input_count := 0, motion_timer := True\<rparr>"
  have "total_points heap p0 \<noteq> 0" using start(2,3) by auto
  then have s: "receive_all app heap (p0 # ps) m = receive_all app heap ps ?m"
    using receive_start [OF start(1), of app True m] start(2) by (simp add: receive_all_def)
  have "n < 2 ^ LENGTH(16)" unfolding start(2) by (rule unsigned_less)
  then have "n div 9 < 2 ^ 16" by simp
  from receive_transfer [OF data, of ?m q "n div 9" app] this queue show ?thesis
    by (simp add: s Let_def Suc_le_eq)
qed

text \<open>18 points in two packets are not acknowledged, 17 are.\<close>

definition one_transfer :: "u8 \<Rightarrow> motion" where
  "one_transfer n = receive_all (\<lambda>_ m. m) (\<lambda>_. 0) [[0x10, 1, n, 0], 0x11 # 4 # replicate 18 0, 0x11 # 5 # replicate 18 0]
     \<lparr>total_count = 0, input_count = 0, motion_timer = False, uploads = [], link = ble_boot\<lparr>ble_tx_queue := Some []\<rparr>\<rparr>"

theorem motion_transfer_acknowledged_witness:
  "ble_tx_queue (link (one_transfer 18)) = Some [] \<and> ble_tx_queue (link (one_transfer 17)) = Some [ack 5]
    \<and> motion_timer (one_transfer 17)"
proof -
  let ?m = "\<lparr>total_count = 0, input_count = 0, motion_timer = False, uploads = [], link = ble_boot\<lparr>ble_tx_queue := Some []\<rparr>\<rparr>"
  note t = motion_transfer_acknowledged [where heap = "\<lambda>_. 0" and app = "\<lambda>_ m. m" and m = ?m and q = "[]"
      and ps = "[0x11 # 4 # replicate 18 0, 0x11 # 5 # replicate 18 0]", folded one_transfer_def]
  have "total_points (\<lambda>_. 0) [0x10, 1, 18, 0] = 18" "total_points (\<lambda>_. 0) [0x10, 1, 17, 0] = 17"
    by (simp_all add: total_points_def byte_at_def)
  then show ?thesis
    using t [of "[0x10, 1, 18, 0]" 18] t [of "[0x10, 1, 17, 0]" 17]
    by (simp add: byte_at_def Let_def one_transfer_def)
qed

end
