(* ===== verification/Cloud_Messages.thy ===== *)
theory Cloud_Messages
  imports Mqtt_Session Ble_Motion CText
begin

text \<open>
  The messages to the cloud, \<open>src/main/mqtt/tx_mqtt.c\<close> with the topics of \<open>topic_list.h\<close>: the JSON
  tree of each message, the topic it goes to, and handing both to the broker session.  cJSON is a library
  outside the repository: the tree is built here, its printing is an argument.  A missing
  memory shows as a null pointer of the object itself; adding a field is taken to succeed.
\<close>

section \<open>Commands and packets\<close>

datatype messege_tx_mqtt_cmd_e =
    MESSEGE_REGISTRATION | MESSEGE_BOOT | MESSEGE_ACCESS | MESSEGE_USAGE | MESSEGE_CLEAN_RESULT
  | MESSEGE_DIAGNOSTICS | MESSEGE_HEALTH | AWS_MESSEGE_AWS_JOBS_GET
  | TRACKER_MESSEGE_ACTIVITY | TRACKER_MESSEGE_DIAGNOSTICS | TRACKER_MESSEGE_HEALTH

fun cmd_code :: "messege_tx_mqtt_cmd_e \<Rightarrow> nat" where
  "cmd_code MESSEGE_REGISTRATION = 0"
| "cmd_code MESSEGE_BOOT = 1"
| "cmd_code MESSEGE_ACCESS = 2"
| "cmd_code MESSEGE_USAGE = 3"
| "cmd_code MESSEGE_CLEAN_RESULT = 4"
| "cmd_code MESSEGE_DIAGNOSTICS = 5"
| "cmd_code MESSEGE_HEALTH = 6"
| "cmd_code AWS_MESSEGE_AWS_JOBS_GET = 0x80"
| "cmd_code TRACKER_MESSEGE_ACTIVITY = 0xF0"
| "cmd_code TRACKER_MESSEGE_DIAGNOSTICS = 0xF1"
| "cmd_code TRACKER_MESSEGE_HEALTH = 0xF2"

record mqtt_packet =
  tx_cmd :: messege_tx_mqtt_cmd_e
  tx_data :: "u8 list option"
  tx_data_len :: u32

text \<open>A packet of a tracker is the 20 bytes of \<open>Motion_Packet_t\<close>.\<close>

record tracker_mqtt_packet =
  t_cmd :: messege_tx_mqtt_cmd_e
  t_mac :: "u8 list"
  motion_packet :: "u8 list"

text \<open>Numbers are integers, or a 32-bit float given by its bits.\<close>

datatype json = JStr "char list" | JInt int | JFloat u32 | JArr "json list" | JObj "(char list \<times> json) list"

type_synonym fields = "(char list \<times> json) list"

text \<open>
  What the surroundings answer while one message is sent: memory for the two objects, printing, the clock when the
  header and when the data is made, the reason of the reset, whether a tracker is near, the address of the
  device, the free memory, the bytes behind a copy, where the topic and the text lie, and the
  status of the library.
\<close>

record surroundings =
  c_root :: bool
  c_data :: bool
  c_print :: "json \<Rightarrow> char list option"
  c_time :: u32
  c_time2 :: u32
  c_reset :: int
  c_tracker :: bool
  c_mac :: "u8 list"
  c_heap :: u32
  c_behind :: "nat \<Rightarrow> u8"
  c_topic :: nat
  c_payload :: nat
  c_sent :: bool

record outbox =
  broker :: mqtt
  motion_res :: "u8 list"
  health_res :: "u8 list"

definition outbox_boot :: outbox where
  "outbox_boot = \<lparr>broker = mqtt_boot, motion_res = replicate 20 0, health_res = replicate 20 0\<rparr>"

section \<open>Texts\<close>

definition hex_char :: "nat \<Rightarrow> char" where
  "hex_char n = (if n < 10 then char_of (48 + n) else char_of (55 + n))"

definition hex2 :: "u8 \<Rightarrow> char list" where
  "hex2 b = [hex_char (unat b div 16), hex_char (unat b mod 16)]"

definition mac_text :: "u8 list \<Rightarrow> char list" where
  "mac_text m = concat (map hex2 (take 6 m))"

abbreviation (input) TEST_UUID :: "char list" where "TEST_UUID \<equiv> ''d8146a41-fcbc-4038-a942-fb2ad64891db''"

definition le32 :: "(nat \<Rightarrow> u8) \<Rightarrow> nat \<Rightarrow> u32" where
  "le32 b i = ucast (b i) OR push_bit 8 (ucast (b (i + 1))) OR push_bit 16 (ucast (b (i + 2))) OR push_bit 24 (ucast (b (i + 3)))"

definition le16 :: "(nat \<Rightarrow> u8) \<Rightarrow> nat \<Rightarrow> u16" where
  "le16 b i = ucast (b i) OR push_bit 8 (ucast (b (i + 1)))"

definition version_text :: "u8 list \<Rightarrow> char list" where
  "version_text p = CHR ''v'' # decimal (uint (p ! 7)) @ CHR ''.'' # decimal (uint (p ! 8)) @ CHR ''.'' # decimal (uint (p ! 9))"

section \<open>Header\<close>

fun event_name :: "messege_tx_mqtt_cmd_e \<Rightarrow> char list option" where
  "event_name MESSEGE_REGISTRATION = Some ''registration''"
| "event_name MESSEGE_BOOT = Some ''boot''"
| "event_name MESSEGE_ACCESS = Some ''access''"
| "event_name MESSEGE_USAGE = Some ''usage''"
| "event_name MESSEGE_CLEAN_RESULT = Some ''clean_result''"
| "event_name MESSEGE_DIAGNOSTICS = Some ''diagnostics''"
| "event_name MESSEGE_HEALTH = Some ''health''"
| "event_name TRACKER_MESSEGE_ACTIVITY = Some ''activity''"
| "event_name TRACKER_MESSEGE_HEALTH = Some ''health''"
| "event_name _ = None"

definition Get_cJSON_Header :: "surroundings \<Rightarrow> u8 list \<Rightarrow> messege_tx_mqtt_cmd_e \<Rightarrow> fields option" where
  "Get_cJSON_Header E health c =
     (if \<not> c_root E then None
      else
        let tracker = 0xF0 \<le> cmd_code c
        in case event_name c of
             None \<Rightarrow> None
           | Some event_type \<Rightarrow> Some
               [(''id'', JStr TEST_UUID), (''env'', JStr ''alpha''),
                (''device_type'', JStr (if tracker then ''tracker'' else ''c100'')),
                (''event_type'', JStr event_type),
                (''firmware'', JStr (if tracker then version_text health else ''v1.0.0'')),
                (''timestamp'', JInt (uint (c_time E div 1000)))])"

section \<open>Data of the device\<close>

definition uptime :: "surroundings \<Rightarrow> json" where
  "uptime E = JInt (uint (c_time2 E div 1000))"

definition Get_cJSON_Data :: "surroundings \<Rightarrow> mqtt_packet \<Rightarrow> fields option" where
  "Get_cJSON_Data E p =
     (if \<not> c_data E then None
      else case tx_cmd p of
        MESSEGE_REGISTRATION \<Rightarrow> Some
          [(''mac'', JStr (mac_text (c_mac E))), (''hw_rev'', JStr ''r1.0''), (''paired_at'', JInt 1747396800)]
      | MESSEGE_BOOT \<Rightarrow> Some
          [(''boot_reason'', JStr ''power_on''), (''uptime_sec'', uptime E), (''power_source'', JStr ''ADAPTER''),
           (''reset_reason'', JInt (c_reset E))]
      | MESSEGE_ACCESS \<Rightarrow> Some
          [(''access_id'', JStr TEST_UUID), (''source'', JStr (if c_tracker E then ''tracker'' else ''sensor'')),
           (''beacon_id'', JStr ''TRACKER_112233445566''), (''rssi_dbm'', JInt 0)]
      | MESSEGE_USAGE \<Rightarrow> Some
          (case tx_data p of
             Some d \<Rightarrow>
               [(''usage_id'', JStr TEST_UUID), (''session_type'', JStr (if c_tracker E then ''normal'' else ''unknown'')),
                (''access_id_refs'', JStr ''''), (''tracker_id'', JStr ''TRACKER_112233445566''),
                (''cat_weight'', JFloat (le32 (byte_at (c_behind E) d) 0)),
                (''waste_raw'', JFloat (le32 (byte_at (c_behind E) d) 4)),
                (''duration_sec'', JInt (uint (le32 (byte_at (c_behind E) d) 8)))]
           | None \<Rightarrow>
               [(''usage_id'', JStr TEST_UUID), (''session_type'', JStr ''unknown''), (''cat_weight'', JInt 3500),
                (''waste_raw'', JInt 10), (''duration_sec'', JInt 120)])
      | MESSEGE_CLEAN_RESULT \<Rightarrow> Some
          (case tx_data p of
             Some d \<Rightarrow>
               [(''clean_id'', JStr TEST_UUID), (''trigger'', JStr ''device_button''), (''target_usage_ids'', JStr ''''),
                (''disposed'', JFloat (le32 (byte_at (c_behind E) d) 0)),
                (''waste_ratio'', JFloat (le32 (byte_at (c_behind E) d) 4)),
                (''waste_type'', JInt (uint (byte_at (c_behind E) d 8))),
                (''send_level'', JInt (uint (byte_at (c_behind E) d 9))), (''request_token_ref'', JStr TEST_UUID)]
           | None \<Rightarrow>
               [(''clean_id'', JStr TEST_UUID), (''trigger'', JStr ''device_button''), (''disposed'', JInt 10),
                (''waste_ratio'', JInt 1), (''waste_type'', JInt 1), (''send_level'', JInt 0)])
      | MESSEGE_DIAGNOSTICS \<Rightarrow> Some
          [(''alert_level'', JStr ''critical''), (''fault_code'', JStr ''LOADCELL_ERR''),
           (''affected_subsystem'', JStr ''loadcell''), (''context'', JObj []), (''uptime_sec'', JInt 1747396800),
           (''reset_reason'', JInt (c_reset E)), (''rssi_dbm'', JInt 0), (''subsystems'', JObj [])]
      | MESSEGE_HEALTH \<Rightarrow> Some
          [(''uptime_sec'', uptime E), (''reset_reason'', JInt (c_reset E)), (''rssi_dbm'', JInt (- 70)),
           (''subsystems'', JObj [(''motor'', JStr ''ok''), (''loadcell'', JStr ''ok''), (''tof'', JStr ''ok''), (''ble'', JStr ''ok'')]),
           (''power_source'', JStr ''ADAPTER''), (''sand_level'', JInt 0), (''bin_weight'', JInt 0), (''cover_open'', JInt 0),
           (''maintenance_mode'', JInt 0), (''uv_status'', JInt 0), (''free_heap'', JInt (uint (c_heap E)))]
      | _ \<Rightarrow> None)"

section \<open>Data of a tracker\<close>

text \<open>The fault byte: two bits of battery, then motion unit, Bluetooth and storage, then two bits of reset reason.\<close>

definition fault_text :: "nat \<Rightarrow> u8 \<Rightarrow> json" where
  "fault_text n f = JStr (if bit f n then ''fault'' else ''ok'')"

definition create_t100_subsystems_json :: "u8 \<Rightarrow> json" where
  "create_t100_subsystems_json f = JObj
     [(''power'', JStr (if f AND 3 > 1 then ''fault'' else ''ok'')), (''imu'', fault_text 2 f), (''ble'', fault_text 3 f),
      (''storage'', fault_text 4 f)]"

definition reset_reason_of :: "u8 \<Rightarrow> json" where
  "reset_reason_of f = JInt (uint (drop_bit 5 f AND 3))"

definition Get_cJSON_Data_for_Tracker :: "surroundings \<Rightarrow> u8 list \<Rightarrow> u8 list \<Rightarrow> tracker_mqtt_packet \<Rightarrow> fields option" where
  "Get_cJSON_Data_for_Tracker E motion health t =
     (let p = motion_packet t; fault = p ! 11; rssi = JInt (sint (p ! 10)); up = JInt (uint (le32 (\<lambda>i. p ! i) 1))
      in if \<not> c_data E then None
         else case t_cmd t of
           TRACKER_MESSEGE_ACTIVITY \<Rightarrow>
             let n = unat (le16 (\<lambda>i. motion ! i) 2); k = (if n < 9 then n else 9)
             in Some
               [(''tracker_id'', JStr (''TRACKER_'' @ mac_text (t_mac t))), (''activity_id'', JStr TEST_UUID),
                (''seq_num'', JInt (uint (p ! 1))), (''interval_min'', JInt (uint (motion ! 1))), (''total_points'', JInt (int n)),
                (''points'', JArr (map (\<lambda>i. JInt (uint (le16 (\<lambda>i. p ! i) (2 + 2 * i)))) [0..<k])),
                (''battery_pct'', JInt (uint (health ! 5)))]
         | TRACKER_MESSEGE_DIAGNOSTICS \<Rightarrow> Some
             ([(''seq_num'', JInt 1), (''uptime_sec'', up), (''reset_reason'', reset_reason_of fault), (''rssi_dbm'', rssi),
               (''subsystems'', create_t100_subsystems_json fault), (''mode'', JStr ''operational''), (''alert_level'', JStr ''normal'')]
              @ (if bit fault 2 then [(''fault_code'', JStr ''IMU_ERR''), (''affected_subsystem'', JStr ''imu'')]
                 else if bit fault 3 then [(''fault_code'', JStr ''BLE_ERR''), (''affected_subsystem'', JStr ''ble'')]
                 else [(''fault_code'', JStr ''NONE''), (''affected_subsystem'', JStr ''none'')])
              @ [(''context'', JObj [(''raw_fault_byte'', JInt (uint fault))])])
         | TRACKER_MESSEGE_HEALTH \<Rightarrow> Some
             [(''seq_num'', JInt 2), (''uptime_sec'', up), (''reset_reason'', reset_reason_of fault), (''rssi_dbm'', rssi),
              (''subsystems'', create_t100_subsystems_json fault), (''battery_pct'', JInt (uint (p ! 5))),
              (''fw_version'', JStr (version_text p)), (''gateway_rssi_dbm'', rssi)]
         | _ \<Rightarrow> None)"

section \<open>Sending\<close>

text \<open>
  The topic lies on the stack and the text on the heap; both are gone when the sender returns.  A topic
  is cut to the 99 characters of its buffer.
\<close>

definition hand_over :: "surroundings \<Rightarrow> char list \<Rightarrow> char list \<Rightarrow> outbox \<Rightarrow> outbox option" where
  "hand_over E topic body s =
     do { (_, m) \<leftarrow> PublishToTopic (c_sent E) (c_topic E) (c_payload E)
            ((broker s)\<lparr>memory := (memory (broker s))(c_topic E \<mapsto> take 99 topic, c_payload E \<mapsto> body)\<rparr>);
          Some (s\<lparr>broker := m\<lparr>memory := (memory m)(c_topic E := None, c_payload E := None)\<rparr>\<rparr>) }"

fun server_topic :: "messege_tx_mqtt_cmd_e \<Rightarrow> char list \<Rightarrow> char list option" where
  "server_topic MESSEGE_REGISTRATION m = Some (''things/c100/C100_'' @ m @ ''/registration'')"
| "server_topic MESSEGE_BOOT m = Some (''things/c100/C100_'' @ m @ ''/boot'')"
| "server_topic MESSEGE_ACCESS m = Some (''things/c100/C100_'' @ m @ ''/access'')"
| "server_topic MESSEGE_USAGE m = Some (''things/c100/C100_'' @ m @ ''/usage'')"
| "server_topic MESSEGE_CLEAN_RESULT m = Some (''things/c100/C100_'' @ m @ ''/clean_result'')"
| "server_topic MESSEGE_DIAGNOSTICS m = Some (''things/c100/C100_'' @ m @ ''/diagnostics'')"
| "server_topic MESSEGE_HEALTH m = Some (''things/c100/C100_'' @ m @ ''/health'')"
| "server_topic _ m = None"

fun tracker_topic :: "messege_tx_mqtt_cmd_e \<Rightarrow> char list \<Rightarrow> char list option" where
  "tracker_topic TRACKER_MESSEGE_ACTIVITY m = Some (''things/tracker/TRACKER_'' @ m @ ''/activity'')"
| "tracker_topic TRACKER_MESSEGE_HEALTH m = Some (''things/tracker/TRACKER_'' @ m @ ''/health'')"
| "tracker_topic _ m = None"

definition publish_tree :: "surroundings \<Rightarrow> char list option \<Rightarrow> fields \<Rightarrow> fields \<Rightarrow> outbox \<Rightarrow> outbox option" where
  "publish_tree E topic header dat s =
     (case (c_print E (JObj (header @ [(''data'', JObj dat)])), topic) of
        (Some body, Some t) \<Rightarrow> hand_over E t body s
      | _ \<Rightarrow> Some s)"

definition Send_cJSON_Messege :: "surroundings \<Rightarrow> mqtt_packet \<Rightarrow> outbox \<Rightarrow> outbox option" where
  "Send_cJSON_Messege E p s =
     (case Get_cJSON_Header E (health_res s) (tx_cmd p) of
        None \<Rightarrow> Some s
      | Some header \<Rightarrow>
          (case Get_cJSON_Data E p of
             None \<Rightarrow> Some s
           | Some dat \<Rightarrow> publish_tree E (server_topic (tx_cmd p) (mac_text (c_mac E))) header dat s))"

definition Send_cJSON_Messege_for_tracker :: "surroundings \<Rightarrow> tracker_mqtt_packet \<Rightarrow> outbox \<Rightarrow> outbox option" where
  "Send_cJSON_Messege_for_tracker E t s =
     (let s = (if t_cmd t = TRACKER_MESSEGE_HEALTH then s\<lparr>health_res := motion_packet t\<rparr> else s)
      in if motion_packet t ! 0 = 0x10 then Some (s\<lparr>motion_res := motion_packet t\<rparr>)
         else case Get_cJSON_Header E (health_res s) (t_cmd t) of
           None \<Rightarrow> Some s
         | Some header \<Rightarrow>
             (case Get_cJSON_Data_for_Tracker E (motion_res s) (health_res s) t of
                None \<Rightarrow> Some s
              | Some dat \<Rightarrow> publish_tree E (tracker_topic (t_cmd t) (mac_text (t_mac t))) header dat s))"

section \<open>What is published\<close>

lemma publish_accepted:
  assumes "getNextFreeIndexForOutgoingPublishes m = Some i" "memory m a = Some t" "memory m b = Some q"
  shows "PublishToTopic True a b m =
    (let p = (outgoingPublishPackets m ! i)\<lparr>pTopicName := a, pPayload := b, packetId := nextPacketId m\<rparr>
     in Some (True, m\<lparr>nextPacketId := (if nextPacketId m = 0xFFFF then 1 else nextPacketId m + 1),
          outgoingPublishPackets := (outgoingPublishPackets m)[i := p],
          published := published m @ [(nextPacketId m, t, q, dup p)]\<rparr>))"
  using assms by (simp add: PublishToTopic_def MQTT_GetPacketId_def MQTT_Publish_def Let_def)

definition handed_over :: "surroundings \<Rightarrow> char list \<Rightarrow> char list \<Rightarrow> nat \<Rightarrow> mqtt \<Rightarrow> mqtt" where
  "handed_over E topic body i m =
     (let p = (outgoingPublishPackets m ! i)\<lparr>pTopicName := c_topic E, pPayload := c_payload E, packetId := nextPacketId m\<rparr>
      in m\<lparr>nextPacketId := (if nextPacketId m = 0xFFFF then 1 else nextPacketId m + 1),
          outgoingPublishPackets := (outgoingPublishPackets m)[i := p],
          published := published m @ [(nextPacketId m, take 99 topic, body, dup p)],
          memory := (memory m)(c_topic E := None, c_payload E := None)\<rparr>)"

lemma hand_over_accepted:
  assumes "getNextFreeIndexForOutgoingPublishes (broker s) = Some i" "c_sent E" "c_topic E \<noteq> c_payload E"
  shows "hand_over E topic body s = Some (s\<lparr>broker := handed_over E topic body i (broker s)\<rparr>)"
proof -
  let ?m = "(broker s)\<lparr>memory := (memory (broker s))(c_topic E \<mapsto> take 99 topic, c_payload E \<mapsto> body)\<rparr>"
  have "getNextFreeIndexForOutgoingPublishes ?m = Some i" "memory ?m (c_topic E) = Some (take 99 topic)"
    "memory ?m (c_payload E) = Some body"
    using assms by (simp_all add: getNextFreeIndexForOutgoingPublishes_def)
  from publish_accepted [OF this] show ?thesis
    using assms(2,3) by (simp add: hand_over_def handed_over_def Let_def fun_upd_twist)
qed

lemma length_mac_text: "length (mac_text m) \<le> 12"
proof -
  have "length (concat (map hex2 l)) = 2 * length l" for l by (induction l) (simp_all add: hex2_def)
  then show ?thesis by (simp add: mac_text_def)
qed

text \<open>Of the commands the header knows, those below the trackers' are the device's own.\<close>

lemma device_cmds:
  assumes "cmd_code c \<le> 6"
  obtains name where "event_name c = Some name" "length name \<le> 12"
    "server_topic c m = Some (''things/c100/C100_'' @ m @ CHR ''/'' # name)"
  using assms by (cases c) auto

lemma device_data: "cmd_code (tx_cmd p) \<le> 6 \<Longrightarrow> c_data E \<Longrightarrow> \<exists>dat. Get_cJSON_Data E p = Some dat"
  by (cases "tx_cmd p") (auto simp: Get_cJSON_Data_def split: option.splits)

text \<open>What sending one of them does when memory, printing, the library and a free place are there.\<close>

lemma device_sent:
  assumes "cmd_code (tx_cmd p) \<le> 6" "c_root E" "c_data E" "c_print E = (\<lambda>t. Some (P t))" "c_sent E"
    "c_topic E \<noteq> c_payload E" "getNextFreeIndexForOutgoingPublishes (broker s) = Some i"
  obtains name header dat where "event_name (tx_cmd p) = Some name" "Get_cJSON_Header E (health_res s) (tx_cmd p) = Some header"
    "map_of header ''event_type'' = Some (JStr name)" "map_of header ''device_type'' = Some (JStr ''c100'')"
    "Get_cJSON_Data E p = Some dat"
    "Send_cJSON_Messege E p s = Some (s\<lparr>broker := handed_over E
       (''things/c100/C100_'' @ mac_text (c_mac E) @ CHR ''/'' # name) (P (JObj (header @ [(''data'', JObj dat)]))) i (broker s)\<rparr>)"
    "take 99 (''things/c100/C100_'' @ mac_text (c_mac E) @ CHR ''/'' # name)
       = ''things/c100/C100_'' @ mac_text (c_mac E) @ CHR ''/'' # name"
proof -
  obtain name where n: "event_name (tx_cmd p) = Some name" "length name \<le> 12"
    "server_topic (tx_cmd p) (mac_text (c_mac E)) = Some (''things/c100/C100_'' @ mac_text (c_mac E) @ CHR ''/'' # name)"
    using assms(1) by (rule device_cmds)
  obtain dat where dat: "Get_cJSON_Data E p = Some dat" using device_data assms(1,3) by blast
  obtain header where h: "Get_cJSON_Header E (health_res s) (tx_cmd p) = Some header"
    "map_of header ''event_type'' = Some (JStr name)" "map_of header ''device_type'' = Some (JStr ''c100'')"
    using assms(1,2) n(1) by (simp add: Get_cJSON_Header_def)
  have fits: "take 99 (''things/c100/C100_'' @ mac_text (c_mac E) @ CHR ''/'' # name)
      = ''things/c100/C100_'' @ mac_text (c_mac E) @ CHR ''/'' # name"
    using length_mac_text [of "c_mac E"] n(2) by (intro take_all) simp
  have "Send_cJSON_Messege E p s = Some (s\<lparr>broker := handed_over E
      (''things/c100/C100_'' @ mac_text (c_mac E) @ CHR ''/'' # name) (P (JObj (header @ [(''data'', JObj dat)]))) i (broker s)\<rparr>)"
    unfolding Send_cJSON_Messege_def h(1) dat publish_tree_def n(3) assms(4)
    using hand_over_accepted [OF assms(7,5,6)] by simp
  then show ?thesis using that n(1) h dat fits by blast
qed

text \<open>
  Each of the seven messages of the device is published once, under the next number, on the topic
  of the device whose last part is the \<open>event_type\<close> in its header, with the data of this command; the table remembers
  it until it is acknowledged.
\<close>

theorem device_message_published:
  assumes "cmd_code (tx_cmd p) \<le> 6" "c_root E" "c_data E" "c_print E = (\<lambda>t. Some (P t))" "c_sent E"
    "c_topic E \<noteq> c_payload E" "getNextFreeIndexForOutgoingPublishes (broker s) = Some i"
  shows "\<exists>s' name header dat d.
    Send_cJSON_Messege E p s = Some s'
    \<and> event_name (tx_cmd p) = Some name \<and> Get_cJSON_Header E (health_res s) (tx_cmd p) = Some header
    \<and> map_of header ''event_type'' = Some (JStr name)
    \<and> map_of header ''device_type'' = Some (JStr ''c100'') \<and> Get_cJSON_Data E p = Some dat
    \<and> published (broker s') = published (broker s) @
        [(nextPacketId (broker s), ''things/c100/C100_'' @ mac_text (c_mac E) @ CHR ''/'' # name,
          P (JObj (header @ [(''data'', JObj dat)])), d)]
    \<and> map packetId (outgoingPublishPackets (broker s')) = (map packetId (outgoingPublishPackets (broker s)))[i := nextPacketId (broker s)]
    \<and> motion_res s' = motion_res s \<and> health_res s' = health_res s"
  by (rule device_sent [OF assms]) (simp add: handed_over_def Let_def map_update)

text \<open>Surroundings in which everything works; only the event of a message is printed.\<close>

definition print_event :: "json \<Rightarrow> char list option" where
  "print_event j = Some (case j of JObj fs \<Rightarrow> (case map_of fs ''event_type'' of Some (JStr e) \<Rightarrow> e | _ \<Rightarrow> []) | _ \<Rightarrow> [])"

definition calm :: surroundings where
  "calm = \<lparr>c_root = True, c_data = True, c_print = print_event, c_time = 61000, c_time2 = 61001, c_reset = 1, c_tracker = False,
     c_mac = [0x24, 0x6F, 0x28, 0xAB, 0xCD, 0x0E], c_heap = 0, c_behind = (\<lambda>_. 0), c_topic = 1, c_payload = 2, c_sent = True\<rparr>"

theorem device_message_published_witness:
  "\<exists>s' d. Send_cJSON_Messege calm \<lparr>tx_cmd = MESSEGE_HEALTH, tx_data = None, tx_data_len = 0\<rparr> outbox_boot = Some s'
    \<and> published (broker s') = [(0, ''things/c100/C100_246F28ABCD0E/health'', ''health'', d)]"
proof -
  let ?p = "\<lparr>tx_cmd = MESSEGE_HEALTH, tx_data = None, tx_data_len = 0\<rparr>"
  have h: "cmd_code (tx_cmd ?p) \<le> 6" "c_root calm" "c_data calm" "c_print calm = (\<lambda>t. Some (the (print_event t)))"
    "c_sent calm" "c_topic calm \<noteq> c_payload calm" "getNextFreeIndexForOutgoingPublishes (broker outbox_boot) = Some 0"
    by (simp_all add: calm_def print_event_def fun_eq_iff outbox_boot_def mqtt_boot_def getNextFreeIndexForOutgoingPublishes_def
        no_packet_def eval_nat_numeral)
  have m: "mac_text (c_mac calm) = ''246F28ABCD0E''" by code_simp
  have b: "nextPacketId (broker outbox_boot) = 0" "published (broker outbox_boot) = []"
    by (simp_all add: outbox_boot_def mqtt_boot_def)
  show ?thesis using device_message_published [OF h] by (auto simp: m b print_event_def map_add_Some_iff)
qed

section \<open>What stays in the table\<close>

text \<open>
  C34: a message that was handed over and is not yet acknowledged cannot be sent again: the table keeps
  only where its topic and its text were, and both are gone when the sender returns.  So connecting again while the
  broker still has the session reads memory that is no longer allocated.
\<close>

theorem resending_reads_freed_memory:
  assumes "cmd_code (tx_cmd p) \<le> 6" "c_root E" "c_data E" "c_print E = (\<lambda>t. Some (P t))" "c_sent E"
    "c_topic E \<noteq> c_payload E" "getNextFreeIndexForOutgoingPublishes (broker s) = Some i"
    "nextPacketId (broker s) \<noteq> 0" "length (outgoingPublishPackets (broker s)) = 5" "\<exists>j < 6. tls j"
  shows "\<exists>s'. Send_cJSON_Messege E p s = Some s'
    \<and> EstablishMqttSession tls rnd True True True True (\<lambda>_. True) (broker s') = None"
proof -
  obtain topic body where sent: "Send_cJSON_Messege E p s = Some (s\<lparr>broker := handed_over E topic body i (broker s)\<rparr>)"
    by (rule device_sent [OF assms(1-7)])
  let ?m = "handed_over E topic body i (broker s)"
  let ?m' = "?m\<lparr>nextPacketId := 1, mqttSessionEstablished := True\<rparr>"
  have i: "i < 5" using free_index_Some [of 0 "outgoingPublishPackets (broker s)" i] assms(7,9) by (auto simp: getNextFreeIndexForOutgoingPublishes_def)
  have "resend_from (\<lambda>_. True) [0..<5] ?m' = None"
    using i assms(8,9) by (intro resend_freed [of i]) (simp_all add: handed_over_def Let_def)
  moreover have "\<exists>n ds. connectToBrokerWithBackoffRetries tls rnd = Some (True, n, ds)"
  proof -
    have b: "retries_left 5 (BackoffAlgorithm_InitializeParams 500 5000 5)"
      by (simp add: retries_left_def BackoffAlgorithm_InitializeParams_def)
    obtain j where "j < 6" "tls j" using assms(10) by blast
    then have "\<exists>j \<le> 5. tls j" by (intro exI [of _ j]) simp
    then show ?thesis using connect_loop_bounds [OF b, of tls rnd 0]
      by (auto simp: connectToBrokerWithBackoffRetries_def)
  qed
  ultimately have "EstablishMqttSession tls rnd True True True True (\<lambda>_. True) ?m = None"
    by (auto simp: EstablishMqttSession_def handlePublishResend_def Let_def)
  then show ?thesis using sent by auto
qed

theorem resending_reads_freed_memory_witness:
  "\<exists>s'. Send_cJSON_Messege calm \<lparr>tx_cmd = MESSEGE_HEALTH, tx_data = None, tx_data_len = 0\<rparr>
       (outbox_boot\<lparr>broker := mqtt_boot\<lparr>nextPacketId := 1\<rparr>\<rparr>) = Some s'
    \<and> EstablishMqttSession (\<lambda>i. i = 2) (\<lambda>_. 0) True True True True (\<lambda>_. True) (broker s') = None"
proof -
  let ?p = "\<lparr>tx_cmd = MESSEGE_HEALTH, tx_data = None, tx_data_len = 0\<rparr>"
  let ?s = "outbox_boot\<lparr>broker := mqtt_boot\<lparr>nextPacketId := 1\<rparr>\<rparr>"
  have h: "cmd_code (tx_cmd ?p) \<le> 6" "c_root calm" "c_data calm" "c_print calm = (\<lambda>t. Some (the (print_event t)))"
    "c_sent calm" "c_topic calm \<noteq> c_payload calm" "getNextFreeIndexForOutgoingPublishes (broker ?s) = Some 0"
    "nextPacketId (broker ?s) \<noteq> 0" "length (outgoingPublishPackets (broker ?s)) = 5"
    by (simp_all add: calm_def print_event_def fun_eq_iff outbox_boot_def mqtt_boot_def
        getNextFreeIndexForOutgoingPublishes_def no_packet_def eval_nat_numeral)
  have "\<exists>j < 6. j = (2 :: nat)" by simp
  from resending_reads_freed_memory [OF h this] show ?thesis .
qed

section \<open>What a tracker's activity looks like\<close>

lemma PublishToTopic_published:
  assumes "PublishToTopic ok a b m = Some (r, m')" "memory m b = Some body"
  shows "published m' = published m \<or> (\<exists>k t d. published m' = published m @ [(k, t, body, d)])"
  using assms
  by (auto simp: PublishToTopic_def MQTT_GetPacketId_def MQTT_Publish_def cleanupOutgoingPublishAt_def Let_def
      split: option.splits if_splits bind_splits)

lemma hand_over_published:
  assumes "hand_over E topic body s = Some s'"
  shows "motion_res s' = motion_res s \<and> health_res s' = health_res s
    \<and> (published (broker s') = published (broker s) \<or> (\<exists>k t d. published (broker s') = published (broker s) @ [(k, t, body, d)]))"
proof -
  let ?m = "(broker s)\<lparr>memory := (memory (broker s))(c_topic E \<mapsto> take 99 topic, c_payload E \<mapsto> body)\<rparr>"
  obtain r m where m: "PublishToTopic (c_sent E) (c_topic E) (c_payload E) ?m = Some (r, m)"
    "s' = s\<lparr>broker := m\<lparr>memory := (memory m)(c_topic E := None, c_payload E := None)\<rparr>\<rparr>"
    using assms by (auto simp: hand_over_def split: bind_splits)
  have "memory ?m (c_payload E) = Some body" by simp
  from PublishToTopic_published [OF m(1) this] show ?thesis using m(2) by simp
qed

text \<open>A message about a tracker without anything in it but its number.\<close>

definition empty_activity :: "json \<Rightarrow> bool" where
  "empty_activity j = (case j of JObj fs \<Rightarrow>
       map_of fs ''event_type'' = Some (JStr ''activity'') \<and> map_of fs ''firmware'' = Some (JStr ''v0.0.0'')
       \<and> (case map_of fs ''data'' of Some (JObj dat) \<Rightarrow>
            map_of dat ''total_points'' = Some (JInt 0) \<and> map_of dat ''points'' = Some (JArr [])
            \<and> map_of dat ''battery_pct'' = Some (JInt 0)
          | _ \<Rightarrow> False)
     | _ \<Rightarrow> False)"

lemma version_zero: "version_text (replicate 20 0) = ''v0.0.0''"
  by code_simp

lemma activity_step:
  assumes "t_cmd t = TRACKER_MESSEGE_ACTIVITY" "motion_packet t ! 0 \<noteq> 0x10"
    "motion_res s = replicate 20 0" "health_res s = replicate 20 0" "Send_cJSON_Messege_for_tracker E t s = Some s'"
  shows "motion_res s' = replicate 20 0 \<and> health_res s' = replicate 20 0
    \<and> (published (broker s') = published (broker s)
       \<or> (\<exists>k topic body d j. published (broker s') = published (broker s) @ [(k, topic, body, d)]
            \<and> c_print E j = Some body \<and> empty_activity j))"
proof -
  have points: "unat (le16 (\<lambda>i. replicate 20 (0 :: u8) ! i) 2) = 0" by (simp add: le16_def)
  have battery: "replicate 20 (0 :: u8) ! 5 = 0" by simp
  show ?thesis
  proof (cases "Get_cJSON_Header E (health_res s) (t_cmd t)")
    case None
    then show ?thesis using assms by (simp add: Send_cJSON_Messege_for_tracker_def)
  next
    case header: (Some header)
    show ?thesis
    proof (cases "Get_cJSON_Data_for_Tracker E (motion_res s) (health_res s) t")
      case None
      then show ?thesis using assms header by (simp add: Send_cJSON_Messege_for_tracker_def)
    next
      case (Some dat)
      let ?j = "JObj (header @ [(''data'', JObj dat)])"
      have e: "empty_activity ?j"
        using header Some assms(1,3,4) points battery
        by (auto simp: Get_cJSON_Header_def Get_cJSON_Data_for_Tracker_def empty_activity_def version_zero Let_def split: if_splits)
      have "publish_tree E (tracker_topic (t_cmd t) (mac_text (t_mac t))) header dat s = Some s'"
        using assms header Some by (simp add: Send_cJSON_Messege_for_tracker_def)
      then have "s' = s \<or> (\<exists>topic body. c_print E ?j = Some body \<and> hand_over E topic body s = Some s')"
        by (auto simp: publish_tree_def split: option.splits)
      then show ?thesis
      proof (elim disjE exE conjE)
        assume "s' = s"
        then show ?thesis using assms(3,4) by simp
      next
        fix topic body
        assume body: "c_print E ?j = Some body" and run: "hand_over E topic body s = Some s'"
        show ?thesis using hand_over_published [OF run] body e assms(3,4) by auto
      qed
    qed
  qed
qed

fun send_trackers :: "(surroundings \<times> tracker_mqtt_packet) list \<Rightarrow> outbox \<Rightarrow> outbox option" where
  "send_trackers [] s = Some s"
| "send_trackers ((E, t) # ts) s = do { s \<leftarrow> Send_cJSON_Messege_for_tracker E t s; send_trackers ts s }"

text \<open>The packet \<open>BLE_Receive_data\<close> hands to the queue for the cloud.\<close>

definition activity_packet :: "u8 list \<Rightarrow> (nat \<Rightarrow> u8) \<Rightarrow> u8 list \<Rightarrow> tracker_mqtt_packet" where
  "activity_packet mac heap d = \<lparr>t_cmd = TRACKER_MESSEGE_ACTIVITY, t_mac = mac, motion_packet = map (byte_at heap d) [0..<20]\<rparr>"

lemma activity_packet_simps [simp]:
  "t_cmd (activity_packet mac heap d) = TRACKER_MESSEGE_ACTIVITY"
  "motion_packet (activity_packet mac heap d) ! 0 = byte_at heap d 0"
  by (simp_all add: activity_packet_def)

lemma receive_uploads:
  assumes "\<And>d m. uploads (app d m) = uploads m" "\<forall>p \<in> set (uploads m). byte_at heap p 0 = 0x11"
  shows "\<forall>p \<in> set (uploads (receive_all app heap ps m)). byte_at heap p 0 = 0x11"
proof (induction ps rule: rev_induct)
  case Nil
  then show ?case using assms(2) by (simp add: receive_all_def)
next
  case (snoc p ps)
  let ?m = "receive_all app heap ps m"
  have "uploads (BLE_Receive_data app heap True p ?m) = uploads ?m
      \<or> uploads (BLE_Receive_data app heap True p ?m) = uploads ?m @ [p] \<and> byte_at heap p 0 = 0x11"
    using assms(1) by (simp add: BLE_Receive_data_def Motion_Timer_Set_def Let_def)
  moreover have "receive_all app heap (ps @ [p]) m = BLE_Receive_data app heap True p ?m" by (simp add: receive_all_def)
  ultimately show ?case using snoc by auto
qed

lemma send_activities:
  assumes "\<forall>(E, t) \<in> set ts. c_print E = P \<and> t_cmd t = TRACKER_MESSEGE_ACTIVITY \<and> motion_packet t ! 0 \<noteq> 0x10"
    and "motion_res s = replicate 20 0" "health_res s = replicate 20 0" "send_trackers ts s = Some s'"
    and "\<forall>(k, topic, body, d) \<in> set (published (broker s)). \<exists>j. P j = Some body \<and> empty_activity j"
  shows "\<forall>(k, topic, body, d) \<in> set (published (broker s')). \<exists>j. P j = Some body \<and> empty_activity j"
  using assms
proof (induction ts arbitrary: s)
  case (Cons a ts)
  obtain E t where a: "a = (E, t)" by (cases a)
  obtain s1 where s1: "Send_cJSON_Messege_for_tracker E t s = Some s1" "send_trackers ts s1 = Some s'"
    using Cons.prems(4) a by (auto split: bind_splits)
  note step = activity_step [OF _ _ Cons.prems(2,3) s1(1)]
  show ?case using Cons.prems(1,5) a step by (intro Cons.IH [OF _ _ _ s1(2)]) auto
qed simp

text \<open>
  From the start of the device on, whatever the trackers send and in whatever order, every activity
  message to the cloud is empty: no points, no total, battery 0 and firmware 0.0.0.  The points are counted with
  what was kept of a start packet, and the battery and firmware with what was kept of a health packet, but only
  data packets are handed to the cloud task.
\<close>

theorem activity_messages_are_empty:
  assumes "\<And>d m. uploads (app d m) = uploads m" "uploads m = []"
    and "\<forall>(E, t) \<in> set ts. c_print E = P \<and> (\<exists>mac. \<exists>d \<in> set (uploads (receive_all app heap ps m)). t = activity_packet mac heap d)"
    and "send_trackers ts outbox_boot = Some s'"
  shows "\<forall>(k, topic, body, d) \<in> set (published (broker s')). \<exists>j. P j = Some body \<and> empty_activity j"
proof -
  have "\<forall>p \<in> set (uploads (receive_all app heap ps m)). byte_at heap p 0 = 0x11"
    using assms(1,2) by (intro receive_uploads) simp_all
  then have "\<forall>(E, t) \<in> set ts. c_print E = P \<and> t_cmd t = TRACKER_MESSEGE_ACTIVITY \<and> motion_packet t ! 0 \<noteq> 0x10"
    using assms(3) by auto
  then show ?thesis
    by (rule send_activities [OF _ _ _ assms(4)]) (simp_all add: outbox_boot_def mqtt_boot_def)
qed

text \<open>A start packet that announces 9 points and the packet with the points.\<close>

definition nine_points :: motion where
  "nine_points = receive_all (\<lambda>_ m. m) (\<lambda>_. 0) [[0x10, 1, 9, 0] @ replicate 16 0, 0x11 # 1 # replicate 18 7]
     \<lparr>total_count = 0, input_count = 0, motion_timer = False, uploads = [], link = ble_boot\<rparr>"

theorem activity_messages_are_empty_witness:
  "uploads nine_points = [0x11 # 1 # replicate 18 7]
   \<and> (\<exists>k topic body d s'. send_trackers [(calm, activity_packet [1, 2, 3, 4, 5, 6] (\<lambda>_. 0) (0x11 # 1 # replicate 18 7))] outbox_boot = Some s'
        \<and> published (broker s') = [(k, topic, body, d)] \<and> (\<exists>j. print_event j = Some body \<and> empty_activity j))"
proof -
  let ?t = "activity_packet [1, 2, 3, 4, 5, 6] (\<lambda>_. 0) (0x11 # 1 # replicate 18 7)"
  have u: "uploads nine_points = [0x11 # 1 # replicate 18 7]"
    by (simp add: nine_points_def receive_all_def BLE_Receive_data_def byte_at_def total_points_def Motion_Timer_Set_def Let_def)
  have free: "getNextFreeIndexForOutgoingPublishes (broker outbox_boot) = Some 0"
    by (simp add: outbox_boot_def mqtt_boot_def getNextFreeIndexForOutgoingPublishes_def no_packet_def eval_nat_numeral)
  have c: "c_sent calm" "c_topic calm \<noteq> c_payload calm" "c_root calm" "c_data calm" "c_print calm = print_event" by (simp_all add: calm_def)
  have t: "t_cmd ?t = TRACKER_MESSEGE_ACTIVITY" "motion_packet ?t ! 0 \<noteq> 0x10" by (simp_all add: byte_at_def)
  obtain topic body where run: "Send_cJSON_Messege_for_tracker calm ?t outbox_boot
      = Some (outbox_boot\<lparr>broker := handed_over calm topic body 0 (broker outbox_boot)\<rparr>)"
    unfolding Send_cJSON_Messege_for_tracker_def using t c hand_over_accepted [OF free c(1,2)]
    by (simp add: Get_cJSON_Header_def Get_cJSON_Data_for_Tracker_def publish_tree_def print_event_def Let_def)
  let ?s = "outbox_boot\<lparr>broker := handed_over calm topic body 0 (broker outbox_boot)\<rparr>"
  have s: "send_trackers [(calm, ?t)] outbox_boot = Some ?s" using run by simp
  have from_nine: "\<forall>(E, t) \<in> set [(calm, ?t)]. c_print E = print_event \<and> (\<exists>mac. \<exists>d \<in> set (uploads nine_points). t = activity_packet mac (\<lambda>_. 0) d)"
    using u c(5) by auto
  have "\<forall>(k, topic, body, d) \<in> set (published (broker ?s)). \<exists>j. print_event j = Some body \<and> empty_activity j"
    by (rule activity_messages_are_empty [where app = "\<lambda>_ m. m", OF _ _ from_nine [unfolded nine_points_def] s]) simp_all
  moreover have "\<exists>k topic body d. published (broker ?s) = [(k, topic, body, d)]"
    by (simp add: handed_over_def Let_def outbox_boot_def mqtt_boot_def)
  ultimately show ?thesis using u s by auto
qed

end
