(* ===== verification/Nvs.thy ===== *)
theory Nvs
  imports Prelude CText
begin

text \<open>
  The key-value storage, \<open>src/main/app_nvs.c\<close>, and the users of it in
  \<open>src/main/app_config_flash.c\<close> that \<open>App_Config\<close> leaves out: the network and Bluetooth settings, the motor
  time and the load cell calibration.  The flash library is a record of functions on an abstract flash \<open>'f\<close>; what is
  relied on is the hypothesis \<open>nvs_laws\<close>.  Bytes are characters.
\<close>

section \<open>The library\<close>

datatype nvs_err = NVS_OK | NVS_NOT_FOUND | NVS_INVALID_SIZE | NVS_FAIL

datatype nvs_value = NVS_STR "char list" | NVS_U32 u32 | NVS_I32 u32 | NVS_BLOB "char list"

text \<open>
  \<open>nvs_open\<close> takes whether writing is wanted; the \<open>nvs_get\<close> functions answer an error and a value, which counts only
  without error.
\<close>

record 'f nvs =
  nvs_open :: "'f \<Rightarrow> char list \<Rightarrow> bool \<Rightarrow> nvs_err \<times> 'f"
  nvs_get_str :: "'f \<Rightarrow> char list \<Rightarrow> char list \<Rightarrow> nvs_err \<times> char list"
  nvs_get_u32 :: "'f \<Rightarrow> char list \<Rightarrow> char list \<Rightarrow> nvs_err \<times> u32"
  nvs_get_i32 :: "'f \<Rightarrow> char list \<Rightarrow> char list \<Rightarrow> nvs_err \<times> u32"
  nvs_get_blob :: "'f \<Rightarrow> char list \<Rightarrow> char list \<Rightarrow> nvs_err \<times> char list"
  nvs_set :: "'f \<Rightarrow> char list \<Rightarrow> char list \<Rightarrow> nvs_value \<Rightarrow> nvs_err \<times> 'f"
  nvs_commit :: "'f \<Rightarrow> char list \<Rightarrow> nvs_err \<times> 'f"
  nvs_erase_key :: "'f \<Rightarrow> char list \<Rightarrow> char list \<Rightarrow> nvs_err \<times> 'f"
  nvs_erase_all :: "'f \<Rightarrow> char list \<Rightarrow> nvs_err \<times> 'f"

section \<open>Writing\<close>

text \<open>The four writers differ in the value only: open, set, commit whatever \<open>set\<close> said.\<close>

definition write_nvs :: "'f nvs \<Rightarrow> char list \<Rightarrow> char list \<Rightarrow> nvs_value \<Rightarrow> 'f \<Rightarrow> 'f" where
  "write_nvs N name key v f =
     (let (err, f) = nvs_open N f name True
      in if err \<noteq> NVS_OK then f
         else let (err, f) = nvs_set N f name key v; (err, f) = nvs_commit N f name in f)"

definition write_nvs_memory :: "'f nvs \<Rightarrow> char list \<Rightarrow> char list \<Rightarrow> char list \<Rightarrow> 'f \<Rightarrow> 'f" where
  "write_nvs_memory N name key data = write_nvs N name key (NVS_STR (cstr data))"

definition write_nvs_uint :: "'f nvs \<Rightarrow> char list \<Rightarrow> char list \<Rightarrow> u32 \<Rightarrow> 'f \<Rightarrow> 'f" where
  "write_nvs_uint N name key value = write_nvs N name key (NVS_U32 value)"

definition write_nvs_int :: "'f nvs \<Rightarrow> char list \<Rightarrow> char list \<Rightarrow> u32 \<Rightarrow> 'f \<Rightarrow> 'f" where
  "write_nvs_int N name key value = write_nvs N name key (NVS_I32 value)"

definition write_nvs_blob :: "'f nvs \<Rightarrow> char list \<Rightarrow> char list \<Rightarrow> char list \<Rightarrow> 'f \<Rightarrow> 'f" where
  "write_nvs_blob N name key data = write_nvs N name key (NVS_BLOB data)"

section \<open>Reading\<close>

text \<open>A copy of \<open>src\<close> to the front of the buffer.\<close>

definition put_front :: "char list \<Rightarrow> char list \<Rightarrow> char list" where
  "put_front src buf = src @ drop (length src) buf"

text \<open>
  The two readers of a size that is asked for first: \<open>need\<close> is the size of what is stored, \<open>bytes\<close> what is
  copied.  The result is the error and the caller's buffer.
\<close>

definition read_sized :: "nvs_err \<times> char list \<Rightarrow> (char list \<Rightarrow> char list) \<Rightarrow> nat \<Rightarrow> char list \<Rightarrow> nvs_err \<times> char list" where
  "read_sized res bytes max_len out =
     (let (err, v) = res; required_size = (if err = NVS_OK then length (bytes v) else 0)
      in if err = NVS_NOT_FOUND then (err, out)
         else if err = NVS_OK \<and> required_size > 0 then
           (if required_size > max_len then (NVS_INVALID_SIZE, out) else (NVS_OK, put_front (bytes v) out))
         else (err, out))"

definition read_nvs_memory :: "'f nvs \<Rightarrow> char list \<Rightarrow> char list \<Rightarrow> u16 \<Rightarrow> char list \<Rightarrow> 'f \<Rightarrow> nvs_err \<times> char list" where
  "read_nvs_memory N name key max_len out_data f =
     (let (err, f) = nvs_open N f name False
      in if err \<noteq> NVS_OK then (err, out_data)
         else read_sized (nvs_get_str N f name key) (\<lambda>s. s @ [CHR 0x00]) (unat max_len) out_data)"

definition read_nvs_uint :: "'f nvs \<Rightarrow> char list \<Rightarrow> char list \<Rightarrow> u32 \<Rightarrow> 'f \<Rightarrow> nvs_err \<times> u32" where
  "read_nvs_uint N name key default_value f =
     (let (err, f) = nvs_open N f name False
      in if err \<noteq> NVS_OK then (err, default_value)
         else let (err, v) = nvs_get_u32 N f name key in (err, if err = NVS_OK then v else default_value))"

definition read_nvs_int :: "'f nvs \<Rightarrow> char list \<Rightarrow> char list \<Rightarrow> u32 \<Rightarrow> 'f \<Rightarrow> u32" where
  "read_nvs_int N name key default_value f =
     (let (err, f) = nvs_open N f name False
      in if err \<noteq> NVS_OK then default_value
         else let (err, v) = nvs_get_i32 N f name key in if err = NVS_OK then v else default_value)"

definition read_nvs_blob :: "'f nvs \<Rightarrow> char list \<Rightarrow> char list \<Rightarrow> nat \<Rightarrow> char list \<Rightarrow> 'f \<Rightarrow> nvs_err \<times> char list" where
  "read_nvs_blob N name key max_length out_blob f =
     (let (err, f) = nvs_open N f name False
      in if err \<noteq> NVS_OK then (err, out_blob)
         else read_sized (nvs_get_blob N f name key) (\<lambda>b. b) max_length out_blob)"

section \<open>Erasing, and the registration flag\<close>

definition delete_nvs_key :: "'f nvs \<Rightarrow> char list \<Rightarrow> char list \<Rightarrow> 'f \<Rightarrow> 'f" where
  "delete_nvs_key N name key f =
     (let (err, f) = nvs_open N f name True
      in if err \<noteq> NVS_OK then f
         else let (err, f) = nvs_erase_key N f name key; (err, f) = nvs_commit N f name in f)"

definition delete_nvs_namespace :: "'f nvs \<Rightarrow> char list \<Rightarrow> 'f \<Rightarrow> 'f" where
  "delete_nvs_namespace N name f =
     (let (err, f) = nvs_open N f name True
      in if err \<noteq> NVS_OK then f
         else let (err, f) = nvs_erase_all N f name; (err, f) = nvs_commit N f name in f)"

definition read_nvs_registration_flag :: "'f nvs \<Rightarrow> 'f \<Rightarrow> bool" where
  "read_nvs_registration_flag N f =
     (case read_nvs_uint N ''storage'' ''is_registered'' 0 f of (err, value) \<Rightarrow> err = NVS_OK \<and> value = 1)"

definition write_nvs_registration_flag :: "'f nvs \<Rightarrow> bool \<Rightarrow> 'f \<Rightarrow> 'f" where
  "write_nvs_registration_flag N done f = write_nvs_uint N ''storage'' ''is_registered'' (if done then 1 else 0) f"

section \<open>The other settings\<close>

text \<open>
  The network settings are 32 bytes of name and 64 of password, the Bluetooth settings a name of 32
  bytes.  The names are those of \<open>app_nvs.h\<close>.
\<close>

record stored_settings =
  wifi_config :: "char list"
  ble_config :: "char list"
  motor_save_time :: u32
  wifi_flag :: bool
  ble_flag :: bool
  motor_flag :: bool

definition settings_boot :: stored_settings where
  "settings_boot = \<lparr>wifi_config = replicate 96 (CHR 0x00), ble_config = replicate 32 (CHR 0x00), motor_save_time = 0,
     wifi_flag = False, ble_flag = False, motor_flag = False\<rparr>"

type_synonym 'f stored = "stored_settings \<times> 'f"

definition save_wifi_configuration :: "'f nvs \<Rightarrow> 'f stored \<Rightarrow> 'f stored" where
  "save_wifi_configuration N sf = (case sf of (s, f) \<Rightarrow> (s, write_nvs_blob N ''WAVEON'' ''WIFI'' (wifi_config s) f))"

definition save_ble_configuration :: "'f nvs \<Rightarrow> 'f stored \<Rightarrow> 'f stored" where
  "save_ble_configuration N sf = (case sf of (s, f) \<Rightarrow> (s, write_nvs_blob N ''WAVEON'' ''BLE'' (ble_config s) f))"

definition save_motor_time :: "'f nvs \<Rightarrow> 'f stored \<Rightarrow> 'f stored" where
  "save_motor_time N sf = (case sf of (s, f) \<Rightarrow> (s, write_nvs_uint N ''WAVEON'' ''MOTOR_TIME'' (motor_save_time s) f))"

definition load_wifi_configuration :: "'f nvs \<Rightarrow> 'f stored \<Rightarrow> 'f stored" where
  "load_wifi_configuration N sf =
     (case sf of (s, f) \<Rightarrow>
        case read_nvs_blob N ''WAVEON'' ''WIFI'' 96 (wifi_config s) f of
          (err, b) \<Rightarrow> let s = s\<lparr>wifi_config := b\<rparr>
                     in if err \<noteq> NVS_OK then (s, write_nvs_blob N ''WAVEON'' ''WIFI'' (wifi_config s) f) else (s, f))"

definition load_ble_configuration :: "'f nvs \<Rightarrow> 'f stored \<Rightarrow> 'f stored" where
  "load_ble_configuration N sf =
     (case sf of (s, f) \<Rightarrow>
        case read_nvs_blob N ''WAVEON'' ''BLE'' 32 (ble_config s) f of
          (err, b) \<Rightarrow> let s = s\<lparr>ble_config := b\<rparr>
                     in if err \<noteq> NVS_OK then (s, write_nvs_blob N ''WAVEON'' ''BLE'' (ble_config s) f) else (s, f))"

definition load_motor_time :: "'f nvs \<Rightarrow> 'f stored \<Rightarrow> 'f stored" where
  "load_motor_time N sf =
     (case sf of (s, f) \<Rightarrow>
        case read_nvs_uint N ''WAVEON'' ''MOTOR_TIME'' (motor_save_time s) f of
          (err, v) \<Rightarrow> let s = s\<lparr>motor_save_time := v\<rparr>
                     in if err \<noteq> NVS_OK then (s, write_nvs_uint N ''WAVEON'' ''MOTOR_TIME'' (motor_save_time s) f) else (s, f))"

text \<open>The three last lines of a turn of \<open>flash_task\<close>, and what \<open>NVS_Flash_init\<close> loads at a start.\<close>

definition flash_task_turn :: "'f nvs \<Rightarrow> 'f stored \<Rightarrow> 'f stored" where
  "flash_task_turn N sf =
     (let sf = (if wifi_flag (fst sf) then save_wifi_configuration N ((fst sf)\<lparr>wifi_flag := False\<rparr>, snd sf) else sf);
          sf = (if ble_flag (fst sf) then save_ble_configuration N ((fst sf)\<lparr>ble_flag := False\<rparr>, snd sf) else sf)
      in if motor_flag (fst sf) then save_motor_time N ((fst sf)\<lparr>motor_flag := False\<rparr>, snd sf) else sf)"

definition NVS_Flash_init :: "'f nvs \<Rightarrow> 'f \<Rightarrow> 'f stored" where
  "NVS_Flash_init N f = load_motor_time N (load_ble_configuration N (load_wifi_configuration N (settings_boot, f)))"

definition erase_wifi_configuration :: "'f nvs \<Rightarrow> 'f stored \<Rightarrow> 'f stored" where
  "erase_wifi_configuration N sf =
     (case sf of (s, f) \<Rightarrow> save_wifi_configuration N (s\<lparr>wifi_config := replicate 96 (CHR 0x00)\<rparr>, f))"

definition erase_ble_configuration :: "'f nvs \<Rightarrow> 'f stored \<Rightarrow> 'f stored" where
  "erase_ble_configuration N sf =
     (case sf of (s, f) \<Rightarrow> save_ble_configuration N (s\<lparr>ble_config := replicate 32 (CHR 0x00)\<rparr>, f))"

text \<open>The zero points of the load cells in one of four states: four \<open>int\<close>, 16 bytes, under a key of its own.\<close>

definition calibration_key :: "int \<Rightarrow> char list" where
  "calibration_key state = take 15 (''lc_cal_'' @ decimal state)"

definition save_lc_calibration_to_nvs :: "'f nvs \<Rightarrow> int \<Rightarrow> char list \<Rightarrow> 'f \<Rightarrow> 'f" where
  "save_lc_calibration_to_nvs N state offsets f = write_nvs_blob N ''WAVEON'' (calibration_key state) offsets f"

definition load_lc_calibration_from_nvs :: "'f nvs \<Rightarrow> int \<Rightarrow> char list \<Rightarrow> 'f \<Rightarrow> char list" where
  "load_lc_calibration_from_nvs N state offsets f = snd (read_nvs_blob N ''WAVEON'' (calibration_key state) 16 offsets f)"

section \<open>What is relied on\<close>

text \<open>
  \<open>view\<close> is what a flash holds.  Any call may fail: a flash may be full or worn out, a value too large, a name or a
  key longer than the 15 characters allowed.  Opening changes nothing, and for reading it works at least for namespaces that
  hold something; setting a value puts it under its key when it answers without error, does so or changes nothing when it
  answers with one, and always fails for a key that is too long; committing changes nothing that can be read; a value is read
  back with its own type only.
\<close>

definition stored_under :: "char list \<Rightarrow> char list \<Rightarrow> nvs_value \<Rightarrow> (char list \<Rightarrow> char list \<Rightarrow> nvs_value option) \<Rightarrow>
  char list \<Rightarrow> char list \<Rightarrow> nvs_value option" where
  "stored_under n k v h = h(n := (h n)(k \<mapsto> v))"

definition nvs_laws :: "'f nvs \<Rightarrow> ('f \<Rightarrow> char list \<Rightarrow> char list \<Rightarrow> nvs_value option) \<Rightarrow> bool" where
  "nvs_laws N view \<longleftrightarrow>
     (\<forall>f n w. view (snd (nvs_open N f n w)) = view f)
     \<and> (\<forall>f n. (\<exists>k. view f n k \<noteq> None) \<longrightarrow> fst (nvs_open N f n False) = NVS_OK)
     \<and> (\<forall>f n k v. fst (nvs_set N f n k v) = NVS_OK \<longrightarrow> view (snd (nvs_set N f n k v)) = stored_under n k v (view f))
     \<and> (\<forall>f n k v. view (snd (nvs_set N f n k v)) \<in> {view f, stored_under n k v (view f)})
     \<and> (\<forall>f n k v. 15 < length k \<longrightarrow> fst (nvs_set N f n k v) \<noteq> NVS_OK \<and> view (snd (nvs_set N f n k v)) = view f)
     \<and> (\<forall>f n. view (snd (nvs_commit N f n)) = view f)
     \<and> (\<forall>f n k. case view f n k of
          Some (NVS_STR s) \<Rightarrow> nvs_get_str N f n k = (NVS_OK, s) | _ \<Rightarrow> fst (nvs_get_str N f n k) \<noteq> NVS_OK)
     \<and> (\<forall>f n k. case view f n k of
          Some (NVS_U32 w) \<Rightarrow> nvs_get_u32 N f n k = (NVS_OK, w) | _ \<Rightarrow> fst (nvs_get_u32 N f n k) \<noteq> NVS_OK)
     \<and> (\<forall>f n k. case view f n k of
          Some (NVS_I32 w) \<Rightarrow> nvs_get_i32 N f n k = (NVS_OK, w) | _ \<Rightarrow> fst (nvs_get_i32 N f n k) \<noteq> NVS_OK)
     \<and> (\<forall>f n k. case view f n k of
          Some (NVS_BLOB b) \<Rightarrow> nvs_get_blob N f n k = (NVS_OK, b) | _ \<Rightarrow> fst (nvs_get_blob N f n k) \<noteq> NVS_OK)"

text \<open>A write is accepted when all three calls answer without error.\<close>

definition write_ok :: "'f nvs \<Rightarrow> char list \<Rightarrow> char list \<Rightarrow> nvs_value \<Rightarrow> 'f \<Rightarrow> bool" where
  "write_ok N n k v f \<longleftrightarrow>
     (let (e1, f1) = nvs_open N f n True; (e2, f2) = nvs_set N f1 n k v; (e3, f3) = nvs_commit N f2 n
      in e1 = NVS_OK \<and> e2 = NVS_OK \<and> e3 = NVS_OK)"

text \<open>A flash in memory with room for everything, for the witnesses.\<close>

definition ram :: "(char list \<Rightarrow> char list \<Rightarrow> nvs_value option) nvs" where
  "ram = \<lparr>nvs_open = (\<lambda>f n w. (NVS_OK, f)),
     nvs_get_str = (\<lambda>f n k. case f n k of Some (NVS_STR s) \<Rightarrow> (NVS_OK, s) | _ \<Rightarrow> (NVS_NOT_FOUND, [])),
     nvs_get_u32 = (\<lambda>f n k. case f n k of Some (NVS_U32 w) \<Rightarrow> (NVS_OK, w) | _ \<Rightarrow> (NVS_NOT_FOUND, 0)),
     nvs_get_i32 = (\<lambda>f n k. case f n k of Some (NVS_I32 w) \<Rightarrow> (NVS_OK, w) | _ \<Rightarrow> (NVS_NOT_FOUND, 0)),
     nvs_get_blob = (\<lambda>f n k. case f n k of Some (NVS_BLOB b) \<Rightarrow> (NVS_OK, b) | _ \<Rightarrow> (NVS_NOT_FOUND, [])),
     nvs_set = (\<lambda>f n k v. if length k \<le> 15 then (NVS_OK, stored_under n k v f) else (NVS_FAIL, f)), nvs_commit = (\<lambda>f n. (NVS_OK, f)),
     nvs_erase_key = (\<lambda>f n k. (NVS_OK, f(n := (f n)(k := None)))), nvs_erase_all = (\<lambda>f n. (NVS_OK, f(n := Map.empty)))\<rparr>"

lemma ram_laws: "nvs_laws ram (\<lambda>f. f)"
  by (auto simp: nvs_laws_def ram_def split: option.splits nvs_value.splits)

lemma ram_accepts: "length k \<le> 15 \<Longrightarrow> write_ok ram n k v f"
  by (simp add: write_ok_def ram_def)

section \<open>Reading and writing\<close>

text \<open>
  Reading never writes outside the caller's buffer, whatever the flash holds and answers, and an
  error leaves the buffer as it was.
\<close>

lemma unat_u16 [simp]: "unat (of_nat n :: u16) = n mod 65536"
  by (simp add: unsigned_of_nat take_bit_eq_mod)

theorem reads_stay_in_buffer:
  "length (snd (read_nvs_blob N name key (length buf) buf f)) = length buf
   \<and> length (snd (read_nvs_memory N name key (of_nat (length buf)) buf f)) = length buf
   \<and> (fst (read_nvs_blob N name key (length buf) buf f) = NVS_OK \<or> snd (read_nvs_blob N name key (length buf) buf f) = buf)
   \<and> (fst (read_nvs_memory N name key (of_nat (length buf)) buf f) = NVS_OK
        \<or> snd (read_nvs_memory N name key (of_nat (length buf)) buf f) = buf)"
proof -
  have len: "length (snd (read_sized res bytes m buf)) = length buf" if "m \<le> length buf" for res bytes m
    using that by (auto simp: read_sized_def put_front_def Let_def split: prod.splits)
  have err: "fst (read_sized res bytes m buf) = NVS_OK \<or> snd (read_sized res bytes m buf) = buf" for res bytes m
    by (auto simp: read_sized_def Let_def split: prod.splits if_splits)
  obtain e f' where o: "nvs_open N f name False = (e, f')" by (cases "nvs_open N f name False")
  show ?thesis
    using err [of "nvs_get_blob N f' name key" "\<lambda>b. b"] err [of "nvs_get_str N f' name key" "\<lambda>s. s @ [CHR 0x00]"]
    by (simp add: read_nvs_blob_def read_nvs_memory_def o len)
qed

lemma write_view:
  assumes "nvs_laws N view"
  shows "write_ok N n k v f \<Longrightarrow> view (write_nvs N n k v f) = stored_under n k v (view f)"
    and "view (write_nvs N n k v f) \<in> {view f, stored_under n k v (view f)}"
    and "15 < length k \<Longrightarrow> \<not> write_ok N n k v f \<and> view (write_nvs N n k v f) = view f"
proof -
  obtain e1 f1 where 1: "nvs_open N f n True = (e1, f1)" by (cases "nvs_open N f n True")
  obtain e2 f2 where 2: "nvs_set N f1 n k v = (e2, f2)" by (cases "nvs_set N f1 n k v")
  obtain e3 f3 where 3: "nvs_commit N f2 n = (e3, f3)" by (cases "nvs_commit N f2 n")
  have v1: "view f1 = view f" using assms 1 unfolding nvs_laws_def by (metis snd_conv)
  have v3: "view f3 = view f2" using assms 3 unfolding nvs_laws_def by (metis snd_conv)
  have ok: "e2 = NVS_OK \<Longrightarrow> view f2 = stored_under n k v (view f1)"
    using assms 2 unfolding nvs_laws_def by (metis fst_conv snd_conv)
  have any: "view f2 \<in> {view f1, stored_under n k v (view f1)}" using assms 2 unfolding nvs_laws_def by (metis snd_conv)
  have long: "15 < length k \<Longrightarrow> e2 \<noteq> NVS_OK \<and> view f2 = view f1"
    using assms 2 unfolding nvs_laws_def by (metis fst_conv snd_conv)
  show "write_ok N n k v f \<Longrightarrow> view (write_nvs N n k v f) = stored_under n k v (view f)"
    using ok by (simp add: write_ok_def write_nvs_def 1 2 3 v1 v3)
  show "view (write_nvs N n k v f) \<in> {view f, stored_under n k v (view f)}"
    using any by (simp add: write_nvs_def 1 2 3 v1 v3)
  show "15 < length k \<Longrightarrow> \<not> write_ok N n k v f \<and> view (write_nvs N n k v f) = view f"
    using long by (simp add: write_ok_def write_nvs_def 1 2 3 v1 v3)
qed

text \<open>Another key is never touched.\<close>

lemma write_other: "nvs_laws N view \<Longrightarrow> (n', k') \<noteq> (n, k) \<Longrightarrow> view (write_nvs N n k v f) n' k' = view f n' k'"
  using write_view(2) [of N view n k v f] by (auto simp: stored_under_def)

text \<open>What a reader finds, by what the flash holds.\<close>

lemma get_view:
  assumes "nvs_laws N view"
  shows "case view f n k of Some (NVS_STR s) \<Rightarrow> nvs_get_str N f n k = (NVS_OK, s) | _ \<Rightarrow> fst (nvs_get_str N f n k) \<noteq> NVS_OK"
    "case view f n k of Some (NVS_U32 w) \<Rightarrow> nvs_get_u32 N f n k = (NVS_OK, w) | _ \<Rightarrow> fst (nvs_get_u32 N f n k) \<noteq> NVS_OK"
    "case view f n k of Some (NVS_I32 w) \<Rightarrow> nvs_get_i32 N f n k = (NVS_OK, w) | _ \<Rightarrow> fst (nvs_get_i32 N f n k) \<noteq> NVS_OK"
    "case view f n k of Some (NVS_BLOB b) \<Rightarrow> nvs_get_blob N f n k = (NVS_OK, b) | _ \<Rightarrow> fst (nvs_get_blob N f n k) \<noteq> NVS_OK"
  using assms unfolding nvs_laws_def by blast+

lemma open_view:
  assumes "nvs_laws N view" "view f n k \<noteq> None"
  obtains f' where "nvs_open N f n False = (NVS_OK, f')" "view f' = view f"
  using assms unfolding nvs_laws_def by (metis prod.collapse)

lemma open_view': "nvs_laws N view \<Longrightarrow> view (snd (nvs_open N f n False)) = view f"
  unfolding nvs_laws_def by simp

lemma read_blob_some:
  assumes "nvs_laws N view" "view f n k = Some (NVS_BLOB b)"
  shows "read_nvs_blob N n k m out f =
    (if b = [] then (NVS_OK, out) else if length b > m then (NVS_INVALID_SIZE, out) else (NVS_OK, put_front b out))"
proof -
  obtain f' where f': "nvs_open N f n False = (NVS_OK, f')" "view f' = view f"
    using open_view [OF assms(1), of f n k] assms(2) by auto
  then have "nvs_get_blob N f' n k = (NVS_OK, b)" using get_view(4) [OF assms(1), of f' n k] assms(2) by simp
  then show ?thesis using f'(1) by (simp add: read_nvs_blob_def read_sized_def)
qed

lemma read_uint_some:
  assumes "nvs_laws N view" "view f n k = Some (NVS_U32 w)"
  shows "read_nvs_uint N n k d f = (NVS_OK, w)"
proof -
  obtain f' where f': "nvs_open N f n False = (NVS_OK, f')" "view f' = view f"
    using open_view [OF assms(1), of f n k] assms(2) by auto
  then have "nvs_get_u32 N f' n k = (NVS_OK, w)" using get_view(2) [OF assms(1), of f' n k] assms(2) by simp
  then show ?thesis using f'(1) by (simp add: read_nvs_uint_def)
qed

lemma read_str_some:
  assumes "nvs_laws N view" "view f n k = Some (NVS_STR s)"
  shows "read_nvs_memory N n k m out f =
    (if length s + 1 > unat m then (NVS_INVALID_SIZE, out) else (NVS_OK, put_front (s @ [CHR 0x00]) out))"
proof -
  obtain f' where f': "nvs_open N f n False = (NVS_OK, f')" "view f' = view f"
    using open_view [OF assms(1), of f n k] assms(2) by auto
  then have "nvs_get_str N f' n k = (NVS_OK, s)" using get_view(1) [OF assms(1), of f' n k] assms(2) by simp
  then show ?thesis using f'(1) by (simp add: read_nvs_memory_def read_sized_def)
qed

lemma read_int_some:
  assumes "nvs_laws N view" "view f n k = Some (NVS_I32 w)"
  shows "read_nvs_int N n k d f = w"
proof -
  obtain f' where f': "nvs_open N f n False = (NVS_OK, f')" "view f' = view f"
    using open_view [OF assms(1), of f n k] assms(2) by auto
  then have "nvs_get_i32 N f' n k = (NVS_OK, w)" using get_view(3) [OF assms(1), of f' n k] assms(2) by simp
  then show ?thesis using f'(1) by (simp add: read_nvs_int_def)
qed

text \<open>
  C28: round trip.  A number, a text and a block of bytes that the flash accepted are read back as they were
  written, the text and the block into every buffer they fit in, and a buffer that is too small is
  refused; the reader of a text is told the size of its buffer in 16 bits, so that of a larger buffer it uses the
  rest by \<open>2 ^ 16\<close>.  Nothing is accepted, and nothing changes, under a key of more than 15
  characters; and whatever fails, everything stored under another key is as before.
\<close>

theorem stored_values_read_back:
  assumes "nvs_laws N view"
  shows "(write_ok N n k (NVS_U32 v) f \<longrightarrow> read_nvs_uint N n k d (write_nvs_uint N n k v f) = (NVS_OK, v))
    \<and> (write_ok N n k (NVS_I32 v) f \<longrightarrow> read_nvs_int N n k d (write_nvs_int N n k v f) = v)
    \<and> (write_ok N n k (NVS_STR (cstr t)) f \<longrightarrow>
        read_nvs_memory N n k (of_nat (length buf)) buf (write_nvs_memory N n k t f) =
        (if length (cstr t) < length buf mod 2 ^ 16 then (NVS_OK, put_front (cstr t @ [CHR 0x00]) buf) else (NVS_INVALID_SIZE, buf)))
    \<and> (write_ok N n k (NVS_BLOB b) f \<and> b \<noteq> [] \<longrightarrow>
        read_nvs_blob N n k (length buf) buf (write_nvs_blob N n k b f) =
        (if length b \<le> length buf then (NVS_OK, put_front b buf) else (NVS_INVALID_SIZE, buf)))
    \<and> (15 < length k \<longrightarrow> \<not> write_ok N n k x f \<and> view (write_nvs N n k x f) = view f)
    \<and> ((n', k') \<noteq> (n, k) \<longrightarrow> view (write_nvs N n k x f) n' k' = view f n' k')"
proof (intro conjI impI)
  note w = write_view [OF assms]
  show "read_nvs_uint N n k d (write_nvs_uint N n k v f) = (NVS_OK, v)" if "write_ok N n k (NVS_U32 v) f"
    using w(1) [OF that] by (simp add: write_nvs_uint_def read_uint_some [OF assms] stored_under_def)
  show "read_nvs_int N n k d (write_nvs_int N n k v f) = v" if "write_ok N n k (NVS_I32 v) f"
    using w(1) [OF that] by (simp add: write_nvs_int_def read_int_some [OF assms] stored_under_def)
  show "read_nvs_memory N n k (of_nat (length buf)) buf (write_nvs_memory N n k t f) =
      (if length (cstr t) < length buf mod 2 ^ 16 then (NVS_OK, put_front (cstr t @ [CHR 0x00]) buf) else (NVS_INVALID_SIZE, buf))"
    if "write_ok N n k (NVS_STR (cstr t)) f"
    using w(1) [OF that] read_str_some [OF assms, of "write_nvs_memory N n k t f" n k "cstr t" "of_nat (length buf)" buf]
    by (simp add: write_nvs_memory_def stored_under_def Suc_le_eq not_less)
  show "read_nvs_blob N n k (length buf) buf (write_nvs_blob N n k b f) =
      (if length b \<le> length buf then (NVS_OK, put_front b buf) else (NVS_INVALID_SIZE, buf))"
    if "write_ok N n k (NVS_BLOB b) f \<and> b \<noteq> []"
    using w(1) [OF conjunct1 [OF that]] that
      read_blob_some [OF assms, of "write_nvs_blob N n k b f" n k b "length buf" buf]
    by (simp add: write_nvs_blob_def stored_under_def)
  show "\<not> write_ok N n k x f" "view (write_nvs N n k x f) = view f" if "15 < length k"
    using w(3) [OF that] by simp_all
  show "view (write_nvs N n k x f) n' k' = view f n' k'" if "(n', k') \<noteq> (n, k)"
    by (rule write_other [OF assms that])
qed

theorem stored_values_read_back_witness:
  "read_nvs_memory ram ''a'' ''b'' 4 ''wxyz'' (write_nvs_memory ram ''a'' ''b'' ''hi'' (\<lambda>_ _. None)) = (NVS_OK, ''hi'' @ [CHR 0x00] @ ''z'')
   \<and> read_nvs_blob ram ''a'' ''b'' 1 ''w'' (write_nvs_blob ram ''a'' ''b'' ''hi'' (\<lambda>_ _. None)) = (NVS_INVALID_SIZE, ''w'')"
  using stored_values_read_back [OF ram_laws, of "''a''" "''b''" 0 "\<lambda>_ _. None" 0 "''hi''" "''wxyz''" "''hi''"]
    stored_values_read_back [OF ram_laws, of "''a''" "''b''" 0 "\<lambda>_ _. None" 0 "''hi''" "''w''" "''hi''"]
  by (simp add: put_front_def cstr_def ram_accepts)

section \<open>Settings over a restart\<close>

definition setting :: "'f \<Rightarrow> ('f \<Rightarrow> char list \<Rightarrow> char list \<Rightarrow> nvs_value option) \<Rightarrow> char list \<Rightarrow> nvs_value option" where
  "setting f view k = view f ''WAVEON'' k"

lemma read_blob_none:
  assumes "nvs_laws N view" "\<And>b. view f n k \<noteq> Some (NVS_BLOB b)"
  shows "fst (read_nvs_blob N n k m out f) \<noteq> NVS_OK \<and> snd (read_nvs_blob N n k m out f) = out"
proof -
  obtain e f' where f': "nvs_open N f n False = (e, f')" by (cases "nvs_open N f n False")
  then have "view f' = view f" using open_view' [OF assms(1), of f n] by simp
  then have "fst (nvs_get_blob N f' n k) \<noteq> NVS_OK"
    using get_view(4) [OF assms(1), of f' n k] assms(2)
    by (cases "view f n k") (auto split: nvs_value.splits)
  then show ?thesis by (auto simp: read_nvs_blob_def f' read_sized_def Let_def split: prod.splits)
qed

lemma read_uint_none:
  assumes "nvs_laws N view" "\<And>w. view f n k \<noteq> Some (NVS_U32 w)"
  shows "fst (read_nvs_uint N n k d f) \<noteq> NVS_OK \<and> snd (read_nvs_uint N n k d f) = d"
proof -
  obtain e f' where f': "nvs_open N f n False = (e, f')" by (cases "nvs_open N f n False")
  then have "view f' = view f" using open_view' [OF assms(1), of f n] by simp
  then have "fst (nvs_get_u32 N f' n k) \<noteq> NVS_OK"
    using get_view(2) [OF assms(1), of f' n k] assms(2)
    by (cases "view f n k") (auto split: nvs_value.splits)
  then show ?thesis by (auto simp: read_nvs_uint_def f' Let_def split: prod.splits)
qed

text \<open>What loading a block, or a number, makes of the value in memory.\<close>

definition loaded_blob :: "nvs_value option \<Rightarrow> char list \<Rightarrow> char list" where
  "loaded_blob v out = (case v of Some (NVS_BLOB b) \<Rightarrow>
     if b = [] \<or> length b > length out then out else put_front b out | _ \<Rightarrow> out)"

definition loaded_uint :: "nvs_value option \<Rightarrow> u32 \<Rightarrow> u32" where
  "loaded_uint v d = (case v of Some (NVS_U32 w) \<Rightarrow> w | _ \<Rightarrow> d)"

lemma read_blob_loaded:
  "nvs_laws N view \<Longrightarrow> snd (read_nvs_blob N n k (length out) out f) = loaded_blob (view f n k) out"
  using read_blob_some [of N view f n k] read_blob_none [of N view f n k]
  by (auto simp: loaded_blob_def split: option.splits nvs_value.splits)

lemma read_uint_loaded:
  "nvs_laws N view \<Longrightarrow> snd (read_nvs_uint N n k d f) = loaded_uint (view f n k) d"
  using read_uint_some [of N view f n k] read_uint_none [of N view f n k]
  by (auto simp: loaded_uint_def split: option.splits nvs_value.splits)

lemma load_wifi_spec:
  assumes "nvs_laws N view" "length (wifi_config s) = 96"
  shows "fst (load_wifi_configuration N (s, f)) = s\<lparr>wifi_config := loaded_blob (setting f view ''WIFI'') (wifi_config s)\<rparr>"
    "k \<noteq> ''WIFI'' \<Longrightarrow> setting (snd (load_wifi_configuration N (s, f))) view k = setting f view k"
proof -
  obtain e b where r: "read_nvs_blob N ''WAVEON'' ''WIFI'' 96 (wifi_config s) f = (e, b)" by fastforce
  have "b = loaded_blob (setting f view ''WIFI'') (wifi_config s)"
    using read_blob_loaded [OF assms(1), of "''WAVEON''" "''WIFI''" "wifi_config s" f] assms(2) r by (simp add: setting_def)
  then show "fst (load_wifi_configuration N (s, f)) = s\<lparr>wifi_config := loaded_blob (setting f view ''WIFI'') (wifi_config s)\<rparr>"
    by (simp add: load_wifi_configuration_def r Let_def)
  assume "k \<noteq> ''WIFI''"
  then show "setting (snd (load_wifi_configuration N (s, f))) view k = setting f view k"
    using write_other [OF assms(1), of "''WAVEON''" k "''WAVEON''" "''WIFI''"]
    by (simp add: load_wifi_configuration_def r Let_def setting_def write_nvs_blob_def)
qed

lemma load_ble_spec:
  assumes "nvs_laws N view" "length (ble_config s) = 32"
  shows "fst (load_ble_configuration N (s, f)) = s\<lparr>ble_config := loaded_blob (setting f view ''BLE'') (ble_config s)\<rparr>"
    "k \<noteq> ''BLE'' \<Longrightarrow> setting (snd (load_ble_configuration N (s, f))) view k = setting f view k"
proof -
  obtain e b where r: "read_nvs_blob N ''WAVEON'' ''BLE'' 32 (ble_config s) f = (e, b)" by fastforce
  have "b = loaded_blob (setting f view ''BLE'') (ble_config s)"
    using read_blob_loaded [OF assms(1), of "''WAVEON''" "''BLE''" "ble_config s" f] assms(2) r by (simp add: setting_def)
  then show "fst (load_ble_configuration N (s, f)) = s\<lparr>ble_config := loaded_blob (setting f view ''BLE'') (ble_config s)\<rparr>"
    by (simp add: load_ble_configuration_def r Let_def)
  assume "k \<noteq> ''BLE''"
  then show "setting (snd (load_ble_configuration N (s, f))) view k = setting f view k"
    using write_other [OF assms(1), of "''WAVEON''" k "''WAVEON''" "''BLE''"]
    by (simp add: load_ble_configuration_def r Let_def setting_def write_nvs_blob_def)
qed

lemma load_motor_spec:
  assumes "nvs_laws N view"
  shows "fst (load_motor_time N (s, f)) = s\<lparr>motor_save_time := loaded_uint (setting f view ''MOTOR_TIME'') (motor_save_time s)\<rparr>"
  using read_uint_loaded [OF assms(1), of "''WAVEON''" "''MOTOR_TIME''" "motor_save_time s" f]
  by (auto simp: load_motor_time_def setting_def Let_def split: prod.splits)

lemma init_spec:
  assumes "nvs_laws N view"
  shows "wifi_config (fst (NVS_Flash_init N f)) = loaded_blob (setting f view ''WIFI'') (replicate 96 (CHR 0x00))
    \<and> ble_config (fst (NVS_Flash_init N f)) = loaded_blob (setting f view ''BLE'') (replicate 32 (CHR 0x00))
    \<and> motor_save_time (fst (NVS_Flash_init N f)) = loaded_uint (setting f view ''MOTOR_TIME'') 0"
proof -
  obtain s1 f1 where 1: "load_wifi_configuration N (settings_boot, f) = (s1, f1)" by (cases "load_wifi_configuration N (settings_boot, f)")
  obtain s2 f2 where 2: "load_ble_configuration N (s1, f1) = (s2, f2)" by (cases "load_ble_configuration N (s1, f1)")
  have l0: "length (wifi_config settings_boot) = 96" "length (ble_config settings_boot) = 32" by (simp_all add: settings_boot_def)
  note w = load_wifi_spec [OF assms l0(1), where f = f, unfolded 1 fst_conv snd_conv]
  have l1: "length (ble_config s1) = 32" unfolding w(1) using l0(2) by simp
  note b = load_ble_spec [OF assms l1, where f = f1, unfolded 2 fst_conv snd_conv]
  have "NVS_Flash_init N f = load_motor_time N (s2, f2)" by (simp add: NVS_Flash_init_def 1 2)
  then show ?thesis using w b load_motor_spec [OF assms, of s2 f2] by (simp add: settings_boot_def)
qed

text \<open>The flash behind the first and the second write of a turn, and whether the flash accepts what the turn writes.\<close>

definition after_wifi :: "'f nvs \<Rightarrow> stored_settings \<Rightarrow> 'f \<Rightarrow> 'f" where
  "after_wifi N s f = (if wifi_flag s then write_nvs N ''WAVEON'' ''WIFI'' (NVS_BLOB (wifi_config s)) f else f)"

definition after_ble :: "'f nvs \<Rightarrow> stored_settings \<Rightarrow> 'f \<Rightarrow> 'f" where
  "after_ble N s f = (if ble_flag s then write_nvs N ''WAVEON'' ''BLE'' (NVS_BLOB (ble_config s)) f else f)"

definition after_motor :: "'f nvs \<Rightarrow> stored_settings \<Rightarrow> 'f \<Rightarrow> 'f" where
  "after_motor N s f = (if motor_flag s then write_nvs N ''WAVEON'' ''MOTOR_TIME'' (NVS_U32 (motor_save_time s)) f else f)"

definition turn_accepted :: "'f nvs \<Rightarrow> stored_settings \<Rightarrow> 'f \<Rightarrow> bool" where
  "turn_accepted N s f \<longleftrightarrow>
     (wifi_flag s \<longrightarrow> write_ok N ''WAVEON'' ''WIFI'' (NVS_BLOB (wifi_config s)) f)
     \<and> (ble_flag s \<longrightarrow> write_ok N ''WAVEON'' ''BLE'' (NVS_BLOB (ble_config s)) (after_wifi N s f))
     \<and> (motor_flag s \<longrightarrow> write_ok N ''WAVEON'' ''MOTOR_TIME'' (NVS_U32 (motor_save_time s)) (after_ble N s (after_wifi N s f)))"

lemma turn_writes: "snd (flash_task_turn N (s, f)) = after_motor N s (after_ble N s (after_wifi N s f))"
  by (auto simp: flash_task_turn_def save_wifi_configuration_def save_ble_configuration_def save_motor_time_def
      write_nvs_blob_def write_nvs_uint_def after_wifi_def after_ble_def after_motor_def Let_def)

lemma one_write:
  assumes "nvs_laws N view"
  shows "setting (if b then write_nvs N ''WAVEON'' k v f else f) view k' =
      (if k' = k \<and> setting (if b then write_nvs N ''WAVEON'' k v f else f) view k \<noteq> setting f view k then Some v else setting f view k')"
    and "setting (if b then write_nvs N ''WAVEON'' k v f else f) view k = setting f view k \<or>
      b \<and> setting (if b then write_nvs N ''WAVEON'' k v f else f) view k = Some v"
    and "(b \<longrightarrow> write_ok N ''WAVEON'' k v f) \<Longrightarrow>
      setting (if b then write_nvs N ''WAVEON'' k v f else f) view k = (if b then Some v else setting f view k)"
  using write_view(1,2) [OF assms, of "''WAVEON''" k v f] by (auto simp: setting_def stored_under_def)

text \<open>What a turn of the task leaves in the flash.\<close>

definition either :: "bool \<Rightarrow> 'a \<Rightarrow> 'a \<Rightarrow> 'a \<Rightarrow> bool" where
  "either b new old x \<longleftrightarrow> x = old \<or> b \<and> x = new"

lemma turn_spec:
  fixes N :: "'f nvs" and view and s :: stored_settings and f :: 'f
  assumes "nvs_laws N view"
  defines "m \<equiv> setting (snd (flash_task_turn N (s, f))) view"
  shows "either (wifi_flag s) (Some (NVS_BLOB (wifi_config s))) (setting f view ''WIFI'') (m ''WIFI'')"
    "either (ble_flag s) (Some (NVS_BLOB (ble_config s))) (setting f view ''BLE'') (m ''BLE'')"
    "either (motor_flag s) (Some (NVS_U32 (motor_save_time s))) (setting f view ''MOTOR_TIME'') (m ''MOTOR_TIME'')"
    "turn_accepted N s f \<Longrightarrow> m ''WIFI'' = (if wifi_flag s then Some (NVS_BLOB (wifi_config s)) else setting f view ''WIFI'')
       \<and> m ''BLE'' = (if ble_flag s then Some (NVS_BLOB (ble_config s)) else setting f view ''BLE'')
       \<and> m ''MOTOR_TIME'' = (if motor_flag s then Some (NVS_U32 (motor_save_time s)) else setting f view ''MOTOR_TIME'')"
proof -
  note w = one_write [OF assms(1), of "wifi_flag s" "''WIFI''" "NVS_BLOB (wifi_config s)" f, folded after_wifi_def]
  note b = one_write [OF assms(1), of "ble_flag s" "''BLE''" "NVS_BLOB (ble_config s)" "after_wifi N s f", folded after_ble_def]
  note t = one_write [OF assms(1), of "motor_flag s" "''MOTOR_TIME''" "NVS_U32 (motor_save_time s)" "after_ble N s (after_wifi N s f)",
      folded after_motor_def]
  have m: "m ''WIFI'' = setting (after_wifi N s f) view ''WIFI''"
    "m ''BLE'' = setting (after_ble N s (after_wifi N s f)) view ''BLE''"
    unfolding m_def turn_writes using b(1) [of "''WIFI''"] t(1) [of "''WIFI''"] t(1) [of "''BLE''"] by simp_all
  have o: "setting (after_wifi N s f) view ''BLE'' = setting f view ''BLE''"
    "setting (after_ble N s (after_wifi N s f)) view ''MOTOR_TIME'' = setting f view ''MOTOR_TIME''"
    using w(1) [of "''BLE''"] w(1) [of "''MOTOR_TIME''"] b(1) [of "''MOTOR_TIME''"] by simp_all
  show "either (wifi_flag s) (Some (NVS_BLOB (wifi_config s))) (setting f view ''WIFI'') (m ''WIFI'')"
    using w(2) m by (simp add: either_def)
  show "either (ble_flag s) (Some (NVS_BLOB (ble_config s))) (setting f view ''BLE'') (m ''BLE'')"
    using b(2) m o by (simp add: either_def)
  show "either (motor_flag s) (Some (NVS_U32 (motor_save_time s))) (setting f view ''MOTOR_TIME'') (m ''MOTOR_TIME'')"
    using t(2) o by (simp add: either_def m_def turn_writes)
  show "turn_accepted N s f \<Longrightarrow> m ''WIFI'' = (if wifi_flag s then Some (NVS_BLOB (wifi_config s)) else setting f view ''WIFI'')
       \<and> m ''BLE'' = (if ble_flag s then Some (NVS_BLOB (ble_config s)) else setting f view ''BLE'')
       \<and> m ''MOTOR_TIME'' = (if motor_flag s then Some (NVS_U32 (motor_save_time s)) else setting f view ''MOTOR_TIME'')"
    using w(3) b(3) t(3) m o unfolding turn_accepted_def by (simp add: m_def turn_writes)
qed

text \<open>
  C27: settings survive a restart.  Once the flash task has made a turn after the change was announced,
  and the flash accepted what it wrote,
  a start loads exactly the network settings, the Bluetooth name and the motor time that were in memory; what was
  not announced is loaded as if the turn had not been made.  Whatever the flash refuses, a start loads for each
  setting the announced value or the one it would have loaded before, nothing else.
\<close>

theorem settings_survive_restart:
  assumes "nvs_laws N view" "length (wifi_config s) = 96" "length (ble_config s) = 32"
  shows "let after = fst (NVS_Flash_init N (snd (flash_task_turn N (s, f)))); without = fst (NVS_Flash_init N f)
    in (turn_accepted N s f \<longrightarrow>
         wifi_config after = (if wifi_flag s then wifi_config s else wifi_config without)
         \<and> ble_config after = (if ble_flag s then ble_config s else ble_config without)
         \<and> motor_save_time after = (if motor_flag s then motor_save_time s else motor_save_time without))
       \<and> either (wifi_flag s) (wifi_config s) (wifi_config without) (wifi_config after)
       \<and> either (ble_flag s) (ble_config s) (ble_config without) (ble_config after)
       \<and> either (motor_flag s) (motor_save_time s) (motor_save_time without) (motor_save_time after)"
proof -
  have "loaded_blob (Some (NVS_BLOB b)) out = b" if "length b = length out" "b \<noteq> []" for b out
    using that by (simp add: loaded_blob_def put_front_def)
  moreover have "wifi_config s \<noteq> []" "ble_config s \<noteq> []" using assms(2,3) by auto
  ultimately have l: "loaded_blob (Some (NVS_BLOB (wifi_config s))) (replicate 96 (CHR 0x00)) = wifi_config s"
    "loaded_blob (Some (NVS_BLOB (ble_config s))) (replicate 32 (CHR 0x00)) = ble_config s"
    "loaded_uint (Some (NVS_U32 (motor_save_time s))) 0 = motor_save_time s"
    using assms(2,3) by (simp_all add: loaded_uint_def)
  show ?thesis
    using turn_spec [OF assms(1), of s f] l
    by (auto simp: Let_def either_def init_spec [OF assms(1)])
qed

theorem settings_survive_restart_witness:
  "motor_save_time (fst (NVS_Flash_init ram (snd (flash_task_turn ram (settings_boot\<lparr>motor_save_time := 7, motor_flag := True\<rparr>, \<lambda>_ _. None))))) = 7"
  using settings_survive_restart [OF ram_laws, of "settings_boot\<lparr>motor_save_time := 7, motor_flag := True\<rparr>" "\<lambda>_ _. None"]
  by (simp add: settings_boot_def Let_def turn_accepted_def ram_accepts)

lemma registration_flag_view:
  assumes "nvs_laws N view"
  shows "read_nvs_registration_flag N f \<longleftrightarrow> view f ''storage'' ''is_registered'' = Some (NVS_U32 1)"
proof (cases "\<exists>w. view f ''storage'' ''is_registered'' = Some (NVS_U32 w)")
  case True
  then show ?thesis using read_uint_some [OF assms] by (auto simp: read_nvs_registration_flag_def)
next
  case False
  then show ?thesis using read_uint_none [OF assms, of f "''storage''" "''is_registered''" 0]
    by (auto simp: read_nvs_registration_flag_def split: prod.splits)
qed

definition flag_accepted :: "'f nvs \<Rightarrow> bool \<Rightarrow> 'f \<Rightarrow> bool" where
  "flag_accepted N b f \<longleftrightarrow> write_ok N ''storage'' ''is_registered'' (NVS_U32 (if b then 1 else 0)) f"

lemma ram_accepts_flag [simp]: "flag_accepted ram b f"
  by (simp add: flag_accepted_def ram_accepts)

lemma registration_flag_kept:
  assumes "nvs_laws N view" "flag_accepted N b f"
  shows "read_nvs_registration_flag N (write_nvs_registration_flag N b f) = b"
proof -
  have "view (write_nvs_registration_flag N b f) ''storage'' ''is_registered'' = Some (NVS_U32 (if b then 1 else 0))"
    using write_view(1) [OF assms(1) assms(2) [unfolded flag_accepted_def]]
    by (simp add: write_nvs_registration_flag_def write_nvs_uint_def stored_under_def)
  then show ?thesis by (simp add: read_nvs_registration_flag_def read_uint_some [OF assms(1)])
qed

text \<open>A saved calibration would be loaded as it was, but nothing in the program loads it.\<close>

lemma calibration_read_back:
  assumes "nvs_laws N view" "length offsets = 16" "length buf = 16"
    and "write_ok N ''WAVEON'' (calibration_key state) (NVS_BLOB offsets) f"
  shows "load_lc_calibration_from_nvs N state buf (save_lc_calibration_to_nvs N state offsets f) = offsets"
proof -
  let ?f = "save_lc_calibration_to_nvs N state offsets f"
  have "view ?f ''WAVEON'' (calibration_key state) = Some (NVS_BLOB offsets)"
    using write_view(1) [OF assms(1,4)] by (simp add: save_lc_calibration_to_nvs_def write_nvs_blob_def stored_under_def)
  then have "read_nvs_blob N ''WAVEON'' (calibration_key state) 16 buf ?f = (NVS_OK, put_front offsets buf)"
    using read_blob_some [OF assms(1), where f = ?f and n = "''WAVEON''" and k = "calibration_key state" and b = offsets]
      assms(2) by auto
  then show ?thesis using assms(2,3) by (simp add: load_lc_calibration_from_nvs_def put_front_def)
qed

end
