(* ===== verification/Wifi.thy ===== *)
theory Wifi
  imports Prelude
begin

text \<open>
  The Wi-Fi part, \<open>src/main/wifi/wifi_task.c\<close>: scanning for access points and the connection with
  its retries.  The driver is a parameter: what a scan returns and which events arrive are
  arguments, and the calls of the driver are recorded.
\<close>

section \<open>Scanning\<close>

record ap_record =
  ssid :: "char list"
  rssi :: int
  authmode :: nat

abbreviation (input) WIFI_MAX_VALUE :: nat where "WIFI_MAX_VALUE \<equiv> 30"

text \<open>The inner loop of \<open>remove_duplicate_best_rssi\<close>: the first of the kept records with this name.\<close>

fun find_ssid :: "char list \<Rightarrow> nat \<Rightarrow> ap_record list \<Rightarrow> nat option" where
  "find_ssid x j [] = None"
| "find_ssid x j (a # as) = (if ssid a = x then Some j else find_ssid x (j + 1) as)"

text \<open>One turn of the outer loop, on the array and the number of records kept so far.\<close>

definition dedup_step :: "nat \<Rightarrow> ap_record list \<times> nat \<Rightarrow> ap_record list \<times> nat" where
  "dedup_step i s =
     (case s of (arr, new_count) \<Rightarrow>
        case find_ssid (ssid (arr ! i)) 0 (take new_count arr) of
          Some found \<Rightarrow> (if rssi (arr ! i) > rssi (arr ! found) then arr[found := arr ! i] else arr, new_count)
        | None \<Rightarrow> (if i \<noteq> new_count then arr[new_count := arr ! i] else arr, new_count + 1))"

definition remove_duplicate_best_rssi :: "ap_record list \<Rightarrow> ap_record list \<times> nat" where
  "remove_duplicate_best_rssi arr = fold dedup_step [0..<length arr] (arr, 0)"

text \<open>
  What the driver and the allocator answer in one round: the scan failed, there was no memory for
  the records, or the records found.
\<close>

datatype scan_result = Scan_Failed | Scan_No_Memory | Scan_Records "ap_record list"

text \<open>
  Taking over what was found: appended up to 30 records, then the duplicates removed.  The array
  \<open>temp_ap_list\<close> is represented by its first \<open>total_found_count\<close> records.
\<close>

definition scan_take :: "ap_record list \<Rightarrow> ap_record list \<Rightarrow> ap_record list" where
  "scan_take recs found =
     (if length recs > 0 then
        (case remove_duplicate_best_rssi (found @ take (WIFI_MAX_VALUE - length found) recs) of
           (arr, n) \<Rightarrow> take n arr)
      else found)"

text \<open>The rounds: a failed scan goes on with the next, no memory or a full list ends the loop.\<close>

fun scan_rounds :: "scan_result list \<Rightarrow> ap_record list \<Rightarrow> ap_record list" where
  "scan_rounds [] found = found"
| "scan_rounds (res # rs) found =
     (case res of
        Scan_Failed \<Rightarrow> scan_rounds rs found
      | Scan_No_Memory \<Rightarrow> found
      | Scan_Records recs \<Rightarrow>
          let found' = scan_take recs found
          in if length found' \<ge> WIFI_MAX_VALUE then found' else scan_rounds rs found')"

text \<open>
  The whole scan: \<open>ap_list\<close> afterwards, \<open>None\<close> for the null pointer, and the count it returns.
  \<open>mem\<close> says whether the buffer could be allocated.
\<close>

definition wifi_scan_start :: "bool \<Rightarrow> scan_result list \<Rightarrow> ap_record list option \<times> nat" where
  "wifi_scan_start mem results =
     (if \<not> mem then (None, 0)
      else let found = scan_rounds (take 3 results) []
           in if length found = 0 then (None, 0) else (Some found, length found))"

section \<open>Duplicates\<close>

lemma find_ssid_Some: "find_ssid x j as = Some k \<Longrightarrow> j \<le> k \<and> k - j < length as \<and> ssid (as ! (k - j)) = x"
  by (induction as arbitrary: j) (fastforce simp: nth_Cons' Suc_diff_le split: if_splits)+

lemma find_ssid_None: "find_ssid x j as = None \<longleftrightarrow> x \<notin> ssid ` set as"
  by (induction as arbitrary: j) auto

text \<open>
  What the array holds after the records before \<open>i\<close> were looked at: the kept records in front have
  the names seen so far in the order of their first occurrence, each is one of the records seen and
  as strong as any of its name; the records from \<open>i\<close> on are untouched.
\<close>

definition dedup_inv :: "ap_record list \<Rightarrow> nat \<Rightarrow> ap_record list \<times> nat \<Rightarrow> bool" where
  "dedup_inv xs i s \<longleftrightarrow>
     (case s of (arr, n) \<Rightarrow>
        n \<le> i \<and> length arr = length xs \<and> drop i arr = drop i xs
        \<and> map ssid (take n arr) = rev (remdups (rev (map ssid (take i xs))))
        \<and> set (take n arr) \<subseteq> set (take i xs)
        \<and> (\<forall>a \<in> set (take i xs). \<exists>b \<in> set (take n arr). ssid b = ssid a \<and> rssi a \<le> rssi b))"

lemma dedup_invI:
  assumes "n \<le> i" "length arr = length xs" "drop i arr = drop i xs"
    "map ssid (take n arr) = rev (remdups (rev (map ssid (take i xs))))" "set (take n arr) \<subseteq> set (take i xs)"
    "\<And>a. a \<in> set (take i xs) \<Longrightarrow> \<exists>b \<in> set (take n arr). ssid b = ssid a \<and> rssi a \<le> rssi b"
  shows "dedup_inv xs i (arr, n)"
  using assms unfolding dedup_inv_def prod.case by blast

lemma set_mono_append: "set xs \<subseteq> set ys \<Longrightarrow> set (xs @ zs) \<subseteq> set (ys @ zs)"
  by auto

lemma dedup_step_inv:
  assumes inv: "dedup_inv xs i s" and i: "i < length xs"
  shows "dedup_inv xs (Suc i) (dedup_step i s)"
proof -
  obtain arr n where s: "s = (arr, n)" by (cases s)
  define a where "a = arr ! i"
  let ?seen = "map ssid (take i xs)"
  from inv have n: "n \<le> i" and len: "length arr = length xs" and rest: "drop i arr = drop i xs"
    and names: "map ssid (take n arr) = rev (remdups (rev ?seen))"
    and sub: "set (take n arr) \<subseteq> set (take i xs)"
    and strong: "\<And>c. c \<in> set (take i xs) \<Longrightarrow> \<exists>b \<in> set (take n arr). ssid b = ssid c \<and> rssi c \<le> rssi b"
    by (auto simp: dedup_inv_def s)
  have a: "a = xs ! i" using rest i len by (metis a_def Cons_nth_drop_Suc list.inject)
  have upto: "take (Suc i) xs = take i xs @ [a]" using i a by (simp add: take_Suc_conv_app_nth)
  have rest': "drop (Suc i) arr = drop (Suc i) xs" using rest by (metis drop_Suc tl_drop)
  have seen: "ssid ` set (take n arr) = set ?seen" using arg_cong [OF names, of set] by simp
  show ?thesis
  proof (cases "find_ssid (ssid a) 0 (take n arr)")
    case None
    let ?arr = "arr[n := a]"
    have new: "ssid a \<notin> set ?seen" using None find_ssid_None seen by metis
    have step: "dedup_step i s = (?arr, n + 1)" using None by (auto simp: dedup_step_def s a_def)
    have front: "take (n + 1) ?arr = take n arr @ [a]"
      using n i len by (simp add: take_Suc_conv_app_nth)
    show ?thesis unfolding step
    proof (rule dedup_invI)
      show "drop (Suc i) ?arr = drop (Suc i) xs" using rest' n by (simp add: drop_update_cancel)
      show "map ssid (take (n + 1) ?arr) = rev (remdups (rev (map ssid (take (Suc i) xs))))"
        unfolding front upto using names new by simp
      show "set (take (n + 1) ?arr) \<subseteq> set (take (Suc i) xs)" unfolding front upto by (rule set_mono_append [OF sub])
      show "\<exists>b \<in> set (take (n + 1) ?arr). ssid b = ssid c \<and> rssi c \<le> rssi b" if "c \<in> set (take (Suc i) xs)" for c
        using strong [of c] that unfolding front upto by (cases "c = a") auto
    qed (use n len in simp_all)
  next
    case (Some k)
    let ?arr = "if rssi a > rssi (arr ! k) then arr[k := a] else arr"
    have k: "k < n" "ssid (arr ! k) = ssid a" using find_ssid_Some [OF Some] by auto
    have step: "dedup_step i s = (?arr, n)" using Some by (simp add: dedup_step_def s a_def)
    have keep: "take n (arr[k := a]) = (take n arr)[k := a]" by (simp add: take_update_swap)
    have kn: "k < length (take n arr)" "take n arr ! k = arr ! k" using k n i len by auto
    have "arr ! k \<in> set (take n arr)" using nth_mem [OF kn(1)] kn(2) by simp
    then have old: "ssid a \<in> set ?seen" unfolding seen [symmetric] k(2) [symmetric] by (rule imageI)
    have names': "map ssid (take n ?arr) = map ssid (take n arr)"
      using kn k(2) by (simp add: keep map_update list_update_same_conv)
    have sub': "set (take n ?arr) \<subseteq> insert a (set (take n arr))"
      using set_update_subset_insert [of "take n arr" k a] by (auto simp: keep)
    have strong': "\<exists>b' \<in> set (take n ?arr). ssid b' = ssid b \<and> rssi b \<le> rssi b'" if b: "b \<in> set (take n arr)" for b
    proof (cases "rssi a > rssi (arr ! k)")
      case True
      obtain m where m: "m < length (take n arr)" "b = take n arr ! m" using b unfolding in_set_conv_nth by blast
      have new: "(take n arr)[k := a] ! m \<in> set (take n ?arr)"
        using nth_mem [of m "(take n arr)[k := a]"] m(1) True by (simp add: keep)
      have "ssid b = ssid ((take n arr)[k := a] ! m)" "rssi b \<le> rssi ((take n arr)[k := a] ! m)"
        using m kn k(2) True by (auto simp: nth_list_update)
      with new show ?thesis by metis
    qed (use b in auto)
    have top: "\<exists>b \<in> set (take n ?arr). ssid b = ssid a \<and> rssi a \<le> rssi b"
    proof (cases "rssi a > rssi (arr ! k)")
      case True
      have "a \<in> set ((take n arr)[k := a])" using kn(1) by (rule set_update_memI)
      then show ?thesis using True by (auto simp: keep)
    next
      case False
      have "arr ! k \<in> set (take n arr)" using kn nth_mem by metis
      then show ?thesis using False k(2) by auto
    qed
    have strong'': "\<exists>b \<in> set (take n ?arr). ssid b = ssid c \<and> rssi c \<le> rssi b" if "c \<in> set (take i xs @ [a])" for c
    proof (cases "c \<in> set (take i xs)")
      case True
      then obtain b where "b \<in> set (take n arr)" "ssid b = ssid c" "rssi c \<le> rssi b" using strong by blast
      with strong' [of b] show ?thesis by (metis order_trans)
    next
      case False
      then have "c = a" using that by simp
      with top show ?thesis by simp
    qed
    show ?thesis unfolding step
    proof (rule dedup_invI)
      show "drop (Suc i) ?arr = drop (Suc i) xs" using rest' k n by (simp add: drop_update_cancel)
      show "map ssid (take n ?arr) = rev (remdups (rev (map ssid (take (Suc i) xs))))"
        unfolding names' upto using names old by simp
      show "set (take n ?arr) \<subseteq> set (take (Suc i) xs)" unfolding upto using sub sub' by auto
      show "\<exists>b \<in> set (take n ?arr). ssid b = ssid c \<and> rssi c \<le> rssi b" if "c \<in> set (take (Suc i) xs)" for c
        using strong'' that unfolding upto .
    qed (use n len in simp_all)
  qed
qed

lemma dedup_inv_all: "dedup_inv xs (length xs) (remove_duplicate_best_rssi xs)"
proof -
  have "i \<le> length xs \<Longrightarrow> dedup_inv xs i (fold dedup_step [0..<i] (xs, 0))" for i
  proof (induction i)
    case 0
    show ?case by (simp add: dedup_inv_def)
  next
    case (Suc i)
    then show ?case using dedup_step_inv [of xs i] by simp
  qed
  then show ?thesis by (simp add: remove_duplicate_best_rssi_def)
qed

text \<open>The names in the order of their first occurrence.\<close>

definition first_names :: "ap_record list \<Rightarrow> char list list" where
  "first_names xs = rev (remdups (rev (map ssid xs)))"

definition strongest :: "ap_record list \<Rightarrow> ap_record list \<Rightarrow> bool" where
  "strongest xs r \<longleftrightarrow> set r \<subseteq> set xs \<and> map ssid r = first_names xs
     \<and> (\<forall>a \<in> set xs. \<exists>b \<in> set r. ssid b = ssid a \<and> rssi a \<le> rssi b)"

lemma dedup_strongest:
  assumes "remove_duplicate_best_rssi xs = (arr, n)"
  shows "strongest xs (take n arr)"
  using dedup_inv_all [of xs] assms by (auto simp: dedup_inv_def strongest_def first_names_def)

lemma first_names_set [simp]: "set (first_names xs) = ssid ` set xs"
  by (simp add: first_names_def)

lemma strongest_distinct: "strongest xs r \<Longrightarrow> distinct (map ssid r)"
  by (simp add: strongest_def first_names_def)

lemma strongest_length:
  assumes "strongest xs r"
  shows "length r \<le> length xs"
proof -
  have "length r = length (first_names xs)" using assms by (metis length_map strongest_def)
  also have "\<dots> \<le> length (map ssid xs)"
    unfolding first_names_def length_rev using length_remdups_leq [of "rev (map ssid xs)"] by simp
  finally show ?thesis by simp
qed

text \<open>
  Removing duplicates keeps, for every network name, in the order of first occurrence, one
  record that was found under that name, with the best signal among them.
\<close>

theorem duplicates_removed:
  "case remove_duplicate_best_rssi xs of (arr, n) \<Rightarrow>
     map ssid (take n arr) = first_names xs \<and> distinct (map ssid (take n arr)) \<and> set (take n arr) \<subseteq> set xs
     \<and> (\<forall>a \<in> set xs. \<forall>b \<in> set (take n arr). ssid b = ssid a \<longrightarrow> rssi a \<le> rssi b)"
proof (cases "remove_duplicate_best_rssi xs")
  case (Pair arr n)
  let ?r = "take n arr"
  have st: "strongest xs ?r" using Pair by (rule dedup_strongest)
  have "rssi a \<le> rssi b" if ab: "a \<in> set xs" "b \<in> set ?r" "ssid b = ssid a" for a b
  proof -
    obtain c where c: "c \<in> set ?r" "ssid c = ssid a" "rssi a \<le> rssi c"
      using st ab(1) by (auto simp: strongest_def)
    have inj: "inj_on ssid (set ?r)" using strongest_distinct [OF st] by (simp add: distinct_map)
    have "ssid c = ssid b" using c(2) ab(3) by simp
    then have "c = b" using c(1) ab(2) by (rule inj_onD [OF inj])
    then show ?thesis using c(3) by simp
  qed
  then show ?thesis using Pair st strongest_distinct [OF st] by (auto simp: strongest_def)
qed

theorem duplicates_removed_witness:
  "let xs = [\<lparr>ssid = ''A'', rssi = -70, authmode = 3\<rparr>, \<lparr>ssid = ''B'', rssi = -50, authmode = 0\<rparr>,
             \<lparr>ssid = ''A'', rssi = -40, authmode = 3\<rparr>]
   in case remove_duplicate_best_rssi xs of (arr, n) \<Rightarrow> map ssid (take n arr) = [''A'', ''B''] \<and> rssi (arr ! 0) = -40"
proof -
  let ?xs = "[\<lparr>ssid = ''A'', rssi = -70, authmode = 3\<rparr>, \<lparr>ssid = ''B'', rssi = -50, authmode = 0\<rparr>,
             \<lparr>ssid = ''A'', rssi = -40, authmode = 3\<rparr>]"
  have "first_names ?xs = [''A'', ''B'']" by code_simp
  moreover have "rssi (fst (remove_duplicate_best_rssi ?xs) ! 0) = -40" by code_simp
  ultimately show ?thesis using duplicates_removed [of ?xs] by (auto simp: Let_def)
qed

text \<open>What every list of the rounds satisfies.\<close>

definition scan_ok :: "ap_record set \<Rightarrow> ap_record list \<Rightarrow> bool" where
  "scan_ok R found \<longleftrightarrow> length found \<le> WIFI_MAX_VALUE \<and> distinct (map ssid found) \<and> set found \<subseteq> R"

lemma scan_take_ok:
  assumes ok: "scan_ok R found" and recs: "set recs \<subseteq> R"
  shows "scan_ok R (scan_take recs found)"
proof (cases "recs = []")
  case True
  then show ?thesis using ok by (simp add: scan_take_def)
next
  case False
  let ?xs = "found @ take (WIFI_MAX_VALUE - length found) recs"
  obtain arr n where d: "remove_duplicate_best_rssi ?xs = (arr, n)" by (cases "remove_duplicate_best_rssi ?xs")
  have st: "strongest ?xs (take n arr)" using d by (rule dedup_strongest)
  have "length ?xs \<le> WIFI_MAX_VALUE" using ok by (auto simp: scan_ok_def min_def)
  then have "length (take n arr) \<le> WIFI_MAX_VALUE" using strongest_length [OF st] by linarith
  moreover have "set ?xs \<subseteq> R" using ok recs by (auto simp: scan_ok_def dest: in_set_takeD)
  then have "set (take n arr) \<subseteq> R" using st by (auto simp: strongest_def)
  ultimately show ?thesis using False d strongest_distinct [OF st] by (simp add: scan_take_def scan_ok_def)
qed

definition records_of :: "scan_result list \<Rightarrow> ap_record set" where
  "records_of results = (\<Union>r \<in> set results. case r of Scan_Records recs \<Rightarrow> set recs | _ \<Rightarrow> {})"

lemma records_of_simps [simp]:
  "records_of [] = {}"
  "records_of (Scan_Failed # rs) = records_of rs"
  "records_of (Scan_No_Memory # rs) = records_of rs"
  "records_of (Scan_Records recs # rs) = set recs \<union> records_of rs"
  by (simp_all add: records_of_def)

lemma scan_rounds_ok:
  "scan_ok R found \<Longrightarrow> records_of rs \<subseteq> R \<Longrightarrow> scan_ok R (scan_rounds rs found)"
  by (induction rs found rule: scan_rounds.induct) (auto simp: Let_def scan_take_ok split: scan_result.splits)

text \<open>
  Whatever the driver reports in the up to three rounds, the finished scan lists at most 30
  networks, each name once, and nothing that the driver did not report.
\<close>

theorem scan_lists_each_network_once:
  "case wifi_scan_start mem results of
     (None, n) \<Rightarrow> n = 0
   | (Some aps, n) \<Rightarrow> n = length aps \<and> 0 < n \<and> n \<le> 30 \<and> distinct (map ssid aps) \<and> set aps \<subseteq> records_of results"
proof -
  have "records_of (take 3 results) \<subseteq> records_of results"
    by (auto simp: records_of_def dest: in_set_takeD)
  then have "scan_ok (records_of results) (scan_rounds (take 3 results) [])"
    by (intro scan_rounds_ok) (simp_all add: scan_ok_def)
  then show ?thesis by (auto simp: wifi_scan_start_def scan_ok_def Let_def)
qed

section \<open>The connection\<close>

text \<open>
  \<open>s_retry_num\<close>, \<open>s_allow_reconnect\<close> and the two bits of \<open>s_wifi_event_group\<close>; the calls of
  \<open>esp_wifi_connect\<close> and \<open>esp_wifi_disconnect\<close> are counted.
\<close>

record wifi =
  s_retry_num :: nat
  s_allow_reconnect :: bool
  connected_bit :: bool
  fail_bit :: bool
  connects :: nat
  disconnects :: nat

abbreviation (input) MAXIMUM_RETRY :: nat where "MAXIMUM_RETRY \<equiv> 5"

definition wifi_boot :: wifi where
  "wifi_boot = \<lparr>s_retry_num = 0, s_allow_reconnect = True, connected_bit = False, fail_bit = False,
     connects = 0, disconnects = 0\<rparr>"

datatype wifi_event = STA_START | STA_DISCONNECTED | STA_GOT_IP | OTHER_EVENT

definition wifi_event_handler :: "wifi_event \<Rightarrow> wifi \<Rightarrow> wifi" where
  "wifi_event_handler e w =
     (case e of
        STA_DISCONNECTED \<Rightarrow>
          if s_allow_reconnect w then
            (if s_retry_num w < MAXIMUM_RETRY
             then w\<lparr>connects := connects w + 1, s_retry_num := s_retry_num w + 1\<rparr>
             else w\<lparr>fail_bit := True\<rparr>)
          else w
      | STA_GOT_IP \<Rightarrow> w\<lparr>s_retry_num := 0, connected_bit := True\<rparr>
      | _ \<Rightarrow> w)"

definition wifi_events :: "wifi_event list \<Rightarrow> wifi \<Rightarrow> wifi" where
  "wifi_events es w = fold wifi_event_handler es w"

text \<open>\<open>es\<close>: what happens during the 500 ms it waits; \<open>ap\<close>: whether an access point is connected.\<close>

definition Wifi_Disconnect :: "bool \<Rightarrow> wifi_event list \<Rightarrow> wifi \<Rightarrow> wifi" where
  "Wifi_Disconnect ap es w =
     (if ap then wifi_events es (w\<lparr>s_allow_reconnect := False, disconnects := disconnects w + 1\<rparr>) else w)"

text \<open>Waiting for one of the two bits: the events of the 15 seconds until one is set.\<close>

fun wait_bits :: "wifi_event list \<Rightarrow> wifi \<Rightarrow> wifi" where
  "wait_bits es w =
     (if connected_bit w \<or> fail_bit w then w
      else case es of [] \<Rightarrow> w | e # es' \<Rightarrow> wait_bits es' (wifi_event_handler e w))"

declare wait_bits.simps [simp del]

text \<open>
  \<open>ok\<close>: whether the driver took the new configuration (with the name cut to 31 and the password to
  63 characters, which is its argument and not part of this state).
\<close>

definition Wifi_Connect :: "bool \<Rightarrow> wifi_event list \<Rightarrow> bool \<Rightarrow> wifi_event list \<Rightarrow> wifi \<Rightarrow> wifi" where
  "Wifi_Connect ap es0 ok es w =
     (let w = Wifi_Disconnect ap es0 w
      in if \<not> ok then w
         else let w = wait_bits es (w\<lparr>connected_bit := False, fail_bit := False, s_retry_num := 0,
                                       connects := connects w + 1\<rparr>)
              in if connected_bit w then w
                 else if fail_bit w then w
                 else w\<lparr>disconnects := disconnects w + 1\<rparr>)"

text \<open>
  The end of \<open>wifi_init\<close>, after the driver has been started with the stored settings: only a network with a password
  is joined.
\<close>

definition wifi_init ::
  "char list \<Rightarrow> char list \<Rightarrow> bool \<Rightarrow> wifi_event list \<Rightarrow> bool \<Rightarrow> wifi_event list \<Rightarrow> wifi \<Rightarrow> wifi" where
  "wifi_init conn_ssid conn_password ap es0 ok es w =
     (if cstr conn_ssid \<noteq> [] \<and> cstr conn_password \<noteq> [] then Wifi_Connect ap es0 ok es w else w)"

text \<open>The answer \<open>ble_parse.c\<close> sends to the phone after \<open>Wifi_Connect\<close>.\<close>

datatype wifi_answer = WR_ok | WR_auth_fail | WR_timeout

definition wifi_result :: "wifi \<Rightarrow> wifi_answer" where
  "wifi_result w = (if connected_bit w then WR_ok else if fail_bit w then WR_auth_fail else WR_timeout)"

text \<open>What happens to the part: an event, a disconnection, a connection.\<close>

datatype wifi_op =
    Op_Event wifi_event
  | Op_Disconnect bool "wifi_event list"
  | Op_Connect bool "wifi_event list" bool "wifi_event list"

fun wifi_do :: "wifi_op \<Rightarrow> wifi \<Rightarrow> wifi" where
  "wifi_do (Op_Event e) w = wifi_event_handler e w"
| "wifi_do (Op_Disconnect ap es) w = Wifi_Disconnect ap es w"
| "wifi_do (Op_Connect ap es0 ok es) w = Wifi_Connect ap es0 ok es w"

text \<open>
  The retries never exceed the limit, and the permission to reconnect, once gone, is never given
  again: kept by every operation.
\<close>

lemma handler_allow [simp]: "s_allow_reconnect (wifi_event_handler e w) = s_allow_reconnect w"
  by (simp add: wifi_event_handler_def split: wifi_event.splits)

lemma handler_retry: "s_retry_num w \<le> 5 \<Longrightarrow> s_retry_num (wifi_event_handler e w) \<le> 5"
  by (simp add: wifi_event_handler_def split: wifi_event.splits)

lemma events_allow [simp]: "s_allow_reconnect (wifi_events es w) = s_allow_reconnect w"
  by (induction es arbitrary: w) (simp_all add: wifi_events_def)

lemma events_retry: "s_retry_num w \<le> 5 \<Longrightarrow> s_retry_num (wifi_events es w) \<le> 5"
  by (induction es arbitrary: w) (simp_all add: wifi_events_def handler_retry)

lemma wait_bits_inv: 
  assumes "P w" "\<And>e w. P w \<Longrightarrow> P (wifi_event_handler e w)"
  shows "P (wait_bits es w)"
  using assms(1)
proof (induction es arbitrary: w)
  case Nil
  then show ?case by (simp add: wait_bits.simps [of "[]"])
next
  case (Cons e es)
  then show ?case using assms(2) by (simp add: wait_bits.simps [of "e # es"])
qed

lemma wait_bits_allow [simp]: "s_allow_reconnect (wait_bits es w) = s_allow_reconnect w"
  by (rule wait_bits_inv [of "\<lambda>v. s_allow_reconnect v = s_allow_reconnect w"]) simp_all

lemma wait_bits_retry: "s_retry_num w \<le> 5 \<Longrightarrow> s_retry_num (wait_bits es w) \<le> 5"
  by (rule wait_bits_inv) (simp_all add: handler_retry)

lemma op_retry: "s_retry_num w \<le> 5 \<Longrightarrow> s_retry_num (wifi_do o1 w) \<le> 5"
  by (cases o1) (auto simp: handler_retry Wifi_Disconnect_def Wifi_Connect_def Let_def
      intro!: events_retry wait_bits_retry)

lemma op_allow: "\<not> s_allow_reconnect w \<Longrightarrow> \<not> s_allow_reconnect (wifi_do o1 w)"
  by (cases o1) (simp_all add: Wifi_Disconnect_def Wifi_Connect_def Let_def)

definition wifi_ops :: "wifi_op list \<Rightarrow> wifi \<Rightarrow> wifi" where
  "wifi_ops os w = fold wifi_do os w"

lemma ops_retry: "s_retry_num w \<le> 5 \<Longrightarrow> s_retry_num (wifi_ops os w) \<le> 5"
  by (induction os arbitrary: w) (simp_all add: wifi_ops_def op_retry)

lemma ops_allow: "\<not> s_allow_reconnect w \<Longrightarrow> \<not> s_allow_reconnect (wifi_ops os w)"
  by (induction os arbitrary: w) (simp_all add: wifi_ops_def op_allow)

text \<open>Without the permission, losing the connection does nothing at all.\<close>

lemma disconnected_ignored: "\<not> s_allow_reconnect w \<Longrightarrow> wifi_event_handler STA_DISCONNECTED w = w"
  by (simp add: wifi_event_handler_def)

lemma fail_needs_allow:
  "\<not> s_allow_reconnect w \<Longrightarrow> fail_bit (wifi_event_handler e w) = fail_bit w"
  by (simp add: wifi_event_handler_def split: wifi_event.splits)

lemma wait_bits_no_fail:
  assumes "\<not> s_allow_reconnect w" "\<not> fail_bit w"
  shows "\<not> fail_bit (wait_bits es w)"
  using wait_bits_inv [of "\<lambda>w. \<not> s_allow_reconnect w \<and> \<not> fail_bit w"] assms fail_needs_allow by auto

lemma ops_append [simp]: "wifi_ops (os @ os') w = wifi_ops os' (wifi_ops os w)"
  by (simp add: wifi_ops_def)

lemma ops_single [simp]: "wifi_ops [] w = w" "wifi_ops (o1 # os) w = wifi_ops os (wifi_do o1 w)"
  by (simp_all add: wifi_ops_def)

text \<open>
  After a connection was taken down once by the program (pairing does, and so does every
  change to another network), whatever happens afterwards, the reconnection is off for good: a lost
  connection is not retried, and an attempt to connect that fails is never answered with
  \<open>auth_fail\<close>, only with \<open>timeout\<close>.
\<close>

theorem reconnection_off_for_good:
  "let w' = wifi_ops os (Wifi_Disconnect True es w)
   in wifi_event_handler STA_DISCONNECTED w' = w'
      \<and> wifi_result (Wifi_Connect ap es0 True es1 w') \<noteq> WR_auth_fail"
proof -
  define w' where "w' = wifi_ops os (Wifi_Disconnect True es w)"
  have off: "\<not> s_allow_reconnect w'"
    unfolding w'_def by (auto intro!: ops_allow simp: Wifi_Disconnect_def)
  let ?d = "Wifi_Disconnect ap es0 w'"
  let ?s = "?d\<lparr>connected_bit := False, fail_bit := False, s_retry_num := 0, connects := connects ?d + 1\<rparr>"
  have "\<not> s_allow_reconnect ?d" using op_allow [OF off, of "Op_Disconnect ap es0"] by simp
  then have "\<not> fail_bit (wait_bits es1 ?s)" by (intro wait_bits_no_fail) simp_all
  then have "wifi_result (Wifi_Connect ap es0 True es1 w') \<noteq> WR_auth_fail"
    by (simp add: Wifi_Connect_def Let_def wifi_result_def)
  with disconnected_ignored [OF off] show ?thesis by (simp add: Let_def w'_def)
qed

text \<open>Retrying: what \<open>k\<close> failed attempts in a row do.\<close>

definition retried :: "nat \<Rightarrow> wifi \<Rightarrow> wifi" where
  "retried k w = w\<lparr>connects := connects w + k, s_retry_num := s_retry_num w + k\<rparr>"

lemma wait_bits_fails:
  assumes "s_allow_reconnect w" "\<not> connected_bit w" "\<not> fail_bit w" "s_retry_num w \<le> 5"
  shows "wait_bits (replicate k STA_DISCONNECTED) w =
    (if s_retry_num w + k \<le> 5 then retried k w
     else (retried (5 - s_retry_num w) w)\<lparr>fail_bit := True\<rparr>)"
  using assms
proof (induction k arbitrary: w)
  case 0
  then show ?case by (simp add: wait_bits.simps [of "[]"] retried_def)
next
  case (Suc k)
  have step: "wait_bits (replicate (Suc k) STA_DISCONNECTED) w
      = wait_bits (replicate k STA_DISCONNECTED) (wifi_event_handler STA_DISCONNECTED w)"
    using Suc.prems by (simp add: wait_bits.simps [of "STA_DISCONNECTED # replicate k STA_DISCONNECTED"])
  show ?case
  proof (cases "s_retry_num w < 5")
    case True
    then have h: "wifi_event_handler STA_DISCONNECTED w = retried 1 w"
      using Suc.prems by (simp add: wifi_event_handler_def retried_def)
    show ?thesis unfolding step h using True Suc.IH [of "retried 1 w"] Suc.prems by (auto simp: retried_def)
  next
    case False
    then have r: "s_retry_num w = 5" and h: "wifi_event_handler STA_DISCONNECTED w = w\<lparr>fail_bit := True\<rparr>"
      using Suc.prems by (auto simp: wifi_event_handler_def)
    show ?thesis unfolding step h using r
      by (simp add: retried_def wait_bits.simps [of "replicate k STA_DISCONNECTED"])
  qed
qed

text \<open>
  While reconnecting is allowed and nothing is connected, an attempt that the access point
  refuses \<open>k\<close> times asks the driver to connect once and again after each refusal, but at most six times in
  all; the sixth refusal is answered with \<open>auth_fail\<close>, fewer refusals and no address within the 15
  seconds with \<open>timeout\<close>, and the attempt is then ended.
\<close>

theorem connecting_gives_up_after_five_retries:
  assumes "s_allow_reconnect w"
  shows "let w' = Wifi_Connect False es0 True (replicate k STA_DISCONNECTED) w
         in connects w' = connects w + 1 + min k 5
            \<and> wifi_result w' = (if k \<le> 5 then WR_timeout else WR_auth_fail)
            \<and> disconnects w' = disconnects w + (if k \<le> 5 then 1 else 0)"
proof -
  let ?s = "w\<lparr>connected_bit := False, fail_bit := False, s_retry_num := 0, connects := connects w + 1\<rparr>"
  have "wait_bits (replicate k STA_DISCONNECTED) ?s
      = (if k \<le> 5 then retried k ?s else (retried 5 ?s)\<lparr>fail_bit := True\<rparr>)"
    using wait_bits_fails [of ?s k] assms by simp
  then show ?thesis
    by (simp add: Wifi_Connect_def Wifi_Disconnect_def Let_def wifi_result_def retried_def)
qed

theorem connecting_gives_up_after_five_retries_witness:
  "wifi_result (Wifi_Connect False [] True (replicate 8 STA_DISCONNECTED) wifi_boot) = WR_auth_fail"
  using connecting_gives_up_after_five_retries [of wifi_boot "[]" 8] by (simp add: Let_def wifi_boot_def)

end
