(* ===== verification/Ble_Command.thy ===== *)
theory Ble_Command
  imports Ble_Link Wifi
begin

text \<open>
  What the phone can ask for: \<open>BLE_APP_Command\<close> of \<open>src/main/ble/ble_parse.c\<close> with the encrypted
  messages (\<open>ble_decrypt_json_data\<close>, \<open>ble_send_encrypted_event\<close>) and the session of
  \<open>src/main/crypto/ble_crypto.c\<close>.  The JSON reader, Base64, AES-GCM, the key agreement and the key
  derivation are libraries outside the repository: a record of functions, with what is relied on as
  named hypotheses.  What the surroundings answer to one command (random numbers, memory, the access points, the
  events of the driver) is a second record.  Bytes of texts are characters.
\<close>

section \<open>Libraries, surroundings, state\<close>

record 'j libs =
  cJSON_Parse :: "char list \<Rightarrow> 'j option"
  cJSON_GetObjectItem :: "'j \<Rightarrow> char list \<Rightarrow> 'j option"
  valuestring :: "'j \<Rightarrow> char list option"
  valueint :: "'j \<Rightarrow> int option"
  print_aps :: "(char list \<times> int \<times> char list) list \<Rightarrow> char list option"
  b64_encode :: "char list \<Rightarrow> char list"
  b64_decode :: "char list \<Rightarrow> char list option"
  gcm_encrypt :: "char list \<Rightarrow> char list \<Rightarrow> char list \<Rightarrow> char list \<times> char list"
  gcm_decrypt :: "char list \<Rightarrow> char list \<Rightarrow> char list \<Rightarrow> char list \<Rightarrow> char list option"
  ecdh_make_public :: "nat \<Rightarrow> (nat \<times> char list) option"
  ecdh_secret :: "nat \<Rightarrow> char list \<Rightarrow> char list option"
  hkdf :: "char list \<Rightarrow> char list option"

text \<open>
  \<open>w_junk\<close>: what uninitialised memory holds; \<open>w_ap\<close>, \<open>w_before\<close>, \<open>w_ok\<close>, \<open>w_during\<close>: the arguments
  of \<open>Wifi_Connect\<close>.
\<close>

record world =
  w_mem :: bool
  w_iv :: "char list"
  w_junk :: "char list"
  w_seed :: nat
  w_scan :: "bool \<times> scan_result list"
  w_ap :: bool
  w_before :: "wifi_event list"
  w_ok :: bool
  w_during :: "wifi_event list"

record session =
  ecdh :: "nat option"
  session_key :: "char list"
  is_encrypted :: bool

definition session_zero :: session where
  "session_zero = \<lparr>ecdh = None, session_key = replicate 32 (CHR 0x00), is_encrypted = False\<rparr>"

record app =
  blelink :: ble
  session :: session
  conn_ssid :: "char list"
  conn_password :: "char list"
  wifi_save_flag :: bool
  env_mode :: "char list"
  g_start_ota_flag :: bool
  net :: wifi

section \<open>The session\<close>

datatype esp_err = ESP_OK | ESP_FAIL

definition ble_crypto_init_and_get_pubkey :: "'j libs \<Rightarrow> nat \<Rightarrow> nat \<Rightarrow> session \<Rightarrow> (esp_err \<times> char list) \<times> session" where
  "ble_crypto_init_and_get_pubkey L seed max_len s =
     (case ecdh_make_public L seed of
        None \<Rightarrow> ((ESP_FAIL, []), session_zero)
      | Some (k, tls) \<Rightarrow>
          let s = session_zero\<lparr>ecdh := Some k\<rparr>;
              raw = (if length tls = 33 \<and> tls ! 0 = char_of (32 :: nat) then drop 1 tls else tls)
          in if \<not> (length tls = 33 \<and> tls ! 0 = char_of (32 :: nat)) \<and> length tls \<noteq> 32 then ((ESP_FAIL, []), s)
             else if length (b64_encode L raw) < max_len then ((ESP_OK, b64_encode L raw), s)
             else ((ESP_FAIL, []), s))"

definition ble_crypto_compute_session_key :: "'j libs \<Rightarrow> char list \<Rightarrow> session \<Rightarrow> esp_err \<times> session" where
  "ble_crypto_compute_session_key L app_pubkey s =
     (case b64_decode L app_pubkey of
        None \<Rightarrow> (ESP_FAIL, s)
      | Some raw \<Rightarrow>
          if length raw \<noteq> 32 then (ESP_FAIL, s)
          else case ecdh s of
            None \<Rightarrow> (ESP_FAIL, s)
          | Some k \<Rightarrow>
              (case ecdh_secret L k (char_of (32 :: nat) # raw) of
                 None \<Rightarrow> (ESP_FAIL, s)
               | Some secret \<Rightarrow>
                   if length secret \<noteq> 32 then (ESP_FAIL, s)
                   else case hkdf L secret of
                     None \<Rightarrow> (ESP_FAIL, s)
                   | Some key \<Rightarrow> (ESP_OK, s\<lparr>session_key := key, is_encrypted := True, ecdh := None\<rparr>)))"

text \<open>
  \<open>ble_crypto_encrypt\<close> and \<open>ble_crypto_decrypt\<close>; \<open>iv\<close> is drawn at random.  The key is set for 256 bits, which the library
  refuses for no key of this size.
\<close>

datatype 'a crypto_result = Invalid_state | Crypto_fail | Crypto_ok 'a

definition ble_crypto_encrypt ::
  "'j libs \<Rightarrow> char list \<Rightarrow> session \<Rightarrow> char list \<Rightarrow> (char list \<times> char list \<times> char list) crypto_result" where
  "ble_crypto_encrypt L iv s plaintext =
     (if \<not> is_encrypted s then Invalid_state
      else case gcm_encrypt L (session_key s) iv plaintext of (ciphertext, tag) \<Rightarrow> Crypto_ok (iv, tag, ciphertext))"

definition ble_crypto_decrypt ::
  "'j libs \<Rightarrow> session \<Rightarrow> char list \<Rightarrow> char list \<Rightarrow> char list \<Rightarrow> char list crypto_result" where
  "ble_crypto_decrypt L s ciphertext iv tag =
     (if \<not> is_encrypted s then Invalid_state
      else case gcm_decrypt L (session_key s) iv tag ciphertext of
        None \<Rightarrow> Crypto_fail
      | Some plaintext \<Rightarrow> Crypto_ok plaintext)"

section \<open>Encrypted messages\<close>

definition bytes_of :: "char list \<Rightarrow> u8 list" where
  "bytes_of s = map (\<lambda>c. of_nat (of_char c)) s"

definition send_text :: "world \<Rightarrow> char list \<Rightarrow> app \<Rightarrow> app" where
  "send_text w t a = a\<lparr>blelink := snd (ble_send_data_to_queue (w_mem w) (bytes_of t) (blelink a))\<rparr>"

text \<open>\<open>mbedtls_base64_encode\<close> into a buffer of \<open>n\<close> bytes: the text in it, and the length reported.\<close>

definition encode_into :: "char list \<Rightarrow> nat \<Rightarrow> char list \<Rightarrow> char list \<times> nat" where
  "encode_into junk n e = (if length e < n then (e, length e) else (junk, length e + 1))"

definition event_text :: "char list \<Rightarrow> char list \<Rightarrow> char list \<Rightarrow> char list \<Rightarrow> char list" where
  "event_text event_type iv ct tag =
     ''{\"event_type\":\"'' @ event_type @ ''\",\"data\":{\"iv\":\"'' @ iv @ ''\",\"ciphertext\":\"'' @ ct @ ''\",\"tag\":\"'' @ tag @ ''\"}}''"

text \<open>The text of \<open>ble_send_encrypted_event\<close>, as \<open>snprintf\<close> leaves it in the buffer of \<open>final_json_len\<close> bytes.\<close>

definition final_json :: "'j libs \<Rightarrow> world \<Rightarrow> char list \<Rightarrow> char list \<Rightarrow> char list \<Rightarrow> char list" where
  "final_json L w key event_type plain_data =
     (let (ciphertext, tag) = gcm_encrypt L key (w_iv w) plain_data;
          (iv_b64, iv_b64_len) = encode_into [] 32 (b64_encode L (w_iv w));
          (tag_b64, tag_b64_len) = encode_into [] 32 (b64_encode L tag);
          (ct_b64, ct_b64_len) = encode_into (w_junk w) (length plain_data * 2 + 16) (b64_encode L ciphertext);
          final_json_len = 70 + length event_type + iv_b64_len + ct_b64_len + tag_b64_len
      in take (final_json_len - 1) (event_text event_type iv_b64 ct_b64 tag_b64))"

definition ble_send_encrypted_event :: "'j libs \<Rightarrow> world \<Rightarrow> char list \<Rightarrow> char list \<Rightarrow> app \<Rightarrow> app" where
  "ble_send_encrypted_event L w event_type plain_data a =
     (if \<not> w_mem w then a
      else send_text w (final_json L w (session_key (session a)) event_type plain_data) a)"

text \<open>\<open>mbedtls_base64_decode\<close> into a buffer of \<open>n\<close> bytes, its result code not looked at.\<close>

definition decode_into :: "'j libs \<Rightarrow> char list \<Rightarrow> nat \<Rightarrow> char list \<Rightarrow> char list" where
  "decode_into L junk n t = (case b64_decode L t of Some b \<Rightarrow> if length b \<le> n then b else junk | None \<Rightarrow> junk)"

text \<open>
  \<open>ble_decrypt_json_data\<close>: \<open>None\<close> when it passes a null pointer to \<open>strlen\<close>, otherwise what it returns.
\<close>

definition ble_decrypt_json_data :: "'j libs \<Rightarrow> world \<Rightarrow> char list \<Rightarrow> 'j option \<Rightarrow> char list option option" where
  "ble_decrypt_json_data L w key data_obj =
     (case data_obj of None \<Rightarrow> Some None
      | Some d \<Rightarrow>
          (case (cJSON_GetObjectItem L d ''iv'', cJSON_GetObjectItem L d ''ciphertext'', cJSON_GetObjectItem L d ''tag'') of
             (Some iv_item, Some ct_item, Some tag_item) \<Rightarrow>
               (case (valuestring L ct_item, valuestring L iv_item, valuestring L tag_item) of
                  (Some ct, Some iv, Some tag) \<Rightarrow>
                    if \<not> w_mem w then Some None
                    else Some (map_option cstr (gcm_decrypt L key (decode_into L (w_junk w) 16 iv)
                                 (decode_into L (w_junk w) 16 tag) (decode_into L (w_junk w) (length ct) ct)))
                | _ \<Rightarrow> None)
           | _ \<Rightarrow> Some None))"

section \<open>Commands\<close>

text \<open>\<open>wifi_auth_mode_t\<close>: 1 WEP, 2 WPA, 3 WPA2, 4 WPA/WPA2, 6 WPA3, 7 WPA2/WPA3.\<close>

definition auth_str :: "nat \<Rightarrow> char list" where
  "auth_str m =
     (if m = 1 then ''wep'' else if m = 2 then ''wpa'' else if m = 3 \<or> m = 4 then ''wpa2''
      else if m = 6 \<or> m = 7 then ''wpa3'' else ''open'')"

text \<open>\<open>memset\<close> and \<open>strncpy\<close> into the 32 and 64 bytes of the stored credentials.\<close>

definition store_credentials :: "char list \<Rightarrow> char list \<Rightarrow> app \<Rightarrow> app" where
  "store_credentials ssid_val pwd_val a = a\<lparr>conn_ssid := take 31 ssid_val, conn_password := take 63 pwd_val\<rparr>"

text \<open>\<open>Wifi_Connect\<close> also reports a configuration the driver refuses to the phone.\<close>

definition connect_ap :: "world \<Rightarrow> app \<Rightarrow> app" where
  "connect_ap w a =
     (let a = a\<lparr>net := Wifi_Connect (w_ap w) (w_before w) (w_ok w) (w_during w) (net a)\<rparr>
      in if w_ok w then a else send_text w ''CONNECT_AP FAIL'' a)"

definition mtu_info :: "'j libs \<Rightarrow> 'j \<Rightarrow> app \<Rightarrow> app" where
  "mtu_info L msg a =
     (case Option.bind (cJSON_GetObjectItem L msg ''data'') (\<lambda>d. cJSON_GetObjectItem L d ''max_payload'') of
        None \<Rightarrow> a
      | Some mp \<Rightarrow> (case valueint L mp of None \<Rightarrow> a
          | Some n \<Rightarrow> a\<lparr>blelink := (blelink a)\<lparr>g_ble_max_payload := of_int n\<rparr>\<rparr>))"

definition key_exchange :: "'j libs \<Rightarrow> world \<Rightarrow> 'j \<Rightarrow> app \<Rightarrow> app" where
  "key_exchange L w msg a =
     (case Option.bind (Option.bind (cJSON_GetObjectItem L msg ''data'') (\<lambda>d. cJSON_GetObjectItem L d ''pub_key''))
             (valuestring L) of
        None \<Rightarrow> a
      | Some app_pub_key \<Rightarrow>
          (case ble_crypto_init_and_get_pubkey L (w_seed w) 64 (session a) of
             ((ESP_FAIL, _), s) \<Rightarrow> a\<lparr>session := s\<rparr>
           | ((ESP_OK, dev_pub_key), s) \<Rightarrow>
               send_text w (take 149 (''{\"event_type\":\"key_exchange_ack\",\"data\":{\"pub_key\":\"'' @ dev_pub_key @ ''\"}}''))
                 (a\<lparr>session := snd (ble_crypto_compute_session_key L app_pub_key s)\<rparr>)))"

definition set_env :: "'j libs \<Rightarrow> world \<Rightarrow> 'j \<Rightarrow> app \<Rightarrow> app option" where
  "set_env L w msg a =
     (case ble_decrypt_json_data L w (session_key (session a)) (cJSON_GetObjectItem L msg ''data'') of
        None \<Rightarrow> None
      | Some None \<Rightarrow> Some a
      | Some (Some plaintext) \<Rightarrow> Some
          (case Option.bind (Option.bind (cJSON_Parse L plaintext) (\<lambda>j. cJSON_GetObjectItem L j ''env'')) (valuestring L) of
             None \<Rightarrow> a
           | Some env \<Rightarrow>
               ble_send_encrypted_event L w ''env_ack'' ''{\"result\":\"ok\"}''
                 (if env = ''dev'' then a\<lparr>env_mode := ''dev''\<rparr>
                  else if env = ''prod'' then a\<lparr>env_mode := ''prod''\<rparr> else a)))"

definition scan_wifi :: "'j libs \<Rightarrow> world \<Rightarrow> app \<Rightarrow> app" where
  "scan_wifi L w a =
     (let (aps, ap_count) = wifi_scan_start (fst (w_scan w)) (snd (w_scan w));
          items = map (\<lambda>r. (ssid r, rssi r, auth_str (authmode r))) (take (if ap_count > 10 then 10 else ap_count)
                    (case aps of None \<Rightarrow> [] | Some l \<Rightarrow> l))
      in case print_aps L items of
           Some plain_data \<Rightarrow> ble_send_encrypted_event L w ''wifi_list'' plain_data a
         | None \<Rightarrow> if ap_count = 0 then ble_send_encrypted_event L w ''wifi_list'' ''{\"aps\":[]}'' a else a)"

definition wifi_prov :: "'j libs \<Rightarrow> world \<Rightarrow> 'j \<Rightarrow> app \<Rightarrow> app option" where
  "wifi_prov L w msg a =
     (case ble_decrypt_json_data L w (session_key (session a)) (cJSON_GetObjectItem L msg ''data'') of
        None \<Rightarrow> None
      | Some None \<Rightarrow> Some a
      | Some (Some plaintext) \<Rightarrow> Some
          (case cJSON_Parse L plaintext of
             None \<Rightarrow> a
           | Some prov \<Rightarrow>
               (case Option.bind (cJSON_GetObjectItem L prov ''ssid'') (valuestring L) of
                  None \<Rightarrow> a
                | Some ssid_val \<Rightarrow>
                    let pwd = (case Option.bind (cJSON_GetObjectItem L prov ''pwd'') (valuestring L) of
                                 None \<Rightarrow> [] | Some p \<Rightarrow> p);
                        a = connect_ap w (store_credentials ssid_val pwd a)
                    in case wifi_result (net a) of
                         WR_ok \<Rightarrow> ble_send_encrypted_event L w ''wifi_result'' ''{\"result\":\"ok\"}'' (a\<lparr>wifi_save_flag := True\<rparr>)
                       | WR_auth_fail \<Rightarrow> ble_send_encrypted_event L w ''wifi_result'' ''{\"result\":\"auth_fail\"}'' a
                       | WR_timeout \<Rightarrow> ble_send_encrypted_event L w ''wifi_result'' ''{\"result\":\"timeout\"}'' a)))"

text \<open>\<open>strtok\<close>: the next word, and where the search goes on.\<close>

definition strtok :: "char list \<Rightarrow> char list \<Rightarrow> char list option \<times> char list" where
  "strtok delims s =
     (let s = dropWhile (\<lambda>c. c \<in> set delims) s
      in if s = [] then (None, [])
         else (Some (takeWhile (\<lambda>c. c \<notin> set delims) s), drop 1 (dropWhile (\<lambda>c. c \<notin> set delims) s)))"

definition cli_command :: "world \<Rightarrow> char list \<Rightarrow> app \<Rightarrow> app" where
  "cli_command w buf a =
     (if buf = ''scan'' then a
      else
        let buf = takeWhile (\<lambda>c. c \<notin> {CHR 0x0D, CHR 0x0A}) buf
        in if buf = ''OTA'' then a\<lparr>g_start_ota_flag := True\<rparr>
           else
             let (cmd, rest) = strtok '' '' buf;
                 (index, rest) = strtok '' '' rest;
                 (ssid_tok, rest) = strtok '' '' rest;
                 (pass_tok, rest) = strtok [CHR 0x20, CHR 0x0D, CHR 0x0A] rest
             in if cmd = Some ''CONNECT_AP'' then
                  (case (ssid_tok, pass_tok) of
                     (Some ssid_val, Some pass) \<Rightarrow>
                       connect_ap w ((store_credentials ssid_val pass a)\<lparr>wifi_save_flag := True\<rparr>)
                   | _ \<Rightarrow> a)
                else a)"

definition json_command :: "'j libs \<Rightarrow> world \<Rightarrow> 'j \<Rightarrow> app \<Rightarrow> app option" where
  "json_command L w msg a =
     (case Option.bind (cJSON_GetObjectItem L msg ''event_type'') (valuestring L) of
        None \<Rightarrow> Some a
      | Some ev \<Rightarrow>
          if ev = ''mtu_info'' then Some (mtu_info L msg a)
          else if ev = ''key_exchange'' then Some (key_exchange L w msg a)
          else if ev = ''set_env'' then set_env L w msg a
          else if ev = ''scan_wifi'' then Some (scan_wifi L w a)
          else if ev = ''wifi_prov'' then wifi_prov L w msg a
          else Some a)"

definition command_text :: "char list \<Rightarrow> char list" where
  "command_text data = cstr (take (if length data \<ge> 256 then 255 else length data) data)"

definition BLE_APP_Command :: "'j libs \<Rightarrow> world \<Rightarrow> char list \<Rightarrow> app \<Rightarrow> app option" where
  "BLE_APP_Command L w data a =
     (let buf = command_text data
      in case cJSON_Parse L buf of
           Some msg \<Rightarrow> json_command L w msg a
         | None \<Rightarrow> Some (cli_command w buf a))"

section \<open>What is relied on\<close>

definition b64_law :: "'j libs \<Rightarrow> char list \<Rightarrow> bool" where
  "b64_law L s \<longleftrightarrow> b64_decode L (b64_encode L s) = Some s \<and> length (b64_encode L s) = 4 * ((length s + 2) div 3)"

definition gcm_law :: "'j libs \<Rightarrow> char list \<Rightarrow> char list \<Rightarrow> char list \<Rightarrow> bool" where
  "gcm_law L key iv p \<longleftrightarrow> (case gcm_encrypt L key iv p of (ct, tag) \<Rightarrow>
     length ct = length p \<and> length tag = 16 \<and> gcm_decrypt L key iv tag ct = Some p)"

text \<open>The laws, for what one message uses.\<close>

definition message_laws :: "'j libs \<Rightarrow> char list \<Rightarrow> char list \<Rightarrow> char list \<Rightarrow> bool" where
  "message_laws L key iv p \<longleftrightarrow> length iv = 12 \<and> gcm_law L key iv p \<and> b64_law L iv
     \<and> b64_law L (fst (gcm_encrypt L key iv p)) \<and> b64_law L (snd (gcm_encrypt L key iv p))"

text \<open>The parser finds the three strings of a message in its data.\<close>

definition message_fields :: "'j libs \<Rightarrow> 'j \<Rightarrow> char list \<Rightarrow> char list \<Rightarrow> char list \<Rightarrow> bool" where
  "message_fields L d iv ct tag \<longleftrightarrow>
     Option.bind (cJSON_GetObjectItem L d ''iv'') (valuestring L) = Some iv
     \<and> Option.bind (cJSON_GetObjectItem L d ''ciphertext'') (valuestring L) = Some ct
     \<and> Option.bind (cJSON_GetObjectItem L d ''tag'') (valuestring L) = Some tag"

text \<open>
  A concrete set of libraries for the witnesses: the parser cuts at the quotes, the code pads, and the tag depends on
  the key.
\<close>

fun cut_quotes :: "char list \<Rightarrow> char list \<Rightarrow> char list list" where
  "cut_quotes acc [] = [rev acc]"
| "cut_quotes acc (c # cs) = (if c = CHR 0x22 then rev acc # cut_quotes [] cs else cut_quotes (c # acc) cs)"

fun after_key :: "char list \<Rightarrow> char list list \<Rightarrow> char list option" where
  "after_key k (x # y # z # zs) = (if x = k then Some z else after_key k (y # z # zs))"
| "after_key k _ = None"

definition demo_tag :: "char list \<Rightarrow> char list" where
  "demo_tag key = map (\<lambda>c. if c = CHR 0x00 then CHR ''z'' else c) (take 16 key)"

definition demo :: "char list list libs" where
  "demo = \<lparr>cJSON_Parse = (\<lambda>t. if take 1 t = ''{'' then Some (cut_quotes [] t) else None),
     cJSON_GetObjectItem = (\<lambda>j k. if k = ''data'' then Some j else map_option (\<lambda>v. [v]) (after_key k j)),
     valuestring = (\<lambda>j. case j of [v] \<Rightarrow> Some v | _ \<Rightarrow> None), valueint = (\<lambda>j. None), print_aps = (\<lambda>l. None),
     b64_encode = (\<lambda>s. s @ replicate (4 * ((length s + 2) div 3) - length s) (CHR ''='')),
     b64_decode = (\<lambda>s. Some (takeWhile (\<lambda>c. c \<noteq> CHR ''='') s)),
     gcm_encrypt = (\<lambda>key iv p. (map (\<lambda>c. if c = CHR 0x22 then CHR ''!'' else c) p, demo_tag key)),
     gcm_decrypt = (\<lambda>key iv tag ct. if tag = demo_tag key then Some (map (\<lambda>c. if c = CHR ''!'' then CHR 0x22 else c) ct) else None),
     ecdh_make_public = (\<lambda>seed. Some (seed, replicate 32 (CHR ''P''))),
     ecdh_secret = (\<lambda>k pub. if length pub = 33 then Some (drop 1 pub) else None), hkdf = Some\<rparr>"

definition demo_world :: world where
  "demo_world = \<lparr>w_mem = True, w_iv = ''abcdefghijkl'', w_junk = [], w_seed = 1, w_scan = (True, []), w_ap = False,
     w_before = [], w_ok = True, w_during = [STA_GOT_IP]\<rparr>"

definition demo_app :: app where
  "demo_app = \<lparr>blelink = ble_boot\<lparr>ble_tx_queue := Some []\<rparr>, session = session_zero, conn_ssid = [], conn_password = [],
     wifi_save_flag = False, env_mode = ''prod'', g_start_ota_flag = False, net = wifi_boot\<rparr>"

section \<open>Encrypted messages\<close>

lemma event_text_length:
  "length (event_text event_type iv ct tag) = 59 + length event_type + length iv + length ct + length tag"
  by (simp add: event_text_def)

lemma final_json_text:
  assumes "message_laws L key (w_iv w) p"
  shows "final_json L w key event_type p = event_text event_type (b64_encode L (w_iv w))
    (b64_encode L (fst (gcm_encrypt L key (w_iv w) p))) (b64_encode L (snd (gcm_encrypt L key (w_iv w) p)))"
proof -
  obtain ct tag where g: "gcm_encrypt L key (w_iv w) p = (ct, tag)" by (cases "gcm_encrypt L key (w_iv w) p")
  have len: "length (b64_encode L (w_iv w)) = 16" "length (b64_encode L tag) = 24"
    "length (b64_encode L ct) = 4 * ((length p + 2) div 3)"
    using assms by (simp_all add: message_laws_def gcm_law_def b64_law_def g)
  moreover have "4 * ((length p + 2) div 3) < length p * 2 + 16" by presburger
  ultimately show ?thesis
    by (simp add: final_json_def encode_into_def g Let_def event_text_length)
qed

text \<open>
  No reply is cut.  Base64 and AES-GCM lengthening as documented, every encrypted event is queued
  complete: the buffers for the parts and the buffer for the whole are large enough for every
  event name and every text.
\<close>

theorem encrypted_event_fits:
  assumes "message_laws L (session_key (session a)) (w_iv w) p" "w_mem w"
  shows "ble_send_encrypted_event L w event_type p a =
    send_text w (event_text event_type (b64_encode L (w_iv w))
      (b64_encode L (fst (gcm_encrypt L (session_key (session a)) (w_iv w) p)))
      (b64_encode L (snd (gcm_encrypt L (session_key (session a)) (w_iv w) p)))) a"
  using final_json_text [OF assms(1)] assms(2) by (simp add: ble_send_encrypted_event_def)

lemma demo_laws:
  "message_laws demo (replicate 32 (CHR 0x00)) ''abcdefghijkl'' ''{\"result\":\"ok\"}''"
  "message_laws demo (replicate 32 (CHR 0x00)) ''abcdefghijkl'' ''{\"ssid\":\"lab\",\"pwd\":\"secret\"}''"
  by code_simp+

theorem encrypted_event_fits_witness:
  "ble_send_encrypted_event demo demo_world ''env_ack'' ''{\"result\":\"ok\"}'' demo_app =
   send_text demo_world (event_text ''env_ack'' (b64_encode demo ''abcdefghijkl'') (b64_encode demo ''{!result!:!ok!}'')
     (b64_encode demo (replicate 16 (CHR ''z'')))) demo_app"
proof -
  have k: "session_key (session demo_app) = replicate 32 (CHR 0x00)" "w_iv demo_world = ''abcdefghijkl''" "w_mem demo_world"
    by (simp_all add: demo_app_def session_zero_def demo_world_def)
  have g: "gcm_encrypt demo (replicate 32 (CHR 0x00)) ''abcdefghijkl'' ''{\"result\":\"ok\"}'' = (''{!result!:!ok!}'', replicate 16 (CHR ''z''))"
    by code_simp
  show ?thesis
    using encrypted_event_fits [of demo demo_app demo_world "''{\"result\":\"ok\"}''" "''env_ack''"] demo_laws(1) k g by simp
qed

lemma decrypt_fields:
  assumes "message_fields L d iv ct tag" "w_mem w"
  shows "ble_decrypt_json_data L w key (Some d) =
    Some (map_option cstr (gcm_decrypt L key (decode_into L (w_junk w) 16 iv) (decode_into L (w_junk w) 16 tag)
      (decode_into L (w_junk w) (length ct) ct)))"
  using assms by (auto simp: ble_decrypt_json_data_def message_fields_def Option.bind_eq_Some_conv)

lemma read_fields:
  assumes laws: "message_laws L key (w_iv w) p" and mem: "w_mem w'"
    and fields: "message_fields L d (b64_encode L (w_iv w)) (b64_encode L (fst (gcm_encrypt L key (w_iv w) p)))
       (b64_encode L (snd (gcm_encrypt L key (w_iv w) p)))"
  shows "ble_decrypt_json_data L w' key (Some d) = Some (Some (cstr p))"
proof -
  obtain ct tag where g: "gcm_encrypt L key (w_iv w) p = (ct, tag)" by (cases "gcm_encrypt L key (w_iv w) p")
  have l: "length tag = 16" "length ct = length p" "length (w_iv w) = 12" "gcm_decrypt L key (w_iv w) tag ct = Some p"
    "b64_law L (w_iv w)" "b64_law L ct" "b64_law L tag"
    using laws by (simp_all add: message_laws_def gcm_law_def g)
  have le: "length ct \<le> 4 * ((length ct + 2) div 3)" by presburger
  have "decode_into L j 16 (b64_encode L (w_iv w)) = w_iv w" "decode_into L j 16 (b64_encode L tag) = tag"
    "decode_into L j (length (b64_encode L ct)) (b64_encode L ct) = ct" for j
    using l(1,3,5,6,7) le by (simp_all only: decode_into_def b64_law_def option.case) simp_all
  then show ?thesis using decrypt_fields [OF fields mem, of key] l(4) g by simp
qed

text \<open>JSON as it is written down, and what it is to have read it; the strings need no escapes.\<close>

datatype json = JString "char list" | JObject "(char list \<times> json) list"

definition quoted :: "char list \<Rightarrow> char list" where
  "quoted t = [CHR 0x22] @ t @ [CHR 0x22]"

fun json_text :: "json \<Rightarrow> char list" and members_text :: "(char list \<times> json) list \<Rightarrow> char list" where
  "json_text (JString t) = quoted t"
| "json_text (JObject ms) = ''{'' @ members_text ms @ ''}''"
| "members_text [] = []"
| "members_text ((k, v) # ms) = quoted k @ '':'' @ json_text v @ (if ms = [] then [] else '','' @ members_text ms)"

fun reads_as :: "'j libs \<Rightarrow> 'j \<Rightarrow> json \<Rightarrow> bool" and reads_members :: "'j libs \<Rightarrow> 'j \<Rightarrow> (char list \<times> json) list \<Rightarrow> bool" where
  "reads_as L x (JString t) = (valuestring L x = Some t)"
| "reads_as L x (JObject ms) = reads_members L x ms"
| "reads_members L x [] = True"
| "reads_members L x ((k, v) # ms) =
     ((case cJSON_GetObjectItem L x k of None \<Rightarrow> False | Some y \<Rightarrow> reads_as L y v) \<and> reads_members L x ms)"

text \<open>The law of the parser, for one document: its text is read as it.\<close>

definition json_law :: "'j libs \<Rightarrow> json \<Rightarrow> bool" where
  "json_law L j \<longleftrightarrow> (case cJSON_Parse L (json_text j) of None \<Rightarrow> False | Some x \<Rightarrow> reads_as L x j)"

definition event_json :: "char list \<Rightarrow> char list \<Rightarrow> char list \<Rightarrow> char list \<Rightarrow> json" where
  "event_json event_type iv ct tag = JObject [(''event_type'', JString event_type),
     (''data'', JObject [(''iv'', JString iv), (''ciphertext'', JString ct), (''tag'', JString tag)])]"

lemma event_text_json: "event_text event_type iv ct tag = json_text (event_json event_type iv ct tag)"
  by (simp add: event_text_def event_json_def quoted_def)

lemma event_parsed:
  assumes "json_law L (event_json event_type iv ct tag)"
  shows "\<exists>msg d. cJSON_Parse L (event_text event_type iv ct tag) = Some msg \<and> cJSON_GetObjectItem L msg ''data'' = Some d
    \<and> message_fields L d iv ct tag"
  using assms unfolding json_law_def event_text_json
  by (auto simp: event_json_def message_fields_def split: option.splits simp del: json_text.simps)

text \<open>
  C26: round trip.  What \<open>ble_send_encrypted_event\<close> writes, \<open>ble_decrypt_json_data\<close> reads back on the
  other side under the same key, whatever the nonce, the name of the event and the text (up to a NUL, where a C string ends): the event is the JSON
  document with the nonce, the encrypted text and the tag in its three fields, of which only is assumed that the parser reads it as it is.
\<close>

theorem encrypted_event_read_back:
  assumes laws: "message_laws L key (w_iv w) p" and mem: "w_mem w'"
    and parser: "json_law L (event_json event_type (b64_encode L (w_iv w)) (b64_encode L (fst (gcm_encrypt L key (w_iv w) p)))
       (b64_encode L (snd (gcm_encrypt L key (w_iv w) p))))"
  shows "ble_decrypt_json_data L w' key
      (Option.bind (cJSON_Parse L (final_json L w key event_type p)) (\<lambda>m. cJSON_GetObjectItem L m ''data''))
    = Some (Some (cstr p))"
  using event_parsed [OF parser] read_fields [OF laws mem] final_json_text [OF laws, of event_type] by auto

theorem encrypted_event_read_back_witness:
  "ble_decrypt_json_data demo demo_world (replicate 32 (CHR 0x00))
      (Option.bind (cJSON_Parse demo (final_json demo demo_world (replicate 32 (CHR 0x00)) ''env_ack'' ''{\"result\":\"ok\"}''))
        (\<lambda>m. cJSON_GetObjectItem demo m ''data'')) = Some (Some ''{\"result\":\"ok\"}'')"
proof -
  let ?key = "replicate 32 (CHR 0x00)" and ?p = "''{\"result\":\"ok\"}''"
  have i: "w_iv demo_world = ''abcdefghijkl''" "w_mem demo_world" by (simp_all add: demo_world_def)
  have p: "json_law demo (event_json ''env_ack'' (b64_encode demo (w_iv demo_world))
       (b64_encode demo (fst (gcm_encrypt demo ?key (w_iv demo_world) ?p)))
       (b64_encode demo (snd (gcm_encrypt demo ?key (w_iv demo_world) ?p))))" by code_simp
  have "message_laws demo ?key (w_iv demo_world) ?p" unfolding i(1) by (rule demo_laws(1))
  from encrypted_event_read_back [OF this i(2) p] show ?thesis by (simp add: cstr_def)
qed

section \<open>Who can change the settings\<close>

text \<open>What a command can change besides the queue, the connection and the session.\<close>

definition settings :: "app \<Rightarrow> char list \<times> char list \<times> bool \<times> char list \<times> bool" where
  "settings a = (conn_ssid a, conn_password a, wifi_save_flag a, env_mode a, g_start_ota_flag a)"

lemma settings_send [simp]: "settings (send_text w t a) = settings a"
  by (simp add: settings_def send_text_def)

lemma settings_event [simp]: "settings (ble_send_encrypted_event L w ev p a) = settings a"
  by (simp add: ble_send_encrypted_event_def)

lemma session_send [simp]: "session (send_text w t a) = session a"
  by (simp add: send_text_def)

lemma settings_session [simp]: "settings (a\<lparr>session := s\<rparr>) = settings a"
  by (simp add: settings_def)

lemma settings_harmless [simp]:
  "settings (mtu_info L msg a) = settings a" "settings (key_exchange L w msg a) = settings a"
  "settings (scan_wifi L w a) = settings a"
  by (auto simp: mtu_info_def key_exchange_def scan_wifi_def settings_def [of "_\<lparr>blelink := _\<rparr>"] settings_def [of a]
      Let_def split: option.splits prod.splits esp_err.splits)

text \<open>What the session key opens in the data of a message.\<close>

definition opened :: "'j libs \<Rightarrow> world \<Rightarrow> char list \<Rightarrow> 'j \<Rightarrow> char list \<Rightarrow> bool" where
  "opened L w key msg p \<longleftrightarrow> (\<exists>d iv ct tag. cJSON_GetObjectItem L msg ''data'' = Some d \<and> message_fields L d iv ct tag
     \<and> gcm_decrypt L key (decode_into L (w_junk w) 16 iv) (decode_into L (w_junk w) 16 tag)
         (decode_into L (w_junk w) (length ct) ct) = Some p)"

lemma decrypted_opened:
  assumes "ble_decrypt_json_data L w key (cJSON_GetObjectItem L msg ''data'') = Some (Some t)"
  shows "\<exists>p. opened L w key msg p \<and> t = cstr p"
  using assms unfolding ble_decrypt_json_data_def opened_def message_fields_def
  by (auto split: option.splits if_splits)

text \<open>The text of a field of a document.\<close>

abbreviation (input) field_text :: "'j libs \<Rightarrow> 'j \<Rightarrow> char list \<Rightarrow> char list option" where
  "field_text L j k \<equiv> Option.bind (cJSON_GetObjectItem L j k) (valuestring L)"

lemma settings_conn [simp]: "settings (connect_ap w a) = settings a"
  by (simp add: connect_ap_def Let_def settings_def send_text_def)

lemma set_env_effect:
  assumes "set_env L w msg a = Some a'" "settings a' \<noteq> settings a"
  shows "\<exists>p j. opened L w (session_key (session a)) msg p \<and> cJSON_Parse L (cstr p) = Some j
    \<and> field_text L j ''env'' = Some (env_mode a')
    \<and> settings a' = (conn_ssid a, conn_password a, wifi_save_flag a, env_mode a', g_start_ota_flag a)"
proof -
  obtain t where t: "ble_decrypt_json_data L w (session_key (session a)) (cJSON_GetObjectItem L msg ''data'') = Some (Some t)"
    using assms by (auto simp: set_env_def split: option.splits)
  then obtain j env where j: "cJSON_Parse L t = Some j" "field_text L j ''env'' = Some env"
    using assms by (auto simp: set_env_def bind_eq_None_conv split: option.splits bind_splits)
  let ?b = "if env = ''dev'' then a\<lparr>env_mode := ''dev''\<rparr> else if env = ''prod'' then a\<lparr>env_mode := ''prod''\<rparr> else a"
  have a': "a' = ble_send_encrypted_event L w ''env_ack'' ''{\"result\":\"ok\"}'' ?b"
    using assms(1) t j by (simp add: set_env_def)
  then have "settings a' = settings ?b" by simp
  then have "env_mode a' = env" "settings a' = (conn_ssid a, conn_password a, wifi_save_flag a, env_mode a', g_start_ota_flag a)"
    using assms(2) by (auto simp: settings_def split: if_splits)
  then show ?thesis using decrypted_opened [OF t] j by auto
qed

lemma wifi_prov_effect:
  assumes "wifi_prov L w msg a = Some a'" "settings a' \<noteq> settings a"
  shows "\<exists>p j name. opened L w (session_key (session a)) msg p \<and> cJSON_Parse L (cstr p) = Some j
    \<and> field_text L j ''ssid'' = Some name \<and> conn_ssid a' = take 31 name
    \<and> conn_password a' = take 63 (case field_text L j ''pwd'' of None \<Rightarrow> [] | Some t \<Rightarrow> t)
    \<and> env_mode a' = env_mode a \<and> g_start_ota_flag a' = g_start_ota_flag a"
proof -
  obtain t where t: "ble_decrypt_json_data L w (session_key (session a)) (cJSON_GetObjectItem L msg ''data'') = Some (Some t)"
    using assms by (auto simp: wifi_prov_def split: option.splits)
  then obtain j name where j: "cJSON_Parse L t = Some j" "field_text L j ''ssid'' = Some name"
    using assms by (auto simp: wifi_prov_def split: option.splits)
  let ?c = "store_credentials name (case field_text L j ''pwd'' of None \<Rightarrow> [] | Some t \<Rightarrow> t) a"
  have saved: "settings (b\<lparr>wifi_save_flag := True\<rparr>) = (case settings b of (s, q, _, e, g) \<Rightarrow> (s, q, True, e, g))" for b
    by (simp add: settings_def)
  have "settings a' \<in> {settings ?c, case settings ?c of (s, q, _, e, g) \<Rightarrow> (s, q, True, e, g)}"
    using assms(1) t j by (auto simp: wifi_prov_def Let_def saved split: wifi_answer.splits)
  then show ?thesis using decrypted_opened [OF t] j by (auto simp: settings_def store_credentials_def)
qed

text \<open>
  C9: the JSON commands change the stored network, the environment and the update flag only under
  encryption: when a setting has changed, then the data of this message holds a nonce, an encrypted text and a tag that
  open under the session key, the command was \<open>set_env\<close> or \<open>wifi_prov\<close>, and the new environment or the new network is the one
  named in what was opened; the update flag never changes.
\<close>

theorem json_settings_need_the_key:
  assumes "cJSON_Parse L (command_text data) = Some msg" "BLE_APP_Command L w data a = Some a'"
    and "settings a' \<noteq> settings a"
  shows "\<exists>p j. opened L w (session_key (session a)) msg p \<and> cJSON_Parse L (cstr p) = Some j
    \<and> (field_text L msg ''event_type'' = Some ''set_env'' \<and> field_text L j ''env'' = Some (env_mode a')
         \<and> settings a' = (conn_ssid a, conn_password a, wifi_save_flag a, env_mode a', g_start_ota_flag a)
       \<or> field_text L msg ''event_type'' = Some ''wifi_prov''
         \<and> (\<exists>name. field_text L j ''ssid'' = Some name \<and> conn_ssid a' = take 31 name)
         \<and> conn_password a' = take 63 (case field_text L j ''pwd'' of None \<Rightarrow> [] | Some t \<Rightarrow> t)
         \<and> env_mode a' = env_mode a \<and> g_start_ota_flag a' = g_start_ota_flag a)"
proof -
  have run: "json_command L w msg a = Some a'" using assms(1,2) by (simp add: BLE_APP_Command_def Let_def)
  then obtain ev where ev: "field_text L msg ''event_type'' = Some ev"
    using assms(3) by (auto simp: json_command_def split: option.splits)
  then have "ev = ''set_env'' \<and> set_env L w msg a = Some a' \<or> ev = ''wifi_prov'' \<and> wifi_prov L w msg a = Some a'"
    using run assms(3) by (auto simp: json_command_def split: if_splits)
  then show ?thesis
  proof
    assume h: "ev = ''set_env'' \<and> set_env L w msg a = Some a'"
    from set_env_effect [OF conjunct2 [OF h] assms(3)] obtain p j where
      "opened L w (session_key (session a)) msg p \<and> cJSON_Parse L (cstr p) = Some j \<and> field_text L j ''env'' = Some (env_mode a')
        \<and> settings a' = (conn_ssid a, conn_password a, wifi_save_flag a, env_mode a', g_start_ota_flag a)" by (elim exE)
    then show ?thesis using ev h by (intro exI [of _ p] exI [of _ j]) simp
  next
    assume h: "ev = ''wifi_prov'' \<and> wifi_prov L w msg a = Some a'"
    from wifi_prov_effect [OF conjunct2 [OF h] assms(3)] obtain p j name where
      "opened L w (session_key (session a)) msg p \<and> cJSON_Parse L (cstr p) = Some j
        \<and> field_text L j ''ssid'' = Some name \<and> conn_ssid a' = take 31 name
        \<and> conn_password a' = take 63 (case field_text L j ''pwd'' of None \<Rightarrow> [] | Some t \<Rightarrow> t)
        \<and> env_mode a' = env_mode a \<and> g_start_ota_flag a' = g_start_ota_flag a" by (elim exE)
    then show ?thesis using ev h by (intro exI [of _ p] exI [of _ j]) simp
  qed
qed

text \<open>
  But the commands of the old text protocol are still taken, and need neither a key nor a session:
  \<open>CONNECT_AP n ssid password\<close> in plain text stores exactly this network, marks it for saving and connects to
  it.
\<close>

lemma cstr_prefix: "CHR 0x00 \<notin> set s \<Longrightarrow> cstr (s @ [CHR 0x00] @ t) = s"
  by (simp add: cstr_def takeWhile_append)

lemma strtok_word:
  assumes "s \<noteq> []" "set s \<inter> set delims = {}" "d \<in> set delims"
  shows "strtok delims (s @ d # rest) = (Some s, rest)" "strtok delims s = (Some s, [])"
proof -
  have t: "takeWhile (\<lambda>c. c \<notin> set delims) s = s" "dropWhile (\<lambda>c. c \<notin> set delims) s = []"
    using assms(2) by (auto simp: takeWhile_eq_all_conv dropWhile_eq_Nil_conv)
  have d: "dropWhile (\<lambda>c. c \<in> set delims) (s @ r) = s @ r" for r
    using assms(1,2) by (cases s) auto
  show "strtok delims (s @ d # rest) = (Some s, rest)"
    using assms t by (simp add: strtok_def d takeWhile_append dropWhile_append Let_def)
  show "strtok delims s = (Some s, [])"
    using assms(1) t d [of "[]"] by (simp only: strtok_def Let_def append_Nil2 if_False) simp
qed

definition word :: "char list \<Rightarrow> bool" where
  "word s \<longleftrightarrow> s \<noteq> [] \<and> set s \<inter> {CHR 0x00, CHR 0x20, CHR 0x0D, CHR 0x0A} = {}"

theorem connect_ap_needs_no_session:
  assumes "word ssid_val" "word pass" "length ssid_val \<le> 31" "length pass \<le> 63"
    and "cJSON_Parse L (''CONNECT_AP 1 '' @ ssid_val @ '' '' @ pass) = None"
  shows "\<exists>a'. BLE_APP_Command L w (''CONNECT_AP 1 '' @ ssid_val @ '' '' @ pass) a = Some a'
    \<and> conn_ssid a' = ssid_val \<and> conn_password a' = pass \<and> wifi_save_flag a'
    \<and> net a' = Wifi_Connect (w_ap w) (w_before w) (w_ok w) (w_during w) (net a)"
proof -
  let ?t = "''CONNECT_AP 1 '' @ ssid_val @ '' '' @ pass"
  have "length ?t < 256" using assms(3,4) by simp
  moreover have "CHR 0x00 \<notin> set ?t" using assms(1,2) by (auto simp: word_def)
  ultimately have whole: "command_text ?t = ?t" by (simp add: command_text_def)
  have no_break: "takeWhile (\<lambda>c. c \<notin> {CHR 0x0D, CHR 0x0A}) ?t = ?t"
    using assms(1,2) by (auto simp: takeWhile_eq_all_conv word_def)
  have s: "strtok '' '' ?t = (Some ''CONNECT_AP'', ''1 '' @ ssid_val @ '' '' @ pass)"
    "strtok '' '' (''1 '' @ ssid_val @ '' '' @ pass) = (Some ''1'', ssid_val @ '' '' @ pass)"
    using strtok_word(1) [of "''CONNECT_AP''" "'' ''" "CHR 0x20"] strtok_word(1) [of "''1''" "'' ''" "CHR 0x20"] by simp_all
  have n: "strtok '' '' (ssid_val @ '' '' @ pass) = (Some ssid_val, pass)"
    using strtok_word(1) [of ssid_val "'' ''" "CHR 0x20" pass] assms(1) by (auto simp: word_def)
  have q: "strtok [CHR 0x20, CHR 0x0D, CHR 0x0A] pass = (Some pass, [])"
    using strtok_word(2) [of pass "[CHR 0x20, CHR 0x0D, CHR 0x0A]" "CHR 0x20"] assms(2) by (auto simp: word_def)
  have "?t \<noteq> ''scan''" "?t \<noteq> ''OTA''" by simp_all
  then have "cli_command w ?t a = connect_ap w ((store_credentials ssid_val pass a)\<lparr>wifi_save_flag := True\<rparr>)"
    unfolding cli_command_def Let_def no_break by (simp only: s n q prod.case if_False if_True option.case simp_thms)
  then show ?thesis using assms(3,4,5) whole
    by (simp add: BLE_APP_Command_def connect_ap_def send_text_def store_credentials_def Let_def)
qed

theorem connect_ap_needs_no_session_witness:
  "\<exists>a'. BLE_APP_Command demo demo_world ''CONNECT_AP 1 lab secret'' demo_app = Some a'
    \<and> conn_ssid a' = ''lab'' \<and> conn_password a' = ''secret'' \<and> \<not> is_encrypted (session demo_app)"
proof -
  have "word ''lab''" "word ''secret''" "\<not> is_encrypted (session demo_app)"
    "cJSON_Parse demo (''CONNECT_AP 1 '' @ ''lab'' @ '' '' @ ''secret'') = None"
    by (simp_all add: word_def demo_def demo_app_def session_zero_def)
  then show ?thesis using connect_ap_needs_no_session [of "''lab''" "''secret''" demo demo_world demo_app] by auto
qed

text \<open>A network named under the session key is stored; the same bytes with another tag change nothing.\<close>

theorem json_settings_need_the_key_witness:
  "let data = final_json demo demo_world (session_key (session demo_app)) ''wifi_prov'' ''{\"ssid\":\"lab\",\"pwd\":\"secret\"}'';
       bad = event_text ''wifi_prov'' ''abcdefghijkl===='' ''{!ssid!:!lab!,!pwd!:!secret!}='' ''xyz=''
   in (\<exists>p. opened demo demo_world (session_key (session demo_app)) (cut_quotes [] data) p)
      \<and> map_option settings (BLE_APP_Command demo demo_world bad demo_app) = Some (settings demo_app)"
proof -
  let ?data = "final_json demo demo_world (session_key (session demo_app)) ''wifi_prov'' ''{\"ssid\":\"lab\",\"pwd\":\"secret\"}''"
  let ?bad = "event_text ''wifi_prov'' ''abcdefghijkl===='' ''{!ssid!:!lab!,!pwd!:!secret!}='' ''xyz=''"
  have j: "cJSON_Parse demo (command_text ?data) = Some (cut_quotes [] ?data)" by code_simp
  have "map_option (conn_ssid) (BLE_APP_Command demo demo_world ?data demo_app) = Some ''lab''" by code_simp
  then obtain a' where a': "BLE_APP_Command demo demo_world ?data demo_app = Some a'" "conn_ssid a' = ''lab''" by auto
  have "settings a' \<noteq> settings demo_app" using a'(2) by (simp add: settings_def demo_app_def)
  from json_settings_need_the_key [OF j a'(1) this]
  have "\<exists>p. opened demo demo_world (session_key (session demo_app)) (cut_quotes [] ?data) p" by blast
  moreover have "map_option settings (BLE_APP_Command demo demo_world ?bad demo_app) = Some (settings demo_app)" by code_simp
  ultimately show ?thesis by (simp add: Let_def)
qed

section \<open>The session key\<close>

lemma unusable_key:
  assumes "Option.bind (Option.bind (cJSON_GetObjectItem L msg ''data'') (\<lambda>d. cJSON_GetObjectItem L d ''pub_key''))
      (valuestring L) = Some pub" "\<forall>raw. b64_decode L pub = Some raw \<longrightarrow> length raw \<noteq> 32"
  shows "session_key (session (key_exchange L w msg a)) = replicate 32 (CHR 0x00)
    \<and> \<not> is_encrypted (session (key_exchange L w msg a))"
proof -
  have "session_key s = replicate 32 (CHR 0x00) \<and> \<not> is_encrypted s"
    if "ble_crypto_init_and_get_pubkey L seed n s0 = (r, s)" for r s seed n s0
    using that by (auto simp: ble_crypto_init_and_get_pubkey_def session_zero_def Let_def split: option.splits if_splits)
  moreover have "snd (ble_crypto_compute_session_key L pub s) = s" for s
    using assms(2) by (simp add: ble_crypto_compute_session_key_def split: option.splits)
  ultimately show ?thesis using assms(1)
    by (auto simp: key_exchange_def split: prod.splits esp_err.splits)
qed

text \<open>
  The key exchange does not fail safe.  After a start, and after any key exchange in which the phone sent something
  that is not a public key, the session key is 32 zero bytes, and messages encrypted under it are taken:
  neither the result of the exchange nor \<open>is_encrypted\<close> is looked at.
\<close>

theorem zero_key_is_taken:
  assumes s: "s = session_zero
      \<or> s = session (key_exchange L w msg a)
        \<and> Option.bind (Option.bind (cJSON_GetObjectItem L msg ''data'') (\<lambda>d. cJSON_GetObjectItem L d ''pub_key''))
            (valuestring L) = Some pub
        \<and> (\<forall>raw. b64_decode L pub = Some raw \<longrightarrow> length raw \<noteq> 32)"
    and laws: "message_laws L (replicate 32 (CHR 0x00)) (w_iv w') p" and mem: "w_mem w''"
    and fields: "message_fields L d (b64_encode L (w_iv w'))
       (b64_encode L (fst (gcm_encrypt L (replicate 32 (CHR 0x00)) (w_iv w') p)))
       (b64_encode L (snd (gcm_encrypt L (replicate 32 (CHR 0x00)) (w_iv w') p)))"
  shows "\<not> is_encrypted s \<and> ble_decrypt_json_data L w'' (session_key s) (Some d) = Some (Some (cstr p))"
proof -
  have "session_key s = replicate 32 (CHR 0x00) \<and> \<not> is_encrypted s"
    using s unusable_key [of L msg pub w a] by (auto simp: session_zero_def)
  then show ?thesis using read_fields [OF laws mem fields] by simp
qed

theorem zero_key_is_taken_witness:
  "ble_decrypt_json_data demo demo_world (session_key (session (key_exchange demo demo_world
      [''pub_key'', '':'', ''nonsense''] demo_app)))
     (cJSON_Parse demo (final_json demo demo_world (replicate 32 (CHR 0x00)) ''wifi_prov'' ''{\"ssid\":\"lab\",\"pwd\":\"secret\"}''))
   = Some (Some ''{\"ssid\":\"lab\",\"pwd\":\"secret\"}'')"
proof -
  let ?key = "replicate 32 (CHR 0x00)" and ?p = "''{\"ssid\":\"lab\",\"pwd\":\"secret\"}''"
  let ?t = "final_json demo demo_world ?key ''wifi_prov'' ?p"
  let ?s = "session (key_exchange demo demo_world [''pub_key'', '':'', ''nonsense''] demo_app)"
  have i: "w_iv demo_world = ''abcdefghijkl''" "w_mem demo_world" by (simp_all add: demo_world_def)
  have p: "cJSON_Parse demo ?t = Some (cut_quotes [] ?t)"
    "message_fields demo (cut_quotes [] ?t) (b64_encode demo (w_iv demo_world))
       (b64_encode demo (fst (gcm_encrypt demo ?key (w_iv demo_world) ?p)))
       (b64_encode demo (snd (gcm_encrypt demo ?key (w_iv demo_world) ?p)))"
    by code_simp+
  have pub: "Option.bind (Option.bind (cJSON_GetObjectItem demo [''pub_key'', '':'', ''nonsense''] ''data'')
      (\<lambda>d. cJSON_GetObjectItem demo d ''pub_key'')) (valuestring demo) = Some ''nonsense''"
    "\<forall>raw. b64_decode demo ''nonsense'' = Some raw \<longrightarrow> length raw \<noteq> 32"
    by (simp_all add: demo_def)
  have l: "message_laws demo ?key (w_iv demo_world) ?p" unfolding i(1) by (rule demo_laws(2))
  have "ble_decrypt_json_data demo demo_world (session_key ?s) (Some (cut_quotes [] ?t)) = Some (Some (cstr ?p))"
    using zero_key_is_taken [OF disjI2 l i(2) p(2), of ?s demo_world "[''pub_key'', '':'', ''nonsense'']" demo_app "''nonsense''"] pub
    by simp
  then show ?thesis using p(1) by (simp add: cstr_def)
qed

section \<open>Long messages\<close>

lemma command_text_le: "length (command_text data) \<le> 255"
  using length_cstr_le [of "take (if length data \<ge> 256 then 255 else length data) data"]
  by (simp add: command_text_def split: if_splits)

text \<open>
  A command is cut at 255 bytes, and an encrypted network setting whose text is 109 or more characters
  long does not fit: with a name of 32 characters that is a password of 58 characters, well below the 63 that
  are allowed and stored.
\<close>

theorem long_network_settings_are_cut:
  assumes "message_laws L key (w_iv w) p" "109 \<le> length p"
  shows "let data = final_json L w key ''wifi_prov'' p
    in 255 < length data \<and> length (command_text data) \<le> 255
       \<and> BLE_APP_Command L w' data a = BLE_APP_Command L w' (take 255 data) a"
proof -
  let ?data = "final_json L w key ''wifi_prov'' p"
  obtain ct tag where g: "gcm_encrypt L key (w_iv w) p = (ct, tag)" by (cases "gcm_encrypt L key (w_iv w) p")
  have len: "length (b64_encode L (w_iv w)) = 16" "length (b64_encode L tag) = 24"
    "length (b64_encode L ct) = 4 * ((length p + 2) div 3)"
    using assms(1) by (simp_all add: message_laws_def gcm_law_def b64_law_def g)
  have "37 \<le> (length p + 2) div 3" using assms(2) by presburger
  then have long: "255 < length ?data"
    unfolding final_json_text [OF assms(1)] g by (simp add: event_text_length len)
  then have cut: "command_text ?data = command_text (take 255 ?data)" by (simp add: command_text_def)
  have "BLE_APP_Command L w' ?data a = BLE_APP_Command L w' (take 255 ?data) a"
    unfolding BLE_APP_Command_def cut ..
  then show ?thesis using long command_text_le by (simp add: Let_def)
qed

theorem long_network_settings_are_cut_witness:
  "255 < length (final_json demo demo_world (replicate 32 (CHR 0x00)) ''wifi_prov''
      (''{\"ssid\":\"'' @ replicate 32 (CHR ''n'') @ ''\",\"pwd\":\"'' @ replicate 58 (CHR ''p'') @ ''\"}''))"
proof -
  let ?p = "''{\"ssid\":\"'' @ replicate 32 (CHR ''n'') @ ''\",\"pwd\":\"'' @ replicate 58 (CHR ''p'') @ ''\"}''"
  have l: "message_laws demo (replicate 32 (CHR 0x00)) (w_iv demo_world) ?p" by code_simp
  show ?thesis using long_network_settings_are_cut [OF l, of demo_world demo_app] by (simp add: Let_def)
qed

section \<open>Networks without a password\<close>

text \<open>
  The phone may set a network without a password: it is joined, stored and answered with \<open>ok\<close>.  At the
  next start it is not joined.
\<close>

lemma conn_event [simp]:
  "conn_ssid (ble_send_encrypted_event L w ev p a) = conn_ssid a"
  "conn_password (ble_send_encrypted_event L w ev p a) = conn_password a"
  by (simp_all add: ble_send_encrypted_event_def send_text_def)

lemma open_network_not_joined_at_start:
  assumes "ble_decrypt_json_data L w (session_key (session a)) (cJSON_GetObjectItem L msg ''data'') = Some (Some plaintext)"
    and "cJSON_Parse L plaintext = Some prov"
    and "Option.bind (cJSON_GetObjectItem L prov ''ssid'') (valuestring L) = Some name"
    and "Option.bind (cJSON_GetObjectItem L prov ''pwd'') (valuestring L) = None"
    and "wifi_prov L w msg a = Some a'"
  shows "conn_ssid a' = take 31 name \<and> conn_password a' = []
    \<and> wifi_init (conn_ssid a') (conn_password a') ap es0 ok es v = v"
proof -
  have "conn_ssid (connect_ap w b) = conn_ssid b" "conn_password (connect_ap w b) = conn_password b" for b
    by (simp_all add: connect_ap_def send_text_def Let_def)
  then have "conn_ssid a' = take 31 name \<and> conn_password a' = []"
    using assms by (auto simp: wifi_prov_def store_credentials_def Let_def split: wifi_answer.splits)
  then show ?thesis by (simp add: wifi_init_def cstr_def)
qed

end
