(* ===== verification/Cloud.thy ===== *)
theory Cloud
  imports Cloud_Messages Nvs Ble_Command
begin

text \<open>
  The task that talks to the cloud: its queues, its timer and its loop
  (\<open>src/main/provisioning/aws_iot_task.c\<close>), signing in
  (\<open>src/main/provisioning/fleet_provisioning_with_csr_demo.c\<close>), and the topics it subscribes to and
  the answers it takes (\<open>src/main/mqtt/rx_mqtt.c\<close>).  What the network, the libraries and the memory answer are arguments.
  An outcome \<open>None\<close> is one of the broker session: a read of freed memory, a failed assertion, a wait that does not end.
\<close>

section \<open>State\<close>

record 'f cloud =
  outbox :: outbox
  mqtt_tx_queue :: "mqtt_packet list option"
  tracker_mqtt_queue :: "tracker_mqtt_packet list option"
  Health_timer :: "nat option"
  is_aws_started :: bool
  topic_str :: "char list list"
  flash :: 'f
  phone :: app

definition cloud_boot :: "'f \<Rightarrow> app \<Rightarrow> 'f cloud" where
  "cloud_boot f a = \<lparr>outbox = outbox_boot, mqtt_tx_queue = None, tracker_mqtt_queue = None, Health_timer = None,
     is_aws_started = False, topic_str = [], flash = f, phone = a\<rparr>"

definition on_broker :: "mqtt \<Rightarrow> 'f cloud \<Rightarrow> 'f cloud" where
  "on_broker m c = c\<lparr>outbox := (outbox c)\<lparr>broker := m\<rparr>\<rparr>"

section \<open>Queues and timer\<close>

text \<open>\<open>mem\<close>: whether the copy of the data finds memory.\<close>

definition mqtt_queue_send ::
  "bool \<Rightarrow> messege_tx_mqtt_cmd_e \<Rightarrow> u8 list option \<Rightarrow> u32 \<Rightarrow> 'f cloud \<Rightarrow> bool \<times> 'f cloud" where
  "mqtt_queue_send mem c dat len s =
     (case mqtt_tx_queue s of
        None \<Rightarrow> (False, s)
      | Some q \<Rightarrow>
          let copy = (case dat of Some d \<Rightarrow> if len > 0 \<and> mem then Some (take (unat len) d) else None | None \<Rightarrow> None)
          in if length q < 10
             then (True, s\<lparr>mqtt_tx_queue := Some (q @ [\<lparr>tx_cmd = c, tx_data = copy, tx_data_len = len\<rparr>])\<rparr>)
             else (False, s))"

definition tracker_mqtt_queue_send :: "tracker_mqtt_packet \<Rightarrow> 'f cloud \<Rightarrow> 'f cloud" where
  "tracker_mqtt_queue_send t s =
     (case tracker_mqtt_queue s of
        None \<Rightarrow> s
      | Some q \<Rightarrow> if length q < 10 then s\<lparr>tracker_mqtt_queue := Some (q @ [t])\<rparr> else s)"

text \<open>The timer in microseconds; starting one that runs is refused.\<close>

definition start_once :: "nat \<Rightarrow> 'f cloud \<Rightarrow> 'f cloud" where
  "start_once us s = (case Health_timer s of None \<Rightarrow> s\<lparr>Health_timer := Some us\<rparr> | Some _ \<Rightarrow> s)"

definition Health_timer_callback :: "bool \<Rightarrow> 'f cloud \<Rightarrow> 'f cloud" where
  "Health_timer_callback mem s =
     start_once (15 * (60 * 1000000)) ((snd (mqtt_queue_send mem MESSEGE_HEALTH None 0 s))\<lparr>Health_timer := None\<rparr>)"

section \<open>Answers from the cloud\<close>

text \<open>\<open>valuestring\<close> is defined exactly for texts.  All the other callbacks write to the log only.\<close>

definition registration_callback :: "'j libs \<Rightarrow> 'f nvs \<Rightarrow> u8 list \<Rightarrow> world \<Rightarrow> char list option \<Rightarrow> 'f cloud \<Rightarrow> 'f cloud" where
  "registration_callback L N mac w result s =
     (if result = Some ''ok'' then
        s\<lparr>flash := write_nvs_registration_flag N True (flash s),
          phone := ble_send_encrypted_event L w ''prov_complete''
            (take 127 (''{\"thing_name\":\"C100_'' @ mac_text mac @ ''\"}'')) (phone s)\<rparr>
      else s)"

definition mqtt_rx_messege :: "'j libs \<Rightarrow> 'f nvs \<Rightarrow> u8 list \<Rightarrow> world \<Rightarrow> char list \<Rightarrow> 'f cloud \<Rightarrow> 'f cloud" where
  "mqtt_rx_messege L N mac w body s =
     (if body = [] \<or> \<not> w_mem w then s
      else case cJSON_Parse L (cstr body) of
        None \<Rightarrow> s
      | Some msg \<Rightarrow>
          let event_type = Option.bind (cJSON_GetObjectItem L msg ''event_type'') (valuestring L);
              result = Option.bind (cJSON_GetObjectItem L msg ''result'') (valuestring L)
          in if event_type = None \<or> result = None then s
             else if event_type = Some ''registration'' then registration_callback L N mac w result s
             else s)"

text \<open>What the first \<open>n\<close> turns of the library delivered, and the application taking it; \<open>ws\<close> is the world at each answer.\<close>

definition delivered :: "(nat \<Rightarrow> turn) \<Rightarrow> nat \<Rightarrow> packet list" where
  "delivered turns n = concat (map (\<lambda>i. fst (turns i)) [0..<n])"

fun deliver :: "'j libs \<Rightarrow> 'f nvs \<Rightarrow> u8 list \<Rightarrow> (nat \<Rightarrow> world) \<Rightarrow> nat \<Rightarrow> packet list \<Rightarrow> 'f cloud \<Rightarrow> 'f cloud" where
  "deliver L N mac ws i [] s = s"
| "deliver L N mac ws i (PUBLISH k body # ps) s =
     deliver L N mac ws (i + 1) ps (mqtt_rx_messege L N mac (ws i) body s)"
| "deliver L N mac ws i (_ # ps) s = deliver L N mac ws i ps s"

section \<open>Subscribing\<close>

text \<open>One subscription: memory for the copy of the topic, the turns and the clock, the status of the library.\<close>

record sub_env =
  s_mem :: bool
  s_net :: "nat \<Rightarrow> turn"
  s_now :: u32
  s_ok :: bool
  s_worlds :: "nat \<Rightarrow> world"

definition topic_copy :: "bool \<Rightarrow> char list \<Rightarrow> 'f cloud \<Rightarrow> char list option \<times> 'f cloud" where
  "topic_copy mem t s =
     (if length (topic_str s) \<ge> 30 then (None, s)
      else if \<not> mem then (None, s)
      else (Some t, s\<lparr>topic_str := topic_str s @ [t]\<rparr>))"

definition result_topics :: "u8 list \<Rightarrow> char list list" where
  "result_topics mac = map (\<lambda>n. ''things/c100/C100_'' @ mac_text mac @ ''/result/'' @ n)
     [''registration'', ''boot'', ''access'', ''usage'', ''clean_result'', ''diagnostics'', ''health'']"

definition subscribe_one ::
  "'j libs \<Rightarrow> 'f nvs \<Rightarrow> u8 list \<Rightarrow> sub_env \<Rightarrow> char list \<Rightarrow> 'f cloud \<Rightarrow> 'f cloud option" where
  "subscribe_one L N mac e t s =
     (case topic_copy (s_mem e) (take 99 t) s of
        (None, s) \<Rightarrow> Some s
      | (Some topic, s) \<Rightarrow>
          do { (_, n, m) \<leftarrow> SubscribeToTopic (s_net e) (s_now e) (s_ok e) topic (broker (outbox s));
               Some (deliver L N mac (s_worlds e) 0 (delivered (s_net e) n) (on_broker m s)) })"

fun subscribe_all ::
  "'j libs \<Rightarrow> 'f nvs \<Rightarrow> u8 list \<Rightarrow> (nat \<Rightarrow> sub_env) \<Rightarrow> nat \<Rightarrow> char list list \<Rightarrow> 'f cloud \<Rightarrow> 'f cloud option" where
  "subscribe_all L N mac es i [] s = Some s"
| "subscribe_all L N mac es i (t # ts) s =
     do { s \<leftarrow> subscribe_one L N mac (es i) t s; subscribe_all L N mac es (i + 1) ts s }"

definition mqtt_subscribe_init ::
  "'j libs \<Rightarrow> 'f nvs \<Rightarrow> u8 list \<Rightarrow> (nat \<Rightarrow> sub_env) \<Rightarrow> 'f cloud \<Rightarrow> (bool \<times> 'f cloud) option" where
  "mqtt_subscribe_init L N mac es s =
     do { s \<leftarrow> subscribe_all L N mac es 0 (result_topics mac) (s\<lparr>topic_str := []\<rparr>); Some (True, s) }"

section \<open>Signing in\<close>

text \<open>The arguments of \<open>EstablishMqttSession\<close>.\<close>

record session_env =
  e_tls :: "nat \<Rightarrow> bool"
  e_rnd :: "nat \<Rightarrow> u32"
  e_init :: bool
  e_qos :: bool
  e_conn :: bool
  e_present :: bool
  e_oks :: "nat \<Rightarrow> bool"

definition establish :: "session_env \<Rightarrow> 'f cloud \<Rightarrow> (bool \<times> 'f cloud) option" where
  "establish e s =
     do { (r, m) \<leftarrow> EstablishMqttSession (e_tls e) (e_rnd e) (e_init e) (e_qos e) (e_conn e) (e_present e) (e_oks e)
            (broker (outbox s));
          Some (r, on_broker m s) }"

record prov_env =
  p_pkcs11 :: bool
  p_claim :: session_env
  p_device :: session_env
  p_subs :: "nat \<Rightarrow> sub_env"

text \<open>
  With the claim certificate the session is only opened and closed again: making the key, the request and the
  registration of the thing are two lines of the log.  Closing it changes nothing here.
\<close>

definition aws_iot_provisioning_main ::
  "'j libs \<Rightarrow> 'f nvs \<Rightarrow> u8 list \<Rightarrow> prov_env \<Rightarrow> 'f cloud \<Rightarrow> (bool \<times> 'f cloud) option" where
  "aws_iot_provisioning_main L N mac p s =
     (let is_registered = read_nvs_registration_flag N (flash s)
      in if \<not> p_pkcs11 p then Some (False, s)
         else do {
           (r, s) \<leftarrow> (if is_registered then Some (True, s) else establish (p_claim p) s);
           if \<not> r then Some (False, s)
           else do {
             (r, s) \<leftarrow> establish (p_device p) s;
             if \<not> r then Some (False, s)
             else do {
               (r, s) \<leftarrow> mqtt_subscribe_init L N mac (p_subs p) s;
               if \<not> r then Some (False, s)
               else Some (True, snd (mqtt_queue_send True
                      (if is_registered then MESSEGE_BOOT else MESSEGE_REGISTRATION) None 0 s)) } } })"

section \<open>The task\<close>

text \<open>
  Signing in until it succeeds; the count of failures is never set back, and with the eleventh the device
  restarts (\<open>False\<close>).  \<open>ps i\<close> is attempt \<open>i\<close>.
\<close>

function provision_loop ::
  "'j libs \<Rightarrow> 'f nvs \<Rightarrow> u8 list \<Rightarrow> (nat \<Rightarrow> prov_env) \<Rightarrow> nat \<Rightarrow> nat \<Rightarrow> 'f cloud \<Rightarrow> (bool \<times> nat \<times> 'f cloud) option" where
  "provision_loop L N mac ps i provisioning_count s =
     (case aws_iot_provisioning_main L N mac (ps i) s of
        None \<Rightarrow> None
      | Some (True, s) \<Rightarrow> Some (True, provisioning_count, s)
      | Some (False, s) \<Rightarrow>
          if provisioning_count + 1 > 10 then Some (False, provisioning_count + 1, s)
          else provision_loop L N mac ps (i + 1) (provisioning_count + 1) s)"
  by pat_completeness auto
termination by (relation "measure (\<lambda>(L, N, mac, ps, i, count, s). 11 - count)") auto

record turn_env =
  t_sur :: surroundings
  t_sur2 :: surroundings
  t_net :: "nat \<Rightarrow> turn"
  t_now :: u32
  t_worlds :: "nat \<Rightarrow> world"

definition send_queued :: "surroundings \<Rightarrow> 'f cloud \<Rightarrow> 'f cloud option" where
  "send_queued E s =
     (case mqtt_tx_queue s of
        Some (p # q) \<Rightarrow> do { out \<leftarrow> Send_cJSON_Messege E p (outbox s); Some (s\<lparr>outbox := out, mqtt_tx_queue := Some q\<rparr>) }
      | _ \<Rightarrow> Some s)"

definition send_queued_tracker :: "surroundings \<Rightarrow> 'f cloud \<Rightarrow> 'f cloud option" where
  "send_queued_tracker E s =
     (case tracker_mqtt_queue s of
        Some (t # q) \<Rightarrow> do { out \<leftarrow> Send_cJSON_Messege_for_tracker E t (outbox s);
                              Some (s\<lparr>outbox := out, tracker_mqtt_queue := Some q\<rparr>) }
      | _ \<Rightarrow> Some s)"

definition serve_turn :: "'j libs \<Rightarrow> 'f nvs \<Rightarrow> u8 list \<Rightarrow> turn_env \<Rightarrow> 'f cloud \<Rightarrow> (bool \<times> 'f cloud) option" where
  "serve_turn L N mac e s =
     do { s \<leftarrow> send_queued (t_sur e) s;
          s \<leftarrow> send_queued_tracker (t_sur2 e) s;
          (alive, n, m) \<leftarrow> ProcessLoopWithTimeout (t_net e) (t_now e) 10 (broker (outbox s));
          Some (alive, deliver L N mac (t_worlds e) 0 (delivered (t_net e) n) (on_broker m s)) }"

text \<open>What happens while a connection is served: turns of the task, and the other tasks and the timer between them.\<close>

datatype cloud_event =
    Serve turn_env
  | Queue bool messege_tx_mqtt_cmd_e "u8 list option" u32
  | Queue_tracker tracker_mqtt_packet
  | Timer_expires bool

fun other_tasks :: "cloud_event \<Rightarrow> 'f cloud \<Rightarrow> 'f cloud" where
  "other_tasks (Serve e) s = s"
| "other_tasks (Queue mem c dat len) s = snd (mqtt_queue_send mem c dat len s)"
| "other_tasks (Queue_tracker t) s = tracker_mqtt_queue_send t s"
| "other_tasks (Timer_expires mem) s =
     (if Health_timer s = None then s else Health_timer_callback mem (s\<lparr>Health_timer := None\<rparr>))"

fun serve :: "'j libs \<Rightarrow> 'f nvs \<Rightarrow> u8 list \<Rightarrow> cloud_event list \<Rightarrow> 'f cloud \<Rightarrow> (bool \<times> 'f cloud) option" where
  "serve L N mac [] s = Some (True, s)"
| "serve L N mac (a # es) s =
     do { (alive, s) \<leftarrow> (case a of Serve e \<Rightarrow> serve_turn L N mac e s | _ \<Rightarrow> Some (True, other_tasks a s));
          if alive then serve L N mac es s else Some (False, s) }"

text \<open>
  One connection: the outer loop once.  The result is whether the task goes on, the count and the state;
  events that are left when the connection is lost are dropped.
\<close>

definition connection ::
  "'j libs \<Rightarrow> 'f nvs \<Rightarrow> u8 list \<Rightarrow> (nat \<Rightarrow> prov_env) \<Rightarrow> cloud_event list \<Rightarrow> nat \<Rightarrow> 'f cloud \<Rightarrow> (bool \<times> nat \<times> 'f cloud) option" where
  "connection L N mac ps es count s =
     do { (r, count, s) \<leftarrow> provision_loop L N mac ps 0 count (s\<lparr>mqtt_tx_queue := Some [], tracker_mqtt_queue := Some []\<rparr>);
          if \<not> r then Some (False, count, s)
          else do {
            (_, s) \<leftarrow> serve L N mac es (start_once (60 * 1000000) (s\<lparr>is_aws_started := True\<rparr>));
            Some (True, count, s\<lparr>Health_timer := None\<rparr>) } }"

fun aws_iot_main_entry ::
  "'j libs \<Rightarrow> 'f nvs \<Rightarrow> u8 list \<Rightarrow> ((nat \<Rightarrow> prov_env) \<times> cloud_event list) list \<Rightarrow> nat \<Rightarrow> 'f cloud
    \<Rightarrow> (bool \<times> nat \<times> 'f cloud) option" where
  "aws_iot_main_entry L N mac [] count s = Some (True, count, s)"
| "aws_iot_main_entry L N mac ((ps, es) # cs) count s =
     do { (r, count, s) \<leftarrow> connection L N mac ps es count s;
          if r then aws_iot_main_entry L N mac cs count s else Some (False, count, s) }"

section \<open>Relations the task keeps\<close>

text \<open>
  A reflexive and transitive relation between states that a turn and the other tasks keep is kept while a
  connection is served; when signing in and the bookkeeping between connections keep it, the whole task does.
\<close>

locale serve_relation =
  fixes L :: "'j libs" and N :: "'f nvs" and mac :: "u8 list" and R :: "'f cloud \<Rightarrow> 'f cloud \<Rightarrow> bool"
  assumes refl: "R s s"
    and trans: "R s s' \<Longrightarrow> R s' s'' \<Longrightarrow> R s s''"
    and turn: "serve_turn L N mac e s = Some (r, s') \<Longrightarrow> R s s'"
    and other: "R s (other_tasks a s)"
begin

lemma event:
  assumes "(case a of Serve e \<Rightarrow> serve_turn L N mac e s | _ \<Rightarrow> Some (True, other_tasks a s)) = Some (alive, s1)"
  shows "R s s1"
  using assms turn other [of s a] by (auto split: cloud_event.splits)

lemma serve_keeps: "serve L N mac es s = Some (r, s') \<Longrightarrow> R s s'"
proof (induction es arbitrary: s)
  case (Cons a es)
  obtain alive s1 where 1: "(case a of Serve e \<Rightarrow> serve_turn L N mac e s | _ \<Rightarrow> Some (True, other_tasks a s)) = Some (alive, s1)"
    "(if alive then serve L N mac es s1 else Some (False, s1)) = Some (r, s')"
    using Cons.prems by (auto split: bind_splits)
  show ?case
  proof (cases alive)
    case True
    then show ?thesis using trans [OF event [OF 1(1)] Cons.IH] 1(2) by simp
  next
    case False
    then show ?thesis using event [OF 1(1)] 1(2) by simp
  qed
qed (simp add: refl)

end

locale task_relation = serve_relation +
  assumes provisioning: "aws_iot_provisioning_main L N mac p s = Some (r, s') \<Longrightarrow> R s s'"
    and reset: "R s (s\<lparr>mqtt_tx_queue := Some [], tracker_mqtt_queue := Some []\<rparr>)"
    and start: "R s (start_once us (s\<lparr>is_aws_started := True\<rparr>))"
    and stop: "R s (s\<lparr>Health_timer := None\<rparr>)"
begin

lemma loop_keeps: "provision_loop L N mac ps i count s = Some (r, n, s') \<Longrightarrow> R s s'"
proof (induction "11 - count" arbitrary: i count s rule: less_induct)
  case less
  obtain r1 s1 where 1: "aws_iot_provisioning_main L N mac (ps i) s = Some (r1, s1)"
    using less.prems by (subst (asm) provision_loop.simps) (auto split: option.splits)
  show ?case
  proof (cases "r1 \<or> count + 1 > 10")
    case True
    then show ?thesis using less.prems 1 provisioning [OF 1]
      by (subst (asm) provision_loop.simps) (auto split: if_splits bool.splits)
  next
    case False
    then have rest: "provision_loop L N mac ps (i + 1) (count + 1) s1 = Some (r, n, s')"
      using less.prems 1 by (subst (asm) provision_loop.simps) simp
    have "count \<le> 9" using False by simp
    then have "11 - (count + 1) < 11 - count" by arith
    from trans [OF provisioning [OF 1] less.hyps [OF this rest]] show ?thesis .
  qed
qed

lemma connection_keeps:
  assumes "connection L N mac ps es count s = Some (r, n, s')"
  shows "R s s'"
proof -
  obtain r0 s0 where 0: "provision_loop L N mac ps 0 count (s\<lparr>mqtt_tx_queue := Some [], tracker_mqtt_queue := Some []\<rparr>) = Some (r0, n, s0)"
    using assms by (auto simp: connection_def split: bind_splits if_splits)
  have R0: "R s s0" using trans [OF reset loop_keeps [OF 0]] .
  show ?thesis
  proof (cases r0)
    case True
    then obtain r2 s2 where 2: "serve L N mac es (start_once (60 * 1000000) (s0\<lparr>is_aws_started := True\<rparr>)) = Some (r2, s2)"
      "s' = s2\<lparr>Health_timer := None\<rparr>"
      using assms 0 by (auto simp: connection_def split: bind_splits)
    show ?thesis unfolding 2(2) using trans [OF trans [OF trans [OF R0 start] serve_keeps [OF 2(1)]] stop] .
  next
    case False
    then show ?thesis using assms 0 R0 by (auto simp: connection_def)
  qed
qed

lemma main_keeps: "aws_iot_main_entry L N mac cs count s = Some (r, n, s') \<Longrightarrow> R s s'"
proof (induction cs arbitrary: count s)
  case (Cons a cs)
  obtain ps es where a: "a = (ps, es)" by (cases a)
  obtain r1 n1 s1 where 1: "connection L N mac ps es count s = Some (r1, n1, s1)"
    "(if r1 then aws_iot_main_entry L N mac cs n1 s1 else Some (False, n1, s1)) = Some (r, n, s')"
    using Cons.prems a by (auto split: bind_splits)
  show ?case
  proof (cases r1)
    case True
    then show ?thesis using trans [OF connection_keeps [OF 1(1)] Cons.IH] 1(2) by simp
  next
    case False
    then show ?thesis using connection_keeps [OF 1(1)] 1(2) by simp
  qed
qed (simp add: refl)

end

section \<open>What the answers touch\<close>

lemma on_broker_simps [simp]:
  "mqtt_tx_queue (on_broker m s) = mqtt_tx_queue s" "tracker_mqtt_queue (on_broker m s) = tracker_mqtt_queue s"
  "Health_timer (on_broker m s) = Health_timer s" "is_aws_started (on_broker m s) = is_aws_started s"
  "topic_str (on_broker m s) = topic_str s" "flash (on_broker m s) = flash s" "broker (outbox (on_broker m s)) = m"
  by (simp_all add: on_broker_def)

lemma rx_simps [simp]:
  "mqtt_tx_queue (mqtt_rx_messege L N mac w body s) = mqtt_tx_queue s"
  "tracker_mqtt_queue (mqtt_rx_messege L N mac w body s) = tracker_mqtt_queue s"
  "Health_timer (mqtt_rx_messege L N mac w body s) = Health_timer s"
  "is_aws_started (mqtt_rx_messege L N mac w body s) = is_aws_started s"
  "topic_str (mqtt_rx_messege L N mac w body s) = topic_str s"
  "outbox (mqtt_rx_messege L N mac w body s) = outbox s"
  by (simp_all add: mqtt_rx_messege_def registration_callback_def Let_def split: option.split)

lemma deliver_simps [simp]:
  "mqtt_tx_queue (deliver L N mac ws i ps s) = mqtt_tx_queue s"
  "tracker_mqtt_queue (deliver L N mac ws i ps s) = tracker_mqtt_queue s"
  "Health_timer (deliver L N mac ws i ps s) = Health_timer s"
  "is_aws_started (deliver L N mac ws i ps s) = is_aws_started s"
  "topic_str (deliver L N mac ws i ps s) = topic_str s"
  "outbox (deliver L N mac ws i ps s) = outbox s"
  by (induction L N mac ws i ps s rule: deliver.induct) simp_all

text \<open>What the flash may hold afterwards: the flag set, everything else as before.\<close>

definition only_flag :: "('f \<Rightarrow> char list \<Rightarrow> char list \<Rightarrow> nvs_value option) \<Rightarrow> 'f \<Rightarrow> 'f \<Rightarrow> bool" where
  "only_flag view f f' \<longleftrightarrow> view f' = view f
     \<or> view f' = (view f)(''storage'' := (view f ''storage'')(''is_registered'' \<mapsto> NVS_U32 1))"

lemma only_flag_refl [simp]: "only_flag view f f"
  by (simp add: only_flag_def)

lemma only_flag_trans: "only_flag view f g \<Longrightarrow> only_flag view g h \<Longrightarrow> only_flag view f h"
  by (auto simp: only_flag_def)

lemma rx_flash: "nvs_laws N view \<Longrightarrow> only_flag view (flash s) (flash (mqtt_rx_messege L N mac w body s))"
  using write_view(2) [of N view "''storage''" "''is_registered''" "NVS_U32 1" "flash s"]
  by (auto simp: mqtt_rx_messege_def registration_callback_def only_flag_def write_nvs_registration_flag_def
      write_nvs_uint_def stored_under_def Let_def split: option.split)

lemma deliver_flash:
  assumes "nvs_laws N view"
  shows "only_flag view (flash s) (flash (deliver L N mac ws i ps s))"
proof (induction ps arbitrary: i s)
  case (Cons p ps)
  show ?case using Cons only_flag_trans [OF rx_flash [OF assms] Cons] by (cases p) auto
qed simp

text \<open>What a step of signing in leaves alone.\<close>

definition quiet :: "'f nvs \<Rightarrow> 'f cloud \<Rightarrow> 'f cloud \<Rightarrow> bool" where
  "quiet N s s' \<longleftrightarrow> mqtt_tx_queue s' = mqtt_tx_queue s \<and> tracker_mqtt_queue s' = tracker_mqtt_queue s
     \<and> Health_timer s' = Health_timer s \<and> is_aws_started s' = is_aws_started s
     \<and> (\<forall>view. nvs_laws N view \<longrightarrow> only_flag view (flash s) (flash s'))"

lemma quiet_refl [simp]: "quiet N s s" "quiet N s (on_broker m s)" "quiet N s (s\<lparr>topic_str := t\<rparr>)"
  by (simp_all add: quiet_def)

lemma quiet_trans [trans]: "quiet N s s1 \<Longrightarrow> quiet N s1 s2 \<Longrightarrow> quiet N s s2"
  unfolding quiet_def by (metis only_flag_trans)

lemma quiet_deliver: "quiet N s (deliver L N mac ws i ps s)"
  by (simp add: quiet_def deliver_flash)

lemma subscribe_one_quiet:
  assumes "subscribe_one L N mac e t s = Some s'"
  shows "quiet N s s'"
proof -
  have "quiet N s (deliver L N mac ws 0 ps (on_broker m (s\<lparr>topic_str := x\<rparr>)))" for ws ps m x
    using quiet_trans [OF quiet_refl(3) quiet_trans [OF quiet_refl(2) quiet_deliver]] .
  then show ?thesis using assms by (auto simp: subscribe_one_def topic_copy_def split: if_splits bind_splits)
qed

lemma subscribe_all_quiet: "subscribe_all L N mac es i ts s = Some s' \<Longrightarrow> quiet N s s'"
proof (induction ts arbitrary: i s)
  case (Cons t ts)
  then obtain s1 where 1: "subscribe_one L N mac (es i) t s = Some s1" "subscribe_all L N mac es (i + 1) ts s1 = Some s'"
    by (auto split: bind_splits)
  show ?case by (rule quiet_trans [OF subscribe_one_quiet [OF 1(1)] Cons.IH [OF 1(2)]])
qed simp

lemma establish_quiet: "establish e s = Some (r, s') \<Longrightarrow> quiet N s s' \<and> flash s' = flash s"
  by (auto simp: establish_def split: bind_splits)

text \<open>The message a successful attempt queues, and what an attempt may do to the flash.\<close>

definition hello :: "'f nvs \<Rightarrow> 'f cloud \<Rightarrow> mqtt_packet" where
  "hello N s = \<lparr>tx_cmd = (if read_nvs_registration_flag N (flash s) then MESSEGE_BOOT else MESSEGE_REGISTRATION),
     tx_data = None, tx_data_len = 0\<rparr>"

lemma provisioning_cases:
  assumes "aws_iot_provisioning_main L N mac p s = Some (r, s')"
  obtains s1 where "quiet N s s1"
    "s' = (if r then snd (mqtt_queue_send True (tx_cmd (hello N s)) None 0 s1) else s1)"
proof -
  let ?reg = "read_nvs_registration_flag N (flash s)"
  show ?thesis
  proof (cases "p_pkcs11 p")
    case False
    then show ?thesis using assms by (intro that [of s]) (simp_all add: aws_iot_provisioning_main_def)
  next
    case True
    obtain r1 s1 where 1: "(if ?reg then Some (True, s) else establish (p_claim p) s) = Some (r1, s1)"
      using assms True by (auto simp: aws_iot_provisioning_main_def Let_def split: bind_splits if_splits)
    have q1: "quiet N s s1" using 1 establish_quiet [of "p_claim p" s] by (auto split: if_splits)
    show ?thesis
    proof (cases r1)
      case False
      then show ?thesis using assms True 1 q1 by (intro that [of s1]) (simp_all add: aws_iot_provisioning_main_def Let_def)
    next
      case r1: True
      obtain r2 s2 where 2: "establish (p_device p) s1 = Some (r2, s2)"
        using assms True 1 r1 by (auto simp: aws_iot_provisioning_main_def Let_def split: bind_splits)
      have q2: "quiet N s s2" using quiet_trans [OF q1] establish_quiet [OF 2] by blast
      show ?thesis
      proof (cases r2)
        case False
        then show ?thesis using assms True 1 2 r1 q2 by (intro that [of s2]) (simp_all add: aws_iot_provisioning_main_def Let_def)
      next
        case r2: True
        obtain s3 where 3: "subscribe_all L N mac (p_subs p) 0 (result_topics mac) (s2\<lparr>topic_str := []\<rparr>) = Some s3"
          using assms True 1 2 r1 r2
          by (auto simp: aws_iot_provisioning_main_def mqtt_subscribe_init_def Let_def split: bind_splits)
        have "quiet N s s3" using quiet_trans [OF quiet_trans [OF q2 quiet_refl(3)] subscribe_all_quiet [OF 3]] .
        then show ?thesis using assms True 1 2 3 r1 r2
          by (intro that [of s3]) (simp_all add: aws_iot_provisioning_main_def mqtt_subscribe_init_def hello_def Let_def)
      qed
    qed
  qed
qed

lemma queue_send_simps [simp]:
  "tracker_mqtt_queue (snd (mqtt_queue_send mem c dat len s)) = tracker_mqtt_queue s"
  "Health_timer (snd (mqtt_queue_send mem c dat len s)) = Health_timer s"
  "is_aws_started (snd (mqtt_queue_send mem c dat len s)) = is_aws_started s"
  "outbox (snd (mqtt_queue_send mem c dat len s)) = outbox s"
  "flash (snd (mqtt_queue_send mem c dat len s)) = flash s"
  by (simp_all add: mqtt_queue_send_def Let_def split: option.split)

section \<open>The flash\<close>

lemma provisioning_flash:
  assumes "nvs_laws N view" "aws_iot_provisioning_main L N mac p s = Some (r, s')"
  shows "only_flag view (flash s) (flash s')"
  using assms(2)
proof (rule provisioning_cases)
  fix s1 assume "quiet N s s1" "s' = (if r then snd (mqtt_queue_send True (tx_cmd (hello N s)) None 0 s1) else s1)"
  then show ?thesis using assms(1) by (simp add: quiet_def)
qed

lemma send_queued_flash:
  "send_queued E s = Some s' \<Longrightarrow> flash s' = flash s" "send_queued_tracker E s = Some s' \<Longrightarrow> flash s' = flash s"
  by (auto simp: send_queued_def send_queued_tracker_def split: option.splits list.splits bind_splits)

lemma serve_turn_flash:
  assumes "nvs_laws N view" "serve_turn L N mac e s = Some (r, s')"
  shows "only_flag view (flash s) (flash s')"
proof -
  obtain s1 s2 m n where s: "send_queued (t_sur e) s = Some s1" "send_queued_tracker (t_sur2 e) s1 = Some s2"
    "s' = deliver L N mac (t_worlds e) 0 (delivered (t_net e) n) (on_broker m s2)"
    using assms(2) by (auto simp: serve_turn_def split: bind_splits)
  have "flash (on_broker m s2) = flash s" using s(1,2) by (simp add: send_queued_flash)
  then show ?thesis unfolding s(3) using deliver_flash [OF assms(1), of "on_broker m s2"] by simp
qed

lemma other_tasks_flash: "flash (other_tasks a s) = flash s"
  by (cases a) (auto simp: tracker_mqtt_queue_send_def Health_timer_callback_def start_once_def split: option.splits)

text \<open>The flash between two states of the task.\<close>

definition flag_kept :: "'f nvs \<Rightarrow> 'f cloud \<Rightarrow> 'f cloud \<Rightarrow> bool" where
  "flag_kept N s s' \<longleftrightarrow> (\<forall>view. nvs_laws N view \<longrightarrow> only_flag view (flash s) (flash s'))"

interpretation flag: task_relation L N mac "flag_kept N" for L and N :: "'f nvs" and mac
proof
  show "flag_kept N s s''" if "flag_kept N s s'" "flag_kept N s' s''" for s s' s''
    using that unfolding flag_kept_def by (metis only_flag_trans)
qed (auto simp: flag_kept_def serve_turn_flash other_tasks_flash start_once_def
    intro: provisioning_flash split: option.split)

text \<open>
  C10: the whole task, over any number of connections and whatever the network delivers, changes one
  thing in the flash: it may set the registration flag.  Every other setting is kept, and a registered device stays
  registered.
\<close>

theorem cloud_only_registers:
  assumes "nvs_laws N view" "aws_iot_main_entry L N mac cs count s = Some (r, n, s')"
  shows "((k, key) \<noteq> (''storage'', ''is_registered'') \<longrightarrow> view (flash s') k key = view (flash s) k key)
    \<and> (read_nvs_registration_flag N (flash s) \<longrightarrow> read_nvs_registration_flag N (flash s'))"
proof -
  have f: "only_flag view (flash s) (flash s')" using flag.main_keeps [OF assms(2)] assms(1) by (simp add: flag_kept_def)
  have iff: "read_nvs_registration_flag N f \<longleftrightarrow> view f ''storage'' ''is_registered'' = Some (NVS_U32 1)" for f
    by (rule registration_flag_view [OF assms(1)])
  show ?thesis using f unfolding iff by (auto simp: only_flag_def)
qed

section \<open>Registering\<close>

text \<open>
  C21: registering.  After the cloud's answer to the registration (an \<open>event_type\<close> and a \<open>result\<close>
  of ``ok''), when the flash accepts the mark, the device is marked as registered; from then on signing in does not use the claim certificate, and the first
  message it queues is the one of a boot.  A device that is not marked queues a registration.  No other message
from the cloud changes anything.
\<close>

theorem registration_completes:
  assumes "nvs_laws N view" "w_mem w" "body \<noteq> []" "cJSON_Parse L (cstr body) = Some msg"
    "Option.bind (cJSON_GetObjectItem L msg ''event_type'') (valuestring L) = Some ''registration''"
    "Option.bind (cJSON_GetObjectItem L msg ''result'') (valuestring L) = Some ''ok''"
    and "flag_accepted N True (flash s)"
  shows "let s1 = mqtt_rx_messege L N mac w body s
    in read_nvs_registration_flag N (flash s1)
      \<and> (\<forall>p e. aws_iot_provisioning_main L N mac (p\<lparr>p_claim := e\<rparr>) s1 = aws_iot_provisioning_main L N mac p s1)
      \<and> (\<forall>p s s2. aws_iot_provisioning_main L N mac p (s\<lparr>mqtt_tx_queue := Some []\<rparr>) = Some (True, s2) \<longrightarrow>
           mqtt_tx_queue s2 = Some [\<lparr>tx_cmd = (if read_nvs_registration_flag N (flash s) then MESSEGE_BOOT else MESSEGE_REGISTRATION),
             tx_data = None, tx_data_len = 0\<rparr>])
      \<and> (\<forall>b s. mqtt_rx_messege L N mac w b s = s
           \<or> (\<exists>j. cJSON_Parse L (cstr b) = Some j
               \<and> Option.bind (cJSON_GetObjectItem L j ''event_type'') (valuestring L) = Some ''registration''
               \<and> Option.bind (cJSON_GetObjectItem L j ''result'') (valuestring L) = Some ''ok''))"
proof -
  let ?s1 = "mqtt_rx_messege L N mac w body s"
  have "flash ?s1 = write_nvs_registration_flag N True (flash s)"
    using assms(2-6) by (simp add: mqtt_rx_messege_def registration_callback_def)
  then have flag: "read_nvs_registration_flag N (flash ?s1)" using registration_flag_kept [OF assms(1,7)] by simp
  have sel: "p_pkcs11 (p\<lparr>p_claim := e\<rparr>) = p_pkcs11 p" "p_device (p\<lparr>p_claim := e\<rparr>) = p_device p"
    "p_subs (p\<lparr>p_claim := e\<rparr>) = p_subs p" for p :: prov_env and e by simp_all
  have "aws_iot_provisioning_main L N mac (p\<lparr>p_claim := e\<rparr>) ?s1 = aws_iot_provisioning_main L N mac p ?s1" for p e
    unfolding aws_iot_provisioning_main_def sel using flag by simp
  moreover have "mqtt_tx_queue s2 = Some [\<lparr>tx_cmd = (if read_nvs_registration_flag N (flash s) then MESSEGE_BOOT else MESSEGE_REGISTRATION),
             tx_data = None, tx_data_len = 0\<rparr>]"
    if "aws_iot_provisioning_main L N mac p (s\<lparr>mqtt_tx_queue := Some []\<rparr>) = Some (True, s2)" for p s s2
    using that
  proof (rule provisioning_cases)
    fix s1 assume "quiet N (s\<lparr>mqtt_tx_queue := Some []\<rparr>) s1"
      "s2 = (if True then snd (mqtt_queue_send True (tx_cmd (hello N (s\<lparr>mqtt_tx_queue := Some []\<rparr>))) None 0 s1) else s1)"
    then show ?thesis by (simp add: quiet_def mqtt_queue_send_def hello_def)
  qed
  moreover have "mqtt_rx_messege L N mac w b s = s
      \<or> (\<exists>j. cJSON_Parse L (cstr b) = Some j
          \<and> Option.bind (cJSON_GetObjectItem L j ''event_type'') (valuestring L) = Some ''registration''
          \<and> Option.bind (cJSON_GetObjectItem L j ''result'') (valuestring L) = Some ''ok'')" for b s
    by (simp add: mqtt_rx_messege_def registration_callback_def Let_def split: option.split)
  ultimately show ?thesis using flag by (simp only: Let_def) blast
qed

text \<open>An answer in which the event stands before a blank and the result behind it.\<close>

definition two_words :: "char list libs" where
  "two_words =
     \<lparr>cJSON_Parse = Some,
      cJSON_GetObjectItem = (\<lambda>j k. if k = ''event_type'' then Some (takeWhile (\<lambda>c. c \<noteq> CHR 0x20) j)
                                    else Some (drop 1 (dropWhile (\<lambda>c. c \<noteq> CHR 0x20) j))),
      valuestring = Some, valueint = (\<lambda>_. None), print_aps = (\<lambda>_. None), b64_encode = (\<lambda>t. t), b64_decode = Some,
      gcm_encrypt = (\<lambda>key iv p. (p, [])), gcm_decrypt = (\<lambda>key iv tag ct. Some ct), ecdh_make_public = (\<lambda>_. None),
      ecdh_secret = (\<lambda>_ _. None), hkdf = (\<lambda>_. None)\<rparr>"

lemma two_words_simps:
  "cJSON_Parse two_words = Some" "valuestring two_words = Some"
  "cJSON_GetObjectItem two_words ''registration ok'' ''event_type'' = Some ''registration''"
  "cJSON_GetObjectItem two_words ''registration ok'' ''result'' = Some ''ok''"
  by (simp_all add: two_words_def)

theorem registration_completes_witness:
  "read_nvs_registration_flag ram
     (flash (mqtt_rx_messege two_words ram [1, 2, 3, 4, 5, 6] demo_world ''registration ok'' (cloud_boot (\<lambda>_ _. None) demo_app)))
   \<and> \<not> read_nvs_registration_flag ram (\<lambda>_ _. None)"
proof -
  have h: "w_mem demo_world" "''registration ok'' \<noteq> []" "cJSON_Parse two_words (cstr ''registration ok'') = Some ''registration ok''"
    "Option.bind (cJSON_GetObjectItem two_words ''registration ok'' ''event_type'') (valuestring two_words) = Some ''registration''"
    "Option.bind (cJSON_GetObjectItem two_words ''registration ok'' ''result'') (valuestring two_words) = Some ''ok''"
    by (simp_all add: two_words_simps demo_world_def cstr_def)
  show ?thesis
    using registration_completes [OF ram_laws h ram_accepts_flag] by (simp add: Let_def registration_flag_view [OF ram_laws])
qed

section \<open>Signing in comes to an end\<close>

text \<open>
  Signing in comes to an end.  When every attempt returns, at most eleven failures in all are made,
  those of earlier connections included; the device restarts exactly with the eleventh.
\<close>

theorem provisioning_ends:
  assumes "\<And>i s. aws_iot_provisioning_main L N mac (ps i) s \<noteq> None" "count \<le> 10"
  shows "\<exists>r n s'. provision_loop L N mac ps i count s = Some (r, n, s') \<and> count \<le> n \<and> n \<le> 11 \<and> (r \<longleftrightarrow> n \<le> 10)"
  using assms(2)
proof (induction "11 - count" arbitrary: i count s rule: less_induct)
  case less
  obtain r1 s1 where 1: "aws_iot_provisioning_main L N mac (ps i) s = Some (r1, s1)" using assms(1) by fastforce
  consider "r1" | "\<not> r1" "count = 10" | "\<not> r1" "count \<le> 9" using less.prems by linarith
  then show ?case
  proof cases
    case ok: 1
    have "provision_loop L N mac ps i count s = Some (True, count, s1)"
      using 1 ok by (subst provision_loop.simps) simp
    then show ?thesis using less.prems by (intro exI [of _ True] exI [of _ count] exI [of _ s1]) simp
  next
    case 2
    have "provision_loop L N mac ps i count s = Some (False, 11, s1)"
      using 1 2 by (subst provision_loop.simps) simp
    then show ?thesis using 2 by (intro exI [of _ False] exI [of _ 11] exI [of _ s1]) simp
  next
    case 3
    have less': "11 - (count + 1) < 11 - count" "count + 1 \<le> 10" using 3(2) by arith+
    have "provision_loop L N mac ps i count s = provision_loop L N mac ps (i + 1) (count + 1) s1"
      using 1 3 by (subst provision_loop.simps) simp
    then show ?thesis using less.hyps [OF less', of "i + 1" s1] by (auto intro: Suc_leD)
  qed
qed

text \<open>No network and no key store.\<close>

definition offline :: prov_env where
  "offline =
     (let e = \<lparr>e_tls = (\<lambda>_. False), e_rnd = (\<lambda>_. 0), e_init = False, e_qos = False, e_conn = False, e_present = False, e_oks = (\<lambda>_. False)\<rparr>
      in \<lparr>p_pkcs11 = False, p_claim = e, p_device = e,
          p_subs = (\<lambda>_. \<lparr>s_mem = False, s_net = (\<lambda>_. ([], MQTTRecvFailed, 0)), s_now = 0, s_ok = False, s_worlds = (\<lambda>_. demo_world)\<rparr>)\<rparr>)"

theorem provisioning_ends_witness:
  "\<exists>r n s'. provision_loop two_words ram [1, 2, 3, 4, 5, 6] (\<lambda>_. offline) 0 3 (cloud_boot (\<lambda>_ _. None) demo_app) = Some (r, n, s')
     \<and> 3 \<le> n \<and> n \<le> 11 \<and> (r \<longleftrightarrow> n \<le> 10)"
proof -
  have "aws_iot_provisioning_main two_words ram [1, 2, 3, 4, 5, 6] offline s \<noteq> None" for s
    by (simp add: aws_iot_provisioning_main_def offline_def Let_def)
  from provisioning_ends [of two_words ram "[1, 2, 3, 4, 5, 6]" "\<lambda>_. offline" 3, OF this] show ?thesis by simp
qed

section \<open>Queues, timer and order\<close>

text \<open>While a connection is served.\<close>

definition serving :: "'f cloud \<Rightarrow> bool" where
  "serving s \<longleftrightarrow> (\<exists>q t. mqtt_tx_queue s = Some q \<and> tracker_mqtt_queue s = Some t \<and> length q \<le> 10 \<and> length t \<le> 10)
     \<and> Health_timer s \<noteq> None \<and> is_aws_started s"

lemma serving_other: "serving s \<Longrightarrow> serving (other_tasks a s)"
  by (cases a) (auto simp: serving_def mqtt_queue_send_def tracker_mqtt_queue_send_def Health_timer_callback_def start_once_def Let_def)

lemma serving_queued:
  "serving s \<Longrightarrow> send_queued E s = Some s' \<Longrightarrow> serving s'"
  "serving s \<Longrightarrow> send_queued_tracker E s = Some s' \<Longrightarrow> serving s'"
  by (auto simp: serving_def send_queued_def send_queued_tracker_def split: option.splits list.splits bind_splits)

lemma serving_turn:
  assumes "serving s" "serve_turn L N mac e s = Some (r, s')"
  shows "serving s'"
proof -
  obtain s1 s2 m n where s: "send_queued (t_sur e) s = Some s1" "send_queued_tracker (t_sur2 e) s1 = Some s2"
    "s' = deliver L N mac (t_worlds e) 0 (delivered (t_net e) n) (on_broker m s2)"
    using assms(2) by (auto simp: serve_turn_def split: bind_splits)
  have "serving s2" using serving_queued(2) [OF serving_queued(1) [OF assms(1) s(1)] s(2)] .
  then show ?thesis unfolding s(3) by (simp add: serving_def)
qed

interpretation served: serve_relation L N mac "\<lambda>s s'. serving s \<longrightarrow> serving s'" for L and N :: "'f nvs" and mac
  by unfold_locales (auto intro: serving_turn serving_other)

lemma loop_queues:
  "provision_loop L N mac ps i count s = Some (r, n, s') \<Longrightarrow> mqtt_tx_queue s = Some [] \<Longrightarrow> tracker_mqtt_queue s = Some []
    \<Longrightarrow> tracker_mqtt_queue s' = Some [] \<and> Health_timer s' = Health_timer s
      \<and> (if r then \<exists>p. mqtt_tx_queue s' = Some [p] \<and> tx_cmd p \<in> {MESSEGE_BOOT, MESSEGE_REGISTRATION} else mqtt_tx_queue s' = Some [])"
proof (induction "11 - count" arbitrary: i count s rule: less_induct)
  case less
  obtain r1 s1 where 1: "aws_iot_provisioning_main L N mac (ps i) s = Some (r1, s1)"
    using less.prems(1) by (subst (asm) provision_loop.simps) (auto split: option.splits)
  from 1 have s1: "tracker_mqtt_queue s1 = Some [] \<and> Health_timer s1 = Health_timer s
      \<and> (if r1 then \<exists>p. mqtt_tx_queue s1 = Some [p] \<and> tx_cmd p \<in> {MESSEGE_BOOT, MESSEGE_REGISTRATION} else mqtt_tx_queue s1 = Some [])"
  proof (rule provisioning_cases)
    fix s0 assume "quiet N s s0" "s1 = (if r1 then snd (mqtt_queue_send True (tx_cmd (hello N s)) None 0 s0) else s0)"
    then show ?thesis using less.prems(2,3) by (auto simp: quiet_def mqtt_queue_send_def hello_def)
  qed
  show ?case
  proof (cases "r1 \<or> count + 1 > 10")
    case True
    then show ?thesis using less.prems(1) 1 s1 by (subst (asm) provision_loop.simps) (auto split: if_splits bool.splits)
  next
    case False
    then have rest: "provision_loop L N mac ps (i + 1) (count + 1) s1 = Some (r, n, s')"
      using less.prems(1) 1 by (subst (asm) provision_loop.simps) simp
    have "count \<le> 9" using False by simp
    then have "11 - (count + 1) < 11 - count" by arith
    from less.hyps [OF this rest] show ?thesis using s1 False by auto
  qed
qed

text \<open>
  C32: while a connection is served, whatever the other tasks queue and the network delivers, each queue
  holds at most ten messages, the health timer is running, and a message is refused exactly when the
  queue is full; before the first turn exactly the greeting is queued.
\<close>

theorem connection_invariant:
  assumes "Health_timer s = None"
    and "provision_loop L N mac ps 0 count (s\<lparr>mqtt_tx_queue := Some [], tracker_mqtt_queue := Some []\<rparr>) = Some (True, n, s1)"
    and "serve L N mac es (start_once (60 * 1000000) (s1\<lparr>is_aws_started := True\<rparr>)) = Some (r, s2)"
  shows "\<exists>q t us. mqtt_tx_queue s2 = Some q \<and> tracker_mqtt_queue s2 = Some t \<and> length q \<le> 10 \<and> length t \<le> 10
    \<and> Health_timer s2 = Some us \<and> is_aws_started s2
    \<and> fst (mqtt_queue_send mem c dat len s2) = (length q < 10)
    \<and> (\<exists>p. mqtt_tx_queue s1 = Some [p] \<and> tx_cmd p \<in> {MESSEGE_BOOT, MESSEGE_REGISTRATION})"
proof -
  note k = loop_queues [OF assms(2)]
  have "serving (start_once (60 * 1000000) (s1\<lparr>is_aws_started := True\<rparr>))"
    using k assms(1) by (auto simp: serving_def start_once_def)
  with served.serve_keeps [OF assms(3)] obtain q t us where
    "mqtt_tx_queue s2 = Some q" "tracker_mqtt_queue s2 = Some t" "length q \<le> 10" "length t \<le> 10" "Health_timer s2 = Some us"
    "is_aws_started s2"
    by (auto simp: serving_def)
  then show ?thesis using k by (auto simp: mqtt_queue_send_def Let_def)
qed

text \<open>A broker that accepts, no memory for subscriptions, and one turn of the library that delivers an answer.\<close>

definition online :: prov_env where
  "online =
     (let e = \<lparr>e_tls = (\<lambda>_. True), e_rnd = (\<lambda>_. 0), e_init = True, e_qos = True, e_conn = True, e_present = False, e_oks = (\<lambda>_. True)\<rparr>
      in \<lparr>p_pkcs11 = True, p_claim = e, p_device = e,
          p_subs = (\<lambda>_. \<lparr>s_mem = False, s_net = (\<lambda>_. ([], MQTTRecvFailed, 0)), s_now = 0, s_ok = False, s_worlds = (\<lambda>_. demo_world)\<rparr>)\<rparr>)"

definition one_turn :: turn_env where
  "one_turn = \<lparr>t_sur = calm, t_sur2 = calm, t_net = (\<lambda>_. ([PUBLISH 1 ''registration ok''], MQTTSuccess, 2000)), t_now = 0,
     t_worlds = (\<lambda>_. demo_world)\<rparr>"

abbreviation (input) a_mac :: "u8 list" where "a_mac \<equiv> [1, 2, 3, 4, 5, 6]"

lemma online_connects: "connectToBrokerWithBackoffRetries (\<lambda>_. True) rnd = Some (True, 1, [])"
  unfolding connectToBrokerWithBackoffRetries_def by (subst connect_loop.simps) simp

lemma online_establish:
  "establish (p_device online) s = Some (True, on_broker (cleanupOutgoingPublishes
     ((broker (outbox s))\<lparr>nextPacketId := 1, mqttSessionEstablished := True\<rparr>)) s)"
  "establish (p_claim online) s = establish (p_device online) s"
  by (simp_all add: establish_def online_def EstablishMqttSession_def online_connects Let_def)

lemma online_subscribe: "subscribe_all L N mac (p_subs online) i ts s = Some s"
  by (induction ts arbitrary: i s) (simp_all add: subscribe_one_def topic_copy_def online_def Let_def)

lemma online_provisions:
  assumes "mqtt_tx_queue s = Some []"
  shows "\<exists>s'. provision_loop L N mac (\<lambda>_. online) 0 0 s = Some (True, 0, s') \<and> mqtt_tx_queue s' = Some [hello N s]
    \<and> tracker_mqtt_queue s' = tracker_mqtt_queue s \<and> Health_timer s' = Health_timer s \<and> flash s' = flash s
    \<and> getNextFreeIndexForOutgoingPublishes (broker (outbox s')) = Some 0"
proof -
  have k: "p_pkcs11 online" by (simp add: online_def Let_def)
  show ?thesis
    by (subst provision_loop.simps)
      (simp add: aws_iot_provisioning_main_def k online_establish mqtt_subscribe_init_def online_subscribe
        mqtt_queue_send_def assms hello_def cleanupOutgoingPublishes_def getNextFreeIndexForOutgoingPublishes_def no_packet_def
        on_broker_def eval_nat_numeral Let_def)
qed

lemma one_turn_loop: "ProcessLoopWithTimeout (t_net one_turn) (t_now one_turn) 10 m = Some (True, 1, m)"
proof -
  have "process_loop (t_net one_turn) 10 2000 MQTTSuccess 1 m = Some (MQTTSuccess, 1, m)"
    by (subst process_loop.simps) simp
  then have "process_loop (t_net one_turn) 10 0 MQTTSuccess 0 m = Some (MQTTSuccess, 1, m)"
    by (subst process_loop.simps) (simp add: one_turn_def mqttCallback_def)
  then show ?thesis by (simp add: ProcessLoopWithTimeout_def one_turn_def)
qed

lemma one_turn_serves:
  assumes "mqtt_tx_queue s = Some [hello ram s0]" "tracker_mqtt_queue s = Some []"
    "getNextFreeIndexForOutgoingPublishes (broker (outbox s)) = Some 0"
  shows "\<exists>s'. serve_turn two_words ram a_mac one_turn s = Some (True, s')
    \<and> flash s' = write_nvs_registration_flag ram True (flash s)"
proof -
  have h: "cmd_code (tx_cmd (hello ram s0)) \<le> 6" "c_root calm" "c_data calm" "c_print calm = (\<lambda>t. Some (the (print_event t)))"
    "c_sent calm" "c_topic calm \<noteq> c_payload calm" "getNextFreeIndexForOutgoingPublishes (broker (outbox s)) = Some 0"
    using assms(3) by (simp_all add: hello_def calm_def print_event_def fun_eq_iff)
  obtain out where out: "Send_cJSON_Messege calm (hello ram s0) (outbox s) = Some out"
    by (rule device_sent [OF h])
  have d: "delivered (t_net one_turn) (Suc 0) = [PUBLISH 1 ''registration ok'']" "t_sur one_turn = calm" "t_sur2 one_turn = calm"
    "t_worlds one_turn 0 = demo_world"
    by (simp_all add: delivered_def one_turn_def)
  have "w_mem demo_world" by (simp add: demo_world_def)
  then show ?thesis using assms
    by (simp add: serve_turn_def send_queued_def send_queued_tracker_def out d one_turn_loop mqtt_rx_messege_def
        registration_callback_def two_words_simps cstr_def)
qed

text \<open>One connection in which the device is registered.\<close>

lemma registering_connection:
  "\<exists>s'. connection two_words ram a_mac (\<lambda>_. online) [Serve one_turn] 0 (cloud_boot (\<lambda>_ _. None) demo_app) = Some (True, 0, s')
    \<and> flash s' = write_nvs_registration_flag ram True (\<lambda>_ _. None)"
proof -
  let ?s = "(cloud_boot (\<lambda>_ _. None) demo_app)\<lparr>mqtt_tx_queue := Some [], tracker_mqtt_queue := Some []\<rparr>"
  obtain s1 where 1: "provision_loop two_words ram a_mac (\<lambda>_. online) 0 0 ?s = Some (True, 0, s1)"
    "mqtt_tx_queue s1 = Some [hello ram ?s]" "tracker_mqtt_queue s1 = Some []" "flash s1 = flash ?s"
    "getNextFreeIndexForOutgoingPublishes (broker (outbox s1)) = Some 0"
    using online_provisions [of ?s two_words ram a_mac] by auto
  let ?s1 = "start_once (60 * 1000000) (s1\<lparr>is_aws_started := True\<rparr>)"
  have q: "mqtt_tx_queue ?s1 = Some [hello ram ?s]" "tracker_mqtt_queue ?s1 = Some []"
    "getNextFreeIndexForOutgoingPublishes (broker (outbox ?s1)) = Some 0" "flash ?s1 = flash ?s"
    using 1 by (simp_all add: start_once_def split: option.split)
  obtain s2 where 2: "serve_turn two_words ram a_mac one_turn ?s1 = Some (True, s2)"
    "flash s2 = write_nvs_registration_flag ram True (flash ?s1)"
    using one_turn_serves [OF q(1-3)] by auto
  show ?thesis using 1(1) 2 q(4) by (simp add: connection_def) (simp add: cloud_boot_def)
qed

theorem cloud_only_registers_witness:
  "\<exists>r n s'. aws_iot_main_entry two_words ram a_mac [(\<lambda>_. online, [Serve one_turn])] 0 (cloud_boot (\<lambda>_ _. None) demo_app) = Some (r, n, s')
     \<and> read_nvs_registration_flag ram (flash s') \<and> flash s' ''WAVEON'' ''WIFI'' = None"
proof -
  obtain s' where s': "connection two_words ram a_mac (\<lambda>_. online) [Serve one_turn] 0 (cloud_boot (\<lambda>_ _. None) demo_app) = Some (True, 0, s')"
    "flash s' = write_nvs_registration_flag ram True (\<lambda>_ _. None)"
    using registering_connection by blast
  have run: "aws_iot_main_entry two_words ram a_mac [(\<lambda>_. online, [Serve one_turn])] 0 (cloud_boot (\<lambda>_ _. None) demo_app) = Some (True, 0, s')"
    using s'(1) by simp
  have "read_nvs_registration_flag ram (flash s')" unfolding s'(2) by (simp add: registration_flag_kept [OF ram_laws])
  moreover have "flash s' ''WAVEON'' ''WIFI'' = None"
    using cloud_only_registers [OF ram_laws run, of "''WAVEON''" "''WIFI''"] by (simp add: cloud_boot_def)
  ultimately show ?thesis using run by blast
qed

theorem connection_invariant_witness:
  "\<exists>s1 s2 q. provision_loop two_words ram a_mac (\<lambda>_. online) 0 0
       ((cloud_boot (\<lambda>_ _. None) demo_app)\<lparr>mqtt_tx_queue := Some [], tracker_mqtt_queue := Some []\<rparr>) = Some (True, 0, s1)
     \<and> serve two_words ram a_mac (replicate 12 (Queue True MESSEGE_HEALTH None 0)) (start_once (60 * 1000000) (s1\<lparr>is_aws_started := True\<rparr>)) = Some (True, s2)
     \<and> mqtt_tx_queue s2 = Some q \<and> length q \<le> 10"
proof -
  let ?s = "(cloud_boot (\<lambda>_ _. None) demo_app)\<lparr>mqtt_tx_queue := Some [], tracker_mqtt_queue := Some []\<rparr>"
  have t: "Health_timer (cloud_boot (\<lambda>_ _. None) demo_app) = None" by (simp add: cloud_boot_def)
  obtain s1 where 1: "provision_loop two_words ram a_mac (\<lambda>_. online) 0 0 ?s = Some (True, 0, s1)"
    using online_provisions [of ?s two_words ram a_mac] by auto
  let ?s1 = "start_once (60 * 1000000) (s1\<lparr>is_aws_started := True\<rparr>)"
  have "\<exists>s2. serve two_words ram a_mac (replicate n (Queue True MESSEGE_HEALTH None 0)) s = Some (True, s2)" for n s
    by (induction n arbitrary: s) simp_all
  then obtain s2 where 2: "serve two_words ram a_mac (replicate 12 (Queue True MESSEGE_HEALTH None 0)) ?s1 = Some (True, s2)" by blast
  show ?thesis using connection_invariant [OF t 1 2, of True MESSEGE_HEALTH None 0] 1 2 by blast
qed

text \<open>
  But a message can be lost without a trace: one that is taken from the queue while five messages are not yet acknowledged
  is neither published nor queued again.
\<close>

theorem full_table_drops_message:
  assumes "getNextFreeIndexForOutgoingPublishes (broker (outbox s)) = None" "mqtt_tx_queue s = Some (p # q)"
  shows "\<exists>s'. send_queued E s = Some s' \<and> mqtt_tx_queue s' = Some q
    \<and> published (broker (outbox s')) = published (broker (outbox s))
    \<and> outgoingPublishPackets (broker (outbox s')) = outgoingPublishPackets (broker (outbox s))"
proof -
  have h: "\<exists>o'. hand_over E topic body (outbox s) = Some o' \<and> published (broker o') = published (broker (outbox s))
      \<and> outgoingPublishPackets (broker o') = outgoingPublishPackets (broker (outbox s))" for topic body
    using assms(1) by (simp add: hand_over_def PublishToTopic_def getNextFreeIndexForOutgoingPublishes_def)
  have "\<exists>o'. Send_cJSON_Messege E p (outbox s) = Some o' \<and> published (broker o') = published (broker (outbox s))
      \<and> outgoingPublishPackets (broker o') = outgoingPublishPackets (broker (outbox s))"
    using h by (auto simp: Send_cJSON_Messege_def publish_tree_def split: option.split)
  then show ?thesis using assms(2) by (auto simp: send_queued_def)
qed

section \<open>Subscriptions\<close>

lemma subscribe_one_with_memory:
  assumes "subscribe_one L N mac e t s = Some s'" "s_mem e" "s_ok e" "length (topic_str s) < 30" "length t < 100"
  shows "topic_str s' = topic_str s @ [t] \<and> map snd (subscribed (broker (outbox s'))) = map snd (subscribed (broker (outbox s))) @ [t]
    \<and> published (broker (outbox s')) = published (broker (outbox s))"
  using assms
  by (auto simp: subscribe_one_def topic_copy_def split: bind_splits dest!: subscribe_keeps)

lemma subscribe_all_with_memory:
  "subscribe_all L N mac es i ts s = Some s' \<Longrightarrow> \<forall>i. s_mem (es i) \<and> s_ok (es i) \<Longrightarrow> length (topic_str s) + length ts \<le> 30
    \<Longrightarrow> \<forall>t \<in> set ts. length t < 100
    \<Longrightarrow> topic_str s' = topic_str s @ ts \<and> map snd (subscribed (broker (outbox s'))) = map snd (subscribed (broker (outbox s))) @ ts
      \<and> published (broker (outbox s')) = published (broker (outbox s))"
proof (induction ts arbitrary: i s)
  case (Cons t ts)
  then obtain s1 where 1: "subscribe_one L N mac (es i) t s = Some s1" "subscribe_all L N mac es (i + 1) ts s1 = Some s'"
    by (auto split: bind_splits)
  have "topic_str s1 = topic_str s @ [t] \<and> map snd (subscribed (broker (outbox s1))) = map snd (subscribed (broker (outbox s))) @ [t]
      \<and> published (broker (outbox s1)) = published (broker (outbox s))"
    by (rule subscribe_one_with_memory [OF 1(1)]) (use Cons.prems in auto)
  then show ?case using Cons.IH [OF 1(2)] Cons.prems by simp
qed simp

lemma result_topics_short: "t \<in> set (result_topics mac) \<Longrightarrow> length t < 100"
  using length_mac_text [of mac] by (auto simp: result_topics_def)

text \<open>
  With memory and a library that takes them, signing in subscribes to exactly the seven result
  topics of this device, in order, whatever is answered meanwhile; it publishes nothing, and each time it starts
  with an empty list, so signing in again never runs out of places.
\<close>

theorem all_results_subscribed:
  assumes "mqtt_subscribe_init L N mac es s = Some (r, s')" "\<forall>i. s_mem (es i) \<and> s_ok (es i)"
  shows "r \<and> topic_str s' = result_topics mac
    \<and> map snd (subscribed (broker (outbox s'))) = map snd (subscribed (broker (outbox s))) @ result_topics mac
    \<and> published (broker (outbox s')) = published (broker (outbox s))"
proof -
  have run: "r" "subscribe_all L N mac es 0 (result_topics mac) (s\<lparr>topic_str := []\<rparr>) = Some s'"
    using assms(1) by (auto simp: mqtt_subscribe_init_def split: bind_splits)
  have "topic_str s' = topic_str (s\<lparr>topic_str := []\<rparr>) @ result_topics mac
      \<and> map snd (subscribed (broker (outbox s'))) = map snd (subscribed (broker (outbox (s\<lparr>topic_str := []\<rparr>)))) @ result_topics mac
      \<and> published (broker (outbox s')) = published (broker (outbox (s\<lparr>topic_str := []\<rparr>)))"
    by (rule subscribe_all_with_memory [OF run(2) assms(2)]) (auto simp: result_topics_short, simp add: result_topics_def)
  then show ?thesis using run(1) by simp
qed

text \<open>A library that answers nothing until the time is over.\<close>

definition silent :: sub_env where
  "silent = \<lparr>s_mem = True, s_net = (\<lambda>_. ([], MQTTSuccess, 2000)), s_now = 0, s_ok = True, s_worlds = (\<lambda>_. demo_world)\<rparr>"

lemma silent_subscribe: "\<exists>r n m'. SubscribeToTopic (s_net silent) (s_now silent) (s_ok silent) t m = Some (r, n, m')"
proof -
  have l: "ack_loop (s_net silent) k 1000 2000 MQTTSuccess 1 m = Some (MQTTSuccess, 1, m)" for k m
    by (subst ack_loop.simps) simp
  have "\<exists>n. ack_loop (s_net silent) k 1000 0 MQTTSuccess 0 m = Some (MQTTSuccess, n, m)" for k m
    by (subst ack_loop.simps) (simp add: silent_def l [unfolded silent_def, simplified])
  then have "\<exists>r n m'. waitForPacketAck (s_net silent) 0 k 1000 m = Some (r, n, m')" for k m
  proof -
    assume "\<And>k m. \<exists>n. ack_loop (s_net silent) k 1000 0 MQTTSuccess 0 m = Some (MQTTSuccess, n, m)"
    from this [of k "m\<lparr>globalAckPacketIdentifier := 0\<rparr>"] obtain n
      where "ack_loop (s_net silent) k 1000 0 MQTTSuccess 0 (m\<lparr>globalAckPacketIdentifier := 0\<rparr>)
        = Some (MQTTSuccess, n, m\<lparr>globalAckPacketIdentifier := 0\<rparr>)" by blast
    then show ?thesis by (simp add: waitForPacketAck_def)
  qed
  then show ?thesis by (simp add: SubscribeToTopic_def MQTT_GetPacketId_def Let_def silent_def)
qed

theorem all_results_subscribed_witness:
  "\<exists>r s'. mqtt_subscribe_init two_words ram a_mac (\<lambda>_. silent) (cloud_boot (\<lambda>_ _. None) demo_app) = Some (r, s')
    \<and> topic_str s' = result_topics a_mac \<and> result_topics a_mac ! 6 = ''things/c100/C100_010203040506/result/health''"
proof -
  have one: "\<exists>s'. subscribe_one two_words ram a_mac silent t s = Some s'" for t and s :: "(char list \<Rightarrow> char list \<Rightarrow> nvs_value option) cloud"
  proof (cases "topic_copy (s_mem silent) (take 99 t) s")
    case (Pair o' s1)
    show ?thesis
    proof (cases o')
      case (Some t')
      obtain r n m' where "SubscribeToTopic (s_net silent) (s_now silent) (s_ok silent) t' (broker (outbox s1)) = Some (r, n, m')"
        using silent_subscribe by blast
      then show ?thesis using Pair Some by (simp add: subscribe_one_def)
    qed (use Pair in \<open>simp add: subscribe_one_def\<close>)
  qed
  have all: "\<exists>s'. subscribe_all two_words ram a_mac (\<lambda>_. silent) i ts s = Some s'"
    for i ts and s :: "(char list \<Rightarrow> char list \<Rightarrow> nvs_value option) cloud"
  proof (induction ts arbitrary: i s)
    case (Cons t ts)
    then show ?case using one [of t s] by auto
  qed simp
  obtain s' where "subscribe_all two_words ram a_mac (\<lambda>_. silent) 0 (result_topics a_mac) ((cloud_boot (\<lambda>_ _. None) demo_app)\<lparr>topic_str := []\<rparr>) = Some s'"
    using all by blast
  then have run: "mqtt_subscribe_init two_words ram a_mac (\<lambda>_. silent) (cloud_boot (\<lambda>_ _. None) demo_app) = Some (True, s')"
    by (simp add: mqtt_subscribe_init_def)
  have "\<forall>i :: nat. s_mem silent \<and> s_ok silent" by (simp add: silent_def)
  moreover have "result_topics a_mac ! 6 = ''things/c100/C100_010203040506/result/health''" by code_simp
  ultimately show ?thesis using all_results_subscribed [OF run] run by blast
qed

end
