(* ===== verification/Mqtt_Library.thy ===== *)
theory Mqtt_Library
  imports Mqtt_State
begin

text \<open>
  The message exchange of the MQTT library, the handlers of \<open>core_mqtt.c\<close> around the state engine: publishing,
  incoming publishes and acknowledgements, and the resumption of a session.  A packet has been
  deserialised before its handler runs, and the result of writing to the connection is an argument.  What
  the library passes to the application's callback and what it puts on the wire is recorded.
\<close>

section \<open>State\<close>

datatype app_event = Deliver u16 MQTTQoS "char list" | Ack_event MQTTPubAckType u16

datatype wire_packet = Wire_publish u16 MQTTQoS bool "char list" | Wire_ack MQTTPubAckType u16

record library =
  ctx :: MQTTContext
  events :: "app_event list"
  wire :: "wire_packet list"

section \<open>Acknowledgements\<close>

text \<open>\<open>getAckTypeToSend\<close> with \<open>getAckFromPacketType\<close>: \<open>None\<close> is the packet type 0, nothing to send.\<close>

fun getAckTypeToSend :: "MQTTPublishState \<Rightarrow> MQTTPubAckType option" where
  "getAckTypeToSend MQTTPubAckSend = Some MQTTPuback"
| "getAckTypeToSend MQTTPubRecSend = Some MQTTPubrec"
| "getAckTypeToSend MQTTPubRelSend = Some MQTTPubrel"
| "getAckTypeToSend MQTTPubCompSend = Some MQTTPubcomp"
| "getAckTypeToSend _ = None"

text \<open>
  \<open>ok\<close>: whether all four bytes are sent.  \<open>MQTT_SerializeAck\<close> fails for the number 0 only, and nothing is sent then.
\<close>

definition sendPublishAcks :: "bool \<Rightarrow> u16 \<Rightarrow> MQTTPublishState \<Rightarrow> library \<Rightarrow> MQTTStatus \<times> library" where
  "sendPublishAcks ok k s l =
     (case getAckTypeToSend s of
        None \<Rightarrow> (MQTTSuccess, l)
      | Some t \<Rightarrow>
          if ok \<and> k \<noteq> MQTT_PACKET_ID_INVALID then
            case MQTT_UpdateStateAck k t MQTT_SEND (ctx l) of
              (st, _, c) \<Rightarrow> (st, l\<lparr>ctx := c, wire := wire l @ [Wire_ack t k]\<rparr>)
          else (MQTTSendFailed, l))"

section \<open>Incoming packets\<close>

definition handleIncomingPublish :: "bool \<Rightarrow> u16 \<Rightarrow> MQTTQoS \<Rightarrow> char list \<Rightarrow> library \<Rightarrow> MQTTStatus \<times> library" where
  "handleIncomingPublish ok k q payload l =
     (case MQTT_UpdateStatePublish k MQTT_RECEIVE q (ctx l) of
        (st, s, c) \<Rightarrow>
          let l = l\<lparr>ctx := c\<rparr>
          in if st = MQTTSuccess then
               sendPublishAcks ok k (case s of Some s \<Rightarrow> s | None \<Rightarrow> MQTTStateNull)
                 (l\<lparr>events := events l @ [Deliver k q payload]\<rparr>)
             else if st = MQTTStateCollision then sendPublishAcks ok k (MQTT_CalculateStatePublish MQTT_RECEIVE q) l
             else (st, l))"

definition handlePublishAcks :: "bool \<Rightarrow> u16 \<Rightarrow> MQTTPubAckType \<Rightarrow> library \<Rightarrow> MQTTStatus \<times> library" where
  "handlePublishAcks ok k t l =
     (case MQTT_UpdateStateAck k t MQTT_RECEIVE (ctx l) of
        (st, s, c) \<Rightarrow>
          let l = l\<lparr>ctx := c\<rparr>
          in if st = MQTTSuccess then
               sendPublishAcks ok k (case s of Some s \<Rightarrow> s | None \<Rightarrow> MQTTStateNull)
                 (l\<lparr>events := events l @ [Ack_event t k]\<rparr>)
             else (st, l))"

section \<open>Publishing\<close>

text \<open>
  \<open>MQTT_Publish\<close>; \<open>valid\<close>: the parameters are valid and the packet is not too long, \<open>ok\<close>: it can be written.
\<close>

definition library_publish ::
  "bool \<Rightarrow> bool \<Rightarrow> u16 \<Rightarrow> MQTTQoS \<Rightarrow> bool \<Rightarrow> char list \<Rightarrow> library \<Rightarrow> MQTTStatus \<times> library" where
  "library_publish valid ok k q dup payload l =
     (if \<not> valid then (MQTTBadParameter, l)
      else
        let (st, c) = (if q \<noteq> MQTTQoS0 then MQTT_ReserveState k q (ctx l) else (MQTTSuccess, ctx l));
            st = (if q \<noteq> MQTTQoS0 \<and> st = MQTTStateCollision \<and> dup then MQTTSuccess else st);
            l = l\<lparr>ctx := c\<rparr>
        in if st \<noteq> MQTTSuccess then (st, l)
           else if \<not> ok then (MQTTSendFailed, l)
           else
             let l = l\<lparr>wire := wire l @ [Wire_publish k q dup payload]\<rparr>
             in if q \<noteq> MQTTQoS0 then
                  case MQTT_UpdateStatePublish k MQTT_SEND q (ctx l) of (st, _, c) \<Rightarrow> (st, l\<lparr>ctx := c\<rparr>)
                else (MQTTSuccess, l))"

section \<open>Resuming a session\<close>

text \<open>The arrays keep their lengths.\<close>

lemma length_compact_from [simp]: "length (compact_from e is rs) = length rs"
  by (induction e "is" rs rule: compact_from.induct) (auto split: option.splits)

lemma length_addRecord: "addRecord k q s rs = (st, rs') \<Longrightarrow> length rs' = length rs"
  by (auto simp: addRecord_def Let_def compactRecords_def split: if_splits sum.splits option.splits)

lemma length_updateStateAck: "updateStateAck i k cur new rs = (st, rs') \<Longrightarrow> length rs' = length rs"
  by (auto simp: updateStateAck_def Let_def updateRecord_def dest!: length_addRecord split: if_splits)

lemma length_UpdateStateAck:
  "MQTT_UpdateStateAck k t op c = (st, s, c') \<Longrightarrow>
     length (outgoingPublishRecords c') = length (outgoingPublishRecords c)"
  by (auto simp: MQTT_UpdateStateAck_def Let_def dest!: length_updateStateAck
      split: if_splits option.splits prod.splits)

lemma length_sendPublishAcks:
  "sendPublishAcks ok k s l = (st, l') \<Longrightarrow>
     length (outgoingPublishRecords (ctx l')) = length (outgoingPublishRecords (ctx l))"
  by (auto simp: sendPublishAcks_def dest!: length_UpdateStateAck split: option.splits if_splits prod.splits)

lemma select_from_step:
  "select_from ss i rs = (k, n) \<Longrightarrow> i \<le> n \<and> n \<le> i + length rs \<and> (k \<noteq> 0 \<longrightarrow> i < n)"
  by (induction ss i rs rule: select_from.induct) (auto split: if_splits)

lemma stateSelect_step:
  "stateSelect ss i c = (k, n) \<Longrightarrow> k \<noteq> 0 \<Longrightarrow> i < n \<and> n \<le> length (outgoingPublishRecords c)"
  using select_from_step [of ss i "drop i (outgoingPublishRecords c)" k n]
  by (cases "i \<le> length (outgoingPublishRecords c)") (auto simp: stateSelect_def)

text \<open>
  The loop that resends the PUBRELs from \<open>cursor\<close> on; \<open>oks i\<close> is the result of the write when the cursor is \<open>i\<close>.
\<close>

function resend_pubrels :: "(nat \<Rightarrow> bool) \<Rightarrow> nat \<Rightarrow> MQTTPublishState \<Rightarrow> library \<Rightarrow> MQTTStatus \<times> library" where
  "resend_pubrels oks cursor s l =
     (case MQTT_PubrelToResend cursor s (ctx l) of
        (k, cursor', s') \<Rightarrow>
          if k = MQTT_PACKET_ID_INVALID then (MQTTSuccess, l)
          else case sendPublishAcks (oks cursor) k s' l of
                 (st, l') \<Rightarrow> if st \<noteq> MQTTSuccess then (st, l') else resend_pubrels oks cursor' s' l')"
  by pat_completeness auto
termination
  by (relation "measure (\<lambda>(_, i, _, l). length (outgoingPublishRecords (ctx l)) - i)")
    (auto simp: MQTT_PubrelToResend_def split: prod.splits dest!: stateSelect_step length_sendPublishAcks [OF sym]
      intro: diff_less_mono2)

text \<open>The part of \<open>handleSessionResumption\<close> that concerns the records; the network buffer is in \<open>Mqtt_Receive\<close>.\<close>

definition resume_records :: "bool \<Rightarrow> (nat \<Rightarrow> bool) \<Rightarrow> library \<Rightarrow> MQTTStatus \<times> library" where
  "resume_records present oks l =
     (if present then resend_pubrels oks 0 MQTTStateNull l
      else
        let c = ctx l
        in (MQTTSuccess, l\<lparr>ctx := c\<lparr>
             outgoingPublishRecords := map (\<lambda>_. free_record) (outgoingPublishRecords c),
             incomingPublishRecords := map (\<lambda>_. free_record) (incomingPublishRecords c)\<rparr>\<rparr>))"

declare resend_pubrels.simps [simp del]

section \<open>A message of the second quality of service is delivered once\<close>

text \<open>What arrives from the broker, and a reconnection to a session that it still has.\<close>

datatype arrival =
    Publish_arrives bool u16 MQTTQoS "char list"
  | Ack_arrives bool u16 MQTTPubAckType
  | Session_resumed "nat \<Rightarrow> bool"

definition arrive :: "arrival \<Rightarrow> library \<Rightarrow> library" where
  "arrive a l =
     (case a of
        Publish_arrives ok k q payload \<Rightarrow> snd (handleIncomingPublish ok k q payload l)
      | Ack_arrives ok k t \<Rightarrow> snd (handlePublishAcks ok k t l)
      | Session_resumed oks \<Rightarrow> snd (resume_records True oks l))"

fun is_delivery :: "u16 \<Rightarrow> app_event \<Rightarrow> bool" where
  "is_delivery k (Deliver k' q payload) = (k' = k \<and> q = MQTTQoS2)"
| "is_delivery k (Ack_event t k') = False"

definition deliveries :: "u16 \<Rightarrow> library \<Rightarrow> nat" where
  "deliveries k l = length (filter (is_delivery k) (events l))"

definition releases :: "u16 \<Rightarrow> library \<Rightarrow> nat" where
  "releases k l = length (filter (\<lambda>e. e = Ack_event MQTTPubrel k) (events l))"

definition seen :: "u16 \<Rightarrow> records \<Rightarrow> bool" where
  "seen k L \<longleftrightarrow> (\<exists>r \<in> set L. packetId r = k \<and> qos r = MQTTQoS2)"

lemma seen_log_set [simp]: "seen k (log_set k' s L) = seen k L"
proof -
  have "map (\<lambda>r. (packetId r, qos r)) (log_set k' s L) = map (\<lambda>r. (packetId r, qos r)) L"
    by (induction L) (auto simp: log_set_def)
  moreover have "seen k M \<longleftrightarrow> (k, MQTTQoS2) \<in> set (map (\<lambda>r. (packetId r, qos r)) M)" for M
    by (auto simp: seen_def)
  ultimately show ?thesis by (simp only:)
qed

lemma seen_log_ack:
  assumes "seen k L" "distinct (ids_of L)" "k' \<noteq> k \<or> t \<noteq> MQTTPubcomp"
  shows "seen k (snd (log_ack k' t op L))"
proof (cases "log_find k' L")
  case (Some r0)
  obtain r where r: "r \<in> set L" "packetId r = k" "qos r = MQTTQoS2" using assms(1) by (auto simp: seen_def)
  show ?thesis
  proof (cases "k' = k")
    case True
    then have r0: "r0 = r" using log_find_only [OF Some assms(2) r(1)] r(2) by simp
    have "ack_next MQTTQoS2 t op \<noteq> Some (ss, None)" for ss using assms(3) True by (cases t; cases op) auto
    moreover have "seen k (log_del k L @ [r\<lparr>publishState := s\<rparr>])" for s using r by (auto simp: seen_def)
    ultimately show ?thesis using True r0 r assms(1) Some by (auto simp: log_ack_def split: option.splits)
  next
    case False
    moreover have "seen k (log_del k' L @ M)" "seen k (log_del k' L)" for M using r False by (auto simp: seen_def log_del_def)
    ultimately show ?thesis using Some assms(1) by (auto simp: log_ack_def split: option.splits)
  qed
qed (use assms(1) in \<open>simp add: log_ack_def\<close>)

abbreviation (input) seen_in :: "u16 \<Rightarrow> library \<Rightarrow> bool" where
  "seen_in k l \<equiv> seen k (active (incomingPublishRecords (ctx l)))"

lemma context_ok_distinct: "context_ok c \<Longrightarrow> distinct (ids_of (active (incomingPublishRecords c)))"
  by (auto simp: context_ok_def dest: log_okD)

lemma ack_seen:
  assumes "context_ok c" "MQTT_UpdateStateAck k' t op c = (st, s, c')" "k' \<noteq> k \<or> t \<noteq> MQTTPubcomp"
    and "seen k (active (incomingPublishRecords c))"
  shows "seen k (active (incomingPublishRecords c'))"
proof -
  have s: "seen k (snd (log_ack k' t op (active (incomingPublishRecords c))))"
    using seen_log_ack [OF assms(4) context_ok_distinct [OF assms(1)] assms(3)] .
  have "active (incomingPublishRecords c')
      \<in> {active (incomingPublishRecords c), snd (log_ack k' t op (active (incomingPublishRecords c)))}"
    using ack_refines [OF assms(1,2)]
    by (cases op; cases "t = MQTTPubrel"; cases "k' = 0") (auto simp: flight_do_def abs_context_def split: prod.splits)
  then show ?thesis using s assms(4) by auto
qed

lemma sendPublishAcks_keeps:
  assumes "context_ok (ctx l)" "sendPublishAcks ok k' s l = (st, l')"
  shows "context_ok (ctx l') \<and> events l' = events l
    \<and> (seen_in k l \<longrightarrow> k' \<noteq> k \<or> s \<noteq> MQTTPubCompSend \<longrightarrow> seen_in k l')"
proof (cases "getAckTypeToSend s")
  case (Some t)
  show ?thesis
  proof (cases "ok \<and> k' \<noteq> 0")
    case True
    obtain s' c where u: "MQTT_UpdateStateAck k' t MQTT_SEND (ctx l) = (st, s', c)"
      "l' = l\<lparr>ctx := c, wire := wire l @ [Wire_ack t k']\<rparr>"
      using assms(2) Some True by (auto simp: sendPublishAcks_def split: prod.splits)
    have "s \<noteq> MQTTPubCompSend \<longrightarrow> t \<noteq> MQTTPubcomp" using Some by (cases s) auto
    then show ?thesis using ack_refines [OF assms(1) u(1)] ack_seen [OF assms(1) u(1), of k] u(2) by auto
  next
    case False
    then show ?thesis using assms Some by (auto simp: sendPublishAcks_def)
  qed
qed (use assms in \<open>auto simp: sendPublishAcks_def\<close>)

lemma resend_pubrels_keeps:
  "context_ok (ctx l) \<Longrightarrow> resend_pubrels oks i s l = (st, l') \<Longrightarrow>
     context_ok (ctx l') \<and> events l' = events l \<and> (seen_in k l \<longrightarrow> seen_in k l')"
proof (induction oks i s l rule: resend_pubrels.induct)
  case (1 oks i s l)
  obtain k1 i1 s1 where r: "MQTT_PubrelToResend i s (ctx l) = (k1, i1, s1)" using prod_cases3 by blast
  show ?case
  proof (cases "k1 = 0")
    case True
    then show ?thesis using 1(2,3) r by (subst (asm) resend_pubrels.simps) simp
  next
    case False
    have s1: "s1 = MQTTPubRelSend" using r False by (auto simp: MQTT_PubrelToResend_def split: prod.splits)
    obtain st1 l1 where a: "sendPublishAcks (oks i) k1 s1 l = (st1, l1)" by fastforce
    note keep = sendPublishAcks_keeps [OF 1(2) a, of k, unfolded s1]
    show ?thesis
    proof (cases "st1 = MQTTSuccess")
      case True
      have "resend_pubrels oks i1 s1 l1 = (st, l')"
        using 1(3) r a False True by (subst (asm) resend_pubrels.simps) simp
      then show ?thesis using 1(1) [OF r [symmetric] refl False a [symmetric]] keep True by auto
    next
      case fail: False
      then have "l' = l1" using 1(3) r a False by (subst (asm) resend_pubrels.simps) simp
      then show ?thesis using keep by auto
    qed
  qed
qed

definition once :: "u16 \<Rightarrow> library \<Rightarrow> bool" where
  "once k l \<longleftrightarrow> context_ok (ctx l) \<and> deliveries k l \<le> releases k l + of_bool (seen_in k l)"

text \<open>A publish that the state engine takes is new; what it refuses changes no entry.\<close>

lemma received_log:
  assumes "context_ok c" "MQTT_UpdateStatePublish k MQTT_RECEIVE q c = (st, s, c')" "q \<noteq> MQTTQoS0" "k \<noteq> 0"
  defines "L \<equiv> active (incomingPublishRecords c)" and "L' \<equiv> active (incomingPublishRecords c')"
  shows "context_ok c' \<and> (st = MQTTSuccess \<longrightarrow> k \<notin> set (ids_of L) \<and> s = Some (MQTT_CalculateStatePublish MQTT_RECEIVE q)
      \<and> L' = L @ [\<lparr>packetId = k, qos = q, publishState = MQTT_CalculateStatePublish MQTT_RECEIVE q\<rparr>])
    \<and> (st \<noteq> MQTTSuccess \<longrightarrow> L' = L)
    \<and> (k \<notin> set (ids_of L) \<and> length L < length (incomingPublishRecords c) \<longrightarrow> st = MQTTSuccess)"
proof -
  have q: "(if q = MQTTQoS1 then MQTTPubAckSend else MQTTPubRecSend) = MQTT_CalculateStatePublish MQTT_RECEIVE q"
    using assms(3) by (cases q) (simp_all add: MQTT_CalculateStatePublish_def)
  have s: "st = MQTTSuccess \<Longrightarrow> s = Some (MQTT_CalculateStatePublish MQTT_RECEIVE q)"
    using assms(2,3,4) by (auto simp: MQTT_UpdateStatePublish_def Let_def split: prod.splits)
  show ?thesis using received_refines [OF assms(1,2)] assms(3,4) s
    by (auto simp: flight_do_def abs_context_def log_add_def L_def L'_def q split: if_splits)
qed

lemma seen_snoc: "seen k (L @ [r]) \<longleftrightarrow> seen k L \<or> packetId r = k \<and> qos r = MQTTQoS2"
  by (auto simp: seen_def)

lemma seen_ids: "seen k L \<Longrightarrow> k \<in> set (ids_of L)"
  by (auto simp: seen_def ids_of_def)

lemma once_event:
  "once k l \<Longrightarrow> context_ok c \<Longrightarrow> (seen_in k l \<longrightarrow> seen k (active (incomingPublishRecords c))) \<Longrightarrow>
     deliveries k l' = deliveries k l \<Longrightarrow> releases k l' = releases k l \<Longrightarrow> ctx l' = c \<Longrightarrow> once k l'"
  by (auto simp: once_def of_bool_def split: if_splits)

lemma once_sendPublishAcks:
  assumes "once k l" "sendPublishAcks ok k' s l = (st, l')"
    and "k' = k \<and> s = MQTTPubCompSend \<longrightarrow> deliveries k l \<le> releases k l"
  shows "once k l'"
  using sendPublishAcks_keeps [of l ok k' s st l' k] assms
  by (auto simp: once_def deliveries_def releases_def of_bool_def split: if_splits)

lemma once_publish:
  assumes "once k l" "handleIncomingPublish ok k' q payload l = (st, l')"
  shows "once k l'"
proof -
  obtain st1 s c where u: "MQTT_UpdateStatePublish k' MQTT_RECEIVE q (ctx l) = (st1, s, c)" using prod_cases3 by blast
  have ok: "context_ok (ctx l)" using assms(1) by (simp add: once_def)
  show ?thesis
  proof (cases "q = MQTTQoS0 \<or> k' = 0")
    case True
    then have c: "c = ctx l" and s: "s = Some MQTTPublishDone \<and> q = MQTTQoS0 \<and> st1 = MQTTSuccess \<or> st1 = MQTTBadParameter"
      using u by (cases "q = MQTTQoS0"; auto simp: MQTT_UpdateStatePublish_def)+
    have "l' = l\<lparr>ctx := c\<rparr> \<or> q = MQTTQoS0 \<and> l' = l\<lparr>ctx := c, events := events l @ [Deliver k' q payload]\<rparr>"
      using assms(2) u s by (auto simp: handleIncomingPublish_def sendPublishAcks_def)
    then show ?thesis
      using c assms(1) by (elim disjE conjE; simp add: once_def deliveries_def releases_def)
  next
    case False
    note log = received_log [OF ok u]
    have s: "MQTT_CalculateStatePublish MQTT_RECEIVE q \<noteq> MQTTPubCompSend"
      by (cases q) (simp_all add: MQTT_CalculateStatePublish_def)
    consider "st1 = MQTTSuccess" | "st1 = MQTTStateCollision" | "st1 \<noteq> MQTTSuccess" "st1 \<noteq> MQTTStateCollision" by blast
    then show ?thesis
    proof cases
      case 1
      let ?l = "l\<lparr>ctx := c, events := events l @ [Deliver k' q payload]\<rparr>"
      have "once k ?l"
        using log False 1 assms(1) seen_ids
        by (auto simp: once_def deliveries_def releases_def seen_snoc of_bool_def split: if_splits)
      then show ?thesis using once_sendPublishAcks [of k ?l ok k' _ st l'] assms(2) u log False 1 s
        by (auto simp: handleIncomingPublish_def)
    next
      case 2
      have "once k (l\<lparr>ctx := c\<rparr>)"
        using log False 2 by (intro once_event [OF assms(1), of c]) (auto simp: deliveries_def releases_def)
      then show ?thesis using once_sendPublishAcks [of k "l\<lparr>ctx := c\<rparr>" ok k' _ st l'] assms(2) u 2 s
        by (auto simp: handleIncomingPublish_def)
    next
      case 3
      then have "l' = l\<lparr>ctx := c\<rparr>" using assms(2) u by (auto simp: handleIncomingPublish_def)
      then show ?thesis
        using log False 3 by (intro once_event [OF assms(1), of c]) (auto simp: deliveries_def releases_def)
    qed
  qed
qed

lemma once_ack:
  assumes "once k l" "handlePublishAcks ok k' t l = (st, l')"
  shows "once k l'"
proof -
  obtain st1 s c where u: "MQTT_UpdateStateAck k' t MQTT_RECEIVE (ctx l) = (st1, s, c)" using prod_cases3 by blast
  have ok: "context_ok (ctx l)" using assms(1) by (simp add: once_def)
  have c: "context_ok c" using ack_refines [OF ok u] by simp
  show ?thesis
  proof (cases "st1 = MQTTSuccess")
    case False
    have same: "incomingPublishRecords c = incomingPublishRecords (ctx l) \<or> t = MQTTPubrel"
      using u by (cases t) (auto simp: MQTT_UpdateStateAck_def Let_def split: if_splits option.splits prod.splits)
    then have "seen_in k l \<longrightarrow> seen k (active (incomingPublishRecords c))"
      using ack_seen [OF ok u, of k] by auto
    then show ?thesis using assms False u c
      by (intro once_event [OF assms(1), of c]) (auto simp: handlePublishAcks_def deliveries_def releases_def)
  next
    case True
    let ?l = "l\<lparr>ctx := c, events := events l @ [Ack_event t k']\<rparr>"
    obtain s1 where s: "s = Some s1" "s1 = MQTTPubCompSend \<longrightarrow> t = MQTTPubrel"
      using u True by (cases t) (auto simp: MQTT_UpdateStateAck_def MQTT_CalculateStateAck_def Let_def
          split: if_splits option.splits prod.splits)
    have "seen_in k l \<longrightarrow> seen k (active (incomingPublishRecords c))"
    proof (cases "t = MQTTPubcomp")
      case True
      then have "incomingPublishRecords c = incomingPublishRecords (ctx l)"
        using u by (auto simp: MQTT_UpdateStateAck_def Let_def split: if_splits option.splits prod.splits)
      then show ?thesis by simp
    qed (use ack_seen [OF ok u, of k] in auto)
    then have "once k ?l \<and> (t = MQTTPubrel \<and> k' = k \<longrightarrow> deliveries k ?l \<le> releases k ?l)"
      using assms(1) c by (auto simp: once_def deliveries_def releases_def of_bool_def split: if_splits)
    then show ?thesis using once_sendPublishAcks [of k ?l ok k' s1 st l'] assms(2) u s True
      by (auto simp: handlePublishAcks_def)
  qed
qed

lemma once_arrive: "once k l \<Longrightarrow> once k (arrive a l)"
proof (cases a)
  case (Session_resumed oks)
  assume once: "once k l"
  obtain st l' where "resend_pubrels oks 0 MQTTStateNull l = (st, l')" by fastforce
  then show ?thesis using resend_pubrels_keeps [of l oks 0 MQTTStateNull st l' k] once Session_resumed
    by (intro once_event [OF once, of "ctx l'"])
      (auto simp: arrive_def resume_records_def deliveries_def releases_def once_def)
qed (auto simp: arrive_def prod_eq_iff intro: once_publish once_ack)

text \<open>
  C13: exactly once.  Whatever arrives, whatever of it is sent again, whichever acknowledgements are lost on the way
  out, and over any number of reconnections to the same session: between two messages of the second quality of
  service with one number that reach the application, the broker has released the number; and the first copy of a
  message does reach it, while there is room for its record.
\<close>

theorem qos2_delivered_once:
  assumes "context_ok (ctx l)" "events l = []"
    and "l' = fold arrive as l"
  shows "deliveries k l' \<le> releases k l' + 1
    \<and> (k \<noteq> 0 \<and> k \<notin> set (ids_of (active (incomingPublishRecords (ctx l'))))
        \<and> length (active (incomingPublishRecords (ctx l'))) < length (incomingPublishRecords (ctx l'))
        \<longrightarrow> deliveries k (arrive (Publish_arrives ok k MQTTQoS2 payload) l') = deliveries k l' + 1)"
proof -
  have start: "once k l" using assms(1,2) by (simp add: once_def deliveries_def)
  have "once k (fold arrive as l)" using start by (induction as arbitrary: l) (simp_all add: once_arrive)
  then have o: "once k l'" using assms(3) by simp
  have "deliveries k (arrive (Publish_arrives ok k MQTTQoS2 payload) l') = deliveries k l' + 1"
    if h: "k \<noteq> 0" "k \<notin> set (ids_of (active (incomingPublishRecords (ctx l'))))"
      "length (active (incomingPublishRecords (ctx l'))) < length (incomingPublishRecords (ctx l'))"
  proof -
    obtain st1 s c where u: "MQTT_UpdateStatePublish k MQTT_RECEIVE MQTTQoS2 (ctx l') = (st1, s, c)" using prod_cases3 by blast
    have ok: "context_ok (ctx l')" using o by (simp add: once_def)
    have st: "st1 = MQTTSuccess" "s = Some MQTTPubRecSend" "context_ok c"
      using received_log [OF ok u] h by (auto simp: MQTT_CalculateStatePublish_def)
    let ?l = "l'\<lparr>ctx := c, events := events l' @ [Deliver k MQTTQoS2 payload]\<rparr>"
    obtain st2 l2 where a: "sendPublishAcks ok k MQTTPubRecSend ?l = (st2, l2)" by fastforce
    have "events l2 = events ?l" using sendPublishAcks_keeps [OF _ a] st(3) by simp
    then show ?thesis using u st a by (simp add: arrive_def handleIncomingPublish_def deliveries_def)
  qed
  then show ?thesis using o by (auto simp: once_def of_bool_def split: if_splits)
qed

text \<open>The acknowledgement of the first copy is lost; the broker sends it again after a reconnection.\<close>

theorem qos2_delivered_once_witness:
  "let l = \<lparr>ctx = no_flight, events = [], wire = []\<rparr>;
       as = [Publish_arrives False 7 MQTTQoS2 ''open'', Session_resumed (\<lambda>_. True), Publish_arrives True 7 MQTTQoS2 ''open'']
   in deliveries 7 (fold arrive as l) \<le> releases 7 (fold arrive as l) + 1 \<and> deliveries 7 (fold arrive as l) = 1"
proof -
  let ?l = "\<lparr>ctx = no_flight, events = [], wire = []\<rparr>"
  let ?a = "Publish_arrives False 7 MQTTQoS2 ''open''"
  let ?as = "[?a, Session_resumed (\<lambda>_. True), Publish_arrives True 7 MQTTQoS2 ''open'']"
  have ok: "context_ok (ctx ?l)" "events ?l = []" by simp_all
  note all = qos2_delivered_once [OF ok refl, of 7 ?as True "''x''", THEN conjunct1]
  have "active (incomingPublishRecords no_flight) = []" using no_flight_abs by (simp add: abs_context_def)
  then have "deliveries 7 (arrive ?a ?l) = 1"
    using qos2_delivered_once [OF ok refl, of 7 "[]" False "''open''", THEN conjunct2]
    by (simp add: table_simps no_flight_def deliveries_def)
  moreover have "deliveries 7 (fold arrive ?as ?l) = 1" by code_simp
  ultimately show ?thesis using all by (simp add: Let_def)
qed

section \<open>What a resumed session resends\<close>

definition to_release :: "MQTTPubAckInfo \<Rightarrow> bool" where
  "to_release r \<longleftrightarrow> publishState r = MQTTPubRelSend \<or> publishState r = MQTTPubCompPending"

definition advanced :: "MQTTPubAckInfo \<Rightarrow> MQTTPubAckInfo" where
  "advanced r = (if publishState r = MQTTPubRelSend then r\<lparr>publishState := MQTTPubCompPending\<rparr> else r)"

lemma select_from_release:
  "select_from [MQTTPubCompPending, MQTTPubRelSend] i B = (k, n) \<Longrightarrow>
     (\<forall>r \<in> set B. \<not> to_release r) \<and> k = 0
     \<or> (\<exists>C r D. B = C @ r # D \<and> (\<forall>r \<in> set C. \<not> to_release r) \<and> to_release r \<and> k = packetId r \<and> n = i + length C + 1)"
proof (induction B arbitrary: i)
  case (Cons r B)
  show ?case
  proof (cases "to_release r")
    case True
    then show ?thesis using Cons.prems
      by (intro disjI2 exI [of _ "[]"] exI [of _ r] exI [of _ B]) (auto simp: to_release_def)
  next
    case False
    then have "select_from [MQTTPubCompPending, MQTTPubRelSend] (i + 1) B = (k, n)"
      using Cons.prems by (auto simp: to_release_def)
    from Cons.IH [OF this] show ?thesis
    proof (elim disjE exE conjE)
      fix C r' D assume "B = C @ r' # D" "\<forall>r \<in> set C. \<not> to_release r" "to_release r'" "k = packetId r'" "n = i + 1 + length C + 1"
      then show ?thesis using False by (intro disjI2 exI [of _ "r # C"] exI [of _ r'] exI [of _ D]) auto
    qed (use False in auto)
  qed
qed auto

lemma find_from_at:
  "k \<notin> set (ids_of X) \<Longrightarrow> packetId r = k \<Longrightarrow>
     find_from k i (X @ r # Y) = Some (i + length X, qos r, publishState r)"
  by (induction X arbitrary: i) (auto simp: ids_of_def)

text \<open>One PUBREL goes out, and its entry waits for the PUBCOMP where it is.\<close>

lemma resend_one:
  assumes "log_ok MQTT_SEND (X @ r # Y)" "to_release r" "outgoingPublishRecords (ctx l) = X @ r # Y"
  shows "packetId r \<noteq> 0"
    and "sendPublishAcks True (packetId r) MQTTPubRelSend l
      = (MQTTSuccess, l\<lparr>ctx := (ctx l)\<lparr>outgoingPublishRecords := X @ advanced r # Y\<rparr>,
           wire := wire l @ [Wire_ack MQTTPubrel (packetId r)]\<rparr>)"
    and "log_ok MQTT_SEND (X @ advanced r # Y)"
proof -
  show nz: "packetId r \<noteq> 0" using assms(1,2) by (auto simp: log_ok_def table_ok_def to_release_def free_record_def)
  have "legal MQTT_SEND r" "distinct (ids_of (active (X @ r # Y)))"
    using assms(1) nz by (auto simp: log_ok_def table_ok_def table_simps)
  then have q: "qos r = MQTTQoS2" and d: "packetId r \<notin> set (ids_of X)"
    using assms(2) nz by (auto simp: legal_def to_release_def table_simps ids_of_def active_def split: MQTTQoS.splits)
  have f: "findInRecord (X @ r # Y) (packetId r) = Some (length X, MQTTQoS2, publishState r)"
    using find_from_at [OF d refl, of 0 Y] q by (simp add: findInRecord_def)
  have id: "X @ r # Y = outgoingPublishRecords (ctx l)" using assms(3) by simp
  show "sendPublishAcks True (packetId r) MQTTPubRelSend l
      = (MQTTSuccess, l\<lparr>ctx := (ctx l)\<lparr>outgoingPublishRecords := X @ advanced r # Y\<rparr>,
           wire := wire l @ [Wire_ack MQTTPubrel (packetId r)]\<rparr>)"
    using assms(2) nz f
    by (auto simp: sendPublishAcks_def MQTT_UpdateStateAck_def MQTT_CalculateStateAck_def updateStateAck_def
        updateRecord_def to_release_def advanced_def assms(3) id [symmetric])
  show "log_ok MQTT_SEND (X @ advanced r # Y)"
    using assms(1,2) nz q
    by (auto simp: log_ok_def table_ok_def table_simps advanced_def legal_def to_release_def split: MQTTQoS.splits)
qed

text \<open>The first \<open>n\<close> of the entries that are released again wait for their PUBCOMP.\<close>

fun advance_first :: "nat \<Rightarrow> records \<Rightarrow> records" where
  "advance_first n [] = []"
| "advance_first n (r # rs) =
     (if n = 0 then r # rs
      else if to_release r then advanced r # advance_first (n - 1) rs
      else r # advance_first n rs)"

lemma advance_first_0 [simp]: "advance_first 0 rs = rs"
  by (cases rs) simp_all

lemma advance_first_append: "\<forall>r \<in> set C. \<not> to_release r \<Longrightarrow> advance_first n (C @ D) = C @ advance_first n D"
  by (induction C) (cases n; simp)+

lemma sendPublishAcks_failed:
  "sendPublishAcks False k MQTTPubRelSend l = (MQTTSendFailed, l)"
  by (simp add: sendPublishAcks_def)

lemma resend_first:
  assumes "log_ok MQTT_SEND (A @ B)" "outgoingPublishRecords (ctx l) = A @ B"
  shows "\<exists>n. n \<le> length (filter to_release B) \<and> ((\<forall>i. oks i) \<longrightarrow> n = length (filter to_release B))
    \<and> resend_pubrels oks (length A) s l
      = (if n = length (filter to_release B) then MQTTSuccess else MQTTSendFailed,
         l\<lparr>ctx := (ctx l)\<lparr>outgoingPublishRecords := A @ advance_first n B\<rparr>,
           wire := wire l @ map (\<lambda>r. Wire_ack MQTTPubrel (packetId r)) (take n (filter to_release B))\<rparr>)"
  using assms
proof (induction "length B" arbitrary: A B s l rule: less_induct)
  case less
  obtain k j where r: "select_from [MQTTPubCompPending, MQTTPubRelSend] (length A) B = (k, j)" by fastforce
  have p: "MQTT_PubrelToResend (length A) s (ctx l) = (k, j, if k \<noteq> 0 then MQTTPubRelSend else s)"
    using r less.prems(2) by (simp add: MQTT_PubrelToResend_def stateSelect_def)
  from select_from_release [OF r] consider "\<forall>r \<in> set B. \<not> to_release r" "k = 0"
    | C r D where "B = C @ r # D" "\<forall>r \<in> set C. \<not> to_release r" "to_release r" "k = packetId r" "j = length A + length C + 1"
    by blast
  then show ?case
  proof cases
    case 1
    then have "filter to_release B = []" by (simp add: filter_empty_conv)
    then show ?thesis using p 1(2) less.prems(2) by (subst resend_pubrels.simps) simp
  next
    case (2 C r D)
    let ?X = "A @ C" and ?l = "l\<lparr>ctx := (ctx l)\<lparr>outgoingPublishRecords := (A @ C) @ advanced r # D\<rparr>,
      wire := wire l @ [Wire_ack MQTTPubrel k]\<rparr>"
    have f: "filter to_release B = r # filter to_release D" using 2(1-3) by (simp add: filter_empty_conv)
    have rs: "outgoingPublishRecords (ctx l) = ?X @ r # D" "log_ok MQTT_SEND (?X @ r # D)"
      using less.prems 2(1) by simp_all
    note one = resend_one [OF rs(2) 2(3) rs(1)]
    show ?thesis
    proof (cases "oks (length A)")
      case True
      have step: "resend_pubrels oks (length A) s l = resend_pubrels oks j MQTTPubRelSend ?l"
        using p one(1,2) 2(4) True by (subst resend_pubrels.simps) simp
      obtain n where n: "n \<le> length (filter to_release D)" "(\<forall>i. oks i) \<longrightarrow> n = length (filter to_release D)"
        "resend_pubrels oks (length (?X @ [advanced r])) MQTTPubRelSend ?l
          = (if n = length (filter to_release D) then MQTTSuccess else MQTTSendFailed,
             ?l\<lparr>ctx := (ctx ?l)\<lparr>outgoingPublishRecords := (?X @ [advanced r]) @ advance_first n D\<rparr>,
               wire := wire ?l @ map (\<lambda>r. Wire_ack MQTTPubrel (packetId r)) (take n (filter to_release D))\<rparr>)"
        using less.hyps [of D "?X @ [advanced r]" ?l MQTTPubRelSend] 2(1) one(3) by auto
      have "length (?X @ [advanced r]) = j" using 2(5) by simp
      moreover have "advance_first (Suc n) B = C @ advanced r # advance_first n D"
        using 2(1-3) by (simp add: advance_first_append)
      ultimately show ?thesis using n step f 2(4) by (intro exI [of _ "Suc n"]) simp
    next
      case False
      have "resend_pubrels oks (length A) s l = (MQTTSendFailed, l)"
        using p one(1) 2(4) False by (subst resend_pubrels.simps) (simp add: sendPublishAcks_failed)
      then show ?thesis using f False less.prems(2) by (intro exI [of _ 0]) auto
    qed
  qed
qed

end
