(* ===== verification/Mqtt_Link.thy ===== *)
theory Mqtt_Link
  imports Mqtt_Session Mqtt_Library
begin

text \<open>
  The session of \<open>mqtt_operations.c\<close> composed with the MQTT library it calls: the application's table of five
  pending publishes above the library's log of ten.  The statuses that \<open>Mqtt_Session\<close> takes as arguments are
  computed by the library here.  The application publishes with the first quality of service only.

  Both tables survive a broken connection, while the packet numbers start at 1 again with every
  connection.  The lemmas follow a number through reconnections.
\<close>

section \<open>Operations\<close>

type_synonym link_state = "mqtt \<times> library"

text \<open>\<open>PublishToTopic\<close> over the library; \<open>valid\<close>, \<open>ok\<close> as in \<open>library_publish\<close>; the number 0 is not valid.\<close>

definition link_publish :: "bool \<Rightarrow> bool \<Rightarrow> nat \<Rightarrow> nat \<Rightarrow> link_state \<Rightarrow> (bool \<times> link_state) option" where
  "link_publish valid ok topic payload s =
     (case s of (m, l) \<Rightarrow>
        case getNextFreeIndexForOutgoingPublishes m of
          None \<Rightarrow> do { (r, m) \<leftarrow> PublishToTopic False topic payload m; Some (r, m, l) }
        | Some i \<Rightarrow>
            let k = nextPacketId m
            in do { text \<leftarrow> memory m payload;
                    let (st, l) = library_publish (valid \<and> k \<noteq> MQTT_PACKET_ID_INVALID) ok k MQTTQoS1
                      (dup (outgoingPublishPackets m ! i)) text l
                    in do { (r, m) \<leftarrow> PublishToTopic (st = MQTTSuccess) topic payload m; Some (r, m, l) } })"

text \<open>A PUBACK: the callback runs when the library has accepted it.\<close>

definition link_puback :: "bool \<Rightarrow> u16 \<Rightarrow> link_state \<Rightarrow> link_state option" where
  "link_puback ok k s =
     (case s of (m, l) \<Rightarrow>
        case handlePublishAcks ok k MQTTPuback l of
          (_, l') \<Rightarrow>
            do { m \<leftarrow> (if events l' \<noteq> events l then mqttCallback (PUBACK k) m else Some m); Some (m, l') })"

text \<open>The library's part of \<open>handlePublishResend\<close>: the statuses by index, and what is left of the library.\<close>

fun library_resend ::
  "(nat \<Rightarrow> bool) \<Rightarrow> nat list \<Rightarrow> mqtt \<Rightarrow> library \<Rightarrow> (nat \<Rightarrow> bool) \<times> library" where
  "library_resend oks [] m l = ((\<lambda>_. True), l)"
| "library_resend oks (i # is) m l =
     (let p = outgoingPublishPackets m ! i
      in if packetId p = MQTT_PACKET_ID_INVALID then library_resend oks is m l
         else
           case library_publish True (oks i) (packetId p) MQTTQoS1 True
               (case memory m (pPayload p) of Some t \<Rightarrow> t | None \<Rightarrow> []) l of
             (st, l) \<Rightarrow>
               if st \<noteq> MQTTSuccess then ((\<lambda>j. j \<noteq> i), l)
               else case library_resend oks is m l of (f, l) \<Rightarrow> (f(i := True), l))"

text \<open>
  A connection: \<open>conn\<close> is the CONNACK with its \<open>present\<close> bit, \<open>oks\<close>, \<open>oks'\<close> the writes of the library's and
  the application's resending.
\<close>

definition link_connect ::
  "(nat \<Rightarrow> bool) \<Rightarrow> (nat \<Rightarrow> u32) \<Rightarrow> bool \<Rightarrow> bool \<Rightarrow> bool \<Rightarrow> bool \<Rightarrow> (nat \<Rightarrow> bool) \<Rightarrow> (nat \<Rightarrow> bool)
     \<Rightarrow> link_state \<Rightarrow> (bool \<times> link_state) option" where
  "link_connect tls rnd init stateful conn present oks oks' s =
     (case s of (m, l) \<Rightarrow>
        let connected = (case connectToBrokerWithBackoffRetries tls rnd of Some (True, _) \<Rightarrow> True | _ \<Rightarrow> False);
            (st, l1) = (if connected \<and> init \<and> stateful \<and> conn then resume_records present oks l
                        else (MQTTRecvFailed, l));
            (f, l2) = (if st = MQTTSuccess \<and> present then library_resend oks' [0..<MAX_OUTGOING_PUBLISHES] m l1
                       else ((\<lambda>_. True), l1))
        in do { (r, m) \<leftarrow> EstablishMqttSession tls rnd init stateful (st = MQTTSuccess) present f m; Some (r, m, l2) })"

section \<open>The library's side of a publish\<close>

abbreviation (input) sent_log :: "library \<Rightarrow> records" where
  "sent_log l \<equiv> active (outgoingPublishRecords (ctx l))"

abbreviation (input) room :: "library \<Rightarrow> bool" where
  "room l \<equiv> length (sent_log l) < length (outgoingPublishRecords (ctx l))"

lemma log_set_snoc:
  "k \<notin> set (ids_of L) \<Longrightarrow> log_set k s (L @ [r]) = L @ (if number_of r = k then [r\<lparr>publishState := s\<rparr>] else [r])"
  by (induction L) (auto simp: log_set_def ids_of_def)

lemma log_find_snoc: "k \<notin> set (ids_of L) \<Longrightarrow> number_of r = k \<Longrightarrow> log_find k (L @ [r]) = Some r"
  by (induction L) (auto simp: log_find_def ids_of_def)

lemma reserve_log:
  assumes "context_ok c" "MQTT_ReserveState k MQTTQoS1 c = (st, c')" "k \<noteq> 0"
  defines "L \<equiv> active (outgoingPublishRecords c)"
  shows "context_ok c'" "length (outgoingPublishRecords c') = length (outgoingPublishRecords c)"
    "(st, active (outgoingPublishRecords c'))
      = log_add (length (outgoingPublishRecords c)) (entry k MQTTQoS1 MQTTPublishSend) L"
  using reserve_refines [OF assms(1,2)] assms(3)
  by (auto simp: flight_do_def abs_context_def L_def split: prod.splits)

lemma sent_log_step:
  assumes "context_ok c" "MQTT_UpdateStatePublish k MQTT_SEND MQTTQoS1 c = (st, s, c')" "k \<noteq> 0"
    and "log_find k (active (outgoingPublishRecords c)) = Some r" "qos r = MQTTQoS1"
  shows "st = MQTTSuccess \<and> context_ok c' \<and> length (outgoingPublishRecords c') = length (outgoingPublishRecords c)
    \<and> active (outgoingPublishRecords c') = log_set k MQTTPubAckPending (active (outgoingPublishRecords c))"
proof -
  have "r \<in> set (active (outgoingPublishRecords c))" using log_find_in [OF assms(4)] by simp
  then have "legal MQTT_SEND r" using assms(1) by (simp add: context_ok_def log_ok_def)
  then have "publishState r = MQTTPublishSend \<or> publishState r = MQTTPubAckPending"
    using assms(5) by (simp add: legal_def)
  then show ?thesis using sent_refines [OF assms(1,2)] assms(3-5)
    by (auto simp: flight_do_def abs_context_def)
qed

text \<open>A new publish is taken exactly when its number is free, there is room, and it can be written.\<close>

lemma library_publish_new:
  assumes "context_ok (ctx l)" "k \<noteq> 0" "library_publish valid ok k MQTTQoS1 False text l = (st, l')"
  defines "r \<equiv> \<lambda>s. (entry k MQTTQoS1 s)"
  shows "context_ok (ctx l')" "length (outgoingPublishRecords (ctx l')) = length (outgoingPublishRecords (ctx l))"
    "st = MQTTSuccess \<longleftrightarrow> valid \<and> ok \<and> k \<notin> set (ids_of (sent_log l)) \<and> room l"
    "sent_log l' = (if valid \<and> k \<notin> set (ids_of (sent_log l)) \<and> room l
       then sent_log l @ [r (if ok then MQTTPubAckPending else MQTTPublishSend)] else sent_log l)"
    "wire l' = (if st = MQTTSuccess then wire l @ [Wire_publish k MQTTQoS1 False text] else wire l)"
proof -
  obtain st1 c1 where r1: "MQTT_ReserveState k MQTTQoS1 (ctx l) = (st1, c1)" by fastforce
  obtain st2 s c2 where u: "MQTT_UpdateStatePublish k MQTT_SEND MQTTQoS1 c1 = (st2, s, c2)" using prod_cases3 by blast
  note res = reserve_log [OF assms(1) r1 assms(2)]
  have all: "context_ok (ctx l') \<and> length (outgoingPublishRecords (ctx l')) = length (outgoingPublishRecords (ctx l))
    \<and> (st = MQTTSuccess \<longleftrightarrow> valid \<and> ok \<and> k \<notin> set (ids_of (sent_log l)) \<and> room l)
    \<and> sent_log l' = (if valid \<and> k \<notin> set (ids_of (sent_log l)) \<and> room l
       then sent_log l @ [r (if ok then MQTTPubAckPending else MQTTPublishSend)] else sent_log l)
    \<and> wire l' = (if st = MQTTSuccess then wire l @ [Wire_publish k MQTTQoS1 False text] else wire l)"
  proof (cases "valid \<and> k \<notin> set (ids_of (sent_log l)) \<and> room l")
    case True
    then have st1: "st1 = MQTTSuccess" "active (outgoingPublishRecords c1) = sent_log l @ [r MQTTPublishSend]"
      using res(3) by (simp_all add: log_add_def r_def)
    have "log_find k (active (outgoingPublishRecords c1)) = Some (r MQTTPublishSend)"
      using log_find_snoc [of k "sent_log l"] True by (simp add: st1 r_def)
    from sent_log_step [OF res(1) u assms(2) this] show ?thesis
      using assms(3) r1 u res st1 True log_set_snoc [of k "sent_log l"]
      by (auto simp: library_publish_def r_def split: if_splits)
  next
    case False
    then show ?thesis using assms(1,3) r1 res
      by (auto simp: library_publish_def log_add_def split: if_splits)
  qed
  then show "context_ok (ctx l')" "length (outgoingPublishRecords (ctx l')) = length (outgoingPublishRecords (ctx l))"
    "st = MQTTSuccess \<longleftrightarrow> valid \<and> ok \<and> k \<notin> set (ids_of (sent_log l)) \<and> room l"
    "sent_log l' = (if valid \<and> k \<notin> set (ids_of (sent_log l)) \<and> room l
       then sent_log l @ [r (if ok then MQTTPubAckPending else MQTTPublishSend)] else sent_log l)"
    "wire l' = (if st = MQTTSuccess then wire l @ [Wire_publish k MQTTQoS1 False text] else wire l)"
    by blast+
qed

text \<open>A publish that is sent again keeps its entry, whether or not it can be written.\<close>

lemma library_publish_again:
  assumes "context_ok (ctx l)" "k \<noteq> 0" "library_publish True ok k MQTTQoS1 True text l = (st, l')"
    and "entry k MQTTQoS1 MQTTPubAckPending \<in> set (sent_log l)"
  shows "context_ok (ctx l')" "length (outgoingPublishRecords (ctx l')) = length (outgoingPublishRecords (ctx l))"
    "st = MQTTSuccess \<longleftrightarrow> ok" "sent_log l' = sent_log l"
    "wire l' = (if ok then wire l @ [Wire_publish k MQTTQoS1 True text] else wire l)"
proof -
  let ?r = "(entry k MQTTQoS1 MQTTPubAckPending)"
  obtain st1 c1 where r1: "MQTT_ReserveState k MQTTQoS1 (ctx l) = (st1, c1)" by fastforce
  obtain st2 s c2 where u: "MQTT_UpdateStatePublish k MQTT_SEND MQTTQoS1 c1 = (st2, s, c2)" using prod_cases3 by blast
  note res = reserve_log [OF assms(1) r1 assms(2)]
  have d: "distinct (ids_of (sent_log l))" using assms(1) by (auto simp: context_ok_def dest: log_okD)
  have k: "k \<in> set (ids_of (sent_log l))" using assms(4) by (force simp: ids_of_def)
  then have st1: "st1 = MQTTStateCollision" "active (outgoingPublishRecords c1) = sent_log l"
    using res(3) by (simp_all add: log_add_def)
  obtain r where r: "log_find k (sent_log l) = Some r" using k log_find_None by (cases "log_find k (sent_log l)") auto
  then have "?r = r" using log_find_only [OF r d assms(4)] by simp
  then have f: "log_find k (active (outgoingPublishRecords c1)) = Some ?r" using r st1(2) by simp
  have "log_set k MQTTPubAckPending (sent_log l) = sent_log l"
    using log_set_same [OF r d] \<open>?r = r\<close> by auto
  then have all: "context_ok (ctx l') \<and> length (outgoingPublishRecords (ctx l')) = length (outgoingPublishRecords (ctx l))
    \<and> (st = MQTTSuccess \<longleftrightarrow> ok) \<and> sent_log l' = sent_log l
    \<and> wire l' = (if ok then wire l @ [Wire_publish k MQTTQoS1 True text] else wire l)"
    using sent_log_step [OF res(1) u assms(2) f] assms(3) r1 u res st1
    by (auto simp: library_publish_def split: if_splits)
  then show "context_ok (ctx l')" "length (outgoingPublishRecords (ctx l')) = length (outgoingPublishRecords (ctx l))"
    "st = MQTTSuccess \<longleftrightarrow> ok" "sent_log l' = sent_log l"
    "wire l' = (if ok then wire l @ [Wire_publish k MQTTQoS1 True text] else wire l)"
    by blast+
qed

section \<open>The two tables agree\<close>

definition app_ok :: "mqtt \<Rightarrow> bool" where
  "app_ok m \<longleftrightarrow> length (outgoingPublishPackets m) = 5 \<and> ids_ok (ids m)
     \<and> (\<forall>p \<in> set (outgoingPublishPackets m). packetId p = 0 \<longrightarrow> p = no_packet)"

definition agree :: "link_state \<Rightarrow> bool" where
  "agree s \<longleftrightarrow> (case s of (m, l) \<Rightarrow> app_ok m \<and> context_ok (ctx l)
     \<and> (\<forall>k \<in> nonzero (ids m). entry k MQTTQoS1 MQTTPubAckPending \<in> set (sent_log l)))"

lemma no_packet_id [simp]: "packetId no_packet = 0" and no_packet_dup [simp]: "dup no_packet = False"
  by (simp_all add: no_packet_def)

text \<open>What the application does to its table: it fills a free place, empties one, or leaves the numbers.\<close>

lemma app_ok_fill:
  assumes "app_ok m" "i < 5" "ids m ! i = 0" "k \<notin> nonzero (ids m)" "k \<noteq> 0" "packetId p = k"
    and "outgoingPublishPackets m' = (outgoingPublishPackets m)[i := p]"
  shows "app_ok m'" "nonzero (ids m') = insert k (nonzero (ids m))"
proof -
  have i: "ids m' = (ids m)[i := k]" using assms(6,7) by (simp add: ids_def map_update)
  have l: "i < length (ids m)" using assms(1,2) by (simp add: app_ok_def ids_def)
  note put = ids_ok_put [OF _ l assms(3,4,5)]
  show "app_ok m'" using assms(1,5,6,7) put(1) i set_update_subset_insert [of "outgoingPublishPackets m" i p]
    by (auto simp: app_ok_def)
  show "nonzero (ids m') = insert k (nonzero (ids m))" using put(2) assms(1) i by (simp add: app_ok_def)
qed

lemma app_ok_empty:
  assumes "app_ok m" "i < 5" "outgoingPublishPackets m' = (outgoingPublishPackets m)[i := no_packet]"
  shows "app_ok m'" "nonzero (ids m') = nonzero (ids m) - {ids m ! i}"
proof -
  have i: "ids m' = (ids m)[i := 0]" using assms(3) by (simp add: ids_def map_update)
  have l: "i < length (ids m)" using assms(1,2) by (simp add: app_ok_def ids_def)
  show "app_ok m'" using assms ids_ok_clear(1) [OF _ l] i set_update_subset_insert [of "outgoingPublishPackets m" i no_packet]
    by (auto simp: app_ok_def)
  show "nonzero (ids m') = nonzero (ids m) - {ids m ! i}" using ids_ok_clear(2) [OF _ l] assms(1) i by (simp add: app_ok_def)
qed

lemma app_ok_same: "app_ok m \<Longrightarrow> outgoingPublishPackets m' = outgoingPublishPackets m \<Longrightarrow> app_ok m' \<and> ids m' = ids m"
  by (simp add: app_ok_def ids_def)

lemma free_slot:
  assumes "app_ok m" "getNextFreeIndexForOutgoingPublishes m = Some i"
  shows "i < 5" "ids m ! i = 0" "outgoingPublishPackets m ! i = no_packet"
proof -
  have i: "i < length (outgoingPublishPackets m)" "packetId (outgoingPublishPackets m ! i) = 0"
    using free_index_Some [of 0 "outgoingPublishPackets m" i] assms(2)
    by (simp_all add: getNextFreeIndexForOutgoingPublishes_def)
  then show "i < 5" "ids m ! i = 0" "outgoingPublishPackets m ! i = no_packet"
    using assms(1) by (auto simp: app_ok_def ids_def)
qed

abbreviation (input) next_number :: "u16 \<Rightarrow> u16" where
  "next_number k \<equiv> (if k = 0xFFFF then 1 else k + 1)"

lemma PublishToTopic_slot:
  assumes "getNextFreeIndexForOutgoingPublishes m = Some i" "PublishToTopic b topic payload m = Some (r, m')"
  shows "r = b \<and> nextPacketId m' = next_number (nextPacketId m) \<and> memory m' = memory m
    \<and> (\<exists>p. packetId p = nextPacketId m
        \<and> outgoingPublishPackets m' = (outgoingPublishPackets m)[i := if b then p else no_packet])"
  using assms
  by (auto simp: PublishToTopic_def MQTT_GetPacketId_def MQTT_Publish_def cleanupOutgoingPublishAt_def Let_def
      split: bind_splits if_splits
      intro!: exI [of _ "(outgoingPublishPackets m ! i)\<lparr>pTopicName := topic, pPayload := payload, packetId := nextPacketId m\<rparr>"])

text \<open>One publish, whatever comes of it.\<close>

lemma link_publish_cases:
  assumes "agree (m, l)" "link_publish valid ok topic payload (m, l) = Some (r, m', l')"
  obtains (full) "getNextFreeIndexForOutgoingPublishes m = None" "\<not> r" "m' = m" "l' = l"
  | (slot) i where "getNextFreeIndexForOutgoingPublishes m = Some i"
    "nextPacketId m' = next_number (nextPacketId m)" "memory m' = memory m" "app_ok m'" "context_ok (ctx l')"
    "length (outgoingPublishRecords (ctx l')) = length (outgoingPublishRecords (ctx l))"
    "r \<longleftrightarrow> valid \<and> nextPacketId m \<noteq> 0 \<and> ok \<and> nextPacketId m \<notin> set (ids_of (sent_log l)) \<and> room l"
    "nonzero (ids m') = (if r then insert (nextPacketId m) (nonzero (ids m)) else nonzero (ids m))"
    "sent_log l' = (if valid \<and> nextPacketId m \<noteq> 0 \<and> nextPacketId m \<notin> set (ids_of (sent_log l)) \<and> room l
       then sent_log l @ [entry (nextPacketId m) MQTTQoS1 (if ok then MQTTPubAckPending else MQTTPublishSend)]
       else sent_log l)"
    "r \<longleftrightarrow> wire l' \<noteq> wire l"
proof (cases "getNextFreeIndexForOutgoingPublishes m")
  case None
  then show ?thesis using full assms(2) by (simp add: link_publish_def PublishToTopic_def)
next
  case (Some i)
  let ?k = "nextPacketId m" and ?L = "sent_log l"
  have ok: "app_ok m" "context_ok (ctx l)" "\<forall>k \<in> nonzero (ids m). entry k MQTTQoS1 MQTTPubAckPending \<in> set ?L"
    using assms(1) by (simp_all add: agree_def)
  note slot_i = free_slot [OF ok(1) Some]
  obtain tx st where p: "library_publish (valid \<and> ?k \<noteq> 0) ok ?k MQTTQoS1 False tx l = (st, l')"
    "PublishToTopic (st = MQTTSuccess) topic payload m = Some (r, m')"
    using assms(2) Some slot_i(3) by (auto simp: link_publish_def Let_def split: bind_splits prod.splits)
  from PublishToTopic_slot [OF Some p(2)] obtain q where q: "r \<longleftrightarrow> st = MQTTSuccess" "nextPacketId m' = next_number ?k"
    "memory m' = memory m" "packetId q = ?k"
    "outgoingPublishPackets m' = (outgoingPublishPackets m)[i := if r then q else no_packet]" by auto
  have lib: "context_ok (ctx l')" "length (outgoingPublishRecords (ctx l')) = length (outgoingPublishRecords (ctx l))"
    "r \<longleftrightarrow> valid \<and> ?k \<noteq> 0 \<and> ok \<and> ?k \<notin> set (ids_of ?L) \<and> room l"
    "sent_log l' = (if valid \<and> ?k \<noteq> 0 \<and> ?k \<notin> set (ids_of ?L) \<and> room l
       then ?L @ [entry ?k MQTTQoS1 (if ok then MQTTPubAckPending else MQTTPublishSend)] else ?L)"
    "r \<longleftrightarrow> wire l' \<noteq> wire l"
  proof -
    have "context_ok (ctx l') \<and> length (outgoingPublishRecords (ctx l')) = length (outgoingPublishRecords (ctx l))
      \<and> (r \<longleftrightarrow> valid \<and> ?k \<noteq> 0 \<and> ok \<and> ?k \<notin> set (ids_of ?L) \<and> room l)
      \<and> sent_log l' = (if valid \<and> ?k \<noteq> 0 \<and> ?k \<notin> set (ids_of ?L) \<and> room l
         then ?L @ [entry ?k MQTTQoS1 (if ok then MQTTPubAckPending else MQTTPublishSend)] else ?L)
      \<and> (r \<longleftrightarrow> wire l' \<noteq> wire l)"
    proof (cases "?k = 0")
      case True
      then show ?thesis using p(1) q(1) ok(2) by (auto simp: library_publish_def)
    next
      case False
      note new = library_publish_new [OF ok(2) False p(1)]
      show ?thesis using new(1,2,3,4) new(5) False q(1) by auto
    qed
    then show "context_ok (ctx l')" "length (outgoingPublishRecords (ctx l')) = length (outgoingPublishRecords (ctx l))"
      "r \<longleftrightarrow> valid \<and> ?k \<noteq> 0 \<and> ok \<and> ?k \<notin> set (ids_of ?L) \<and> room l"
      "sent_log l' = (if valid \<and> ?k \<noteq> 0 \<and> ?k \<notin> set (ids_of ?L) \<and> room l
         then ?L @ [entry ?k MQTTQoS1 (if ok then MQTTPubAckPending else MQTTPublishSend)] else ?L)"
      "r \<longleftrightarrow> wire l' \<noteq> wire l" by blast+
  qed
  have "app_ok m' \<and> nonzero (ids m') = (if r then insert ?k (nonzero (ids m)) else nonzero (ids m))"
  proof (cases r)
    case True
    have "?k \<notin> nonzero (ids m)" using True lib(3) ok(3) by (force simp: ids_of_def)
    then show ?thesis using app_ok_fill [OF ok(1) slot_i(1,2) _ _ q(4), of m'] q(5) True lib(3) by simp
  next
    case False
    then show ?thesis using app_ok_empty [OF ok(1) slot_i(1), of m'] q(5) slot_i(2) by (simp add: nonzero_def)
  qed
  then show ?thesis using slot [OF Some q(2,3) _ lib(1,2,3) _ lib(4,5)] by blast
qed

section \<open>Acknowledgements\<close>

text \<open>A PUBACK removes the entry of a publish that waits for it, and is an error otherwise.\<close>

lemma puback_library:
  assumes "context_ok (ctx l)" "handlePublishAcks ok k MQTTPuback l = (st, l')"
  shows "context_ok (ctx l')"
    "(\<exists>r \<in> set (sent_log l). r = entry k MQTTQoS1 MQTTPubAckPending)
       \<and> k \<noteq> 0 \<and> events l' \<noteq> events l \<and> sent_log l' = log_del k (sent_log l)
     \<or> (\<forall>r \<in> set (sent_log l). r \<noteq> entry k MQTTQoS1 MQTTPubAckPending)
       \<and> events l' = events l \<and> sent_log l' = sent_log l"
proof -
  obtain st1 s c where u: "MQTT_UpdateStateAck k MQTTPuback MQTT_RECEIVE (ctx l) = (st1, s, c)" using prod_cases3 by blast
  have ok: "context_ok c" and f: "flight_do (Ack_received k MQTTPuback) (abs_context (ctx l)) = (st1, abs_context c)"
    using ack_refines [OF assms(1) u] by simp_all
  have null: "\<not> validateTransitionAck x MQTTStateNull" for x by (cases x) simp_all
  have s: "st1 = MQTTSuccess \<Longrightarrow> s = Some MQTTPublishDone"
    using u by (auto simp: MQTT_UpdateStateAck_def MQTT_CalculateStateAck_def updateStateAck_def Let_def
        null split: if_splits option.splits prod.splits)
  have l': "ctx l' = c" "events l' = (if st1 = MQTTSuccess then events l @ [Ack_event MQTTPuback k] else events l)"
    using assms(2) u s by (cases "st1 = MQTTSuccess"; auto simp: handlePublishAcks_def sendPublishAcks_def)+
  show "context_ok (ctx l')" using ok l' by simp
  have d: "distinct (ids_of (sent_log l))" using assms(1) by (auto simp: context_ok_def dest: log_okD)
  have z: "\<forall>r \<in> set (sent_log l). number_of r \<noteq> 0" by (simp add: active_nonzero)
  show "(\<exists>r \<in> set (sent_log l). r = entry k MQTTQoS1 MQTTPubAckPending)
       \<and> k \<noteq> 0 \<and> events l' \<noteq> events l \<and> sent_log l' = log_del k (sent_log l)
     \<or> (\<forall>r \<in> set (sent_log l). r \<noteq> entry k MQTTQoS1 MQTTPubAckPending)
       \<and> events l' = events l \<and> sent_log l' = sent_log l"
  proof (cases "log_find k (sent_log l)")
    case None
    then have "\<forall>r \<in> set (sent_log l). r \<noteq> entry k MQTTQoS1 MQTTPubAckPending"
      by (force simp: log_find_None ids_of_def)
    then show ?thesis using f l' None
      by (auto simp: flight_do_def abs_context_def log_ack_def split: if_splits)
  next
    case (Some r)
    have only: "x = r" if "x \<in> set (sent_log l)" "number_of x = k" for x
      using log_find_only [OF Some d that] .
    have k: "k \<noteq> 0" using log_find_in [OF Some] z by auto
    have a: "ack_next (qos r) MQTTPuback MQTT_RECEIVE
        = (if qos r = MQTTQoS1 then Some ([MQTTPubAckPending], None) else None)"
      by (cases "qos r") simp_all
    have e: "r = entry k MQTTQoS1 MQTTPubAckPending \<longleftrightarrow> qos r = MQTTQoS1 \<and> publishState r = MQTTPubAckPending"
      using log_find_in [OF Some] by (cases r) auto
    show ?thesis
    proof (cases "r = entry k MQTTQoS1 MQTTPubAckPending")
      case True
      then show ?thesis using f l' Some k log_find_in [OF Some]
        by (auto simp: flight_do_def abs_context_def log_ack_def)
    next
      case False
      have "\<forall>x \<in> set (sent_log l). x \<noteq> entry k MQTTQoS1 MQTTPubAckPending" using only False by auto
      moreover have "log_ack k MQTTPuback MQTT_RECEIVE (sent_log l) = (MQTTIllegalState, sent_log l)"
        using False e Some a by (auto simp: log_ack_def)
      ultimately show ?thesis using f l' k by (auto simp: flight_do_def abs_context_def)
    qed
  qed
qed

lemma callback_puback:
  assumes "app_ok m" "k \<noteq> 0" "mqttCallback (PUBACK k) m = Some m'"
  shows "app_ok m' \<and> nonzero (ids m') = nonzero (ids m) - {k} \<and> nextPacketId m' = nextPacketId m \<and> memory m' = memory m"
proof (cases "id_index k 0 (outgoingPublishPackets m)")
  case None
  then have "k \<notin> nonzero (ids m)" by (auto simp: id_index_None nonzero_def ids_def)
  then show ?thesis using assms None app_ok_same [OF assms(1), of m']
    by (auto simp: mqttCallback_def cleanupOutgoingPublishWithPacketID_def)
next
  case (Some i)
  have i: "i < 5" "ids m ! i = k" using id_index_Some [OF Some] assms(1) by (simp_all add: app_ok_def ids_def)
  have m': "m' = cleanupOutgoingPublishAt i (m\<lparr>globalAckPacketIdentifier := k\<rparr>)"
    using assms Some by (simp add: mqttCallback_def cleanupOutgoingPublishWithPacketID_def)
  then show ?thesis using app_ok_empty [OF assms(1) i(1), of m'] i(2)
    by (simp add: cleanupOutgoingPublishAt_def)
qed

section \<open>Connecting again\<close>

text \<open>The library's PUBRELs do not touch the entries of the first quality of service.\<close>

lemma sendPublishAcks_first:
  assumes "context_ok (ctx l)" "sendPublishAcks ok k MQTTPubRelSend l = (st, l')" "e \<in> set (sent_log l)" "qos e = MQTTQoS1"
  shows "e \<in> set (sent_log l')"
proof (cases "ok \<and> k \<noteq> 0")
  case True
  obtain st1 s c where u: "MQTT_UpdateStateAck k MQTTPubrel MQTT_SEND (ctx l) = (st1, s, c)" using prod_cases3 by blast
  have f: "flight_do (Ack_sent k MQTTPubrel) (abs_context (ctx l)) = (st1, abs_context c)"
    using ack_refines [OF assms(1) u] by simp
  have d: "distinct (ids_of (sent_log l))" using assms(1) by (auto simp: context_ok_def dest: log_okD)
  have "e \<in> set (snd (log_ack k MQTTPubrel MQTT_SEND (sent_log l)))"
  proof (cases "log_find k (sent_log l)")
    case (Some r)
    have n: "ack_next q MQTTPubrel MQTT_SEND
        = (if q = MQTTQoS2 then Some ([MQTTPubRelSend, MQTTPubCompPending], Some MQTTPubCompPending) else None)" for q
      by (cases q) simp_all
    have "r = e" if "number_of e = k" using log_find_only [OF Some d assms(3) that] by simp
    then show ?thesis using Some assms(3,4) n by (auto simp: log_ack_def log_set_def image_iff intro!: bexI [of _ e])
  qed (use assms(3) in \<open>simp add: log_ack_def\<close>)
  moreover have "sent_log l' = snd (log_ack k MQTTPubrel MQTT_SEND (sent_log l))"
    using f True assms(2) u by (auto simp: sendPublishAcks_def flight_do_def abs_context_def split: prod.splits)
  ultimately show ?thesis by simp
next
  case False
  then show ?thesis using assms by (auto simp: sendPublishAcks_def)
qed

lemma resend_pubrels_first:
  "context_ok (ctx l) \<Longrightarrow> resend_pubrels oks i s l = (st, l') \<Longrightarrow> e \<in> set (sent_log l) \<Longrightarrow> qos e = MQTTQoS1 \<Longrightarrow>
     e \<in> set (sent_log l')"
proof (induction oks i s l rule: resend_pubrels.induct)
  case (1 oks i s l)
  obtain k1 i1 s1 where r: "MQTT_PubrelToResend i s (ctx l) = (k1, i1, s1)" using prod_cases3 by blast
  obtain st1 l1 where a: "sendPublishAcks (oks i) k1 s1 l = (st1, l1)" by fastforce
  show ?case
  proof (cases "k1 = 0")
    case True
    then show ?thesis using 1(3,4) r by (subst (asm) resend_pubrels.simps) simp
  next
    case False
    have s1: "s1 = MQTTPubRelSend" using r False by (auto simp: MQTT_PubrelToResend_def split: prod.splits)
    have e: "e \<in> set (sent_log l1)" "context_ok (ctx l1)"
      using sendPublishAcks_first [OF 1(2) a [unfolded s1] 1(4,5)] sendPublishAcks_keeps [OF 1(2) a] by simp_all
    show ?thesis
    proof (cases "st1 = MQTTSuccess")
      case True
      have "resend_pubrels oks i1 s1 l1 = (st, l')"
        using 1(3) r a False True by (subst (asm) resend_pubrels.simps) simp
      then show ?thesis using 1(1) [OF r [symmetric] refl False a [symmetric] _ e(2) _ e(1) 1(5)] True by simp
    next
      case fail: False
      then have "l' = l1" using 1(3) r a False by (subst (asm) resend_pubrels.simps) simp
      then show ?thesis using e by simp
    qed
  qed
qed

lemma library_resend_keeps:
  assumes "library_resend oks is m l = (f, l')" "context_ok (ctx l)" "\<forall>i \<in> set is. i < length (outgoingPublishPackets m)"
    and "\<forall>k \<in> nonzero (ids m). entry k MQTTQoS1 MQTTPubAckPending \<in> set (sent_log l)"
  shows "context_ok (ctx l') \<and> sent_log l' = sent_log l"
  using assms
proof (induction "is" arbitrary: l l' f)
  case (Cons i "is")
  let ?p = "outgoingPublishPackets m ! i"
  show ?case
  proof (cases "packetId ?p = 0")
    case True
    then show ?thesis using Cons by simp
  next
    case False
    obtain st l1 where p: "library_publish True (oks i) (packetId ?p) MQTTQoS1 True
        (case memory m (pPayload ?p) of Some t \<Rightarrow> t | None \<Rightarrow> []) l = (st, l1)" by fastforce
    have "packetId ?p \<in> nonzero (ids m)" using False Cons.prems(3) by (auto simp: nonzero_def ids_def)
    then have "entry (packetId ?p) MQTTQoS1 MQTTPubAckPending \<in> set (sent_log l)" using Cons.prems(4) by blast
    note again = library_publish_again [OF Cons.prems(2) False p this]
    obtain f2 l2 where r: "library_resend oks is m l1 = (f2, l2)" by fastforce
    have "l' = l1 \<or> l' = l2" using Cons.prems(1) False p r by (auto simp: Let_def split: if_splits)
    moreover have "context_ok (ctx l2) \<and> sent_log l2 = sent_log l1"
      using Cons.IH [OF r again(1)] Cons.prems(3,4) again(4) by simp
    ultimately show ?thesis using again(1,4) by auto
  qed
qed simp

lemma resend_from_keeps:
  "app_ok m \<Longrightarrow> \<forall>i \<in> set is. i < 5 \<Longrightarrow> resend_from f is m = Some (r, m') \<Longrightarrow>
     app_ok m' \<and> ids m' = ids m \<and> nextPacketId m' = nextPacketId m \<and> memory m' = memory m"
proof (induction "is" arbitrary: m)
  case (Cons i "is")
  let ?p = "outgoingPublishPackets m ! i"
  show ?case
  proof (cases "packetId ?p = 0")
    case True
    then show ?thesis using Cons by simp
  next
    case False
    let ?m = "m\<lparr>outgoingPublishPackets := (outgoingPublishPackets m)[i := ?p\<lparr>dup := True\<rparr>]\<rparr>"
    have l: "i < length (ids m)" using Cons.prems(1,2) by (simp add: app_ok_def ids_def)
    have i: "ids ?m = ids m"
      using l by (simp add: ids_def map_update) (metis l ids_def list_update_id nth_map length_map)
    have ok: "app_ok ?m" using Cons.prems(1) False i set_update_subset_insert [of "outgoingPublishPackets m" i "?p\<lparr>dup := True\<rparr>"]
      by (auto simp: app_ok_def)
    obtain m1 where m1: "MQTT_Publish (f i) (?p\<lparr>dup := True\<rparr>) ?m = Some m1"
      "resend_from f is m1 = Some (r, m') \<or> m' = m1"
      using Cons.prems(3) False by (auto simp: Let_def split: bind_splits if_splits)
    have same: "outgoingPublishPackets m1 = outgoingPublishPackets ?m" "nextPacketId m1 = nextPacketId m" "memory m1 = memory m"
      using m1(1) by (auto simp: MQTT_Publish_def split: bind_splits if_splits)
    have "app_ok m1 \<and> ids m1 = ids m" using app_ok_same [OF ok same(1)] i by simp
    then show ?thesis using Cons.IH [of m1] Cons.prems(2) m1(2) same(2,3) by auto
  qed
qed simp

section \<open>Numbers across connections\<close>

datatype link_op =
    Link_publish bool bool nat nat
  | Link_number
  | Link_puback bool u16
  | Link_incoming bool u16 MQTTQoS "char list"
  | Link_connect "nat \<Rightarrow> bool" "nat \<Rightarrow> u32" bool bool bool bool "nat \<Rightarrow> bool" "nat \<Rightarrow> bool"

definition link_do :: "link_op \<Rightarrow> link_state \<Rightarrow> link_state option" where
  "link_do a s =
     (case a of
        Link_publish valid ok topic payload \<Rightarrow> map_option snd (link_publish valid ok topic payload s)
      | Link_number \<Rightarrow> (case s of (m, l) \<Rightarrow> Some (snd (MQTT_GetPacketId m), l))
      | Link_puback ok k \<Rightarrow> link_puback ok k s
      | Link_incoming ok k q payload \<Rightarrow>
          (case s of (m, l) \<Rightarrow> Some (m, snd (handleIncomingPublish ok k q payload l)))
      | Link_connect tls rnd init stateful conn present oks oks' \<Rightarrow>
          map_option snd (link_connect tls rnd init stateful conn present oks oks' s))"

fun link_run :: "link_op list \<Rightarrow> link_state \<Rightarrow> link_state option" where
  "link_run [] s = Some s"
| "link_run (a # as) s = do { s \<leftarrow> link_do a s; link_run as s }"

text \<open>The operations that keep the session with the broker.\<close>

fun session_kept :: "link_op \<Rightarrow> bool" where
  "session_kept (Link_connect tls rnd init stateful conn present oks oks') = present"
| "session_kept _ = True"

text \<open>A number that the library holds for a publish that was never written, and the application does not know.\<close>

definition stuck :: "u16 \<Rightarrow> link_state \<Rightarrow> bool" where
  "stuck k s \<longleftrightarrow> (case s of (m, l) \<Rightarrow> entry k MQTTQoS1 MQTTPublishSend \<in> set (sent_log l) \<and> k \<notin> nonzero (ids m))"

definition kept :: "link_op \<Rightarrow> link_state \<Rightarrow> link_state \<Rightarrow> bool" where
  "kept a s s' \<longleftrightarrow> agree s' \<and> (session_kept a \<longrightarrow> (\<forall>k. stuck k s \<longrightarrow> stuck k s'))"

lemma kept_same:
  assumes "agree (m, l)" "app_ok m'" "nonzero (ids m') \<subseteq> nonzero (ids m)" "context_ok (ctx l')"
    and "\<And>e. e \<in> set (sent_log l) \<Longrightarrow> qos e = MQTTQoS1 \<Longrightarrow> e \<in> set (sent_log l')"
  shows "kept a (m, l) (m', l')"
proof -
  have "entry k MQTTQoS1 MQTTPubAckPending \<in> set (sent_log l')" if "k \<in> nonzero (ids m')" for k
    using assms(1,3) that assms(5) [of "entry k MQTTQoS1 MQTTPubAckPending"] by (auto simp: agree_def)
  moreover have "stuck k (m', l')" if "stuck k (m, l)" for k
    using that assms(3) assms(5) [of "entry k MQTTQoS1 MQTTPublishSend"] by (auto simp: stuck_def)
  ultimately show ?thesis using assms(2,4) by (auto simp: kept_def agree_def)
qed

lemma kept_publish:
  assumes "agree (m, l)" "link_publish valid ok topic payload (m, l) = Some (r, m', l')"
  shows "kept (Link_publish valid ok topic payload) (m, l) (m', l')"
  using assms
proof (cases rule: link_publish_cases)
  case full
  then show ?thesis using assms(1) by (simp add: kept_def)
next
  case (slot i)
  have L: "\<forall>k \<in> nonzero (ids m). entry k MQTTQoS1 MQTTPubAckPending \<in> set (sent_log l)"
    using assms(1) by (simp add: agree_def)
  have sub: "set (sent_log l) \<subseteq> set (sent_log l')" unfolding slot(9) by auto
  have "agree (m', l')"
  proof (cases r)
    case True
    then have "sent_log l' = sent_log l @ [entry (nextPacketId m) MQTTQoS1 MQTTPubAckPending]"
      using slot(7,9) by auto
    then show ?thesis using True slot(4,5,8) L by (auto simp: agree_def)
  next
    case False
    then show ?thesis using slot(4,5,8) L sub by (auto simp: agree_def)
  qed
  moreover have "stuck k (m', l')" if "stuck k (m, l)" for k
  proof -
    have "k \<in> set (ids_of (sent_log l))" using that by (force simp: stuck_def ids_of_def)
    then have "k \<notin> nonzero (ids m')" using that slot(7,8) by (auto simp: stuck_def split: if_splits)
    then show ?thesis using that sub by (auto simp: stuck_def)
  qed
  ultimately show ?thesis by (auto simp: kept_def)
qed

lemma kept_puback:
  assumes "agree (m, l)" "link_puback ok k (m, l) = Some (m', l')"
  shows "kept (Link_puback ok k) (m, l) (m', l')"
proof -
  obtain st where h: "handlePublishAcks ok k MQTTPuback l = (st, l')"
    and cb: "(if events l' \<noteq> events l then mqttCallback (PUBACK k) m else Some m) = Some m'"
    using assms(2) by (auto simp: link_puback_def split: prod.splits bind_splits)
  have ok: "app_ok m" "context_ok (ctx l)" using assms(1) by (simp_all add: agree_def)
  have d: "distinct (ids_of (sent_log l))" using ok(2) by (auto simp: context_ok_def dest: log_okD)
  note lib = puback_library [OF ok(2) h]
  from lib(2) show ?thesis
  proof (elim disjE conjE)
    assume del: "\<exists>r \<in> set (sent_log l). r = entry k MQTTQoS1 MQTTPubAckPending" "k \<noteq> 0" "events l' \<noteq> events l"
      "sent_log l' = log_del k (sent_log l)"
    have m': "app_ok m'" "nonzero (ids m') = nonzero (ids m) - {k}"
      using callback_puback [OF ok(1) del(2), of m'] cb del(3) by simp_all
    have "agree (m', l')" using assms(1) m' lib(1) del(4) by (auto simp: agree_def log_del_def)
    moreover have "stuck j (m', l')" if "stuck j (m, l)" for j
    proof -
      have "j \<noteq> k"
      proof
        assume "j = k"
        then have "entry k MQTTQoS1 MQTTPublishSend \<in> set (sent_log l)" using that by (simp add: stuck_def)
        then have "entry k MQTTQoS1 MQTTPublishSend = entry k MQTTQoS1 MQTTPubAckPending"
          using del(1) d by (intro inj_onD [of number_of "set (sent_log l)"]) (auto simp: ids_of_def distinct_map)
        then show False by simp
      qed
      then show ?thesis using that m'(2) del(4) by (auto simp: stuck_def log_del_def)
    qed
    ultimately show ?thesis by (auto simp: kept_def)
  next
    assume "events l' = events l" "sent_log l' = sent_log l"
    then show ?thesis using cb ok(1) lib(1) by (intro kept_same [OF assms(1)]) auto
  qed
qed

lemma incoming_outgoing:
  assumes "context_ok (ctx l)" "handleIncomingPublish ok k q payload l = (st, l')"
  shows "context_ok (ctx l') \<and> sent_log l' = sent_log l"
proof -
  obtain st1 s c where u: "MQTT_UpdateStatePublish k MQTT_RECEIVE q (ctx l) = (st1, s, c)" using prod_cases3 by blast
  have c: "context_ok c" "active (outgoingPublishRecords c) = sent_log l"
    using received_refines [OF assms(1) u]
    by (auto simp: flight_do_def abs_context_def split: prod.splits if_splits)
  have send: "context_ok (ctx l2) \<and> sent_log l2 = sent_log l1"
    if a: "sendPublishAcks ok k x l1 = (st2, l2)" and x: "getAckTypeToSend x \<noteq> Some MQTTPubrel" and ok1: "context_ok (ctx l1)"
    for x l1 st2 l2
  proof (cases "getAckTypeToSend x")
    case (Some t)
    then have t: "t \<noteq> MQTTPubrel" using x by simp
    obtain st3 s3 c3 where v: "MQTT_UpdateStateAck k t MQTT_SEND (ctx l1) = (st3, s3, c3)" using prod_cases3 by blast
    have "context_ok c3 \<and> active (outgoingPublishRecords c3) = sent_log l1"
      using ack_refines [OF ok1 v] t by (auto simp: flight_do_def abs_context_def split: prod.splits if_splits)
    then show ?thesis using a Some v ok1 by (auto simp: sendPublishAcks_def split: if_splits)
  qed (use a ok1 in \<open>auto simp: sendPublishAcks_def\<close>)
  have x: "getAckTypeToSend (MQTT_CalculateStatePublish MQTT_RECEIVE q) \<noteq> Some MQTTPubrel"
    by (cases q) (simp_all add: MQTT_CalculateStatePublish_def)
  have s: "st1 = MQTTSuccess \<Longrightarrow> s = Some (MQTT_CalculateStatePublish MQTT_RECEIVE q)"
    using u by (cases q) (auto simp: MQTT_UpdateStatePublish_def MQTT_CalculateStatePublish_def Let_def split: prod.splits if_splits)
  consider "st1 = MQTTSuccess" | "st1 = MQTTStateCollision" | "st1 \<noteq> MQTTSuccess" "st1 \<noteq> MQTTStateCollision" by blast
  then show ?thesis
  proof cases
    case 1
    then show ?thesis using send [OF _ x, of "l\<lparr>ctx := c, events := events l @ [Deliver k q payload]\<rparr>" st l'] assms(2) u s c
      by (simp add: handleIncomingPublish_def)
  next
    case 2
    then show ?thesis using send [OF _ x, of "l\<lparr>ctx := c\<rparr>" st l'] assms(2) u c
      by (simp add: handleIncomingPublish_def)
  next
    case 3
    then show ?thesis using assms(2) u c by (auto simp: handleIncomingPublish_def)
  qed
qed

lemma kept_connect:
  assumes "agree (m, l)" "link_connect tls rnd init stateful conn present oks oks' (m, l) = Some (r, m', l')"
  shows "kept (Link_connect tls rnd init stateful conn present oks oks') (m, l) (m', l')"
proof -
  let ?connected = "case connectToBrokerWithBackoffRetries tls rnd of Some (True, _) \<Rightarrow> True | _ \<Rightarrow> False"
  obtain st l1 where 1: "(if ?connected \<and> init \<and> stateful \<and> conn then resume_records present oks l
      else (MQTTRecvFailed, l)) = (st, l1)" by fastforce
  obtain f l2 where 2: "(if st = MQTTSuccess \<and> present then library_resend oks' [0..<MAX_OUTGOING_PUBLISHES] m l1
      else ((\<lambda>_. True), l1)) = (f, l2)" by fastforce
  have e: "EstablishMqttSession tls rnd init stateful (st = MQTTSuccess) present f m = Some (r, m')" and l': "l' = l2"
    using assms(2) 1 2 by (auto simp: link_connect_def Let_def split: bind_splits prod.splits)
  have ok: "app_ok m" "context_ok (ctx l)" "\<forall>k \<in> nonzero (ids m). entry k MQTTQoS1 MQTTPubAckPending \<in> set (sent_log l)"
    using assms(1) by (simp_all add: agree_def)
  have drop: "kept (Link_connect tls rnd init stateful conn present oks oks') (m, l) (m', l')"
    if "\<not> present" "st = MQTTSuccess"
  proof -
    have h: "resume_records present oks l = (st, l1)" using 1 that by (auto split: if_splits)
    have "m' = cleanupOutgoingPublishes (m\<lparr>nextPacketId := 1, mqttSessionEstablished := True\<rparr>)"
      using e that 1 by (auto simp: EstablishMqttSession_def Let_def split: option.splits if_splits prod.splits bool.splits)
    then have "app_ok m'" "nonzero (ids m') = {}"
      by (auto simp: app_ok_def cleanupOutgoingPublishes_def ids_def nonzero_def ids_ok_def map_replicate_const)
    moreover have "context_ok (ctx l2)"
      using h that 2 ok(2)
      by (auto simp: resume_records_def context_ok_def log_ok_def table_ok_def active_def Let_def ids_of_def)
    ultimately show ?thesis using that(1) l' by (simp add: kept_def agree_def)
  qed
  have same: "kept a (m, l) (m', l')" if "st \<noteq> MQTTSuccess \<or> present" for a
  proof -
    have l1: "context_ok (ctx l1) \<and> (\<forall>e \<in> set (sent_log l). qos e = MQTTQoS1 \<longrightarrow> e \<in> set (sent_log l1))"
    proof (cases "l1 = l")
      case False
      then have h: "resend_pubrels oks 0 MQTTStateNull l = (st, l1)"
        using 1 that by (auto simp: resume_records_def Let_def split: if_splits)
      show ?thesis using resend_pubrels_keeps [OF ok(2) h] resend_pubrels_first [OF ok(2) h] by simp
    qed (use ok in simp)
    have l2: "context_ok (ctx l2) \<and> sent_log l2 = sent_log l1"
    proof (cases "st = MQTTSuccess \<and> present")
      case True
      then have "library_resend oks' [0..<5] m l1 = (f, l2)" using 2 by simp
      from library_resend_keeps [OF this] show ?thesis using l1 ok by (simp add: app_ok_def)
    next
      case False
      then show ?thesis using 2 l1 by (auto split: if_splits)
    qed
    have "app_ok m' \<and> ids m' = ids m"
    proof (cases "st = MQTTSuccess")
      case True
      then have p: "present" using that by simp
      have "resend_from f [0..<5] (m\<lparr>nextPacketId := 1, mqttSessionEstablished := True\<rparr>) = Some (r, m')"
        using e True p 1
        by (auto simp: EstablishMqttSession_def handlePublishResend_def Let_def
            split: option.splits if_splits prod.splits bool.splits)
      from resend_from_keeps [OF _ _ this] show ?thesis
        using app_ok_same [OF ok(1), of "m\<lparr>nextPacketId := 1, mqttSessionEstablished := True\<rparr>"] by simp
    next
      case False
      then have "outgoingPublishPackets m' = outgoingPublishPackets m"
        using e by (auto simp: EstablishMqttSession_def Let_def split: option.splits if_splits prod.splits bool.splits)
      then show ?thesis by (rule app_ok_same [OF ok(1)])
    qed
    moreover have "context_ok (ctx l')" "\<And>e. e \<in> set (sent_log l) \<Longrightarrow> qos e = MQTTQoS1 \<Longrightarrow> e \<in> set (sent_log l')"
      using l1 l2 l' by simp_all
    ultimately show ?thesis by (intro kept_same [OF assms(1)]) simp_all
  qed
  show ?thesis
  proof (cases "st = MQTTSuccess \<and> \<not> present")
    case True
    then show ?thesis using drop by simp
  next
    case False
    then show ?thesis by (intro same) simp
  qed
qed

lemma kept_do: "agree s \<Longrightarrow> link_do a s = Some s' \<Longrightarrow> kept a s s'"
proof -
  assume s: "agree s" "link_do a s = Some s'"
  obtain m l m' l' where ml: "s = (m, l)" "s' = (m', l')" by (cases s; cases s') blast
  show ?thesis
  proof (cases a)
    case (Link_publish valid ok topic payload)
    then show ?thesis using s ml kept_publish by (auto simp: link_do_def)
  next
    case Link_number
    then have m': "outgoingPublishPackets m' = outgoingPublishPackets m" "l' = l"
      using s(2) ml by (auto simp: link_do_def MQTT_GetPacketId_def)
    have ok: "app_ok m" "context_ok (ctx l)" using s(1) ml by (simp_all add: agree_def)
    show ?thesis using app_ok_same [OF ok(1) m'(1)] ok(2) m'(2) s(1) unfolding ml
      by (intro kept_same) auto
  next
    case (Link_puback ok k)
    then show ?thesis using s ml kept_puback by (auto simp: link_do_def)
  next
    case (Link_incoming ok k q payload)
    then have "m' = m" "handleIncomingPublish ok k q payload l = (fst (handleIncomingPublish ok k q payload l), l')"
      using s(2) ml by (auto simp: link_do_def)
    then show ?thesis using s(1) incoming_outgoing [of l ok k q payload _ l'] unfolding ml
      by (intro kept_same) (auto simp: agree_def)
  next
    case (Link_connect tls rnd init stateful conn present oks oks')
    then show ?thesis using s ml kept_connect by (auto simp: link_do_def)
  qed
qed

lemma kept_run:
  "agree s \<Longrightarrow> link_run as s = Some s' \<Longrightarrow>
     agree s' \<and> ((\<forall>a \<in> set as. session_kept a) \<longrightarrow> stuck k s \<longrightarrow> stuck k s')"
proof (induction as arbitrary: s)
  case (Cons a as)
  obtain s1 where s1: "link_do a s = Some s1" "link_run as s1 = Some s'" using Cons.prems(2) by (auto split: bind_splits)
  have "kept a s s1" using kept_do [OF Cons.prems(1) s1(1)] .
  then show ?case using Cons.IH [OF _ s1(2)] by (auto simp: kept_def)
qed simp

text \<open>A session just established.\<close>

definition fresh_link :: link_state where
  "fresh_link = (fresh_session, \<lparr>ctx = no_flight, events = [], wire = []\<rparr>)"

lemma fresh_link_agrees [simp]: "agree fresh_link"
  by (auto simp: agree_def fresh_link_def fresh_session_def mqtt_boot_def app_ok_def ids_ok_def ids_def nonzero_def
      map_replicate_const)

text \<open>
  C14: one number never stands for two messages.  Over any sequence of publishes, subscriptions, incoming packets and
  reconnections - although the numbers start again with every connection and the tables do not - no two messages the
  application waits for have the same number, and the library waits for the acknowledgement of each of them.
\<close>

theorem numbers_never_shared:
  assumes "agree s" "link_run as s = Some (m, l)"
  shows "distinct (filter (\<lambda>k. k \<noteq> 0) (ids m))
    \<and> (\<forall>k \<in> set (ids m). k \<noteq> 0 \<longrightarrow> entry k MQTTQoS1 MQTTPubAckPending \<in> set (sent_log l))"
proof -
  have a: "agree (m, l)" using kept_run [OF assms] by simp
  have "distinct (filter (\<lambda>k. k \<noteq> 0) xs)" if "ids_ok xs" for xs
    using that
  proof (induction xs)
    case (Cons x xs)
    have "ids_ok xs" using Cons.prems unfolding ids_ok_def
      by (metis Suc_inject Suc_less_eq length_Cons nth_Cons_Suc)
    moreover have "x \<notin> set xs" if "x \<noteq> 0"
    proof
      assume "x \<in> set xs"
      then obtain i where i: "i < length xs" "xs ! i = x" by (auto simp: in_set_conv_nth)
      then show False using Cons.prems [unfolded ids_ok_def, rule_format, of 0 "Suc i"] that by auto
    qed
    ultimately show ?case using Cons.IH by auto
  qed simp
  then show ?thesis using a by (auto simp: agree_def app_ok_def nonzero_def)
qed

theorem numbers_never_shared_witness:
  "\<exists>m l. link_run [Link_publish True True 1 2, Link_publish True True 1 2,
      Link_connect (\<lambda>_. True) (\<lambda>_. 0) True True True True (\<lambda>_. True) (\<lambda>_. True),
      Link_publish True True 1 2, Link_puback True 1, Link_connect (\<lambda>_. True) (\<lambda>_. 0) True True True True (\<lambda>_. True) (\<lambda>_. True),
      Link_publish True True 1 2] fresh_link = Some (m, l)
    \<and> filter (\<lambda>k. k \<noteq> 0) (ids m) = [1, 2] \<and> distinct (filter (\<lambda>k. k \<noteq> 0) (ids m))"
proof -
  let ?as = "[Link_publish True True 1 2, Link_publish True True 1 2,
      Link_connect (\<lambda>_. True) (\<lambda>_. 0) True True True True (\<lambda>_. True) (\<lambda>_. True),
      Link_publish True True 1 2, Link_puback True 1, Link_connect (\<lambda>_. True) (\<lambda>_. 0) True True True True (\<lambda>_. True) (\<lambda>_. True),
      Link_publish True True 1 2]"
  have run: "map_option (\<lambda>(m, l). filter (\<lambda>k. k \<noteq> 0) (ids m)) (link_run ?as fresh_link) = Some [1, 2]"
    by code_simp
  then obtain m l where ml: "link_run ?as fresh_link = Some (m, l)" "filter (\<lambda>k. k \<noteq> 0) (ids m) = [1, 2]"
    by (auto simp del: link_run.simps)
  show ?thesis using numbers_never_shared [OF fresh_link_agrees ml(1)] ml by blast
qed

text \<open>
  A publish that cannot be written is forgotten by the application, but not by the library: as long as the
  broker keeps the session, through any number of reconnections, the application can never
  publish under that number again; each such publish is refused before anything is written.
\<close>

theorem failed_send_blocks_number:
  assumes "agree (m, l)" "nextPacketId m = k" "k \<noteq> 0" "k \<notin> set (ids_of (sent_log l))" "room l"
    and "getNextFreeIndexForOutgoingPublishes m \<noteq> None"
    and "link_publish True False topic payload (m, l) = Some (r, s1)"
    and "\<forall>a \<in> set as. session_kept a" "link_run as s1 = Some (m2, l2)" "nextPacketId m2 = k"
    and "link_publish valid ok topic' payload' (m2, l2) = Some (r', m3, l3)"
  shows "\<not> r \<and> \<not> r' \<and> wire l3 = wire l2"
proof -
  obtain m1 l1 where s1: "s1 = (m1, l1)" by (cases s1)
  have p: "link_publish True False topic payload (m, l) = Some (r, m1, l1)" using assms(7) s1 by simp
  have a1: "agree (m1, l1)" using kept_publish [OF assms(1) p] by (simp add: kept_def)
  have "\<not> r \<and> stuck k (m1, l1)"
    using assms(1) p
  proof (cases rule: link_publish_cases)
    case (slot i)
    have "k \<notin> nonzero (ids m)" using assms(1,4) by (force simp: agree_def ids_of_def)
    then show ?thesis using slot(7,8,9) assms(2-5) by (auto simp: stuck_def)
  qed (use assms(6) in simp)
  then have r: "\<not> r" "agree (m2, l2)" "stuck k (m2, l2)"
    using kept_run [OF a1] assms(8,9) s1 by auto
  have "k \<in> set (ids_of (sent_log l2))" using r(3) by (force simp: stuck_def ids_of_def)
  then have "\<not> r' \<and> wire l3 = wire l2"
    using link_publish_cases [OF r(2) assms(11), of "\<not> r' \<and> wire l3 = wire l2"] assms(10) by auto
  then show ?thesis using r(1) by simp
qed

theorem failed_send_blocks_number_witness:
  "\<exists>s1 m2 l2 m3 l3. link_publish True False 1 2 fresh_link = Some (False, s1)
    \<and> link_run [Link_connect (\<lambda>_. True) (\<lambda>_. 0) True True True True (\<lambda>_. True) (\<lambda>_. True)] s1 = Some (m2, l2)
    \<and> link_publish True True 1 2 (m2, l2) = Some (False, m3, l3) \<and> wire l3 = wire l2"
proof -
  let ?as = "[Link_connect (\<lambda>_. True) (\<lambda>_. 0) True True True True (\<lambda>_. True) (\<lambda>_. True)]"
  let ?s1 = "snd (the (link_publish True False 1 2 fresh_link))"
  let ?s2 = "the (link_run ?as ?s1)"
  let ?s3 = "snd (the (link_publish True True 1 2 ?s2))"
  have 1: "\<not> Option.is_none (link_publish True False 1 2 fresh_link)" "\<not> Option.is_none (link_run ?as ?s1)"
    "\<not> Option.is_none (link_publish True True 1 2 ?s2)" "nextPacketId (fst ?s2) = 1" by code_simp+
  obtain m2 l2 where s2: "?s2 = (m2, l2)" by fastforce
  obtain m3 l3 where s3: "?s3 = (m3, l3)" by fastforce
  obtain r where r: "link_publish True False 1 2 fresh_link = Some (r, ?s1)" using 1(1) by (auto simp: Option.is_none_def)
  have run: "link_run ?as ?s1 = Some (m2, l2)" using 1(2) s2 by (auto simp: Option.is_none_def simp del: link_run.simps)
  obtain r' where r': "link_publish True True 1 2 (m2, l2) = Some (r', m3, l3)"
    using 1(3) s3 unfolding s2 by (auto simp: Option.is_none_def)
  have f: "nextPacketId fresh_session = 1" "getNextFreeIndexForOutgoingPublishes fresh_session \<noteq> None" by code_simp+
  have e: "sent_log \<lparr>ctx = no_flight, events = [], wire = []\<rparr> = []" "length (outgoingPublishRecords no_flight) = 10"
    by code_simp+
  have "\<not> r \<and> \<not> r' \<and> wire l3 = wire l2"
    by (rule failed_send_blocks_number [OF fresh_link_agrees [unfolded fresh_link_def] f(1) _ _ _ f(2) r [unfolded fresh_link_def]
          _ run [unfolded fresh_link_def] _ r'])
      (use 1(4) s2 e in \<open>simp_all add: ids_of_def fresh_link_def\<close>)
  then show ?thesis using r run r'
    by (intro exI [of _ ?s1] exI [of _ m2] exI [of _ l2] exI [of _ m3] exI [of _ l3]) (simp del: link_run.simps)
qed

section \<open>After a reconnection\<close>

fun publish_many :: "nat \<Rightarrow> nat \<Rightarrow> nat \<Rightarrow> link_state \<Rightarrow> (bool list \<times> link_state) option" where
  "publish_many 0 topic payload s = Some ([], s)"
| "publish_many (Suc n) topic payload s =
     do { (r, s) \<leftarrow> link_publish True True topic payload s;
          (rs, s) \<leftarrow> publish_many n topic payload s; Some (r # rs, s) }"

lemma link_publish_total:
  assumes "topic \<in> dom (memory m)" "payload \<in> dom (memory m)"
  obtains r m' l' where "link_publish valid ok topic payload (m, l) = Some (r, m', l')"
proof (cases "getNextFreeIndexForOutgoingPublishes m")
  case None
  then show ?thesis using that [of False m l] by (simp add: link_publish_def PublishToTopic_def)
next
  case (Some i)
  obtain x y where mem: "memory m topic = Some x" "memory m payload = Some y" using assms by auto
  obtain st l1 where p: "library_publish (valid \<and> nextPacketId m \<noteq> 0) ok (nextPacketId m) MQTTQoS1
      (dup (outgoingPublishPackets m ! i)) y l = (st, l1)" by fastforce
  have "PublishToTopic b topic payload m \<noteq> None" for b
    using Some mem by (simp add: PublishToTopic_def MQTT_GetPacketId_def MQTT_Publish_def Let_def)
  then obtain r m' where "PublishToTopic (st = MQTTSuccess) topic payload m = Some (r, m')" by fast
  then show ?thesis using that [of r m' l1] Some mem p by (simp add: link_publish_def Let_def)
qed

lemma free_slot_same:
  assumes "app_ok m" "app_ok m'" "nonzero (ids m') = nonzero (ids m)"
  shows "getNextFreeIndexForOutgoingPublishes m' = None \<longleftrightarrow> getNextFreeIndexForOutgoingPublishes m = None"
proof -
  have "getNextFreeIndexForOutgoingPublishes x = None \<longleftrightarrow> card (nonzero (ids x)) = 5" if "app_ok x" for x
    using card_nonzero [of "ids x"] that
    by (auto simp: getNextFreeIndexForOutgoingPublishes_def free_index_None app_ok_def ids_def image_iff)
  then show ?thesis using assms by simp
qed

text \<open>
  C20: what the repeated numbers cost.  When the library still holds the numbers from the next one on - after a
  reconnection to the same session these are the messages that wait for their acknowledgement and those that could not be
  written - then each of them costs a message: that many publishes in a row are refused and lost, and the one after them
  takes the first free number.  This is for an application and a library in agreement (\<open>agree\<close>), while the
  application's table has a free place and the library's log has room, with topic and message in memory,
  when all writes succeed, no acknowledgement comes in between, and the numbers do not pass 65534; with the
  application's table full nothing would be sent at all.
\<close>

theorem pending_numbers_refuse_messages:
  assumes "agree (m, l)" "getNextFreeIndexForOutgoingPublishes m \<noteq> None" "room l"
    and "topic \<in> dom (memory m)" "payload \<in> dom (memory m)"
    and "unat (nextPacketId m) + n < 65535" "nextPacketId m \<noteq> 0"
    and "\<forall>i < n. nextPacketId m + of_nat i \<in> set (ids_of (sent_log l))"
    and "nextPacketId m + of_nat n \<notin> set (ids_of (sent_log l))"
  shows "\<exists>m' l'. publish_many (Suc n) topic payload (m, l) = Some (replicate n False @ [True], m', l')
    \<and> ids_of (sent_log l') = ids_of (sent_log l) @ [nextPacketId m + of_nat n]"
  using assms
proof (induction n arbitrary: m l)
  case 0
  obtain r m' l' where p: "link_publish True True topic payload (m, l) = Some (r, m', l')"
    using link_publish_total [OF 0(4,5)] by blast
  from 0(1) p show ?case
  proof (cases rule: link_publish_cases)
    case (slot i)
    then show ?thesis using 0(3,7,9) p by (auto simp: table_simps)
  qed (use 0(2) in simp)
next
  case (Suc n)
  let ?k = "nextPacketId m"
  obtain r m' l' where p: "link_publish True True topic payload (m, l) = Some (r, m', l')"
    using link_publish_total [OF Suc.prems(4,5)] by blast
  have k: "?k \<in> set (ids_of (sent_log l))" using Suc.prems(8) by force
  have lt: "unat ?k + 1 < 65535" using Suc.prems(6) by simp
  then have u: "unat (?k + 1) = unat ?k + 1" by (simp add: unat_word_ariths)
  have "?k \<noteq> 0xFFFF" using lt by auto
  from Suc.prems(1) p show ?case
  proof (cases rule: link_publish_cases)
    case (slot i)
    have r: "\<not> r" and log: "sent_log l' = sent_log l" and nz: "nonzero (ids m') = nonzero (ids m)"
      using slot(7,8,9) k by simp_all
    have n': "nextPacketId m' = ?k + 1" using slot(2) \<open>?k \<noteq> 0xFFFF\<close> by simp
    have a: "agree (m', l')" using kept_publish [OF Suc.prems(1) p] by (simp add: kept_def)
    have free: "getNextFreeIndexForOutgoingPublishes m' \<noteq> None"
      using free_slot_same [OF _ slot(4) nz] Suc.prems(1,2) by (simp add: agree_def)
    have "?k + 1 + of_nat i \<in> set (ids_of (sent_log l))" if "i < n" for i
      using Suc.prems(8) [rule_format, of "Suc i"] that by (simp add: ac_simps)
    moreover have "?k + 1 + of_nat n \<notin> set (ids_of (sent_log l))" using Suc.prems(9) by (simp add: ac_simps)
    moreover have "?k + 1 \<noteq> 0" using u by auto
    ultimately obtain m'' l'' where rest:
      "publish_many (Suc n) topic payload (m', l') = Some (replicate n False @ [True], m'', l'')"
      "ids_of (sent_log l'') = ids_of (sent_log l') @ [nextPacketId m' + of_nat n]"
      using Suc.prems(3-6) u n' log slot(3,6) Suc.IH [OF a free] by auto
    have "publish_many (Suc (Suc n)) topic payload (m, l) = Some (False # replicate n False @ [True], m'', l'')"
      using p r rest(1) by (subst publish_many.simps(2)) (simp del: publish_many.simps)
    then show ?thesis using rest(2) log n' by (intro exI [of _ m''] exI [of _ l'']) (simp add: ac_simps del: publish_many.simps)
  qed (use Suc.prems(2) in simp)
qed

text \<open>Three messages wait when the connection breaks; the next three are lost.\<close>

theorem pending_numbers_refuse_messages_witness:
  "\<exists>m l m' l'. link_run (replicate 3 (Link_publish True True 1 2)
        @ [Link_connect (\<lambda>_. True) (\<lambda>_. 0) True True True True (\<lambda>_. True) (\<lambda>_. True)]) fresh_link = Some (m, l)
    \<and> publish_many 4 1 2 (m, l) = Some ([False, False, False, True], m', l')
    \<and> ids_of (sent_log l') = [1, 2, 3, 4]"
proof -
  define as where "as = replicate 3 (Link_publish True True 1 2)
        @ [Link_connect (\<lambda>_. True) (\<lambda>_. 0) True True True True (\<lambda>_. True) (\<lambda>_. True)]"
  have c: "map_option (\<lambda>(m, l). (nextPacketId m, Option.is_none (getNextFreeIndexForOutgoingPublishes m),
      Option.is_none (memory m 1), Option.is_none (memory m 2), ids_of (sent_log l), length (outgoingPublishRecords (ctx l))))
      (link_run as fresh_link) = Some (1, False, False, False, [1, 2, 3], 10)" unfolding as_def by code_simp
  then obtain m l where ml: "link_run as fresh_link = Some (m, l)" and f: "nextPacketId m = 1"
    "getNextFreeIndexForOutgoingPublishes m \<noteq> None" "1 \<in> dom (memory m)" "2 \<in> dom (memory m)"
    "ids_of (sent_log l) = [1, 2, 3]" "length (outgoingPublishRecords (ctx l)) = 10"
    by (auto simp: Option.is_none_def)
  have a: "agree (m, l)" using kept_run [OF fresh_link_agrees ml] by simp
  have "length (ids_of (sent_log l)) = 3" using f(5) by simp
  then have room: "room l" using f(6) by (simp add: ids_of_def)
  have n: "\<forall>i < 3. nextPacketId m + of_nat i \<in> set (ids_of (sent_log l))"
    using f(1,5) by (auto simp: less_Suc_eq numeral_3_eq_3)
  obtain m' l' where "publish_many (Suc 3) 1 2 (m, l) = Some (replicate 3 False @ [True], m', l')"
    "ids_of (sent_log l') = ids_of (sent_log l) @ [nextPacketId m + of_nat 3]"
    using pending_numbers_refuse_messages [OF a f(2) room f(3,4) _ _ n] f(1,5) by auto
  moreover have "Suc 3 = (4 :: nat)" "replicate 3 False @ [True] = [False, False, False, True]" by (simp_all add: numeral_3_eq_3)
  ultimately show ?thesis using ml f(1,5) unfolding as_def
    by (intro exI [of _ m] exI [of _ l] exI [of _ m'] exI [of _ l']) (simp del: link_run.simps publish_many.simps)
qed

end
