(* ===== verification/Mqtt_Packets.thy ===== *)
theory Mqtt_Packets
  imports Mqtt_State "HOL-Library.Monad_Syntax"
begin

text \<open>
  The packets of the MQTT library on the wire: \<open>core_mqtt_serializer.c\<close>.  Pointers to the structures themselves are
  valid; a pointer to a text is \<open>None\<close> when it is null, and otherwise the memory from there on, with its length
  kept beside it as in the code.  A read or a write outside the memory has the result \<open>None\<close>.  \<open>size_t\<close>
  has 32 bits: sums that the caller controls are taken modulo \<open>2 ^ 32\<close>.
\<close>

section \<open>Data\<close>

record MQTTPublishInfo =
  pub_qos :: MQTTQoS
  retain :: bool
  dup :: bool
  pTopicName :: "u8 list option"
  topicNameLength :: u16
  pPayload :: "u8 list option"
  payloadLength :: nat

record MQTTSubscribeInfo =
  sub_qos :: MQTTQoS
  pTopicFilter :: "u8 list option"
  topicFilterLength :: u16

record MQTTConnectInfo =
  cleanSession :: bool
  keepAliveSeconds :: u16
  pClientIdentifier :: "u8 list option"
  clientIdentifierLength :: u16
  pUserName :: "u8 list option"
  userNameLength :: u16
  pPassword :: "u8 list option"
  passwordLength :: u16

record MQTTPacketInfo =
  packet_type :: u8
  pRemainingData :: "u8 list option"
  remainingLength :: nat
  headerLength :: nat

abbreviation (input) MQTT_MAX_REMAINING_LENGTH :: nat where "MQTT_MAX_REMAINING_LENGTH \<equiv> 268435455"
abbreviation (input) MQTT_REMAINING_LENGTH_INVALID :: nat where "MQTT_REMAINING_LENGTH_INVALID \<equiv> 268435456"

definition size_t :: "nat \<Rightarrow> nat" where
  "size_t n = n mod 2 ^ 32"

definition qos_number :: "MQTTQoS \<Rightarrow> u8" where
  "qos_number q = (case q of MQTTQoS0 \<Rightarrow> 0 | MQTTQoS1 \<Rightarrow> 1 | MQTTQoS2 \<Rightarrow> 2)"

definition high_byte :: "u16 \<Rightarrow> u8" where
  "high_byte x = ucast (drop_bit 8 x)"

definition low_byte :: "u16 \<Rightarrow> u8" where
  "low_byte x = ucast (x AND 0x00FF)"

definition decode16 :: "u8 list \<Rightarrow> nat \<Rightarrow> u16 option" where
  "decode16 xs i =
     (if i + 1 < length xs then Some (push_bit 8 (ucast (xs ! i)) OR ucast (xs ! (i + 1))) else None)"

section \<open>Writing\<close>

text \<open>A buffer with the index up to which it has been written.\<close>

type_synonym out = "u8 list \<times> nat"

definition put :: "u8 list \<Rightarrow> out \<Rightarrow> out option" where
  "put bs w =
     (case w of (buf, i) \<Rightarrow>
        if i + length bs \<le> length buf then Some (take i buf @ bs @ drop (i + length bs) buf, i + length bs) else None)"

definition load :: "u8 list option \<Rightarrow> nat \<Rightarrow> u8 list option" where
  "load p n = (case p of None \<Rightarrow> None | Some xs \<Rightarrow> if n \<le> length xs then Some (take n xs) else None)"

definition remainingLengthEncodedSize :: "nat \<Rightarrow> nat" where
  "remainingLengthEncodedSize n = (if n < 128 then 1 else if n < 16384 then 2 else if n < 2097152 then 3 else 4)"

function encodeRemainingLength :: "nat \<Rightarrow> out \<Rightarrow> out option" where
  "encodeRemainingLength n w =
     (let b = (of_nat (n mod 128) :: u8); r = n div 128; b = (if r > 0 then set_bit 7 b else b)
      in do { w \<leftarrow> put [b] w; if r > 0 then encodeRemainingLength r w else Some w })"
  by pat_completeness auto
termination by (relation "measure fst") auto

declare encodeRemainingLength.simps [simp del]

definition encodeString :: "u8 list option \<Rightarrow> u16 \<Rightarrow> out \<Rightarrow> out option" where
  "encodeString src len w =
     do { w \<leftarrow> put [high_byte len] w;
          w \<leftarrow> put [low_byte len] w;
          (case src of
             None \<Rightarrow> Some (fst w, snd w + unat len)
           | Some _ \<Rightarrow> do { bs \<leftarrow> load src (unat len); put bs w }) }"

subsection \<open>PUBLISH\<close>

definition calculatePublishPacketSize :: "MQTTPublishInfo \<Rightarrow> (nat \<times> nat) option" where
  "calculatePublishPacketSize p =
     (let size = unat (topicNameLength p) + 2;
          size = (if pub_qos p \<noteq> MQTTQoS0 then size + 2 else size);
          limit = MQTT_MAX_REMAINING_LENGTH - size - 1
      in if payloadLength p > limit then None
         else
           let size = size + payloadLength p; limit = limit - remainingLengthEncodedSize size
           in if payloadLength p > limit then None else Some (size, size + (1 + remainingLengthEncodedSize size)))"

definition MQTT_GetPublishPacketSize :: "MQTTPublishInfo \<Rightarrow> MQTTStatus \<times> (nat \<times> nat) option" where
  "MQTT_GetPublishPacketSize p =
     (if pTopicName p = None \<or> topicNameLength p = 0 then (MQTTBadParameter, None)
      else case calculatePublishPacketSize p of None \<Rightarrow> (MQTTBadParameter, None) | Some s \<Rightarrow> (MQTTSuccess, Some s))"

definition publish_flags :: "MQTTPublishInfo \<Rightarrow> u8" where
  "publish_flags p =
     (let f = 0x30;
          f = (case pub_qos p of MQTTQoS1 \<Rightarrow> set_bit 1 f | MQTTQoS2 \<Rightarrow> set_bit 2 f | MQTTQoS0 \<Rightarrow> f);
          f = (if retain p then set_bit 0 f else f)
      in if dup p then set_bit 3 f else f)"

definition serializePublishCommon :: "MQTTPublishInfo \<Rightarrow> nat \<Rightarrow> u16 \<Rightarrow> u8 list \<Rightarrow> bool \<Rightarrow> u8 list option" where
  "serializePublishCommon p rl k buf serializePayload =
     do { w \<leftarrow> put [publish_flags p] (buf, 0);
          w \<leftarrow> encodeRemainingLength rl w;
          w \<leftarrow> encodeString (pTopicName p) (topicNameLength p) w;
          w \<leftarrow> (if pub_qos p \<noteq> MQTTQoS0 then put [high_byte k, low_byte k] w else Some w);
          w \<leftarrow> (if payloadLength p > 0 \<and> serializePayload
                then do { bs \<leftarrow> load (pPayload p) (payloadLength p); put bs w } else Some w);
          Some (fst w) }"

definition MQTT_SerializePublish :: "MQTTPublishInfo \<Rightarrow> u16 \<Rightarrow> nat \<Rightarrow> u8 list \<Rightarrow> (MQTTStatus \<times> u8 list) option" where
  "MQTT_SerializePublish p k rl buf =
     (if payloadLength p > 0 \<and> pPayload p = None then Some (MQTTBadParameter, buf)
      else if pTopicName p = None \<or> topicNameLength p = 0 then Some (MQTTBadParameter, buf)
      else if pub_qos p \<noteq> MQTTQoS0 \<and> k = 0 then Some (MQTTBadParameter, buf)
      else if dup p \<and> pub_qos p = MQTTQoS0 then Some (MQTTBadParameter, buf)
      else if size_t (1 + remainingLengthEncodedSize rl + rl) > length buf then Some (MQTTNoMemory, buf)
      else do { buf \<leftarrow> serializePublishCommon p rl k buf True; Some (MQTTSuccess, buf) })"

text \<open>The header alone, and the size of it.\<close>

definition MQTT_SerializePublishHeader ::
  "MQTTPublishInfo \<Rightarrow> u16 \<Rightarrow> nat \<Rightarrow> u8 list \<Rightarrow> (MQTTStatus \<times> u8 list \<times> nat option) option" where
  "MQTT_SerializePublishHeader p k rl buf =
     (if pTopicName p = None \<or> topicNameLength p = 0 then Some (MQTTBadParameter, buf, None)
      else if pub_qos p \<noteq> MQTTQoS0 \<and> k = 0 then Some (MQTTBadParameter, buf, None)
      else if dup p \<and> pub_qos p = MQTTQoS0 then Some (MQTTBadParameter, buf, None)
      else
        let size = size_t (1 + remainingLengthEncodedSize rl + rl + (2 ^ 32 - size_t (payloadLength p)))
        in if size > length buf then Some (MQTTNoMemory, buf, None)
           else do { buf \<leftarrow> serializePublishCommon p rl k buf False; Some (MQTTSuccess, buf, Some size) })"

text \<open>\<open>MQTT_SerializePublishHeaderWithoutTopic\<close> checks nothing; the header ends with the length of the topic.\<close>

definition MQTT_SerializePublishHeaderWithoutTopic ::
  "MQTTPublishInfo \<Rightarrow> nat \<Rightarrow> u8 list \<Rightarrow> (MQTTStatus \<times> u8 list \<times> nat) option" where
  "MQTT_SerializePublishHeaderWithoutTopic p rl buf =
     do { w \<leftarrow> put [publish_flags p] (buf, 0);
          w \<leftarrow> encodeRemainingLength rl w;
          w \<leftarrow> put [high_byte (topicNameLength p)] w;
          w \<leftarrow> put [low_byte (topicNameLength p)] w;
          Some (MQTTSuccess, fst w, 1 + remainingLengthEncodedSize rl + 2) }"

subsection \<open>CONNECT\<close>

definition MQTT_GetConnectPacketSize ::
  "MQTTConnectInfo \<Rightarrow> MQTTPublishInfo option \<Rightarrow> MQTTStatus \<times> (nat \<times> nat) option" where
  "MQTT_GetConnectPacketSize c will =
     (if clientIdentifierLength c = 0 \<or> pClientIdentifier c = None then (MQTTBadParameter, None)
      else if (case will of Some p \<Rightarrow> payloadLength p > 65535 | None \<Rightarrow> False) then (MQTTBadParameter, None)
      else
        let size = 10 + (unat (clientIdentifierLength c) + 2);
            size = (case will of Some p \<Rightarrow> size + (unat (topicNameLength p) + 2 + payloadLength p + 2) | None \<Rightarrow> size);
            size = (if pUserName c \<noteq> None then size + (unat (userNameLength c) + 2) else size);
            size = (if pPassword c \<noteq> None then size + (unat (passwordLength c) + 2) else size)
        in (MQTTSuccess, Some (size, size + (1 + remainingLengthEncodedSize size))))"

definition connect_flags :: "MQTTConnectInfo \<Rightarrow> MQTTPublishInfo option \<Rightarrow> u8" where
  "connect_flags c will =
     (let f = 0;
          f = (if cleanSession c then set_bit 1 f else f);
          f = (if pUserName c \<noteq> None then set_bit 7 f else f);
          f = (if pPassword c \<noteq> None then set_bit 6 f else f)
      in case will of
           None \<Rightarrow> f
         | Some p \<Rightarrow>
             let f = set_bit 2 f;
                 f = (case pub_qos p of MQTTQoS1 \<Rightarrow> set_bit 3 f | MQTTQoS2 \<Rightarrow> set_bit 4 f | MQTTQoS0 \<Rightarrow> f)
             in if retain p then set_bit 5 f else f)"

definition MQTT_SerializeConnectFixedHeader ::
  "out \<Rightarrow> MQTTConnectInfo \<Rightarrow> MQTTPublishInfo option \<Rightarrow> nat \<Rightarrow> out option" where
  "MQTT_SerializeConnectFixedHeader w c will rl =
     do { w \<leftarrow> put [0x10] w;
          w \<leftarrow> encodeRemainingLength rl w;
          w \<leftarrow> encodeString (Some [0x4D, 0x51, 0x54, 0x54]) 4 w;
          w \<leftarrow> put [4] w;
          w \<leftarrow> put [connect_flags c will] w;
          put [high_byte (keepAliveSeconds c), low_byte (keepAliveSeconds c)] w }"

definition serializeConnectPacket ::
  "MQTTConnectInfo \<Rightarrow> MQTTPublishInfo option \<Rightarrow> nat \<Rightarrow> u8 list \<Rightarrow> u8 list option" where
  "serializeConnectPacket c will rl buf =
     do { w \<leftarrow> MQTT_SerializeConnectFixedHeader (buf, 0) c will rl;
          w \<leftarrow> encodeString (pClientIdentifier c) (clientIdentifierLength c) w;
          w \<leftarrow> (case will of
                 None \<Rightarrow> Some w
               | Some p \<Rightarrow>
                   do { w \<leftarrow> encodeString (pTopicName p) (topicNameLength p) w;
                        encodeString (pPayload p) (of_nat (payloadLength p)) w });
          w \<leftarrow> (if pUserName c \<noteq> None then encodeString (pUserName c) (userNameLength c) w else Some w);
          w \<leftarrow> (if pPassword c \<noteq> None then encodeString (pPassword c) (passwordLength c) w else Some w);
          Some (fst w) }"

definition MQTT_SerializeConnect ::
  "MQTTConnectInfo \<Rightarrow> MQTTPublishInfo option \<Rightarrow> nat \<Rightarrow> u8 list \<Rightarrow> (MQTTStatus \<times> u8 list) option" where
  "MQTT_SerializeConnect c will rl buf =
     (if (case will of Some p \<Rightarrow> pTopicName p = None | None \<Rightarrow> False) then Some (MQTTBadParameter, buf)
      else if size_t (rl + remainingLengthEncodedSize rl + 1) > length buf then Some (MQTTNoMemory, buf)
      else do { buf \<leftarrow> serializeConnectPacket c will rl buf; Some (MQTTSuccess, buf) })"

subsection \<open>SUBSCRIBE and UNSUBSCRIBE\<close>

datatype MQTTSubscriptionType = MQTT_SUBSCRIBE | MQTT_UNSUBSCRIBE

definition subscription_size :: "MQTTSubscriptionType \<Rightarrow> MQTTSubscribeInfo \<Rightarrow> nat" where
  "subscription_size t s = unat (topicFilterLength s) + 2 + (if t = MQTT_SUBSCRIBE then 1 else 0)"

definition calculateSubscriptionPacketSize ::
  "MQTTSubscribeInfo list \<Rightarrow> MQTTSubscriptionType \<Rightarrow> MQTTStatus \<times> (nat \<times> nat) option" where
  "calculateSubscriptionPacketSize ss t =
     (let size = size_t (2 + (\<Sum>s \<leftarrow> ss. subscription_size t s));
          bad = list_ex (\<lambda>s. topicFilterLength s = 0 \<or> pTopicFilter s = None) ss
      in if size > MQTT_MAX_REMAINING_LENGTH \<or> bad then (MQTTBadParameter, None)
         else (MQTTSuccess, Some (size, size + (1 + remainingLengthEncodedSize size))))"

definition MQTT_GetSubscribePacketSize :: "MQTTSubscribeInfo list \<Rightarrow> MQTTStatus \<times> (nat \<times> nat) option" where
  "MQTT_GetSubscribePacketSize ss =
     (if length ss = 0 then (MQTTBadParameter, None) else calculateSubscriptionPacketSize ss MQTT_SUBSCRIBE)"

definition MQTT_GetUnsubscribePacketSize :: "MQTTSubscribeInfo list \<Rightarrow> MQTTStatus \<times> (nat \<times> nat) option" where
  "MQTT_GetUnsubscribePacketSize ss =
     (if length ss = 0 then (MQTTBadParameter, None) else calculateSubscriptionPacketSize ss MQTT_UNSUBSCRIBE)"

definition validateSubscriptionSerializeParams :: "MQTTSubscribeInfo list \<Rightarrow> u16 \<Rightarrow> nat \<Rightarrow> u8 list \<Rightarrow> MQTTStatus" where
  "validateSubscriptionSerializeParams ss k rl buf =
     (if length ss = 0 then MQTTBadParameter
      else if k = 0 then MQTTBadParameter
      else if size_t (1 + remainingLengthEncodedSize rl + rl) > length buf then MQTTNoMemory
      else MQTTSuccess)"

definition MQTT_SerializeSubscribeHeader :: "nat \<Rightarrow> out \<Rightarrow> u16 \<Rightarrow> out option" where
  "MQTT_SerializeSubscribeHeader rl w k =
     do { w \<leftarrow> put [0x82] w; w \<leftarrow> encodeRemainingLength rl w; put [high_byte k, low_byte k] w }"

definition MQTT_SerializeUnsubscribeHeader :: "nat \<Rightarrow> out \<Rightarrow> u16 \<Rightarrow> out option" where
  "MQTT_SerializeUnsubscribeHeader rl w k =
     do { w \<leftarrow> put [0xA2] w; w \<leftarrow> encodeRemainingLength rl w; put [high_byte k, low_byte k] w }"

fun subscribe_entries :: "MQTTSubscribeInfo list \<Rightarrow> out \<Rightarrow> out option" where
  "subscribe_entries [] w = Some w"
| "subscribe_entries (s # ss) w =
     do { w \<leftarrow> encodeString (pTopicFilter s) (topicFilterLength s) w;
          w \<leftarrow> put [qos_number (sub_qos s)] w;
          subscribe_entries ss w }"

fun unsubscribe_entries :: "MQTTSubscribeInfo list \<Rightarrow> out \<Rightarrow> out option" where
  "unsubscribe_entries [] w = Some w"
| "unsubscribe_entries (s # ss) w =
     do { w \<leftarrow> encodeString (pTopicFilter s) (topicFilterLength s) w; unsubscribe_entries ss w }"

definition MQTT_SerializeSubscribe ::
  "MQTTSubscribeInfo list \<Rightarrow> u16 \<Rightarrow> nat \<Rightarrow> u8 list \<Rightarrow> (MQTTStatus \<times> u8 list) option" where
  "MQTT_SerializeSubscribe ss k rl buf =
     (let st = validateSubscriptionSerializeParams ss k rl buf
      in if st \<noteq> MQTTSuccess then Some (st, buf)
         else do { w \<leftarrow> MQTT_SerializeSubscribeHeader rl (buf, 0) k; w \<leftarrow> subscribe_entries ss w; Some (st, fst w) })"

definition MQTT_SerializeUnsubscribe ::
  "MQTTSubscribeInfo list \<Rightarrow> u16 \<Rightarrow> nat \<Rightarrow> u8 list \<Rightarrow> (MQTTStatus \<times> u8 list) option" where
  "MQTT_SerializeUnsubscribe ss k rl buf =
     (let st = validateSubscriptionSerializeParams ss k rl buf
      in if st \<noteq> MQTTSuccess then Some (st, buf)
         else do { w \<leftarrow> MQTT_SerializeUnsubscribeHeader rl (buf, 0) k; w \<leftarrow> unsubscribe_entries ss w; Some (st, fst w) })"

subsection \<open>Packets of a fixed size\<close>

definition MQTT_SerializeAck :: "u8 list \<Rightarrow> u8 \<Rightarrow> u16 \<Rightarrow> MQTTStatus \<times> u8 list" where
  "MQTT_SerializeAck buf t k =
     (if length buf < 4 then (MQTTNoMemory, buf)
      else if k = 0 then (MQTTBadParameter, buf)
      else if t \<in> {0x40, 0x50, 0x62, 0x70} then (MQTTSuccess, buf[0 := t, 1 := 2, 2 := high_byte k, 3 := low_byte k])
      else (MQTTBadParameter, buf))"

definition MQTT_SerializeDisconnect :: "u8 list \<Rightarrow> MQTTStatus \<times> u8 list" where
  "MQTT_SerializeDisconnect buf =
     (if length buf < 2 then (MQTTNoMemory, buf) else (MQTTSuccess, buf[0 := 0xE0, 1 := 0]))"

definition MQTT_SerializePingreq :: "u8 list \<Rightarrow> MQTTStatus \<times> u8 list" where
  "MQTT_SerializePingreq buf =
     (if length buf < 2 then (MQTTNoMemory, buf) else (MQTTSuccess, buf[0 := 0xC0, 1 := 0]))"

section \<open>Reading\<close>

text \<open>
  The loop of \<open>processRemainingLength\<close>: \<open>idx\<close> bytes of the buffer have been received, \<open>n\<close> bytes of the length
  are decoded, so that the multiplier is \<open>128 ^ n\<close>.
\<close>

function length_loop :: "u8 list \<Rightarrow> nat \<Rightarrow> nat \<Rightarrow> nat \<Rightarrow> (MQTTStatus \<times> nat \<times> nat) option" where
  "length_loop buf idx rl n =
     (if 128 ^ n > (2097152 :: nat) then Some (MQTTBadResponse, MQTT_REMAINING_LENGTH_INVALID, n)
      else if \<not> idx > n + 1 then Some (MQTTNeedMoreBytes, rl, n)
      else if \<not> n + 1 < length buf then None
      else
        let b = buf ! (n + 1); rl = rl + unat (b AND 0x7F) * 128 ^ n; n = n + 1
        in if rl = MQTT_REMAINING_LENGTH_INVALID then Some (MQTTSuccess, rl, n)
           else if b AND 0x80 \<noteq> 0 then length_loop buf idx rl n
           else Some (MQTTSuccess, rl, n))"
  by pat_completeness auto
termination by (relation "measure (\<lambda>(buf, idx, rl, n). idx - n)") auto

declare length_loop.simps [simp del]

definition processRemainingLength :: "u8 list \<Rightarrow> nat \<Rightarrow> MQTTPacketInfo \<Rightarrow> (MQTTStatus \<times> MQTTPacketInfo) option" where
  "processRemainingLength buf idx pkt =
     do { (st, rl, n) \<leftarrow> length_loop buf idx 0 0;
          (if st \<noteq> MQTTSuccess then Some (st, pkt)
           else if n \<noteq> remainingLengthEncodedSize rl then Some (MQTTBadResponse, pkt)
           else Some (MQTTSuccess, pkt\<lparr>remainingLength := rl, headerLength := n + 1\<rparr>)) }"

definition incomingPacketValid :: "u8 \<Rightarrow> bool" where
  "incomingPacketValid t \<longleftrightarrow>
     (t AND 0xF0) \<in> {0x20, 0x30, 0x40, 0x50, 0x70, 0x90, 0xB0, 0xD0} \<or> (t AND 0xF0 = 0x60 \<and> t AND 0x02 > 0)"

definition MQTT_ProcessIncomingPacketTypeAndLength ::
  "u8 list \<Rightarrow> nat \<Rightarrow> MQTTPacketInfo \<Rightarrow> (MQTTStatus \<times> MQTTPacketInfo) option" where
  "MQTT_ProcessIncomingPacketTypeAndLength buf idx pkt =
     (if idx < 1 then Some (MQTTNoDataAvailable, pkt)
      else case buf of
        [] \<Rightarrow> None
      | b # _ \<Rightarrow>
          let pkt = pkt\<lparr>packet_type := b\<rparr>
          in if incomingPacketValid b then processRemainingLength buf idx pkt else Some (MQTTBadResponse, pkt))"

text \<open>
  The same read byte by byte from the connection.  \<open>recv i\<close> is the result of the read number \<open>i\<close>: \<open>Inr b\<close> one byte,
  \<open>Inl True\<close> no byte, \<open>Inl False\<close> an error.
\<close>

lemma multiplier_bound: "\<not> 128 ^ n > (2097152 :: nat) \<longleftrightarrow> n < 4"
  using power_strict_increasing_iff [of "128 :: nat" 3 n] by auto

function recv_length :: "(nat \<Rightarrow> bool + u8) \<Rightarrow> nat \<Rightarrow> nat \<Rightarrow> nat \<times> nat" where
  "recv_length recv rl n =
     (if 128 ^ n > (2097152 :: nat) then (MQTT_REMAINING_LENGTH_INVALID, n)
      else case recv (n + 1) of
        Inl _ \<Rightarrow> (MQTT_REMAINING_LENGTH_INVALID, n)
      | Inr b \<Rightarrow>
          let rl = rl + unat (b AND 0x7F) * 128 ^ n; n = n + 1
          in if rl = MQTT_REMAINING_LENGTH_INVALID then (rl, n)
             else if b AND 0x80 \<noteq> 0 then recv_length recv rl n
             else (rl, n))"
  by pat_completeness auto
termination
  by (relation "measure (\<lambda>(recv, rl, n). 4 - n)") (auto simp: multiplier_bound)

declare recv_length.simps [simp del]

definition getRemainingLength :: "(nat \<Rightarrow> bool + u8) \<Rightarrow> nat" where
  "getRemainingLength recv =
     (let (rl, n) = recv_length recv 0 0
      in if rl \<noteq> MQTT_REMAINING_LENGTH_INVALID \<and> n \<noteq> remainingLengthEncodedSize rl
         then MQTT_REMAINING_LENGTH_INVALID else rl)"

definition MQTT_GetIncomingPacketTypeAndLength ::
  "(nat \<Rightarrow> bool + u8) \<Rightarrow> MQTTPacketInfo \<Rightarrow> MQTTStatus \<times> MQTTPacketInfo" where
  "MQTT_GetIncomingPacketTypeAndLength recv pkt =
     (case recv 0 of
        Inr b \<Rightarrow>
          let pkt = pkt\<lparr>packet_type := b\<rparr>
          in if incomingPacketValid b then
               let pkt = pkt\<lparr>remainingLength := getRemainingLength recv\<rparr>
               in (if remainingLength pkt = MQTT_REMAINING_LENGTH_INVALID then MQTTBadResponse else MQTTSuccess, pkt)
             else (MQTTBadResponse, pkt)
      | Inl True \<Rightarrow> (MQTTNoDataAvailable, pkt)
      | Inl False \<Rightarrow> (MQTTRecvFailed, pkt))"

subsection \<open>PUBLISH\<close>

definition checkPublishRemainingLength :: "nat \<Rightarrow> MQTTQoS \<Rightarrow> nat \<Rightarrow> MQTTStatus" where
  "checkPublishRemainingLength rl q minimum =
     (if q = MQTTQoS0 then (if rl < minimum then MQTTBadResponse else MQTTSuccess)
      else if rl < minimum + 2 then MQTTBadResponse else MQTTSuccess)"

definition processPublishFlags :: "u8 \<Rightarrow> MQTTPublishInfo \<Rightarrow> MQTTStatus \<times> MQTTPublishInfo" where
  "processPublishFlags f p =
     (if bit f 2 \<and> bit f 1 then (MQTTBadResponse, p)
      else (MQTTSuccess,
        p\<lparr>pub_qos := (if bit f 2 then MQTTQoS2 else if bit f 1 then MQTTQoS1 else MQTTQoS0),
          retain := bit f 0, dup := bit f 3\<rparr>))"

definition deserializePublish ::
  "MQTTPacketInfo \<Rightarrow> u16 \<Rightarrow> MQTTPublishInfo \<Rightarrow> (MQTTStatus \<times> u16 \<times> MQTTPublishInfo) option" where
  "deserializePublish pkt k p =
     (let (st, p) = processPublishFlags (packet_type pkt AND 0x0F) p; rl = remainingLength pkt
      in if st \<noteq> MQTTSuccess then Some (st, k, p)
         else if checkPublishRemainingLength rl (pub_qos p) 3 \<noteq> MQTTSuccess then Some (MQTTBadResponse, k, p)
         else do {
           data \<leftarrow> pRemainingData pkt;
           len \<leftarrow> decode16 data 0;
           let p = p\<lparr>topicNameLength := len\<rparr> in
           if checkPublishRemainingLength rl (pub_qos p) (unat len + 2) \<noteq> MQTTSuccess then Some (MQTTBadResponse, k, p)
           else do {
             let p = p\<lparr>pTopicName := Some (drop 2 data)\<rparr>; id = 2 + unat len in
             if pub_qos p \<noteq> MQTTQoS0 then do {
               k \<leftarrow> decode16 data id;
               let size = rl - unat len - 2 - 2 in
               if k = 0 then Some (MQTTBadResponse, k, p)
               else Some (MQTTSuccess, k,
                 p\<lparr>payloadLength := size, pPayload := (if size \<noteq> 0 then Some (drop (id + 2) data) else None)\<rparr>) }
             else
               let size = rl - unat len - 2 in
               Some (MQTTSuccess, k,
                 p\<lparr>payloadLength := size, pPayload := (if size \<noteq> 0 then Some (drop id data) else None)\<rparr>) } })"

definition MQTT_DeserializePublish ::
  "MQTTPacketInfo \<Rightarrow> u16 \<Rightarrow> MQTTPublishInfo \<Rightarrow> (MQTTStatus \<times> u16 \<times> MQTTPublishInfo) option" where
  "MQTT_DeserializePublish pkt k p =
     (if packet_type pkt AND 0xF0 \<noteq> 0x30 then Some (MQTTBadParameter, k, p)
      else if pRemainingData pkt = None then Some (MQTTBadParameter, k, p)
      else deserializePublish pkt k p)"

subsection \<open>Acknowledgements\<close>

text \<open>The first byte that is read past the end makes the result \<open>None\<close>.\<close>

definition byte_at :: "u8 list \<Rightarrow> nat \<Rightarrow> u8 option" where
  "byte_at xs i = (if i < length xs then Some (xs ! i) else None)"

definition deserializeConnack :: "MQTTPacketInfo \<Rightarrow> bool \<Rightarrow> (MQTTStatus \<times> bool) option" where
  "deserializeConnack pkt present =
     (if remainingLength pkt \<noteq> 2 then Some (MQTTBadResponse, present)
      else do {
        data \<leftarrow> pRemainingData pkt;
        b0 \<leftarrow> byte_at data 0;
        if b0 OR 0x01 \<noteq> 0x01 then Some (MQTTBadResponse, present)
        else do {
          b1 \<leftarrow> byte_at data 1;
          let present = (b0 AND 0x01 = 0x01) in
          if present \<and> b1 \<noteq> 0 then Some (MQTTBadResponse, present)
          else if b1 > 5 then Some (MQTTBadResponse, present)
          else if b1 > 0 then Some (MQTTServerRefused, present)
          else Some (MQTTSuccess, present) } })"

fun suback_codes :: "u8 list \<Rightarrow> MQTTStatus \<Rightarrow> MQTTStatus" where
  "suback_codes [] st = st"
| "suback_codes (c # cs) st =
     (if c \<in> {0, 1, 2} then suback_codes cs st
      else if c = 0x80 then suback_codes cs MQTTServerRefused
      else MQTTBadResponse)"

definition readSubackStatus :: "nat \<Rightarrow> u8 list \<Rightarrow> MQTTStatus option" where
  "readSubackStatus n cs = do { cs \<leftarrow> load (Some cs) n; Some (suback_codes cs MQTTSuccess) }"

definition deserializeSuback :: "MQTTPacketInfo \<Rightarrow> u16 \<Rightarrow> (MQTTStatus \<times> u16) option" where
  "deserializeSuback pkt k =
     (if remainingLength pkt < 3 then Some (MQTTBadResponse, k)
      else do {
        data \<leftarrow> pRemainingData pkt;
        k \<leftarrow> decode16 data 0;
        if k = 0 then Some (MQTTBadResponse, k)
        else do { st \<leftarrow> readSubackStatus (remainingLength pkt - 2) (drop 2 data); Some (st, k) } })"

definition deserializeSimpleAck :: "MQTTPacketInfo \<Rightarrow> u16 \<Rightarrow> (MQTTStatus \<times> u16) option" where
  "deserializeSimpleAck pkt k =
     (if remainingLength pkt \<noteq> 2 then Some (MQTTBadResponse, k)
      else do {
        data \<leftarrow> pRemainingData pkt;
        k \<leftarrow> decode16 data 0;
        Some (if k = 0 then MQTTBadResponse else MQTTSuccess, k) })"

definition deserializePingresp :: "MQTTPacketInfo \<Rightarrow> MQTTStatus" where
  "deserializePingresp pkt = (if remainingLength pkt \<noteq> 0 then MQTTBadResponse else MQTTSuccess)"

text \<open>\<open>k\<close> is the identifier before the call, \<open>present\<close> the session bit, \<open>None\<close> for a null pointer.\<close>

definition MQTT_DeserializeAck ::
  "MQTTPacketInfo \<Rightarrow> u16 \<Rightarrow> bool option \<Rightarrow> (MQTTStatus \<times> u16 \<times> bool option) option" where
  "MQTT_DeserializeAck pkt k present =
     (let t = packet_type pkt
      in if present = None \<and> t = 0x20 then Some (MQTTBadParameter, k, present)
         else if pRemainingData pkt = None \<and> t \<noteq> 0xD0 then Some (MQTTBadParameter, k, present)
         else if t = 0x20 then
           do { (st, b) \<leftarrow> deserializeConnack pkt (the present); Some (st, k, Some b) }
         else if t = 0x90 then do { (st, k) \<leftarrow> deserializeSuback pkt k; Some (st, k, present) }
         else if t = 0xD0 then Some (deserializePingresp pkt, k, present)
         else if t \<in> {0xB0, 0x40, 0x50, 0x62, 0x70} then
           do { (st, k) \<leftarrow> deserializeSimpleAck pkt k; Some (st, k, present) }
         else Some (MQTTBadResponse, k, present))"

end
