(* ===== verification/Mqtt_Packet_Props.thy ===== *)
theory Mqtt_Packet_Props
  imports Mqtt_Packets
begin

text \<open>
  What is written is what is announced and what is read back: the lemmas and theorems on the packets of
  \<open>Mqtt_Packets\<close>.
\<close>

section \<open>Writing in pieces\<close>

lemma put_append: "put (xs @ ys) w = Option.bind (put xs w) (put ys)"
  by (cases w) (auto simp: put_def min_absorb2 ac_simps)

lemma put_Nil: "snd w \<le> length (fst w) \<Longrightarrow> put [] w = Some w"
  by (cases w) (simp add: put_def)

lemma put_put [simp]: "Option.bind (put xs w) (put ys) = put (xs @ ys) w"
  by (simp add: put_append)

lemma put_put_rest [simp]:
  "Option.bind (put xs w) (\<lambda>w. Option.bind (put ys w) f) = Option.bind (put (xs @ ys) w) f"
  unfolding put_append by (cases "put xs w") simp_all

text \<open>The bytes of a length: seven bits each, the lowest first, the high bit set on all but the last.\<close>

fun length_bytes :: "nat \<Rightarrow> u8 list" where
  "length_bytes n = (if n < 128 then [of_nat n] else set_bit 7 (of_nat (n mod 128)) # length_bytes (n div 128))"

declare length_bytes.simps [simp del]

lemma encodeRemainingLength_put: "encodeRemainingLength n w = put (length_bytes n) w"
proof (induction n arbitrary: w rule: length_bytes.induct)
  case (1 n)
  show ?case
  proof (cases "n < 128")
    case True
    then show ?thesis
      by (subst encodeRemainingLength.simps) (simp add: length_bytes.simps [of n])
  next
    case False
    then have "n div 128 > 0" by simp
    then show ?thesis using 1 False
      by (subst encodeRemainingLength.simps) (simp add: length_bytes.simps [of n])
  qed
qed

lemma length_length_bytes: "n < 268435456 \<Longrightarrow> length (length_bytes n) = remainingLengthEncodedSize n"
  by (simp add: length_bytes.simps [of n] length_bytes.simps [of "n div 128"]
      length_bytes.simps [of "n div 16384"] length_bytes.simps [of "n div 2097152"]
      remainingLengthEncodedSize_def div_less_iff_less_mult flip: div_mult2_eq)

lemma length_bytes_not_Nil [simp]: "length_bytes n \<noteq> []"
  by (subst length_bytes.simps) simp

section \<open>The length read back\<close>

lemma low7 [simp]: "unat (b AND 0x7F) = unat (b :: u8) mod 128"
proof -
  have "unat (b AND 0x7F) = unat b AND unat (0x7F :: u8)" by (rule unsigned_and_eq)
  also have "\<dots> = take_bit 7 (unat b)" by (simp add: take_bit_eq_mask mask_eq_exp_minus_1)
  finally show ?thesis by (simp add: take_bit_eq_mod)
qed

lemma high_bit: "b AND 0x80 \<noteq> 0 \<longleftrightarrow> bit (b :: u8) 7"
  by (simp add: bit_iff_and_push_bit_not_eq_0)

lemma high_bit_less: "bit (b :: u8) 7 \<longleftrightarrow> unat b \<ge> 128"
proof -
  have "bit b 7 \<longleftrightarrow> bit (unat b) 7" by (simp only: bit_unsigned_iff) simp
  also have "\<dots> \<longleftrightarrow> odd (unat b div 128)" by (simp add: bit_iff_odd)
  finally have "bit b 7 \<longleftrightarrow> odd (unat b div 128)" .
  moreover have "unat b < 2 ^ LENGTH(8)" by (rule unsigned_less)
  then have "unat b div 128 = (if unat b < 128 then 0 else 1)" by (auto intro: div_nat_eqI)
  ultimately show ?thesis by simp
qed

lemma continued_byte:
  assumes "x < 128"
  shows "unat (set_bit 7 (of_nat x :: u8)) = x + 128"
proof -
  have x: "unat (of_nat x :: u8) = x" using assms by (simp add: unat_of_nat)
  then have "\<not> bit (of_nat x :: u8) 7" using assms by (simp add: high_bit_less)
  then have "set_bit 7 (of_nat x :: u8) = of_nat x + 0x80" by (simp add: set_bit_eq)
  then show ?thesis using assms x by (simp add: unat_word_ariths)
qed

lemma length_bytes_bound: "n < 128 ^ length (length_bytes n)"
proof (induction n rule: length_bytes.induct)
  case (1 n)
  then show ?case
    by (cases "n < 128") (simp_all add: length_bytes.simps [of n] div_less_iff_less_mult mult.commute)
qed

lemma less_power4: "m < 128 ^ l \<Longrightarrow> l \<le> 4 \<Longrightarrow> m < (268435456 :: nat)"
  using power_increasing [of l 4 "128 :: nat"] by simp

text \<open>The loop reads the bytes of a length that starts where it stands.\<close>

lemma length_loop_reads:
  "bs = length_bytes m \<Longrightarrow> take (length bs) (drop (n + 1) buf) = bs \<Longrightarrow> n + length bs \<le> 4 \<Longrightarrow> n + length bs < idx \<Longrightarrow>
     rl < 128 ^ n \<Longrightarrow> length_loop buf idx rl n = Some (MQTTSuccess, rl + m * 128 ^ n, n + length bs)"
proof (induction m arbitrary: bs n rl rule: length_bytes.induct)
  case (1 m)
  have n: "n < 4" using 1(4) 1(2) length_bytes_not_Nil [of m] by (cases "length_bytes m") auto
  have l: "n + 1 < length buf" using 1(3) 1(2) length_bytes_not_Nil [of m]
    by (metis append_Nil2 drop_all leI length_0_conv list.size(3) take_eq_Nil)
  have b: "buf ! (n + 1) = hd bs" using 1(2,3) l length_bytes_not_Nil [of m]
    by (metis hd_drop_conv_nth hd_take length_greater_0_conv)
  have size: "rl + m * 128 ^ n < 128 ^ (n + length bs)"
  proof -
    have "(m + 1) * 128 ^ n \<le> 128 ^ length bs * 128 ^ n"
      using length_bytes_bound [of m] 1(2) by (intro mult_right_mono) auto
    then show ?thesis using 1(6) by (simp add: power_add mult.commute)
  qed
  then have big: "rl + m * 128 ^ n < 268435456" using less_power4 1(4) by blast
  show ?case
  proof (cases "m < 128")
    case True
    then have bs: "bs = [of_nat m]" using 1(2) by (simp add: length_bytes.simps)
    then have h: "unat (hd bs) = m" using True by (simp add: unat_of_nat)
    then have "\<not> bit (hd bs) 7" using True by (simp add: high_bit_less)
    then show ?thesis using n l b h big 1(5) bs True multiplier_bound [of n] high_bit [of "hd bs"]
      by (subst length_loop.simps) (auto simp: Let_def)
  next
    case False
    let ?r = "m div 128"
    have bs: "bs = set_bit 7 (of_nat (m mod 128)) # length_bytes ?r" using 1(2) False by (simp add: length_bytes.simps [of m])
    then have h: "unat (hd bs) = m mod 128 + 128" using continued_byte [of "m mod 128"] by simp
    then have hb: "bit (hd bs) 7" by (simp add: high_bit_less)
    have tl: "take (length (tl bs)) (drop (n + 1 + 1) buf) = tl bs"
      using 1(3) bs by (metis Cons_nth_drop_Suc Suc_eq_plus1 l length_Cons list.sel(3) take_Suc_Cons)
    have rl: "rl + m mod 128 * 128 ^ n < 128 ^ (n + 1)"
    proof -
      have "(m mod 128 + 1) * 128 ^ n \<le> 128 * 128 ^ n" by (intro mult_right_mono) (auto simp: Suc_le_eq)
      then have "m mod 128 * 128 ^ n + 128 ^ n \<le> 128 * 128 ^ n" by (simp only: add_mult_distrib mult_1)
      moreover have "128 ^ (n + 1) = (128 :: nat) * 128 ^ n" by simp
      ultimately show ?thesis using 1(6) by linarith
    qed
    have "length_loop buf idx (rl + m mod 128 * 128 ^ n) (n + 1)
        = Some (MQTTSuccess, rl + m mod 128 * 128 ^ n + ?r * 128 ^ (n + 1), n + 1 + length (tl bs))"
      using 1(1) [OF False _ tl _ _ rl] bs 1(4,5) by simp
    moreover have "rl + m mod 128 * 128 ^ n + ?r * 128 ^ (n + 1) = rl + m * 128 ^ n"
    proof -
      have "m * 128 ^ n = (m mod 128 + ?r * 128) * 128 ^ n" by simp
      then have "m * 128 ^ n = m mod 128 * 128 ^ n + ?r * 128 * 128 ^ n" by (simp only: add_mult_distrib)
      then show ?thesis by simp
    qed
    moreover have "rl + m mod 128 * 128 ^ n < 268435456" using less_power4 [OF rl] n by simp
    ultimately show ?thesis using n l b h hb bs 1(5) multiplier_bound [of n] high_bit [of "hd bs"]
      by (subst length_loop.simps) (auto simp: Let_def)
  qed
qed

text \<open>And it accepts nothing else: what it read is the only encoding of the result.\<close>

fun value_of :: "u8 list \<Rightarrow> nat" where
  "value_of [] = 0"
| "value_of (b # bs) = unat b mod 128 + 128 * value_of bs"

fun continued :: "u8 list \<Rightarrow> bool" where
  "continued [] = False"
| "continued [b] = (unat b < 128)"
| "continued (b # bs) = (unat b \<ge> 128 \<and> continued bs)"

lemma length_loop_success:
  "length_loop buf idx rl n = Some (MQTTSuccess, r, n') \<Longrightarrow> rl < 128 ^ n \<Longrightarrow>
     \<exists>bs. continued bs \<and> n' = n + length bs \<and> n' \<le> 4 \<and> n' < idx \<and> n' < length buf
       \<and> take (length bs) (drop (n + 1) buf) = bs \<and> r = rl + value_of bs * 128 ^ n"
proof (induction buf idx rl n rule: length_loop.induct)
  case (1 buf idx rl n)
  let ?b = "buf ! (n + 1)"
  let ?rl = "rl + unat (?b AND 0x7F) * 128 ^ n"
  have h: "\<not> 128 ^ n > (2097152 :: nat)" "idx > n + 1" "n + 1 < length buf" using 1(2)
    by (auto simp: length_loop.simps [of buf idx rl n] split: if_splits)
  have n: "n < 4" using h(1) multiplier_bound by blast
  have rl: "?rl < 128 ^ (n + 1)"
  proof -
    have "(unat ?b mod 128 + 1) * 128 ^ n \<le> 128 * 128 ^ n" by (intro mult_right_mono) (auto simp: Suc_le_eq)
    then have "unat ?b mod 128 * 128 ^ n + 128 ^ n \<le> 128 * 128 ^ n" by (simp only: add_mult_distrib mult_1)
    moreover have "128 ^ (n + 1) = (128 :: nat) * 128 ^ n" by simp
    ultimately show ?thesis using 1(3) unfolding low7 by linarith
  qed
  then have inv: "?rl \<noteq> MQTT_REMAINING_LENGTH_INVALID" using less_power4 [OF rl] n by simp
  have d: "drop (n + 1) buf = ?b # drop (n + 1 + 1) buf" using h(3) by (simp add: Cons_nth_drop_Suc)
  show ?case
  proof (cases "bit ?b 7")
    case True
    then have c: "?b AND 0x80 \<noteq> 0" by (simp add: high_bit)
    have "length_loop buf idx ?rl (n + 1) = Some (MQTTSuccess, r, n')" using 1(2) h inv c
      by (simp add: length_loop.simps [of buf idx rl n] Let_def)
    from 1(1) [OF h(1) _ _ refl refl refl _ c this rl] h(2,3) inv
    obtain bs where bs: "continued bs" "n' = n + 1 + length bs" "n' \<le> 4" "n' < idx" "n' < length buf"
      "take (length bs) (drop (n + 1 + 1) buf) = bs" "r = ?rl + value_of bs * 128 ^ (n + 1)" by auto
    show ?thesis
    proof (intro exI [of _ "?b # bs"] conjI)
      show "continued (?b # bs)" using bs(1) True by (cases bs) (simp_all add: high_bit_less)
      show "take (length (?b # bs)) (drop (n + 1) buf) = ?b # bs" using d bs(6) by simp
      show "r = rl + value_of (?b # bs) * 128 ^ n" using bs(7) by (simp add: add_mult_distrib)
    qed (use bs in simp_all)
  next
    case False
    then have c: "?b AND 0x80 = 0" using high_bit [of ?b] by auto
    have r: "r = ?rl" "n' = n + 1" using 1(2) h inv c by (auto simp: length_loop.simps [of buf idx rl n] Let_def)
    show ?thesis
      by (rule exI [of _ "[?b]"]) (use False r h n d in \<open>auto simp: high_bit_less\<close>)
  qed
qed

lemma value_bound: "value_of bs < 128 ^ length bs"
proof (induction bs)
  case (Cons b bs)
  have "128 * (value_of bs + 1) \<le> 128 * 128 ^ length bs" using Cons.IH by (intro mult_left_mono) auto
  moreover have "unat b mod 128 < 128" by simp
  ultimately show ?case by simp
qed simp

lemma continued_encodes:
  "continued bs \<Longrightarrow> length bs = 1 \<or> value_of bs \<ge> 128 ^ (length bs - 1) \<Longrightarrow> length_bytes (value_of bs) = bs"
proof (induction bs rule: continued.induct)
  case (2 b)
  then show ?case by (simp add: length_bytes.simps)
next
  case (3 b b' bs)
  let ?v = "value_of (b' # bs)"
  have big: "unat b mod 128 + 128 * ?v \<ge> 128 * 128 ^ length bs" using 3(3) by simp
  have carry: "v \<ge> p" if "u + 128 * v \<ge> 128 * p" "u < 128" for u v p :: nat using that by linarith
  have "?v \<ge> 128 ^ length bs" by (rule carry [OF big]) simp
  then have IH: "length_bytes ?v = b' # bs" and v: "?v \<ge> 1" using 3(1,2) order_trans [of 1 "128 ^ length bs" ?v] by auto
  have "unat b < 2 ^ LENGTH(8)" by (rule unsigned_less)
  then have b: "unat b = unat b mod 128 + 128" using 3(2) by (simp add: le_mod_geq)
  then have "set_bit 7 (of_nat (unat b mod 128)) = b"
    using continued_byte [of "unat b mod 128"] by (simp add: unsigned_word_eqI)
  moreover have "value_of (b # b' # bs) = unat b mod 128 + 128 * ?v" by (rule value_of.simps)
  moreover have "length_bytes (u + 128 * w) = set_bit 7 (of_nat u) # length_bytes w" if "u < 128" "w \<ge> 1" for u w
    using that by (subst length_bytes.simps) (simp add: div_add1_eq)
  ultimately show ?case using IH v by (simp del: value_of.simps)
qed simp

lemma put_same:
  "put bs (buf, i) = Some (buf, i + length bs) \<longleftrightarrow> i + length bs \<le> length buf \<and> take (length bs) (drop i buf) = bs"
proof -
  have "take (length bs) (drop i buf) = bs"
    if "i + length bs \<le> length buf" "take i buf @ bs @ drop (i + length bs) buf = buf"
  proof -
    have "take (length bs) (drop i (take i buf @ bs @ drop (i + length bs) buf)) = bs" using that(1) by simp
    then show ?thesis unfolding that(2) .
  qed
  moreover have "take i buf @ bs @ drop (i + length bs) buf = buf" if "take (length bs) (drop i buf) = bs"
  proof -
    have "bs @ drop (i + length bs) buf = drop i buf"
      using append_take_drop_id [of "length bs" "drop i buf"] that by (simp add: add.commute)
    then show ?thesis by simp
  qed
  ultimately show ?thesis by (auto simp: put_def)
qed

text \<open>
  C24: the lengths of packets are read exactly as they are written: a length is accepted, with its header size, if and
  only if the received bytes are what the library itself writes for that length - the shortest encoding -, and
  any other sequence of bytes is refused or waited for.
\<close>

theorem length_accepted_iff_written:
  assumes "idx \<le> length buf"
  shows "processRemainingLength buf idx pkt = Some (MQTTSuccess, pkt') \<longleftrightarrow>
    (\<exists>m < 268435456. let n = remainingLengthEncodedSize m in
       n < idx \<and> encodeRemainingLength m (buf, 1) = Some (buf, 1 + n)
       \<and> pkt' = pkt\<lparr>remainingLength := m, headerLength := 1 + n\<rparr>)"
  (is "?read \<longleftrightarrow> ?written")
proof
  assume ?read
  then obtain m n where l: "length_loop buf idx 0 0 = Some (MQTTSuccess, m, n)" "n = remainingLengthEncodedSize m"
    "pkt' = pkt\<lparr>remainingLength := m, headerLength := n + 1\<rparr>"
    by (auto simp: processRemainingLength_def bind_eq_Some_conv split: if_splits)
  from length_loop_success [OF l(1)] obtain bs where bs: "continued bs" "n = length bs" "n \<le> 4" "n < idx" "n < length buf"
    "take (length bs) (drop 1 buf) = bs" "m = value_of bs" by auto
  have m: "m < 268435456" using less_power4 [OF value_bound] bs(2,3,7) by simp
  have "length bs = 1 \<or> value_of bs \<ge> 128 ^ (length bs - 1)"
    using l(2) bs(2,7) by (auto simp: remainingLengthEncodedSize_def split: if_splits)
  then have "length_bytes m = bs" using continued_encodes bs(1,7) by simp
  then have "encodeRemainingLength m (buf, 1) = Some (buf, 1 + n)"
    using put_same [of bs buf 1] bs(2,5,6) by (simp add: encodeRemainingLength_put)
  then show ?written using m l(2,3) bs(4) by (auto simp: Let_def)
next
  assume ?written
  then obtain m where m: "m < 268435456" "remainingLengthEncodedSize m < idx"
    "encodeRemainingLength m (buf, 1) = Some (buf, 1 + remainingLengthEncodedSize m)"
    "pkt' = pkt\<lparr>remainingLength := m, headerLength := 1 + remainingLengthEncodedSize m\<rparr>" by (auto simp: Let_def)
  then have "take (length (length_bytes m)) (drop 1 buf) = length_bytes m"
    using put_same [of "length_bytes m" buf 1] length_length_bytes [of m] by (simp add: encodeRemainingLength_put)
  moreover have "length (length_bytes m) \<le> 4" using length_length_bytes [OF m(1)]
    by (simp add: remainingLengthEncodedSize_def)
  ultimately have "length_loop buf idx 0 0 = Some (MQTTSuccess, m, remainingLengthEncodedSize m)"
    using length_loop_reads [OF refl, of m 0 buf idx 0] m(1,2) length_length_bytes [of m] by simp
  then show ?read using m(4) by (simp add: processRemainingLength_def)
qed

theorem length_accepted_iff_written_witness:
  "processRemainingLength [0x30, 0xC1, 0x02, 0x00] 4 \<lparr>packet_type = 0x30, pRemainingData = None, remainingLength = 0, headerLength = 0\<rparr>
    = Some (MQTTSuccess, \<lparr>packet_type = 0x30, pRemainingData = None, remainingLength = 321, headerLength = 3\<rparr>)
  \<and> processRemainingLength [0x30, 0x81, 0x00, 0x00] 4 \<lparr>packet_type = 0x30, pRemainingData = None, remainingLength = 0, headerLength = 0\<rparr>
    = Some (MQTTBadResponse, \<lparr>packet_type = 0x30, pRemainingData = None, remainingLength = 0, headerLength = 0\<rparr>)"
proof -
  let ?p = "\<lparr>packet_type = 0x30, pRemainingData = None, remainingLength = 0, headerLength = 0\<rparr> :: MQTTPacketInfo"
  let ?buf = "[0x30, 0xC1, 0x02, 0x00] :: u8 list"
  have enc: "encodeRemainingLength 321 (?buf, 1) = Some (?buf, 1 + remainingLengthEncodedSize 321)" by code_simp
  have size: "remainingLengthEncodedSize 321 = 2" by (simp add: remainingLengthEncodedSize_def)
  have len: "4 \<le> length ?buf" by simp
  have "processRemainingLength ?buf 4 ?p
    = Some (MQTTSuccess, ?p\<lparr>remainingLength := 321, headerLength := 1 + remainingLengthEncodedSize 321\<rparr>)"
    unfolding length_accepted_iff_written [OF len] Let_def
  proof (intro exI [of _ 321] conjI refl)
    show "321 < (268435456 :: nat)" by simp
    show "remainingLengthEncodedSize 321 < 4" by (simp add: size)
    show "encodeRemainingLength 321 (?buf, 1) = Some (?buf, 1 + remainingLengthEncodedSize 321)" by (rule enc)
  qed
  moreover have "processRemainingLength [0x30, 0x81, 0x00, 0x00] 4 ?p = Some (MQTTBadResponse, ?p)"
    by (simp add: processRemainingLength_def length_loop.simps [of _ _ 0 0] length_loop.simps [of _ _ _ "Suc 0"]
        remainingLengthEncodedSize_def Let_def)
  ultimately show ?thesis by (simp add: size)
qed

section \<open>Nothing is written past the announced size\<close>

text \<open>\<open>f\<close> writes the next \<open>n\<close> bytes, wherever there is room for them, and nothing behind them.\<close>

definition writes :: "nat \<Rightarrow> (out \<Rightarrow> out option) \<Rightarrow> bool" where
  "writes n f \<longleftrightarrow> (\<forall>buf i. i + n \<le> length buf \<longrightarrow>
     (\<exists>buf'. f (buf, i) = Some (buf', i + n) \<and> length buf' = length buf \<and> drop (i + n) buf' = drop (i + n) buf))"

named_theorems writes_intros \<open>how many bytes the pieces of a packet write\<close>

lemma writes_bind [writes_intros]:
  assumes "writes n f" "writes m g"
  shows "writes (n + m) (\<lambda>w. Option.bind (f w) g)"
proof (unfold writes_def, intro allI impI)
  fix buf :: "u8 list" and i assume "i + (n + m) \<le> length buf"
  then have room: "i + n \<le> length buf" "i + n + m \<le> length buf" by simp_all
  obtain b1 where b1: "f (buf, i) = Some (b1, i + n)" "length b1 = length buf" "drop (i + n) b1 = drop (i + n) buf"
    using assms(1) room(1) unfolding writes_def by blast
  obtain b2 where b2: "g (b1, i + n) = Some (b2, i + n + m)" "length b2 = length b1" "drop (i + n + m) b2 = drop (i + n + m) b1"
    using assms(2) room(2) b1(2) unfolding writes_def by metis
  have "drop (i + n + m) b1 = drop m (drop (i + n) b1)" by (simp add: add.commute)
  also have "\<dots> = drop (i + n + m) buf" using b1(3) by (simp add: add.commute)
  finally show "\<exists>buf'. Option.bind (f (buf, i)) g = Some (buf', i + (n + m)) \<and> length buf' = length buf
      \<and> drop (i + (n + m)) buf' = drop (i + (n + m)) buf"
    using b1 b2 by (simp add: add.assoc)
qed

lemma writes_put [writes_intros]: "writes (length bs) (put bs)"
  by (auto simp: writes_def put_def)

lemma writes_none [writes_intros]: "writes 0 Some"
  by (simp add: writes_def)

lemma writes_if [writes_intros]:
  "(c \<Longrightarrow> writes a f) \<Longrightarrow> (\<not> c \<Longrightarrow> writes b g) \<Longrightarrow>
     writes (if c then a else b) (\<lambda>w. if c then f w else g w)"
  by (cases c) simp_all

lemma writes_length [writes_intros]:
  "m < 268435456 \<Longrightarrow> writes (remainingLengthEncodedSize m) (encodeRemainingLength m)"
  using writes_put [of "length_bytes m"] by (simp add: encodeRemainingLength_put [abs_def] length_length_bytes)

text \<open>The memory behind a pointer is as long as the length beside it says.\<close>

definition readable :: "u8 list option \<Rightarrow> nat \<Rightarrow> bool" where
  "readable p n \<longleftrightarrow> (case p of None \<Rightarrow> True | Some xs \<Rightarrow> n \<le> length xs)"

lemma writes_string [writes_intros]:
  assumes "readable p (unat len)"
  shows "writes (unat len + 2) (encodeString p len)"
proof (cases p)
  case None
  show ?thesis by (auto simp: writes_def encodeString_def None put_def add.commute)
next
  case (Some xs)
  then have "encodeString p len = (\<lambda>w. put ([high_byte len] @ [low_byte len] @ take (unat len) xs) w)"
    using assms by (simp add: fun_eq_iff encodeString_def readable_def load_def)
  then show ?thesis
    using assms Some writes_put [of "[high_byte len] @ [low_byte len] @ take (unat len) xs"] by (simp add: readable_def)
qed

text \<open>The same for a piece that ends the packet and hands back the buffer through \<open>h\<close>.\<close>

definition ends :: "nat \<Rightarrow> (u8 list \<Rightarrow> 'a) \<Rightarrow> (out \<Rightarrow> 'a option) \<Rightarrow> bool" where
  "ends n h f \<longleftrightarrow> (\<forall>buf i. i + n \<le> length buf \<longrightarrow>
     (\<exists>buf'. f (buf, i) = Some (h buf') \<and> length buf' = length buf \<and> drop (i + n) buf' = drop (i + n) buf))"

lemma ends_bind [writes_intros]:
  assumes "writes n f" "ends m h g"
  shows "ends (n + m) h (\<lambda>w. Option.bind (f w) g)"
proof (unfold ends_def, intro allI impI)
  fix buf :: "u8 list" and i assume "i + (n + m) \<le> length buf"
  then have room: "i + n \<le> length buf" "i + n + m \<le> length buf" by simp_all
  obtain b1 where b1: "f (buf, i) = Some (b1, i + n)" "length b1 = length buf" "drop (i + n) b1 = drop (i + n) buf"
    using assms(1) room(1) unfolding writes_def by blast
  obtain b2 where b2: "g (b1, i + n) = Some (h b2)" "length b2 = length b1" "drop (i + n + m) b2 = drop (i + n + m) b1"
    using assms(2) room(2) b1(2) unfolding ends_def by metis
  have "drop (i + n + m) b1 = drop m (drop (i + n) b1)" by (simp add: add.commute)
  also have "\<dots> = drop (i + n + m) buf" using b1(3) by (simp add: add.commute)
  finally show "\<exists>buf'. Option.bind (f (buf, i)) g = Some (h buf') \<and> length buf' = length buf
      \<and> drop (i + (n + m)) buf' = drop (i + (n + m)) buf"
    using b1 b2 by (auto simp: add.assoc)
qed

lemma ends_fst [writes_intros]: "ends 0 (\<lambda>b. b) (\<lambda>w. Some (fst w))"
  "ends 0 (Pair st) (\<lambda>w. Some (st, fst w))"
  by (simp_all add: ends_def)

lemma ends_start:
  assumes "ends m h (\<lambda>w. Option.bind (put bs w) g)" "m = n" "n \<le> length buf"
  shows "\<exists>buf'. Option.bind (put bs (buf, 0)) g = Some (h buf') \<and> length buf' = length buf \<and> drop n buf' = drop n buf"
  using assms unfolding ends_def by (metis add_0)




definition readable_publish :: "MQTTPublishInfo \<Rightarrow> bool" where
  "readable_publish p \<longleftrightarrow> readable (pTopicName p) (unat (topicNameLength p)) \<and> readable (pPayload p) (payloadLength p)"




lemma encoded_size_bounds: "1 \<le> remainingLengthEncodedSize n" "remainingLengthEncodedSize n \<le> 4"
  by (simp_all add: remainingLengthEncodedSize_def)

lemma publish_size:
  assumes "MQTT_GetPublishPacketSize p = (MQTTSuccess, Some (rl, whole))"
  shows "rl = unat (topicNameLength p) + 2 + (if pub_qos p \<noteq> MQTTQoS0 then 2 else 0) + payloadLength p"
    "rl < 268435456" "whole = rl + (1 + remainingLengthEncodedSize rl)"
    "pTopicName p \<noteq> None" "topicNameLength p \<noteq> 0"
proof -
  have "unat (topicNameLength p) < 2 ^ LENGTH(16)" by (rule unsigned_less)
  then have t: "unat (topicNameLength p) < 65536" by simp
  have g: "pTopicName p \<noteq> None" "topicNameLength p \<noteq> 0" "calculatePublishPacketSize p = Some (rl, whole)"
    using assms by (auto simp: MQTT_GetPublishPacketSize_def split: if_splits option.splits)
  then show "pTopicName p \<noteq> None" "topicNameLength p \<noteq> 0" by simp_all
  show "rl = unat (topicNameLength p) + 2 + (if pub_qos p \<noteq> MQTTQoS0 then 2 else 0) + payloadLength p"
    "whole = rl + (1 + remainingLengthEncodedSize rl)"
    using g(3) by (auto simp: calculatePublishPacketSize_def Let_def split: if_splits)
  show "rl < 268435456" using g(3) t by (auto simp: calculatePublishPacketSize_def Let_def split: if_splits)
qed

lemma writes_load [writes_intros]:
  "readable p n \<Longrightarrow> p \<noteq> None \<Longrightarrow> writes n (\<lambda>w. Option.bind (load p n) (\<lambda>bs. put bs w))"
  using writes_put [of "take n (the p)"] by (cases p) (auto simp: readable_def load_def)

lemma publish_written:
  assumes "MQTT_GetPublishPacketSize p = (MQTTSuccess, Some (rl, whole))" "readable_publish p"
    and "payloadLength p > 0 \<longrightarrow> pPayload p \<noteq> None" "whole \<le> length buf"
  shows "\<exists>buf'. serializePublishCommon p rl k buf True = Some buf' \<and> length buf' = length buf
    \<and> drop whole buf' = drop whole buf"
  unfolding serializePublishCommon_def
  by (rule ends_start [OF _ _ assms(4)],
      (rule writes_intros | use assms(2,3) publish_size [OF assms(1)] in
        \<open>auto simp: readable_publish_def; fail\<close>)+)

lemma writes_option [writes_intros]:
  "(x = None \<Longrightarrow> writes a f) \<Longrightarrow> (\<And>p. x = Some p \<Longrightarrow> writes (b p) (g p)) \<Longrightarrow>
     writes (case x of None \<Rightarrow> a | Some p \<Rightarrow> b p) (\<lambda>w. case x of None \<Rightarrow> f w | Some p \<Rightarrow> g p w)"
  by (cases x) simp_all




lemma writes_subscribe [writes_intros]:
  "\<forall>s \<in> set ss. readable (pTopicFilter s) (unat (topicFilterLength s)) \<Longrightarrow>
     writes (\<Sum>s \<leftarrow> ss. subscription_size MQTT_SUBSCRIBE s) (subscribe_entries ss)"
proof (induction ss)
  case (Cons s ss)
  have "subscribe_entries (s # ss) = (\<lambda>w. Option.bind (encodeString (pTopicFilter s) (topicFilterLength s) w)
      (\<lambda>w. Option.bind (put [qos_number (sub_qos s)] w) (subscribe_entries ss)))"
    by (simp add: fun_eq_iff)
  moreover have "writes (unat (topicFilterLength s) + 2 + (length [qos_number (sub_qos s)] + (\<Sum>s \<leftarrow> ss. subscription_size MQTT_SUBSCRIBE s))) \<dots>"
    by (intro writes_bind writes_string writes_put) (use Cons in simp_all)
  ultimately show ?case by (simp add: subscription_size_def)
qed (simp add: writes_none [unfolded writes_def] writes_def)

lemma writes_unsubscribe [writes_intros]:
  "\<forall>s \<in> set ss. readable (pTopicFilter s) (unat (topicFilterLength s)) \<Longrightarrow>
     writes (\<Sum>s \<leftarrow> ss. subscription_size MQTT_UNSUBSCRIBE s) (unsubscribe_entries ss)"
proof (induction ss)
  case (Cons s ss)
  have "unsubscribe_entries (s # ss) = (\<lambda>w. Option.bind (encodeString (pTopicFilter s) (topicFilterLength s) w)
      (unsubscribe_entries ss))"
    by (simp add: fun_eq_iff)
  moreover have "writes (unat (topicFilterLength s) + 2 + (\<Sum>s \<leftarrow> ss. subscription_size MQTT_UNSUBSCRIBE s)) \<dots>"
    by (intro writes_bind writes_string) (use Cons in simp_all)
  ultimately show ?case by (simp add: subscription_size_def)
qed (simp add: writes_def)





















section \<open>A message read back\<close>

lemma decode16_bytes [simp]: "decode16 (high_byte k # low_byte k # xs) 0 = Some k"
proof -
  have "k AND 0x00FF = take_bit 8 k" by (simp add: take_bit_eq_mask mask_eq_exp_minus_1)
  then have "push_bit 8 (ucast (high_byte k)) OR ucast (low_byte k) = k"
    by (intro bit_word_eqI) (auto simp: high_byte_def low_byte_def bit_simps)
  then show ?thesis by (simp add: decode16_def)
qed

lemma decode16_drop: "decode16 xs n = decode16 (drop n xs) 0"
  by (auto simp: decode16_def)

text \<open>The bytes of a PUBLISH behind the length.\<close>

definition publish_body :: "MQTTPublishInfo \<Rightarrow> u16 \<Rightarrow> u8 list" where
  "publish_body p k =
     [high_byte (topicNameLength p), low_byte (topicNameLength p)] @ take (unat (topicNameLength p)) (the (pTopicName p))
     @ (if pub_qos p \<noteq> MQTTQoS0 then [high_byte k, low_byte k] else [])
     @ (if payloadLength p > 0 then take (payloadLength p) (the (pPayload p)) else [])"

lemma encodeString_put:
  assumes "unat len \<le> length xs"
  shows "encodeString (Some xs) len w = put ([high_byte len, low_byte len] @ take (unat len) xs) w"
proof -
  have "encodeString (Some xs) len w = put ([high_byte len] @ [low_byte len] @ take (unat len) xs) w"
    using assms by (simp add: encodeString_def load_def)
  then show ?thesis by simp
qed

lemma publish_bytes:
  assumes "serializePublishCommon p rl k buf True = Some buf'" "pTopicName p \<noteq> None" "readable_publish p"
    and "payloadLength p > 0 \<longrightarrow> pPayload p \<noteq> None"
  shows "\<exists>w. put ([publish_flags p] @ length_bytes rl @ publish_body p k) (buf, 0) = Some (buf', w)"
proof -
  obtain xs where xs: "pTopicName p = Some xs" "unat (topicNameLength p) \<le> length xs"
    using assms(2,3) by (auto simp: readable_publish_def readable_def)
  have "(if payloadLength p > 0 \<and> True then do { bs \<leftarrow> load (pPayload p) (payloadLength p); put bs w } else Some w)
      = (if payloadLength p > 0 then put (take (payloadLength p) (the (pPayload p))) w else Some w)" for w
    using assms(3,4) by (cases "pPayload p") (auto simp: load_def readable_publish_def readable_def)
  moreover have "map_option fst x = Option.bind x (\<lambda>w. Some (fst w))" for x :: "out option" by (cases x) simp_all
  ultimately have "serializePublishCommon p rl k buf True
      = map_option fst (put ([publish_flags p] @ length_bytes rl @ publish_body p k) (buf, 0))"
    by (cases "pub_qos p = MQTTQoS0"; cases "payloadLength p > 0")
      (simp_all add: serializePublishCommon_def xs encodeString_put encodeRemainingLength_put publish_body_def)
  then have "map_option fst (put ([publish_flags p] @ length_bytes rl @ publish_body p k) (buf, 0)) = Some buf'"
    using assms(1) by simp
  then show ?thesis unfolding map_option_eq_Some by auto
qed

lemma flags_read:
  "publish_flags p AND 0xF0 = 0x30" "incomingPacketValid (publish_flags p)"
  "processPublishFlags (publish_flags p AND 0x0F) p0
     = (MQTTSuccess, p0\<lparr>pub_qos := pub_qos p, retain := retain p, dup := dup p\<rparr>)"
  by (cases "pub_qos p"; cases "retain p"; cases "dup p";
      simp add: publish_flags_def incomingPacketValid_def processPublishFlags_def set_bit_eq_or bit_simps)+

text \<open>A message apart from where it lies in memory.\<close>

definition content :: "MQTTPublishInfo \<Rightarrow> MQTTQoS \<times> bool \<times> bool \<times> u8 list \<times> u8 list" where
  "content p =
     (pub_qos p, retain p, dup p, take (unat (topicNameLength p)) (the (pTopicName p)),
      if payloadLength p = 0 then [] else take (payloadLength p) (the (pPayload p)))"

lemma length_publish_body:
  assumes "MQTT_GetPublishPacketSize p = (MQTTSuccess, Some (rl, whole))" "readable_publish p"
    and "payloadLength p > 0 \<longrightarrow> pPayload p \<noteq> None"
  shows "length (publish_body p k) = rl"
  using publish_size [OF assms(1)] assms(2,3)
  by (auto simp: publish_body_def readable_publish_def readable_def)

lemma deserialize_body:
  assumes p: "MQTT_GetPublishPacketSize p = (MQTTSuccess, Some (rl, whole))" "readable_publish p"
    "payloadLength p > 0 \<longrightarrow> pPayload p \<noteq> None"
    and k: "pub_qos p \<noteq> MQTTQoS0 \<longrightarrow> k \<noteq> 0"
    and pkt: "packet_type pkt = publish_flags p" "remainingLength pkt = rl" "pRemainingData pkt = Some (publish_body p k @ rest)"
  shows "\<exists>q. MQTT_DeserializePublish pkt k0 p0 = Some (MQTTSuccess, if pub_qos p = MQTTQoS0 then k0 else k, q)
    \<and> content q = content p"
proof -
  note n = publish_size [OF p(1)]
  obtain xs where xs: "pTopicName p = Some xs" "unat (topicNameLength p) \<le> length xs"
    using n(4) p(2) by (auto simp: readable_publish_def readable_def)
  have t: "unat (topicNameLength p) \<ge> 1" using n(5) by (simp add: unat_gt_0 Suc_le_eq)
  define data where "data = publish_body p k @ rest"
  have mem: "pRemainingData pkt = Some data" using pkt(3) by (simp add: data_def)
  let ?id = "2 + unat (topicNameLength p)"
  let ?payload = "if payloadLength p > 0 then take (payloadLength p) (the (pPayload p)) else []"
  have len: "decode16 data 0 = Some (topicNameLength p)" by (simp add: publish_body_def data_def)
  have topic: "take (unat (topicNameLength p)) (drop 2 data) = take (unat (topicNameLength p)) xs"
    using xs by (simp add: publish_body_def data_def)
  have behind: "drop ?id data = (if pub_qos p \<noteq> MQTTQoS0 then [high_byte k, low_byte k] else []) @ ?payload @ rest"
    using xs by (simp add: publish_body_def data_def)
  have paylen: "payloadLength p > 0 \<longrightarrow> payloadLength p \<le> length (the (pPayload p))"
    using p(2,3) by (auto simp: readable_publish_def readable_def)
  have check: "checkPublishRemainingLength rl (pub_qos p) 3 = MQTTSuccess"
    "checkPublishRemainingLength rl (pub_qos p) (unat (topicNameLength p) + 2) = MQTTSuccess"
    using n(1) t by (auto simp: checkPublishRemainingLength_def)
  show ?thesis
  proof (cases "pub_qos p = MQTTQoS0")
    case True
    then show ?thesis using pkt(1,2) mem len topic behind paylen check n(1) xs
      by (simp add: MQTT_DeserializePublish_def deserializePublish_def flags_read Let_def content_def)
  next
    case False
    have id: "decode16 data ?id = Some k" using behind False by (subst decode16_drop) simp
    have "drop (?id + 2) data = drop 2 (drop ?id data)" by (simp only: drop_drop add.commute [of _ 2])
    also have "\<dots> = ?payload @ rest" unfolding behind using False by simp
    finally have pay: "drop (?id + 2) data = ?payload @ rest" .
    show ?thesis using pkt(1,2) mem len topic id pay paylen check n(1) xs k False
      by (simp add: MQTT_DeserializePublish_def deserializePublish_def flags_read Let_def content_def)
  qed
qed

text \<open>
  C22: a message survives the wire.  When the library has announced the size of a PUBLISH and serialized it into a buffer - whatever
  the buffer held, and whatever follows in it -, then the receiving side finds exactly the announced size in
  the fixed header, and reads back the quality of service, both flags, the topic, the payload and the number.
\<close>

theorem publish_read_back:
  assumes "MQTT_GetPublishPacketSize p = (MQTTSuccess, Some (rl, whole))" "readable_publish p"
    and "MQTT_SerializePublish p k rl buf = Some (MQTTSuccess, buf')" "whole \<le> idx"
  shows "\<exists>pkt q. MQTT_ProcessIncomingPacketTypeAndLength buf' idx pkt0 = Some (MQTTSuccess, pkt)
    \<and> headerLength pkt + remainingLength pkt = whole
    \<and> MQTT_DeserializePublish (pkt\<lparr>pRemainingData := Some (drop (headerLength pkt) buf')\<rparr>) 0 p0
        = Some (MQTTSuccess, if pub_qos p = MQTTQoS0 then 0 else k, q)
    \<and> content q = content p"
proof -
  note n = publish_size [OF assms(1)]
  have ok: "payloadLength p > 0 \<longrightarrow> pPayload p \<noteq> None" "pub_qos p \<noteq> MQTTQoS0 \<longrightarrow> k \<noteq> 0"
    and ser: "serializePublishCommon p rl k buf True = Some buf'"
    using assms(3) by (auto simp: MQTT_SerializePublish_def bind_eq_Some_conv split: if_splits)
  let ?lb = "length_bytes rl" and ?body = "publish_body p k"
  obtain w where "put ([publish_flags p] @ ?lb @ ?body) (buf, 0) = Some (buf', w)"
    using publish_bytes [OF ser n(4) assms(2) ok(1)] by blast
  then obtain rest where buf': "buf' = publish_flags p # ?lb @ ?body @ rest" by (auto simp: put_def split: if_splits)
  have lb: "length ?lb = remainingLengthEncodedSize rl" by (rule length_length_bytes [OF n(2)])
  have "length_loop buf' idx 0 0 = Some (MQTTSuccess, 0 + rl * 128 ^ 0, 0 + length ?lb)"
    by (rule length_loop_reads [OF refl]) (use lb encoded_size_bounds [of rl] n(3) assms(4) buf' in simp_all)
  then have head: "MQTT_ProcessIncomingPacketTypeAndLength buf' idx pkt0
    = Some (MQTTSuccess, pkt0\<lparr>packet_type := publish_flags p, remainingLength := rl, headerLength := length ?lb + 1\<rparr>)"
    (is "_ = Some (_, ?pkt)")
    using assms(4) n(3) lb
    by (simp add: MQTT_ProcessIncomingPacketTypeAndLength_def processRemainingLength_def flags_read buf' Let_def)
  obtain q where "MQTT_DeserializePublish (?pkt\<lparr>pRemainingData := Some (?body @ rest)\<rparr>) 0 p0
      = Some (MQTTSuccess, if pub_qos p = MQTTQoS0 then 0 else k, q)" "content q = content p"
    using deserialize_body [OF assms(1,2) ok, of "?pkt\<lparr>pRemainingData := Some (?body @ rest)\<rparr>" rest 0 p0] by auto
  then show ?thesis using head n(3) lb by (intro exI [of _ ?pkt] exI [of _ q]) (simp add: buf')
qed

theorem publish_read_back_witness:
  "\<exists>buf' pkt q.
     MQTT_SerializePublish \<lparr>pub_qos = MQTTQoS1, retain = False, dup = True, pTopicName = Some [0x61, 0x2F, 0x62],
       topicNameLength = 3, pPayload = Some [1, 2], payloadLength = 2\<rparr> 258 9 (replicate 12 0xFF) = Some (MQTTSuccess, buf')
     \<and> MQTT_ProcessIncomingPacketTypeAndLength buf' 12
         \<lparr>packet_type = 0, pRemainingData = None, remainingLength = 0, headerLength = 0\<rparr> = Some (MQTTSuccess, pkt)
     \<and> headerLength pkt + remainingLength pkt = 11 \<and> content q = (MQTTQoS1, False, True, [0x61, 0x2F, 0x62], [1, 2])"
proof -
  let ?p = "\<lparr>pub_qos = MQTTQoS1, retain = False, dup = True, pTopicName = Some [0x61, 0x2F, 0x62],
       topicNameLength = 3, pPayload = Some [1, 2], payloadLength = 2\<rparr> :: MQTTPublishInfo"
  have s: "MQTT_GetPublishPacketSize ?p = (MQTTSuccess, Some (9, 11))"
    by (simp add: MQTT_GetPublishPacketSize_def calculatePublishPacketSize_def remainingLengthEncodedSize_def Let_def)
  have r: "readable_publish ?p" by (simp add: readable_publish_def readable_def)
  have "11 \<le> length (replicate 12 (0xFF :: u8))" by simp
  then obtain b where b: "serializePublishCommon ?p 9 258 (replicate 12 0xFF) True = Some b"
    using publish_written [OF s r, of "replicate 12 0xFF" 258] by auto
  then have w: "MQTT_SerializePublish ?p 258 9 (replicate 12 0xFF) = Some (MQTTSuccess, b)"
    by (simp add: MQTT_SerializePublish_def size_t_def remainingLengthEncodedSize_def)
  have "content ?p = (MQTTQoS1, False, True, [0x61, 0x2F, 0x62], [1, 2])" by (simp add: content_def)
  then show ?thesis
    using publish_read_back [OF s r w, of 12 "\<lparr>packet_type = 0, pRemainingData = None, remainingLength = 0, headerLength = 0\<rparr>" ?p] w
    by auto
qed

section \<open>Nothing is read past the packet\<close>

lemma decode16_local: "i + 1 < length d \<Longrightarrow> decode16 (d @ rest) i = decode16 d i" "i + 1 < length d \<Longrightarrow> \<exists>k. decode16 d i = Some k"
  by (simp_all add: decode16_def nth_append)

lemma byte_at_local: "i < length d \<Longrightarrow> byte_at (d @ rest) i = byte_at d i" "i < length d \<Longrightarrow> \<exists>b. byte_at d i = Some b"
  by (simp_all add: byte_at_def nth_append)

lemma load_local: "n \<le> length d \<Longrightarrow> load (Some (d @ rest)) n = load (Some d) n" "n \<le> length d \<Longrightarrow> \<exists>x. load (Some d) n = Some x"
  by (simp_all add: load_def)

lemma content_local:
  assumes "2 + unat len \<le> length d" "off + n \<le> length d"
  shows "content (p\<lparr>topicNameLength := len, pTopicName := Some (drop 2 (d @ rest)), payloadLength := n,
      pPayload := if n \<noteq> 0 then Some (drop off (d @ rest)) else None\<rparr>)
    = content (p\<lparr>topicNameLength := len, pTopicName := Some (drop 2 d), payloadLength := n,
      pPayload := if n \<noteq> 0 then Some (drop off d) else None\<rparr>)
    \<and> readable_publish (p\<lparr>topicNameLength := len, pTopicName := Some (drop 2 d), payloadLength := n,
      pPayload := if n \<noteq> 0 then Some (drop off d) else None\<rparr>)"
  using assms by (auto simp: content_def readable_publish_def readable_def)

lemma deserializePublish_local:
  assumes d: "length d = remainingLength pkt"
  shows "\<exists>st k q q'. deserializePublish (pkt\<lparr>pRemainingData := Some d\<rparr>) k0 p0 = Some (st, k, q)
    \<and> deserializePublish (pkt\<lparr>pRemainingData := Some (d @ rest)\<rparr>) k0 p0 = Some (st, k, q')
    \<and> (st = MQTTSuccess \<longrightarrow> content q' = content q \<and> readable_publish q)"
proof -
  obtain st p where f: "processPublishFlags (packet_type pkt AND 0x0F) p0 = (st, p)" by fastforce
  let ?rl = "remainingLength pkt" and ?q = "pub_qos p"
  consider "st \<noteq> MQTTSuccess" | "st = MQTTSuccess" "checkPublishRemainingLength ?rl ?q 3 \<noteq> MQTTSuccess"
    | "st = MQTTSuccess" "checkPublishRemainingLength ?rl ?q 3 = MQTTSuccess" by blast
  then show ?thesis
  proof cases
    case 3
    then have "?rl \<ge> 3" by (auto simp: checkPublishRemainingLength_def split: if_splits)
    then have "0 + 1 < length d" using d by simp
    from decode16_local(1) [OF this, of rest] decode16_local(2) [OF this]
    obtain len where len: "decode16 d 0 = Some len" "decode16 (d @ rest) 0 = Some len" by auto
    show ?thesis
    proof (cases "checkPublishRemainingLength ?rl ?q (unat len + 2) = MQTTSuccess")
      case True
      then have fits: "unat len + 2 + (if ?q = MQTTQoS0 then 0 else 2) \<le> length d" using d
        by (auto simp: checkPublishRemainingLength_def split: if_splits)
      show ?thesis
      proof (cases "?q = MQTTQoS0")
        case q: True
        have "deserializePublish (pkt\<lparr>pRemainingData := Some x\<rparr>) k0 p0 = Some (MQTTSuccess, k0,
            p\<lparr>topicNameLength := len, pTopicName := Some (drop 2 x), payloadLength := ?rl - unat len - 2,
              pPayload := if ?rl - unat len - 2 \<noteq> 0 then Some (drop (2 + unat len) x) else None\<rparr>)"
          if "decode16 x 0 = Some len" for x
          using f 3 True q that by (simp add: deserializePublish_def Let_def)
        note r = this [OF len(1)] this [OF len(2)]
        show ?thesis unfolding r
          using content_local [where len = len and d = d and off = "2 + unat len" and n = "?rl - unat len - 2" and p = p and rest = rest] fits q d
          by simp
      next
        case q: False
        then have "2 + unat len + 1 < length d" using fits by simp
        from decode16_local(1) [OF this, of rest] decode16_local(2) [OF this]
        obtain k where k: "decode16 d (2 + unat len) = Some k" "decode16 (d @ rest) (2 + unat len) = Some k" by auto
        have "deserializePublish (pkt\<lparr>pRemainingData := Some x\<rparr>) k0 p0 =
            (if k = 0 then Some (MQTTBadResponse, k, p\<lparr>topicNameLength := len, pTopicName := Some (drop 2 x)\<rparr>)
             else Some (MQTTSuccess, k,
               p\<lparr>topicNameLength := len, pTopicName := Some (drop 2 x), payloadLength := ?rl - unat len - 2 - 2,
                 pPayload := if ?rl - unat len - 2 - 2 \<noteq> 0 then Some (drop (2 + unat len + 2) x) else None\<rparr>))"
          if "decode16 x 0 = Some len" "decode16 x (2 + unat len) = Some k" for x
          using f 3 True q that by (simp add: deserializePublish_def Let_def)
        note r = this [OF len(1) k(1)] this [OF len(2) k(2)]
        show ?thesis unfolding r
          using content_local [where len = len and d = d and off = "2 + unat len + 2" and n = "?rl - unat len - 2 - 2" and p = p and rest = rest] fits q d
          by (cases "k = 0") simp_all
      qed
    qed (use f 3 len in \<open>simp add: deserializePublish_def\<close>)
  qed (use f in \<open>simp_all add: deserializePublish_def\<close>)
qed

lemma deserializeAck_local:
  assumes d: "length d = remainingLength pkt"
  shows "\<exists>st k b. MQTT_DeserializeAck (pkt\<lparr>pRemainingData := Some d\<rparr>) k0 present = Some (st, k, b)
    \<and> MQTT_DeserializeAck (pkt\<lparr>pRemainingData := Some (d @ rest)\<rparr>) k0 present = Some (st, k, b)"
proof -
  have two: "\<exists>k. decode16 d 0 = Some k \<and> decode16 (d @ rest) 0 = Some k" if "length d \<ge> 2"
    using decode16_local(1) [of 0 d rest] decode16_local(2) [of 0 d] that by auto
  have connack: "\<exists>r. deserializeConnack (pkt\<lparr>pRemainingData := Some d\<rparr>) b = Some r
      \<and> deserializeConnack (pkt\<lparr>pRemainingData := Some (d @ rest)\<rparr>) b = Some r" for b
    using byte_at_local(1) [of 0 d rest] byte_at_local(1) [of 1 d rest] byte_at_local(2) [of 0 d] byte_at_local(2) [of 1 d] d
    by (cases "remainingLength pkt = 2") (auto simp: deserializeConnack_def Let_def)
  have suback: "\<exists>r. deserializeSuback (pkt\<lparr>pRemainingData := Some d\<rparr>) k0 = Some r
      \<and> deserializeSuback (pkt\<lparr>pRemainingData := Some (d @ rest)\<rparr>) k0 = Some r"
    using two load_local(1) [of "remainingLength pkt - 2" "drop 2 d" rest] load_local(2) [of "remainingLength pkt - 2" "drop 2 d"] d
    by (cases "remainingLength pkt < 3") (auto simp: deserializeSuback_def readSubackStatus_def Let_def)
  have simple: "\<exists>r. deserializeSimpleAck (pkt\<lparr>pRemainingData := Some d\<rparr>) k0 = Some r
      \<and> deserializeSimpleAck (pkt\<lparr>pRemainingData := Some (d @ rest)\<rparr>) k0 = Some r"
    using two d by (cases "remainingLength pkt = 2") (auto simp: deserializeSimpleAck_def Let_def)
  show ?thesis
    using connack [of "the present"] suback simple
    by (auto simp: MQTT_DeserializeAck_def Let_def deserializePingresp_def)
qed

text \<open>
  A received packet is read within its own bytes: when the remaining length that was decoded is the number of bytes
  of the packet after the header, no read goes past them, whatever the bytes are and whatever type the first byte has;
  the status, the identifier, the topic and the payload do not depend on what follows in the buffer, and the topic and
  the payload handed on lie within the packet.
\<close>

lemma packet_local:
  assumes "length d = remainingLength pkt"
  shows "\<exists>st k q q' st' k' b.
      MQTT_DeserializePublish (pkt\<lparr>pRemainingData := Some d\<rparr>) k0 p0 = Some (st, k, q)
    \<and> MQTT_DeserializePublish (pkt\<lparr>pRemainingData := Some (d @ rest)\<rparr>) k0 p0 = Some (st, k, q')
    \<and> (st = MQTTSuccess \<longrightarrow> content q' = content q \<and> readable_publish q)
    \<and> MQTT_DeserializeAck (pkt\<lparr>pRemainingData := Some d\<rparr>) k0 present = Some (st', k', b)
    \<and> MQTT_DeserializeAck (pkt\<lparr>pRemainingData := Some (d @ rest)\<rparr>) k0 present = Some (st', k', b)"
  using deserializePublish_local [OF assms, of k0 p0 rest] deserializeAck_local [OF assms, of k0 present rest]
  by (cases "packet_type pkt AND 0xF0 = 0x30") (auto simp: MQTT_DeserializePublish_def)

end
