(* ===== verification/Mqtt_Receive.thy ===== *)
theory Mqtt_Receive
  imports Mqtt_Packet_Props Mqtt_Library
begin

text \<open>
  The receiving side of the MQTT library: \<open>receiveSingleIteration\<close> of \<open>core_mqtt.c\<close> with the network buffer, the
  dispatch of packets to the handlers of \<open>Mqtt_Library\<close>, and the keep-alive timer.  What the transport
  delivers is an argument of each iteration, as are the readings of the clock and how much of a packet could be sent.
  The flag \<open>controlPacketSent\<close>, which nothing reads, is left out.
\<close>

section \<open>State\<close>

text \<open>
  \<open>rx_index\<close> bytes of \<open>networkBuffer\<close> have been received and not handled.  \<open>replies\<close>: what the callback of the
  application got that is no publish and no acknowledgement of one - type, number, result.
\<close>

record receiver =
  lib :: library
  networkBuffer :: "u8 list"
  rx_index :: nat
  keepAliveIntervalSec :: u16
  lastPacketTxTime :: u32
  lastPacketRxTime :: u32
  pingReqSendTimeMs :: u32
  waitingForPingResp :: bool
  replies :: "(u8 \<times> u16 \<times> MQTTStatus) list"

abbreviation (input) MQTT_PINGRESP_TIMEOUT_MS :: u32 where "MQTT_PINGRESP_TIMEOUT_MS \<equiv> 5000"
abbreviation (input) PACKET_TX_TIMEOUT_MS :: u32 where "PACKET_TX_TIMEOUT_MS \<equiv> 30000"
abbreviation (input) PACKET_RX_TIMEOUT_MS :: u32 where "PACKET_RX_TIMEOUT_MS \<equiv> 30000"

definition calculateElapsedTime :: "u32 \<Rightarrow> u32 \<Rightarrow> u32" where
  "calculateElapsedTime later start = later - start"

text \<open>
  One iteration from outside: \<open>received\<close> what the transport delivers, \<open>None\<close> an error; \<open>dumped t n\<close> what \<open>recvExact\<close>
  returns when \<open>t\<close> bytes of a packet that is too long have been read and \<open>n\<close> more are asked for; \<open>pinged\<close>, \<open>acked\<close> how
  many bytes of a PINGREQ and of an acknowledgement \<open>sendBuffer\<close> sends; the readings of the clock: for the keep-alive,
  after the last bytes sent of either packet, and for a received packet.
\<close>

record iteration =
  received :: "u8 list option"
  dumped :: "nat \<Rightarrow> nat \<Rightarrow> int"
  pinged :: nat
  acked :: nat
  clock_now :: u32
  clock_pinged :: u32
  clock_acked :: u32
  clock_received :: u32

section \<open>Keep-alive\<close>

text \<open>The PINGREQ of two bytes; \<open>sendBuffer\<close> notes the time when it has sent something.\<close>

definition MQTT_Ping :: "iteration \<Rightarrow> receiver \<Rightarrow> MQTTStatus \<times> receiver" where
  "MQTT_Ping e r =
     (let r = (if pinged e > 0 then r\<lparr>lastPacketTxTime := clock_pinged e\<rparr> else r)
      in if pinged e < 2 then (MQTTSendFailed, r)
         else (MQTTSuccess, r\<lparr>pingReqSendTimeMs := lastPacketTxTime r, waitingForPingResp := True\<rparr>))"

definition handleKeepAlive :: "iteration \<Rightarrow> receiver \<Rightarrow> MQTTStatus \<times> receiver" where
  "handleKeepAlive e r =
     (let now = clock_now e;
          tx = 1000 * ucast (keepAliveIntervalSec r);
          tx = (if PACKET_TX_TIMEOUT_MS < tx then PACKET_TX_TIMEOUT_MS else tx)
      in if waitingForPingResp r then
           (if calculateElapsedTime now (pingReqSendTimeMs r) > MQTT_PINGRESP_TIMEOUT_MS then (MQTTKeepAliveTimeout, r)
            else (MQTTSuccess, r))
         else if tx \<noteq> 0 \<and> calculateElapsedTime now (lastPacketTxTime r) \<ge> tx then MQTT_Ping e r
         else
           let elapsed = calculateElapsedTime now (lastPacketRxTime r)
           in if elapsed \<noteq> 0 \<and> elapsed \<ge> PACKET_RX_TIMEOUT_MS then MQTT_Ping e r
              else (MQTTSuccess, r))"

section \<open>Dispatch\<close>

definition getAckFromPacketType :: "u8 \<Rightarrow> MQTTPubAckType" where
  "getAckFromPacketType t =
     (if t = 0x40 then MQTTPuback else if t = 0x50 then MQTTPubrec else if t = 0x62 then MQTTPubrel else MQTTPubcomp)"

text \<open>
  A handler of the library: it may try to send an acknowledgement of four bytes - it does when, with the bytes accepted,
  something is on the wire -, and \<open>sendBuffer\<close> notes the time when it has sent any of them.
\<close>

definition with_library :: "iteration \<Rightarrow> (bool \<Rightarrow> library \<Rightarrow> MQTTStatus \<times> library) \<Rightarrow> receiver \<Rightarrow> MQTTStatus \<times> receiver" where
  "with_library e f r =
     (let (st, l) = f (acked e = 4) (lib r);
          tried = (wire (snd (f True (lib r))) \<noteq> wire (lib r))
      in (st, r\<lparr>lib := l, lastPacketTxTime := (if tried \<and> acked e > 0 then clock_acked e else lastPacketTxTime r)\<rparr>))"

text \<open>The local \<open>publishInfo\<close> before it is read; every field is written before it is used.\<close>

definition no_publish :: MQTTPublishInfo where
  "no_publish = \<lparr>pub_qos = MQTTQoS0, retain = False, dup = False, pTopicName = None, topicNameLength = 0,
     pPayload = None, payloadLength = 0\<rparr>"

definition payload_chars :: "MQTTPublishInfo \<Rightarrow> char list" where
  "payload_chars p =
     (if payloadLength p = 0 then [] else map (\<lambda>b. char_of (unat b)) (take (payloadLength p) (the (pPayload p))))"

definition incoming_publish :: "iteration \<Rightarrow> MQTTPacketInfo \<Rightarrow> receiver \<Rightarrow> (MQTTStatus \<times> receiver) option" where
  "incoming_publish e pkt r =
     do { (st, k, p) \<leftarrow> MQTT_DeserializePublish pkt 0 no_publish;
          (if st = MQTTSuccess then
             Some (with_library e (\<lambda>ok. handleIncomingPublish ok k (pub_qos p) (payload_chars p)) r)
           else Some (st, r)) }"

definition publish_acks :: "iteration \<Rightarrow> MQTTPacketInfo \<Rightarrow> receiver \<Rightarrow> (MQTTStatus \<times> receiver) option" where
  "publish_acks e pkt r =
     do { (st, k, _) \<leftarrow> MQTT_DeserializeAck pkt 0 None;
          (if st = MQTTSuccess then
             Some (with_library e (\<lambda>ok. handlePublishAcks ok k (getAckFromPacketType (packet_type pkt))) r)
           else Some (st, r)) }"

definition handleIncomingAck :: "bool \<Rightarrow> iteration \<Rightarrow> MQTTPacketInfo \<Rightarrow> receiver \<Rightarrow> (MQTTStatus \<times> receiver) option" where
  "handleIncomingAck manageKeepAlive e pkt r =
     (let t = packet_type pkt
      in if t \<in> {0x40, 0x50, 0x62, 0x70} then publish_acks e pkt r
         else if t = 0xD0 then
           do { (st, k, _) \<leftarrow> MQTT_DeserializeAck pkt 0 None;
                (if st = MQTTSuccess then
                   Some (MQTTSuccess, if manageKeepAlive then r\<lparr>waitingForPingResp := False\<rparr>
                                      else r\<lparr>replies := replies r @ [(t, k, st)]\<rparr>)
                 else Some (st, r)) }
         else if t = 0x90 \<or> t = 0xB0 then
           do { (st, k, _) \<leftarrow> MQTT_DeserializeAck pkt 0 None;
                (if st = MQTTSuccess \<or> st = MQTTServerRefused then
                   Some (MQTTSuccess, r\<lparr>replies := replies r @ [(t, k, st)]\<rparr>)
                 else Some (st, r)) }
         else Some (MQTTBadResponse, r))"

definition handle_packet :: "bool \<Rightarrow> iteration \<Rightarrow> MQTTPacketInfo \<Rightarrow> receiver \<Rightarrow> (MQTTStatus \<times> receiver) option" where
  "handle_packet manageKeepAlive e pkt r =
     (if packet_type pkt AND 0xF0 = 0x30 then incoming_publish e pkt r else handleIncomingAck manageKeepAlive e pkt r)"

section \<open>One iteration\<close>

text \<open>
  The rest of a packet that does not fit is read in pieces of the size of the buffer and thrown away, and with it the
  buffer.  \<open>t\<close> bytes have been dumped; a buffer without any room would be asked for no bytes for ever.
\<close>

partial_function (option) dump_loop :: "(nat \<Rightarrow> nat \<Rightarrow> int) \<Rightarrow> nat \<Rightarrow> nat \<Rightarrow> nat \<Rightarrow> nat option" where
  "dump_loop got n rest t =
     (if t < rest then
        let n = (if rest - t < n then rest - t else n)
        in if got t n \<noteq> int n then Some t else dump_loop got n rest (t + n)
      else Some t)"

declare dump_loop.simps [code]

definition discardStoredPacket :: "iteration \<Rightarrow> MQTTPacketInfo \<Rightarrow> receiver \<Rightarrow> (MQTTStatus \<times> receiver) option" where
  "discardStoredPacket e pkt r =
     (let rest = remainingLength pkt + headerLength pkt - rx_index r
      in do { t \<leftarrow> dump_loop (dumped e) (length (networkBuffer r)) rest 0;
              Some (if t = rest then MQTTNoDataAvailable else MQTTRecvFailed,
                r\<lparr>networkBuffer := replicate (length (networkBuffer r)) 0, rx_index := 0\<rparr>) })"

text \<open>The first part: the read, the header in the buffer and the keep-alive.\<close>

definition no_packet_info :: MQTTPacketInfo where
  "no_packet_info = \<lparr>packet_type = 0, pRemainingData = None, remainingLength = 0, headerLength = 0\<rparr>"

definition receive_bytes :: "iteration \<Rightarrow> receiver \<Rightarrow> (MQTTStatus \<times> MQTTPacketInfo \<times> receiver) option" where
  "receive_bytes e r =
     (case received e of
        None \<Rightarrow> Some (MQTTRecvFailed, no_packet_info, r)
      | Some bs \<Rightarrow>
          if bs = [] \<and> rx_index r = 0 then Some (MQTTNoDataAvailable, no_packet_info, r)
          else do {
            (buf, i) \<leftarrow> put bs (networkBuffer r, rx_index r);
            (st, pkt) \<leftarrow> MQTT_ProcessIncomingPacketTypeAndLength buf i no_packet_info;
            Some (st, pkt, r\<lparr>networkBuffer := buf, rx_index := i\<rparr>) })"

definition keep_alive :: "bool \<Rightarrow> iteration \<Rightarrow> MQTTStatus \<Rightarrow> receiver \<Rightarrow> MQTTStatus \<times> receiver" where
  "keep_alive manageKeepAlive e st r =
     (if received e = Some [] \<and> manageKeepAlive then
        (case handleKeepAlive e r of (ka, r) \<Rightarrow> (if ka = MQTTSuccess then st else ka, r))
      else (st, r))"

definition handle_stored :: "bool \<Rightarrow> iteration \<Rightarrow> MQTTPacketInfo \<Rightarrow> receiver \<Rightarrow> (MQTTStatus \<times> receiver) option" where
  "handle_stored manageKeepAlive e pkt r =
     do { (st, r) \<leftarrow> handle_packet manageKeepAlive e
            (pkt\<lparr>pRemainingData := Some (drop (headerLength pkt) (networkBuffer r))\<rparr>) r;
          let whole = remainingLength pkt + headerLength pkt; n = rx_index r - whole; buf = networkBuffer r;
              r = r\<lparr>rx_index := n, networkBuffer := take n (drop whole buf) @ drop n buf\<rparr> in
          Some (st, if st = MQTTSuccess then r\<lparr>lastPacketRxTime := clock_received e\<rparr> else r) }"

definition receiveSingleIteration :: "bool \<Rightarrow> iteration \<Rightarrow> receiver \<Rightarrow> (MQTTStatus \<times> receiver) option" where
  "receiveSingleIteration manageKeepAlive e r =
     do { (st, pkt, r) \<leftarrow> receive_bytes e r;
          let (st, r) = keep_alive manageKeepAlive e st r; whole = remainingLength pkt + headerLength pkt in
          do { (st, r) \<leftarrow>
                 (if st \<noteq> MQTTSuccess then Some (st, r)
                  else if whole > length (networkBuffer r) then discardStoredPacket e pkt r
                  else if whole > rx_index r then Some (MQTTNeedMoreBytes, r)
                  else handle_stored manageKeepAlive e pkt r);
               Some (if st = MQTTNoDataAvailable then MQTTSuccess else st, r) } }"

definition MQTT_ProcessLoop :: "iteration \<Rightarrow> receiver \<Rightarrow> (MQTTStatus \<times> receiver) option" where
  "MQTT_ProcessLoop e r = receiveSingleIteration True e r"

definition MQTT_ReceiveLoop :: "iteration \<Rightarrow> receiver \<Rightarrow> (MQTTStatus \<times> receiver) option" where
  "MQTT_ReceiveLoop e r = receiveSingleIteration False e r"

section \<open>A new connection\<close>

text \<open>
  The buffer of the former connection is emptied before the records are looked at.  \<open>tx\<close>: \<open>lastPacketTxTime\<close> afterwards, the
  time of the last bytes of the acknowledgements or, when none were sent, the former one.
\<close>

definition handleSessionResumption :: "bool \<Rightarrow> (nat \<Rightarrow> bool) \<Rightarrow> u32 \<Rightarrow> receiver \<Rightarrow> MQTTStatus \<times> receiver" where
  "handleSessionResumption present oks tx r =
     (let r = r\<lparr>rx_index := 0, networkBuffer := replicate (length (networkBuffer r)) 0\<rparr>;
          (st, l) = resume_records present oks (lib r)
      in (st, r\<lparr>lib := l, lastPacketTxTime := tx\<rparr>))"

end
