(* ===== verification/Mqtt_Receive_Props.thy ===== *)
theory Mqtt_Receive_Props
  imports Mqtt_Receive "HOL-Library.Sublist"
begin

text \<open>
  What the receiving side of the MQTT library guarantees: packets that arrive in any pieces are handled one by one,
  whole and in order; a packet that is too long is skipped; a peer that has gone silent is noticed.
\<close>

section \<open>The header of a packet that is still arriving\<close>

type_synonym packet = "u8 \<times> u8 list"

text \<open>A packet on the wire: the first byte, the length and the bytes behind.\<close>

definition packet_bytes :: "packet \<Rightarrow> u8 list" where
  "packet_bytes p = fst p # length_bytes (length (snd p)) @ snd p"

definition packet_ok :: "nat \<Rightarrow> packet \<Rightarrow> bool" where
  "packet_ok N p \<longleftrightarrow> incomingPacketValid (fst p) \<and> length (snd p) < 268435456 \<and> length (packet_bytes p) \<le> N"

definition received_packet :: "packet \<Rightarrow> MQTTPacketInfo" where
  "received_packet p = \<lparr>packet_type = fst p, pRemainingData = Some (snd p), remainingLength = length (snd p),
     headerLength = 1 + length (length_bytes (length (snd p)))\<rparr>"

lemma length_loop_waits:
  "bs = length_bytes m \<Longrightarrow> idx \<le> n + length bs \<Longrightarrow> n < idx \<Longrightarrow> idx \<le> length buf \<Longrightarrow>
     take (idx - (n + 1)) (drop (n + 1) buf) = take (idx - (n + 1)) bs \<Longrightarrow> n + length bs \<le> 4 \<Longrightarrow> rl < 128 ^ n \<Longrightarrow>
     \<exists>rl' n'. length_loop buf idx rl n = Some (MQTTNeedMoreBytes, rl', n')"
proof (induction m arbitrary: bs n rl rule: length_bytes.induct)
  case (1 m)
  have "bs \<noteq> []" using 1(2) by simp
  then have n: "n < 4" using 1(7) by (cases bs) auto
  then have nb: "\<not> 128 ^ n > (2097152 :: nat)" using multiplier_bound by blast
  show ?case
  proof (cases "idx > n + 1")
    case False
    then show ?thesis using nb by (subst length_loop.simps) simp
  next
    case True
    then have l: "n + 1 < length buf" using 1(5) by simp
    have "\<not> m < 128" using 1(2,3) True by (auto simp: length_bytes.simps [of m])
    then have bs: "bs = set_bit 7 (of_nat (m mod 128)) # length_bytes (m div 128)" using 1(2) by (simp add: length_bytes.simps [of m])
    have d: "drop (n + 1) buf = buf ! (n + 1) # drop (n + 1 + 1) buf" using l by (simp add: Cons_nth_drop_Suc)
    obtain j where j: "idx - (n + 1) = Suc j" using True by (cases "idx - (n + 1)") auto
    then have j': "idx - (n + 1 + 1) = j" by simp
    have b: "buf ! (n + 1) = hd bs" and t: "take (idx - (n + 1 + 1)) (drop (n + 1 + 1) buf) = take (idx - (n + 1 + 1)) (tl bs)"
      using 1(6) bs unfolding d j j' by auto
    have h: "unat (hd bs) = m mod 128 + 128" using continued_byte [of "m mod 128"] bs by simp
    then have hb: "hd bs AND 0x80 \<noteq> 0" by (simp add: high_bit high_bit_less)
    let ?rl = "rl + m mod 128 * 128 ^ n"
    have rl: "?rl < 128 ^ (n + 1)"
    proof -
      have "(m mod 128 + 1) * 128 ^ n \<le> 128 * 128 ^ n" by (intro mult_right_mono) (auto simp: Suc_le_eq)
      then have "m mod 128 * 128 ^ n + 128 ^ n \<le> 128 * 128 ^ n" by (simp only: add_mult_distrib mult_1)
      moreover have "128 ^ (n + 1) = (128 :: nat) * 128 ^ n" by simp
      ultimately show ?thesis using 1(8) by linarith
    qed
    have "\<exists>rl' n'. length_loop buf idx ?rl (n + 1) = Some (MQTTNeedMoreBytes, rl', n')"
      using 1(1) [OF \<open>\<not> m < 128\<close> refl, of "n + 1" ?rl] 1(3,5,7) bs t True rl by simp
    moreover have "?rl < 268435456" using less_power4 [OF rl] n by simp
    moreover have "unat (hd bs AND 0x7F) * 128 ^ n = m mod 128 * 128 ^ n" using h by simp
    ultimately show ?thesis using nb True l b hb
      by (subst length_loop.simps) (simp add: Let_def)
  qed
qed

lemma parse_cases:
  assumes p: "packet_ok N p" and idx: "0 < idx" "idx \<le> length buf" and q: "take idx buf @ behind = packet_bytes p @ rest"
  shows "(\<exists>pkt. MQTT_ProcessIncomingPacketTypeAndLength buf idx no_packet_info = Some (MQTTNeedMoreBytes, pkt))
      \<and> \<not> length (length_bytes (length (snd p))) < idx
    \<or> MQTT_ProcessIncomingPacketTypeAndLength buf idx no_packet_info
        = Some (MQTTSuccess, (received_packet p)\<lparr>pRemainingData := None\<rparr>)"
proof -
  let ?lb = "length_bytes (length (snd p))"
  have small: "length (snd p) < 268435456" and valid: "incomingPacketValid (fst p)" using p by (auto simp: packet_ok_def)
  have lb: "length ?lb = remainingLengthEncodedSize (length (snd p))" "length ?lb \<le> 4"
    using length_length_bytes [OF small] by (simp_all add: remainingLengthEncodedSize_def)
  have same: "take k buf = take k (packet_bytes p @ rest)" if "k \<le> idx" for k
  proof -
    have "take k buf = take k (take idx buf @ behind)" using that idx(2) by (simp add: min_absorb1)
    then show ?thesis unfolding q .
  qed
  obtain bs where buf: "buf = fst p # bs" using same [of 1] idx by (cases buf) (auto simp: packet_bytes_def)
  have same: "take k bs = take k (?lb @ snd p @ rest)" if "k < idx" for k
    using same [of "Suc k"] that by (simp add: buf packet_bytes_def)
  have head: "MQTT_ProcessIncomingPacketTypeAndLength buf idx no_packet_info
      = processRemainingLength buf idx (no_packet_info\<lparr>packet_type := fst p\<rparr>)"
    using idx(1) valid by (simp add: MQTT_ProcessIncomingPacketTypeAndLength_def buf)
  show ?thesis
  proof (cases "length ?lb < idx")
    case True
    have "length_loop buf idx 0 0 = Some (MQTTSuccess, 0 + length (snd p) * 128 ^ 0, 0 + length ?lb)"
      by (rule length_loop_reads [OF refl]) (use True lb(2) same [of "length ?lb"] in \<open>simp_all add: buf\<close>)
    then show ?thesis unfolding head using lb(1)
      by (simp add: processRemainingLength_def received_packet_def no_packet_info_def)
  next
    case False
    have "\<exists>rl n. length_loop buf idx 0 0 = Some (MQTTNeedMoreBytes, rl, n)"
      by (rule length_loop_waits [OF refl]) (use False idx lb(2) same [of "idx - 1"] in \<open>simp_all add: buf\<close>)
    then show ?thesis unfolding head using False by (auto simp: processRemainingLength_def packet_bytes_def)
  qed
qed

lemma parse_prefix:
  assumes "packet_ok N p" "0 < idx" "idx \<le> length buf" "take idx buf @ behind = packet_bytes p @ rest"
  shows "(\<exists>pkt. MQTT_ProcessIncomingPacketTypeAndLength buf idx no_packet_info = Some (MQTTNeedMoreBytes, pkt))
      \<and> idx < length (packet_bytes p)
    \<or> MQTT_ProcessIncomingPacketTypeAndLength buf idx no_packet_info
        = Some (MQTTSuccess, (received_packet p)\<lparr>pRemainingData := None\<rparr>)"
  using parse_cases [OF assms] by (auto simp: packet_bytes_def)

lemma parse_whole:
  assumes "packet_ok N p" "0 < idx" "idx \<le> length buf" "take idx buf @ behind = packet_bytes p @ rest"
    and "length (length_bytes (length (snd p))) < idx"
  shows "MQTT_ProcessIncomingPacketTypeAndLength buf idx no_packet_info
    = Some (MQTTSuccess, (received_packet p)\<lparr>pRemainingData := None\<rparr>)"
  using parse_cases [OF assms(1-4)] assms(5) by auto

section \<open>What a packet does\<close>

type_synonym app_view = "library \<times> (u8 \<times> u16 \<times> MQTTStatus) list"

abbreviation (input) view :: "receiver \<Rightarrow> app_view" where
  "view r \<equiv> (lib r, replies r)"

text \<open>What a packet alone does: nothing else is in the buffer, and the timers are new.\<close>

definition fresh :: "app_view \<Rightarrow> receiver" where
  "fresh v = \<lparr>lib = fst v, networkBuffer = [], rx_index = 0, keepAliveIntervalSec = 0, lastPacketTxTime = 0,
     lastPacketRxTime = 0, pingReqSendTimeMs = 0, waitingForPingResp = False, replies = snd v\<rparr>"

definition deliver_packet :: "bool \<Rightarrow> iteration \<times> packet \<Rightarrow> app_view \<Rightarrow> app_view" where
  "deliver_packet m x v =
     (case handle_packet m (fst x) (received_packet (snd x)) (fresh v) of Some (_, r) \<Rightarrow> view r | None \<Rightarrow> v)"

lemma with_library_view:
  "with_library e f r = (st, r') \<Longrightarrow>
     networkBuffer r' = networkBuffer r \<and> rx_index r' = rx_index r
     \<and> view r' = view (snd (with_library e f (fresh (view r))))"
  by (auto simp: with_library_def fresh_def Let_def split: prod.splits)

lemma handle_view:
  "\<exists>st r'. handle_packet m e ((received_packet p)\<lparr>pRemainingData := Some (snd p @ junk)\<rparr>) r = Some (st, r')
     \<and> networkBuffer r' = networkBuffer r \<and> rx_index r' = rx_index r \<and> view r' = deliver_packet m (e, p) (view r)"
proof -
  have p: "received_packet p = (received_packet p)\<lparr>pRemainingData := Some (snd p)\<rparr>" by (simp add: received_packet_def)
  have "length (snd p) = remainingLength (received_packet p)" by (simp add: received_packet_def)
  from packet_local [OF this, of 0 no_publish junk None] obtain st k q q' st' k' b where
    l: "MQTT_DeserializePublish (received_packet p) 0 no_publish = Some (st, k, q)"
    "MQTT_DeserializePublish ((received_packet p)\<lparr>pRemainingData := Some (snd p @ junk)\<rparr>) 0 no_publish = Some (st, k, q')"
    "st = MQTTSuccess \<longrightarrow> content q' = content q"
    "MQTT_DeserializeAck (received_packet p) 0 None = Some (st', k', b)"
    "MQTT_DeserializeAck ((received_packet p)\<lparr>pRemainingData := Some (snd p @ junk)\<rparr>) 0 None = Some (st', k', b)"
    unfolding p [symmetric] by blast
  have t: "packet_type (received_packet p) = fst p" by (simp add: received_packet_def)
  show ?thesis
  proof (cases "fst p AND 0xF0 = 0x30")
    case True
    have c: "pub_qos q' = pub_qos q \<and> payload_chars q' = payload_chars q" if "st = MQTTSuccess"
      using l(3) that by (auto simp: content_def payload_chars_def split: if_splits)
    show ?thesis
    proof (cases "st = MQTTSuccess")
      case st: True
      obtain s r' where w: "with_library e (\<lambda>ok. handleIncomingPublish ok k (pub_qos q) (payload_chars q)) r = (s, r')" by fastforce
      show ?thesis using True l(1,2) c [OF st] st t w with_library_view [OF w]
        by (auto simp: handle_packet_def incoming_publish_def deliver_packet_def split: prod.splits)
    qed (use True l t in \<open>auto simp: handle_packet_def incoming_publish_def deliver_packet_def fresh_def\<close>)
  next
    case False
    obtain s r' where w: "with_library e (\<lambda>ok. handlePublishAcks ok k' (getAckFromPacketType (fst p))) r = (s, r')" by fastforce
    show ?thesis using False l(4,5) t w with_library_view [OF w]
      by (auto simp: handle_packet_def handleIncomingAck_def publish_acks_def deliver_packet_def Let_def fresh_def split: prod.splits)
  qed
qed

section \<open>One iteration on a stream\<close>

abbreviation (input) queue :: "receiver \<Rightarrow> u8 list" where
  "queue r \<equiv> take (rx_index r) (networkBuffer r)"

definition receiver_ok :: "nat \<Rightarrow> receiver \<Rightarrow> bool" where
  "receiver_ok N r \<longleftrightarrow> length (networkBuffer r) = N \<and> rx_index r \<le> N"

definition silent_failure :: "bool \<Rightarrow> MQTTStatus \<Rightarrow> bool" where
  "silent_failure m st \<longleftrightarrow> m \<and> st \<in> {MQTTSendFailed, MQTTKeepAliveTimeout}"

lemma keep_alive_view:
  "keep_alive m e st r = (st', r') \<Longrightarrow>
     networkBuffer r' = networkBuffer r \<and> rx_index r' = rx_index r \<and> view r' = view r
     \<and> (st' = st \<or> silent_failure m st')"
  by (auto simp: keep_alive_def handleKeepAlive_def MQTT_Ping_def silent_failure_def Let_def split: if_splits prod.splits)

lemma put_queue:
  assumes "receiver_ok N r" "rx_index r + length bs \<le> N"
  obtains buf where "put bs (networkBuffer r, rx_index r) = Some (buf, rx_index r + length bs)" "length buf = N"
    "take (rx_index r + length bs) buf = queue r @ bs"
  using assms that by (auto simp: put_def receiver_ok_def)

lemma drop_front: "xs @ ys = zs \<Longrightarrow> drop (length xs) zs = ys"
  by auto

lemma handle_stored_view:
  assumes r: "receiver_ok N r" "queue r = packet_bytes p @ rest"
  shows "\<exists>st r'. handle_stored m e ((received_packet p)\<lparr>pRemainingData := None\<rparr>) r = Some (st, r')
    \<and> receiver_ok N r' \<and> queue r' = rest \<and> view r' = deliver_packet m (e, p) (view r)"
proof -
  let ?h = "1 + length (length_bytes (length (snd p)))" and ?buf = "networkBuffer r" and ?n = "rx_index r - length (packet_bytes p)"
  have whole: "remainingLength (received_packet p) + headerLength (received_packet p) = length (packet_bytes p)"
    by (simp add: received_packet_def packet_bytes_def)
  have len: "length (packet_bytes p) + length rest = rx_index r" using r by (auto simp: receiver_ok_def dest: arg_cong [of _ _ length])
  define junk where "junk = drop (rx_index r) ?buf"
  have buf: "packet_bytes p @ rest @ junk = ?buf"
    using append_take_drop_id [of "rx_index r" ?buf] unfolding r(2) junk_def by simp
  then have "(fst p # length_bytes (length (snd p))) @ snd p @ rest @ junk = ?buf" by (simp add: packet_bytes_def)
  from drop_front [OF this] have data: "drop ?h ?buf = snd p @ rest @ junk" by simp
  note drop_front [OF buf]
  then have left: "take ?n (drop (length (packet_bytes p)) ?buf) = rest" using len by simp
  obtain st r' where h: "handle_packet m e ((received_packet p)\<lparr>pRemainingData := Some (drop ?h ?buf)\<rparr>) r = Some (st, r')"
    "networkBuffer r' = ?buf" "rx_index r' = rx_index r" "view r' = deliver_packet m (e, p) (view r)"
    using handle_view [of m e p "rest @ junk" r] unfolding data by blast
  have n: "?n = length rest" "?n \<le> N" using len r(1) by (auto simp: receiver_ok_def)
  have "handle_packet m e (((received_packet p)\<lparr>pRemainingData := None\<rparr>)
      \<lparr>pRemainingData := Some (drop (headerLength ((received_packet p)\<lparr>pRemainingData := None\<rparr>)) ?buf)\<rparr>) r = Some (st, r')"
    using h(1) by (simp add: received_packet_def)
  then show ?thesis using h(2-4) left n r(1) whole
    by (simp add: handle_stored_def Let_def receiver_ok_def)
qed

text \<open>The part of an iteration behind the parsing of the header.\<close>

definition finish :: "bool \<Rightarrow> iteration \<Rightarrow> MQTTStatus \<times> MQTTPacketInfo \<times> receiver \<Rightarrow> (MQTTStatus \<times> receiver) option" where
  "finish m e x =
     (case x of (st, pkt, r) \<Rightarrow>
        let (st, r) = keep_alive m e st r; whole = remainingLength pkt + headerLength pkt in
        do { (st, r) \<leftarrow>
               (if st \<noteq> MQTTSuccess then Some (st, r)
                else if whole > length (networkBuffer r) then discardStoredPacket e pkt r
                else if whole > rx_index r then Some (MQTTNeedMoreBytes, r)
                else handle_stored m e pkt r);
             Some (if st = MQTTNoDataAvailable then MQTTSuccess else st, r) })"

lemma receiveSingleIteration_finish: "receiveSingleIteration m e r = Option.bind (receive_bytes e r) (finish m e)"
  by (simp add: receiveSingleIteration_def finish_def [abs_def])

lemma finish_stopped:
  assumes "st \<noteq> MQTTSuccess"
  shows "\<exists>st' r'. finish m e (st, pkt, r) = Some (st', r') \<and> networkBuffer r' = networkBuffer r \<and> rx_index r' = rx_index r
    \<and> view r' = view r"
proof -
  obtain st1 r1 where k: "keep_alive m e st r = (st1, r1)" by fastforce
  from keep_alive_view [OF k] have "st1 \<noteq> MQTTSuccess" using assms by (auto simp: silent_failure_def)
  then show ?thesis using k keep_alive_view [OF k] by (simp add: finish_def)
qed

lemma finish_packet:
  assumes r: "receiver_ok N r" "queue r @ rest = packet_bytes p @ later" and p: "packet_ok N p"
  shows "\<exists>st r'. finish m e (MQTTSuccess, (received_packet p)\<lparr>pRemainingData := None\<rparr>, r) = Some (st, r') \<and> receiver_ok N r'
    \<and> (view r' = view r \<and> queue r' = queue r \<and> (rx_index r < length (packet_bytes p) \<or> silent_failure m st)
      \<or> view r' = deliver_packet m (e, p) (view r) \<and> queue r' @ rest = later)"
proof -
  let ?pkt = "(received_packet p)\<lparr>pRemainingData := None\<rparr>"
  have whole: "remainingLength ?pkt + headerLength ?pkt = length (packet_bytes p)"
    by (simp add: received_packet_def packet_bytes_def)
  have N: "length (packet_bytes p) \<le> N" using p by (simp add: packet_ok_def)
  obtain st r1 where k: "keep_alive m e MQTTSuccess r = (st, r1)" by fastforce
  note kv = keep_alive_view [OF k]
  have r1: "receiver_ok N r1" using kv r(1) by (simp add: receiver_ok_def)
  show ?thesis
  proof (cases "st = MQTTSuccess")
    case False
    then have "silent_failure m st" "st \<noteq> MQTTNoDataAvailable" using kv by (auto simp: silent_failure_def)
    then show ?thesis using k kv False r1 by (simp add: finish_def)
  next
    case True
    show ?thesis
    proof (cases "length (packet_bytes p) > rx_index r")
      case short: True
      then show ?thesis using k kv True r1 whole N by (simp add: finish_def receiver_ok_def)
    next
      case False
      have l: "length (queue r) = rx_index r" using r(1) by (simp add: receiver_ok_def)
      then have "\<exists>now. queue r = packet_bytes p @ now" using r(2) False
        by (metis append_eq_append_conv_if append_take_drop_id not_less)
      then obtain now where now: "queue r = packet_bytes p @ now" by blast
      then have "queue r1 = packet_bytes p @ now" using kv by simp
      from handle_stored_view [OF r1 this, of m e] obtain s r' where
        h: "handle_stored m e ?pkt r1 = Some (s, r')" "receiver_ok N r'" "queue r' = now" "view r' = deliver_packet m (e, p) (view r1)"
        by blast
      moreover have "now @ rest = later" using r(2) now by simp
      ultimately show ?thesis using k kv True whole N False r1 by (simp add: finish_def receiver_ok_def)
    qed
  qed
qed

lemma iteration_step:
  assumes r: "receiver_ok N r" "rx_index r + length bs \<le> N" and ps: "\<forall>p \<in> set ps. packet_ok N p"
    and stream: "queue r @ bs @ rest = concat (map packet_bytes ps)" and e: "received e = Some bs"
  shows "\<exists>st r'. receiveSingleIteration m e r = Some (st, r') \<and> receiver_ok N r'
    \<and> (view r' = view r \<and> queue r' = queue r @ bs
         \<and> (bs \<noteq> [] \<or> silent_failure m st \<or> ps = [] \<or> rest \<noteq> [] \<and> rx_index r < N)
      \<or> (\<exists>p ps'. ps = p # ps' \<and> view r' = deliver_packet m (e, p) (view r) \<and> queue r' @ rest = concat (map packet_bytes ps')))"
proof (cases "queue r @ bs = []")
  case True
  then have z: "rx_index r = 0" "bs = []" using r(1) by (auto simp: receiver_ok_def)
  then have "receive_bytes e r = Some (MQTTNoDataAvailable, no_packet_info, r)" using e by (simp add: receive_bytes_def)
  moreover obtain st r' where f: "finish m e (MQTTNoDataAvailable, no_packet_info, r) = Some (st, r')"
    "networkBuffer r' = networkBuffer r" "rx_index r' = rx_index r" "view r' = view r" using finish_stopped by blast
  moreover have "ps = [] \<or> rest \<noteq> [] \<and> rx_index r < N"
  proof (cases ps)
    case (Cons p ps')
    then have "length (packet_bytes p) > 0" "length (packet_bytes p) \<le> N" using ps by (auto simp: packet_bytes_def packet_ok_def)
    then have "0 < N" by linarith
    then show ?thesis using stream z Cons by (auto simp: packet_bytes_def)
  qed simp
  ultimately show ?thesis using z r(1) by (simp add: receiveSingleIteration_finish receiver_ok_def)
next
  case False
  obtain p ps' where pps: "ps = p # ps'" using False stream by (cases ps) auto
  have p: "packet_ok N p" using ps pps by simp
  obtain buf where b: "put bs (networkBuffer r, rx_index r) = Some (buf, rx_index r + length bs)" "length buf = N"
    "take (rx_index r + length bs) buf = queue r @ bs" using put_queue r by blast
  let ?r = "r\<lparr>networkBuffer := buf, rx_index := rx_index r + length bs\<rparr>"
  have ok: "receiver_ok N ?r" using b(2) r(2) by (simp add: receiver_ok_def)
  have q: "take (rx_index r + length bs) buf @ rest = packet_bytes p @ concat (map packet_bytes ps')"
    using stream pps b(3) by simp
  have ne: "0 < rx_index r + length bs" using False by auto
  have le: "rx_index r + length bs \<le> length buf" using b(2) r(2) by simp
  consider pkt where "MQTT_ProcessIncomingPacketTypeAndLength buf (rx_index r + length bs) no_packet_info
      = Some (MQTTNeedMoreBytes, pkt)" "rx_index r + length bs < length (packet_bytes p)"
    | "MQTT_ProcessIncomingPacketTypeAndLength buf (rx_index r + length bs) no_packet_info
      = Some (MQTTSuccess, (received_packet p)\<lparr>pRemainingData := None\<rparr>)"
    using parse_prefix [OF p ne le q] by blast
  then show ?thesis
  proof cases
    case (1 pkt)
    then have "receive_bytes e r = Some (MQTTNeedMoreBytes, pkt, ?r)" using e b(1) ne by (auto simp: receive_bytes_def)
    moreover obtain st r' where "finish m e (MQTTNeedMoreBytes, pkt, ?r) = Some (st, r')"
      "networkBuffer r' = networkBuffer ?r" "rx_index r' = rx_index ?r" "view r' = view ?r"
      using finish_stopped [of MQTTNeedMoreBytes m e pkt ?r] by blast
    moreover have "rest \<noteq> [] \<and> rx_index r < N"
    proof -
      have "length (packet_bytes p) \<le> N" using p by (simp add: packet_ok_def)
      moreover have "rest \<noteq> []" using arg_cong [OF q, of length] 1(2) b(2) r(2) by auto
      ultimately show ?thesis using 1(2) by simp
    qed
    ultimately show ?thesis using ok b(3) by (simp add: receiveSingleIteration_finish receiver_ok_def)
  next
    case 2
    then have "receive_bytes e r = Some (MQTTSuccess, (received_packet p)\<lparr>pRemainingData := None\<rparr>, ?r)"
      using e b(1) ne by (auto simp: receive_bytes_def)
    moreover obtain st r' where f:
      "finish m e (MQTTSuccess, (received_packet p)\<lparr>pRemainingData := None\<rparr>, ?r) = Some (st, r')" "receiver_ok N r'"
      "view r' = view ?r \<and> queue r' = queue ?r \<and> (rx_index ?r < length (packet_bytes p) \<or> silent_failure m st)
        \<or> view r' = deliver_packet m (e, p) (view ?r) \<and> queue r' @ rest = concat (map packet_bytes ps')"
      using finish_packet [OF ok _ p, of rest "concat (map packet_bytes ps')" m e] q by auto
    moreover have "rest \<noteq> [] \<and> rx_index r < N" if "rx_index ?r < length (packet_bytes p)"
    proof -
      have "length (packet_bytes p) \<le> N" using p by (simp add: packet_ok_def)
      moreover have "rest \<noteq> []" using arg_cong [OF q, of length] that b(2) r(2) by auto
      ultimately show ?thesis using that by simp
    qed
    ultimately show ?thesis using pps b(3) by (auto simp: receiveSingleIteration_finish)
  qed
qed

section \<open>A connection\<close>

text \<open>
  Iterations on a connection: a read delivers at most as many bytes as the transport likes (\<open>n\<close>), as are in flight
  (\<open>stream\<close>) and as the buffer has room for.
\<close>

fun run :: "bool \<Rightarrow> (nat \<times> iteration) list \<Rightarrow> u8 list \<Rightarrow> receiver \<Rightarrow> (MQTTStatus list \<times> u8 list \<times> receiver) option" where
  "run m [] stream r = Some ([], stream, r)"
| "run m ((n, e) # es) stream r =
     (let k = min n (length (networkBuffer r) - rx_index r) in
      do { (st, r) \<leftarrow> receiveSingleIteration m (e\<lparr>received := Some (take k stream)\<rparr>) r;
           (sts, stream, r) \<leftarrow> run m es (drop k stream) r;
           Some (st # sts, stream, r) })"

lemma deliver_packet_received [simp]: "deliver_packet m (e\<lparr>received := x\<rparr>, p) v = deliver_packet m (e, p) v"
proof -
  have w: "with_library (e\<lparr>received := x\<rparr>) = with_library e" by (intro ext) (simp add: with_library_def)
  have "handle_packet m (e\<lparr>received := x\<rparr>) pkt r = handle_packet m e pkt r" for pkt r
    unfolding handle_packet_def incoming_publish_def handleIncomingAck_def publish_acks_def w ..
  then show ?thesis by (simp add: deliver_packet_def)
qed

text \<open>
  The packets handled are the first of the stream, each by an iteration of its own; the bytes of the others are in the
  buffer or in flight.  Each iteration brings the end nearer, or its status is that of a failed keep-alive.
\<close>

lemma run_stream:
  assumes "receiver_ok N r" "\<forall>p \<in> set ps. packet_ok N p" "queue r @ stream = concat (map packet_bytes ps)"
  shows "\<exists>sts rest r' hs. run m es stream r = Some (sts, rest, r') \<and> length sts = length es \<and> receiver_ok N r'
    \<and> subseq hs (map snd es) \<and> length hs \<le> length ps
    \<and> view r' = fold (deliver_packet m) (zip hs ps) (view r)
    \<and> queue r' @ rest = concat (map packet_bytes (drop (length hs) ps))
    \<and> ((\<forall>(n, e) \<in> set es. 0 < n) \<and> (\<forall>st \<in> set sts. \<not> silent_failure m st) \<longrightarrow>
         length rest + (length ps - length hs) \<le> length stream + length ps - length es)"
  using assms
proof (induction es arbitrary: ps stream r)
  case Nil
  then show ?case by (intro exI [of _ "[]"] exI [of _ stream] exI [of _ r]) simp
next
  case (Cons ne es)
  obtain n e where ne: "ne = (n, e)" by fastforce
  define k where "k = min n (length (networkBuffer r) - rx_index r)"
  let ?e = "e\<lparr>received := Some (take k stream)\<rparr>"
  have fits: "rx_index r + length (take k stream) \<le> N" using Cons.prems(1) by (auto simp: k_def receiver_ok_def)
  have "queue r @ take k stream @ drop k stream = concat (map packet_bytes ps)" using Cons.prems(3) by simp
  from iteration_step [OF Cons.prems(1) fits Cons.prems(2) this, of ?e m] obtain st r1 where
    s: "receiveSingleIteration m ?e r = Some (st, r1)" "receiver_ok N r1" and
    c: "view r1 = view r \<and> queue r1 = queue r @ take k stream
         \<and> (take k stream \<noteq> [] \<or> silent_failure m st \<or> ps = [] \<or> drop k stream \<noteq> [] \<and> rx_index r < N)
      \<or> (\<exists>p ps'. ps = p # ps' \<and> view r1 = deliver_packet m (e, p) (view r)
           \<and> queue r1 @ drop k stream = concat (map packet_bytes ps'))" by auto
  from c consider "view r1 = view r" "queue r1 = queue r @ take k stream"
      "take k stream \<noteq> [] \<or> silent_failure m st \<or> ps = [] \<or> drop k stream \<noteq> [] \<and> rx_index r < N"
    | p ps' where "ps = p # ps'" "view r1 = deliver_packet m (e, p) (view r)" "queue r1 @ drop k stream = concat (map packet_bytes ps')"
    by blast
  then show ?case
  proof cases
    case 1
    note a = 1(1,2) and progress = 1(3)
    have "queue r1 @ drop k stream = concat (map packet_bytes ps)" using a(2) Cons.prems(3) by simp
    from Cons.IH [OF s(2) Cons.prems(2) this] obtain sts rest r' hs where
      h: "run m es (drop k stream) r1 = Some (sts, rest, r')" "length sts = length es" "receiver_ok N r'"
      "subseq hs (map snd es)" "length hs \<le> length ps" "view r' = fold (deliver_packet m) (zip hs ps) (view r1)"
      "queue r' @ rest = concat (map packet_bytes (drop (length hs) ps))"
      "(\<forall>(n, e) \<in> set es. 0 < n) \<and> (\<forall>st \<in> set sts. \<not> silent_failure m st) \<longrightarrow>
         length rest + (length ps - length hs) \<le> length (drop k stream) + length ps - length es" by blast
    have run: "run m (ne # es) stream r = Some (st # sts, rest, r')" using s(1) h(1) by (simp add: ne k_def)
    have fast: "length rest + (length ps - length hs) \<le> length stream + length ps - length (ne # es)"
      if "(\<forall>(n, e) \<in> set (ne # es). 0 < n) \<and> (\<forall>st \<in> set (st # sts). \<not> silent_failure m st)"
    proof -
      have b: "length rest + (length ps - length hs) \<le> length (drop k stream) + length ps - length es" using h(8) that by simp
      have "take k stream \<noteq> [] \<or> ps = []"
        using progress that Cons.prems(1) by (auto simp: ne k_def receiver_ok_def)
      moreover have "stream = []" if "ps = []" using Cons.prems(3) that by simp
      moreover have "length (drop k stream) < length stream" if "take k stream \<noteq> []" using that by (cases stream) auto
      ultimately show ?thesis using b by (cases "take k stream = []") (auto simp del: length_drop take_eq_Nil)
    qed
    show ?thesis
      by (rule exI [of _ "st # sts"], rule exI [of _ rest], rule exI [of _ r'], rule exI [of _ hs])
        (use run fast a h subseq_Cons' in auto)
  next
    case (2 p ps')
    note a = 2
    have "\<forall>p \<in> set ps'. packet_ok N p" using Cons.prems(2) a(1) by simp
    from Cons.IH [OF s(2) this a(3)] obtain sts rest r' hs where
      h: "run m es (drop k stream) r1 = Some (sts, rest, r')" "length sts = length es" "receiver_ok N r'"
      "subseq hs (map snd es)" "length hs \<le> length ps'" "view r' = fold (deliver_packet m) (zip hs ps') (view r1)"
      "queue r' @ rest = concat (map packet_bytes (drop (length hs) ps'))"
      "(\<forall>(n, e) \<in> set es. 0 < n) \<and> (\<forall>st \<in> set sts. \<not> silent_failure m st) \<longrightarrow>
         length rest + (length ps' - length hs) \<le> length (drop k stream) + length ps' - length es" by blast
    have run: "run m (ne # es) stream r = Some (st # sts, rest, r')" using s(1) h(1) by (simp add: ne k_def)
    show ?thesis
      by (rule exI [of _ "st # sts"], rule exI [of _ rest], rule exI [of _ r'], rule exI [of _ "e # hs"])
        (use run a h ne in auto)
  qed
qed

text \<open>
  C15: Packets are handled one by one, whole and in the order of the connection, however the bytes arrive: after any number
  of iterations of either loop, with reads of any size, no access has gone outside the buffer; what the application has
  been told and what the library holds is what the first packets do when each of them arrives alone; and
  the bytes of all others are in the buffer or in flight - none is lost, doubled or taken for part of another packet.
\<close>

theorem packets_handled_in_order:
  assumes "rx_index r \<le> length (networkBuffer r)" "\<forall>p \<in> set ps. packet_ok (length (networkBuffer r)) p"
    and "take (rx_index r) (networkBuffer r) @ stream = concat (map packet_bytes ps)"
  shows "\<exists>sts rest r' hs. run m es stream r = Some (sts, rest, r')
    \<and> subseq hs (map snd es) \<and> length hs \<le> length ps
    \<and> (lib r', replies r') = fold (deliver_packet m) (zip hs ps) (lib r, replies r)
    \<and> take (rx_index r') (networkBuffer r') @ rest = concat (map packet_bytes (drop (length hs) ps))"
proof -
  have "receiver_ok (length (networkBuffer r)) r" using assms(1) by (simp add: receiver_ok_def)
  from run_stream [OF this assms(2,3), of m es] show ?thesis by blast
qed

text \<open>A connection for examples: a buffer of ten bytes, in which a PINGRESP and a SUBACK arrive byte by byte.\<close>

definition idle_receiver :: receiver where
  "idle_receiver = \<lparr>lib = \<lparr>ctx = \<lparr>outgoingPublishRecords = [], incomingPublishRecords = []\<rparr>, events = [], wire = []\<rparr>,
     networkBuffer = replicate 10 0, rx_index = 0, keepAliveIntervalSec = 60, lastPacketTxTime = 0, lastPacketRxTime = 0,
     pingReqSendTimeMs = 0, waitingForPingResp = False, replies = []\<rparr>"

definition quiet_turn :: iteration where
  "quiet_turn = \<lparr>received = Some [], dumped = \<lambda>_ _. 0, pinged = 2, acked = 4, clock_now = 0, clock_pinged = 0, clock_acked = 0,
     clock_received = 0\<rparr>"

lemma example_stream:
  "\<forall>p \<in> set [(0xD0, []), (0x90, [0, 7, 1])]. packet_ok (length (networkBuffer idle_receiver)) p"
  "take (rx_index idle_receiver) (networkBuffer idle_receiver) @ [0xD0, 0, 0x90, 3, 0, 7, 1]
     = concat (map packet_bytes [(0xD0, []), (0x90, [0, 7, 1])])"
  by (simp_all add: packet_ok_def packet_bytes_def length_bytes.simps idle_receiver_def incomingPacketValid_def)

theorem packets_handled_in_order_witness:
  "\<exists>sts rest r' hs. run True (replicate 4 (2, quiet_turn)) [0xD0, 0, 0x90, 3, 0, 7, 1] idle_receiver = Some (sts, rest, r')
     \<and> subseq hs (replicate 4 quiet_turn) \<and> length hs \<le> 2"
  using packets_handled_in_order [OF _ example_stream, of True "replicate 4 (2, quiet_turn)"] by (auto simp: idle_receiver_def)

text \<open>
  C16: Every packet is handled in the end: with as many iterations as there are bytes in flight and packets, each of
  which may read at least one byte, all packets have been handled and the buffer is empty - unless an iteration has
  reported that the keep-alive failed, which \<open>MQTT_ReceiveLoop\<close> never does.
\<close>

theorem every_packet_handled:
  assumes "rx_index r \<le> length (networkBuffer r)" "\<forall>p \<in> set ps. packet_ok (length (networkBuffer r)) p"
    and "take (rx_index r) (networkBuffer r) @ stream = concat (map packet_bytes ps)"
    and "\<forall>x \<in> set es. 0 < fst x" "length stream + length ps \<le> length es"
  shows "\<exists>sts rest r'. run m es stream r = Some (sts, rest, r')
    \<and> ((\<forall>st \<in> set sts. m \<longrightarrow> st \<noteq> MQTTSendFailed \<and> st \<noteq> MQTTKeepAliveTimeout) \<longrightarrow>
         rest = [] \<and> rx_index r' = 0
         \<and> (\<exists>hs. subseq hs (map snd es) \<and> length hs = length ps
              \<and> (lib r', replies r') = fold (deliver_packet m) (zip hs ps) (lib r, replies r)))"
proof -
  have "receiver_ok (length (networkBuffer r)) r" using assms(1) by (simp add: receiver_ok_def)
  from run_stream [OF this assms(2,3), of m es] obtain sts rest r' hs where
    h: "run m es stream r = Some (sts, rest, r')" "receiver_ok (length (networkBuffer r)) r'"
    "subseq hs (map snd es)" "length hs \<le> length ps" "view r' = fold (deliver_packet m) (zip hs ps) (view r)"
    "queue r' @ rest = concat (map packet_bytes (drop (length hs) ps))" and
    d: "(\<forall>(n, e) \<in> set es. 0 < n) \<and> (\<forall>st \<in> set sts. \<not> silent_failure m st) \<longrightarrow>
         length rest + (length ps - length hs) \<le> length stream + length ps - length es" by blast
  have "rest = [] \<and> rx_index r' = 0 \<and> length hs = length ps"
    if "\<forall>st \<in> set sts. m \<longrightarrow> st \<noteq> MQTTSendFailed \<and> st \<noteq> MQTTKeepAliveTimeout"
  proof -
    have "length rest + (length ps - length hs) \<le> 0" using d that assms(4,5) by (auto simp: silent_failure_def)
    then have "length rest = 0" "length ps - length hs = 0" by linarith+
    then have n: "rest = []" "length hs = length ps" using h(4) by simp_all
    then have "queue r' = []" using h(6) by simp
    then show ?thesis using n h(2) by (auto simp: receiver_ok_def)
  qed
  then show ?thesis using h(1,3,5) by blast
qed

theorem every_packet_handled_witness:
  "\<exists>sts r'. run False (replicate 9 (1, quiet_turn)) [0xD0, 0, 0x90, 3, 0, 7, 1] idle_receiver = Some (sts, [], r')
     \<and> rx_index r' = 0 \<and> replies r' = [(0xD0, 0, MQTTSuccess), (0x90, 7, MQTTSuccess)]"
proof -
  let ?ps = "[(0xD0, []), (0x90, [0, 7, 1])] :: packet list"
  have "rx_index idle_receiver \<le> length (networkBuffer idle_receiver)" by (simp add: idle_receiver_def)
  from every_packet_handled [OF this example_stream, of "replicate 9 (1, quiet_turn)" False] obtain sts r' hs where
    h: "run False (replicate 9 (1, quiet_turn)) [0xD0, 0, 0x90, 3, 0, 7, 1] idle_receiver = Some (sts, [], r')" "rx_index r' = 0"
    "subseq hs (replicate 9 quiet_turn)" "length hs = 2"
    "(lib r', replies r') = fold (deliver_packet False) (zip hs ?ps) (lib idle_receiver, [])"
    by (auto simp: idle_receiver_def)
  obtain I where "hs = nths (replicate 9 quiet_turn) I" using h(3) by (auto simp only: subseq_conv_nths)
  then have "set hs \<subseteq> {quiet_turn}" using set_nths_subset [of "replicate 9 quiet_turn" I] by auto
  then have "hs = [quiet_turn, quiet_turn]" using h(4) by (auto simp: length_Suc_conv numeral_2_eq_2)
  moreover have "deliver_packet False (quiet_turn, 0xD0, []) (l, rs) = (l, rs @ [(0xD0, 0, MQTTSuccess)])" for l rs
    by (simp add: deliver_packet_def handle_packet_def handleIncomingAck_def MQTT_DeserializeAck_def received_packet_def
        deserializePingresp_def fresh_def Let_def)
  moreover have "deliver_packet False (quiet_turn, 0x90, [0, 7, 1]) (l, rs) = (l, rs @ [(0x90, 7, MQTTSuccess)])" for l rs
    by (simp add: deliver_packet_def handle_packet_def handleIncomingAck_def MQTT_DeserializeAck_def received_packet_def
        deserializeSuback_def decode16_def readSubackStatus_def load_def fresh_def Let_def)
  ultimately have "replies r' = [(0xD0, 0, MQTTSuccess), (0x90, 7, MQTTSuccess)]" using h(5) by simp
  then show ?thesis using h(1,2) by blast
qed

section \<open>A silent peer\<close>

text \<open>Time is a number of milliseconds; the code sees it modulo \<open>2 ^ 32\<close>.\<close>

lemma elapsed: "p \<le> t \<Longrightarrow> t < p + 2 ^ 32 \<Longrightarrow> unat (calculateElapsedTime (of_nat t) (of_nat p)) = t - p"
proof -
  assume "p \<le> t" "t < p + 2 ^ 32"
  then have "of_nat t - of_nat p = (of_nat (t - p) :: u32)" "t - p < 2 ^ 32" by auto
  then show ?thesis unfolding calculateElapsedTime_def by (simp add: unat_of_nat)
qed

text \<open>No whole packet is in the buffer.\<close>

definition pending :: "nat \<Rightarrow> receiver \<Rightarrow> bool" where
  "pending N r \<longleftrightarrow> receiver_ok N r \<and> 0 < N
     \<and> (\<exists>p behind. packet_ok N p \<and> queue r @ behind = packet_bytes p \<and> behind \<noteq> [])"

text \<open>Iterations that read nothing, with the time of the test and the time at which a PINGREQ would be sent.\<close>

fun timeline :: "nat \<Rightarrow> (nat \<times> nat \<times> iteration) list \<Rightarrow> bool" where
  "timeline s [] = True"
| "timeline s ((t, u, e) # xs) =
     (s \<le> t \<and> t \<le> u \<and> clock_now e = of_nat t \<and> clock_pinged e = of_nat u \<and> timeline u xs)"

lemma keep_alive_result:
  "handleKeepAlive (e\<lparr>received := x\<rparr>) r = handleKeepAlive e r"
  "fst (handleKeepAlive e r) \<in> {MQTTSuccess, MQTTSendFailed, MQTTKeepAliveTimeout}"
  "networkBuffer (snd (handleKeepAlive e r)) = networkBuffer r" "rx_index (snd (handleKeepAlive e r)) = rx_index r"
  "lastPacketRxTime (snd (handleKeepAlive e r)) = lastPacketRxTime r"
  by (auto simp: handleKeepAlive_def MQTT_Ping_def Let_def)

lemma finish_silent:
  assumes "rx_index r < remainingLength pkt + headerLength pkt \<and> remainingLength pkt + headerLength pkt \<le> length (networkBuffer r)
    \<or> st \<noteq> MQTTSuccess"
  shows "\<exists>st'. finish True (e\<lparr>received := Some []\<rparr>) (st, pkt, r) = Some (st', snd (handleKeepAlive e r))
    \<and> (fst (handleKeepAlive e r) \<noteq> MQTTSuccess \<longrightarrow> silent_failure True st')"
  using assms keep_alive_result(1) [of "Some []" e r] keep_alive_result(2-5) [of e r]
  by (cases "handleKeepAlive e r"; cases "st = MQTTSuccess") (auto simp: finish_def keep_alive_def silent_failure_def Let_def)

lemma silent_iteration:
  assumes "pending N r"
  shows "\<exists>st. receiveSingleIteration True (e\<lparr>received := Some []\<rparr>) r = Some (st, snd (handleKeepAlive e r))
    \<and> (fst (handleKeepAlive e r) \<noteq> MQTTSuccess \<longrightarrow> silent_failure True st)"
proof -
  let ?e = "e\<lparr>received := Some []\<rparr>"
  obtain p behind where p: "packet_ok N p" "queue r @ behind = packet_bytes p @ []" "behind \<noteq> []" and r: "receiver_ok N r"
    using assms by (auto simp: pending_def)
  have "rx_index r + length behind = length (packet_bytes p)" using arg_cong [OF p(2), of length] r by (auto simp: receiver_ok_def)
  moreover have "0 < length behind" using p(3) by simp
  ultimately have short: "rx_index r < length (packet_bytes p)" by linarith
  have "\<exists>st pkt. receive_bytes ?e r = Some (st, pkt, r) \<and> (st \<noteq> MQTTSuccess
      \<or> rx_index r < remainingLength pkt + headerLength pkt \<and> remainingLength pkt + headerLength pkt \<le> length (networkBuffer r))"
  proof (cases "rx_index r = 0")
    case False
    have b: "put [] (networkBuffer r, rx_index r) = Some (networkBuffer r, rx_index r)" using r by (simp add: put_Nil receiver_ok_def)
    have w: "remainingLength (received_packet p) + headerLength (received_packet p) = length (packet_bytes p)"
      by (simp add: received_packet_def packet_bytes_def)
    have "rx_index r \<le> length (networkBuffer r)" using r by (simp add: receiver_ok_def)
    from parse_prefix [OF p(1) _ this p(2)] False b w short r p(1) show ?thesis
      by (auto simp: receive_bytes_def receiver_ok_def packet_ok_def)
  qed (simp add: receive_bytes_def)
  then obtain st pkt where "receive_bytes ?e r = Some (st, pkt, r)" and f: "st \<noteq> MQTTSuccess
      \<or> rx_index r < remainingLength pkt + headerLength pkt \<and> remainingLength pkt + headerLength pkt \<le> length (networkBuffer r)"
    by blast
  then show ?thesis using finish_silent [of r pkt st e] by (auto simp: receiveSingleIteration_finish)
qed

text \<open>\<open>t0\<close>: when the last packet was received; \<open>p\<close>: when the PINGREQ was sent that waits for its answer.\<close>

lemma keep_alive_times:
  assumes e: "clock_now e = of_nat t" "clock_pinged e = of_nat u" "t \<le> u"
    and rx: "lastPacketRxTime r = of_nat t0" "t0 \<le> t" "t < t0 + 2 ^ 32"
    and k: "handleKeepAlive e r = (ka, r')"
  shows "waitingForPingResp r \<and> pingReqSendTimeMs r = of_nat p \<and> p \<le> t \<and> t < p + 2 ^ 32 \<longrightarrow>
      waitingForPingResp r' \<and> pingReqSendTimeMs r' = of_nat p \<and> (ka = MQTTSuccess \<longrightarrow> t \<le> p + 5000)"
    and "\<not> waitingForPingResp r \<longrightarrow> ka = MQTTSuccess \<longrightarrow>
      \<not> waitingForPingResp r' \<and> t < t0 + 30000 \<or> waitingForPingResp r' \<and> pingReqSendTimeMs r' = of_nat u"
proof -
  have "(5000 :: u32) < x \<longleftrightarrow> 5000 < unat x" "(30000 :: u32) \<le> x \<longleftrightarrow> 30000 \<le> unat x" for x
    by (simp_all add: word_less_nat_alt word_le_nat_alt)
  note w = this elapsed [OF rx(2,3)]
  show "waitingForPingResp r \<and> pingReqSendTimeMs r = of_nat p \<and> p \<le> t \<and> t < p + 2 ^ 32 \<longrightarrow>
      waitingForPingResp r' \<and> pingReqSendTimeMs r' = of_nat p \<and> (ka = MQTTSuccess \<longrightarrow> t \<le> p + 5000)"
    using k e(1) w elapsed [of p t] by (auto simp: handleKeepAlive_def Let_def split: if_splits)
  have z: "calculateElapsedTime (of_nat t) (of_nat t0) = 0 \<Longrightarrow> t = t0"
    using elapsed [OF rx(2,3)] rx(2) by simp
  show "\<not> waitingForPingResp r \<longrightarrow> ka = MQTTSuccess \<longrightarrow>
      \<not> waitingForPingResp r' \<and> t < t0 + 30000 \<or> waitingForPingResp r' \<and> pingReqSendTimeMs r' = of_nat u"
    using k e w z rx by (auto simp: handleKeepAlive_def MQTT_Ping_def Let_def split: if_splits)
qed

lemma timeline_bounds: "timeline s xs \<Longrightarrow> x \<in> set xs \<Longrightarrow> s \<le> fst x \<and> fst x \<le> fst (snd x)"
  by (induction s xs rule: timeline.induct) fastforce+

lemma pending_keep_alive: "pending N r \<Longrightarrow> pending N (snd (handleKeepAlive e r))"
  by (simp add: pending_def receiver_ok_def keep_alive_result)

abbreviation (input) silent_reads :: "(nat \<times> nat \<times> iteration) list \<Rightarrow> (nat \<times> iteration) list" where
  "silent_reads xs \<equiv> map (\<lambda>(t, u, e). (1, e)) xs"

lemma sorted_wrt_if_all: "\<forall>x \<in> set xs. \<forall>y \<in> set xs. P x y \<Longrightarrow> sorted_wrt P xs"
  by (induction xs) auto

lemma silent_run:
  assumes "pending N r" "timeline s xs" "lastPacketRxTime r = of_nat t0" "t0 \<le> s" "\<forall>x \<in> set xs. fst x < t0 + 2 ^ 32"
  shows "\<exists>sts r'. run True (silent_reads xs) [] r = Some (sts, [], r')
    \<and> ((\<forall>st \<in> set sts. \<not> silent_failure True st) \<longrightarrow>
         (\<forall>p. waitingForPingResp r \<and> pingReqSendTimeMs r = of_nat p \<and> t0 \<le> p \<and> p \<le> s \<longrightarrow> (\<forall>x \<in> set xs. fst x \<le> p + 5000))
         \<and> (\<not> waitingForPingResp r \<longrightarrow> sorted_wrt (\<lambda>x y. t0 + 30000 \<le> fst x \<longrightarrow> fst y \<le> fst (snd x) + 5000) xs))"
  using assms
proof (induction s xs arbitrary: r rule: timeline.induct)
  case (2 s t u e xs)
  obtain ka r1 where k: "handleKeepAlive e r = (ka, r1)" by fastforce
  obtain st where st: "receiveSingleIteration True (e\<lparr>received := Some []\<rparr>) r = Some (st, r1)"
    "ka \<noteq> MQTTSuccess \<longrightarrow> silent_failure True st" using silent_iteration [OF 2(2), of e] k by auto
  have tl: "s \<le> t" "t \<le> u" "clock_now e = of_nat t" "clock_pinged e = of_nat u" "timeline u xs" using 2(3) by auto
  have t: "t0 \<le> t" "t < t0 + 2 ^ 32" using 2(5,6) tl(1) by auto
  have r1: "pending N r1" "lastPacketRxTime r1 = of_nat t0"
    using pending_keep_alive [OF 2(2), of e] keep_alive_result(5) [of e r] k 2(4) by simp_all
  from 2(1) [OF r1(1) tl(5) r1(2)] 2(5,6) tl(1,2) obtain sts r' where
    run: "run True (silent_reads xs) [] r1 = Some (sts, [], r')" and
    IH: "(\<forall>st \<in> set sts. \<not> silent_failure True st) \<longrightarrow>
         (\<forall>p. waitingForPingResp r1 \<and> pingReqSendTimeMs r1 = of_nat p \<and> t0 \<le> p \<and> p \<le> u \<longrightarrow> (\<forall>x \<in> set xs. fst x \<le> p + 5000))
         \<and> (\<not> waitingForPingResp r1 \<longrightarrow> sorted_wrt (\<lambda>x y. t0 + 30000 \<le> fst x \<longrightarrow> fst y \<le> fst (snd x) + 5000) xs)"
    by auto
  note step = keep_alive_times [OF tl(3,4,2) 2(4) t k]
  have wait: "\<forall>x \<in> set ((t, u, e) # xs). fst x \<le> p + 5000"
    if ok: "\<forall>st \<in> set (st # sts). \<not> silent_failure True st"
      and p: "waitingForPingResp r" "pingReqSendTimeMs r = of_nat p" "t0 \<le> p" "p \<le> s" for p
  proof -
    have "ka = MQTTSuccess" using ok st(2) by auto
    then have "waitingForPingResp r1" "pingReqSendTimeMs r1 = of_nat p" "t \<le> p + 5000" using step(1) [of p] p tl(1) t(2) by auto
    then show ?thesis using IH ok p(3,4) tl(1,2) by auto
  qed
  have new: "sorted_wrt (\<lambda>x y. t0 + 30000 \<le> fst x \<longrightarrow> fst y \<le> fst (snd x) + 5000) ((t, u, e) # xs)"
    if ok: "\<forall>st \<in> set (st # sts). \<not> silent_failure True st" and w: "\<not> waitingForPingResp r"
  proof -
    have "ka = MQTTSuccess" using ok st(2) by auto
    then consider "\<not> waitingForPingResp r1" "t < t0 + 30000" | "waitingForPingResp r1" "pingReqSendTimeMs r1 = of_nat u"
      using step(2) w by blast
    then show ?thesis
    proof cases
      case 2
      then have all: "\<forall>x \<in> set xs. fst x \<le> u + 5000" using IH ok t(1) tl(2) by auto
      have "sorted_wrt (\<lambda>x y. t0 + 30000 \<le> fst x \<longrightarrow> fst y \<le> fst (snd x) + 5000) xs"
        by (rule sorted_wrt_if_all) (use all timeline_bounds [OF tl(5)] in force)
      then show ?thesis using all by simp
    qed (use IH ok in simp)
  qed
  have "run True (silent_reads ((t, u, e) # xs)) [] r = Some (st # sts, [], r')" using st(1) run by simp
  then show ?case using wait new by blast
qed simp

text \<open>
  C17: A dead connection is noticed, whatever the clock says and also when it wraps around.  When nothing more arrives,
  no PINGREQ is waiting for its answer and \<open>MQTT_ProcessLoop\<close> is called at some time at least thirty seconds after the last packet was received,
  and again more than five seconds after a PINGREQ of that call would have left, then one of the calls up to
  then has reported that the keep-alive failed.  The calls before, between and after do not matter.
\<close>

theorem dead_connection_noticed:
  assumes "pending N r" "timeline t0 xs" "lastPacketRxTime r = of_nat t0" "\<not> waitingForPingResp r"
    and "\<forall>x \<in> set xs. fst x < t0 + 2 ^ 32"
    and "i < j" "j < length xs" "t0 + 30000 \<le> fst (xs ! i)" "fst (snd (xs ! i)) + 5000 < fst (xs ! j)"
  shows "\<exists>sts r' st. run True (map (\<lambda>(t, u, e). (1, e)) xs) [] r = Some (sts, [], r')
    \<and> st \<in> set sts \<and> st \<in> {MQTTSendFailed, MQTTKeepAliveTimeout}"
proof -
  obtain sts r' where r: "run True (silent_reads xs) [] r = Some (sts, [], r')" and
    s: "(\<forall>st \<in> set sts. \<not> silent_failure True st) \<longrightarrow>
      sorted_wrt (\<lambda>x y. t0 + 30000 \<le> fst x \<longrightarrow> fst y \<le> fst (snd x) + 5000) xs"
    using silent_run [OF assms(1-3) order_refl assms(5)] assms(4) by blast
  have "\<not> sorted_wrt (\<lambda>x y. t0 + 30000 \<le> fst x \<longrightarrow> fst y \<le> fst (snd x) + 5000) xs"
    using sorted_wrt_nth_less [OF _ assms(6,7)] assms(8,9) by fastforce
  then show ?thesis using r s by (auto simp: silent_failure_def)
qed

theorem dead_connection_noticed_witness:
  "\<exists>sts r' st. run True [(1, quiet_turn\<lparr>clock_now := 30000, clock_pinged := 30002\<rparr>), (1, quiet_turn\<lparr>clock_now := 35003, clock_pinged := 35003\<rparr>)]
      [] idle_receiver = Some (sts, [], r')
    \<and> st \<in> set sts \<and> st \<in> {MQTTSendFailed, MQTTKeepAliveTimeout}"
proof -
  let ?xs = "[(30000, 30002, quiet_turn\<lparr>clock_now := 30000, clock_pinged := 30002\<rparr>),
    (35003, 35003, quiet_turn\<lparr>clock_now := 35003, clock_pinged := 35003\<rparr>)]"
  have "pending 10 idle_receiver" unfolding pending_def
    by (auto simp: idle_receiver_def receiver_ok_def packet_ok_def packet_bytes_def incomingPacketValid_def length_bytes.simps
        intro: exI [of _ "0xD0"] exI [of _ "[]"])
  moreover have "timeline 0 ?xs" by simp
  ultimately show ?thesis
    using dead_connection_noticed [of 10 idle_receiver 0 ?xs 0 1] by (simp add: idle_receiver_def)
qed

text \<open>
  With a keep-alive interval of 0, which the comment calls disabled, a PINGREQ is sent all the same when nothing has
  been received for thirty seconds.
\<close>

theorem zero_interval_still_pings:
  assumes "keepAliveIntervalSec r = 0" "\<not> waitingForPingResp r" "pinged e = 2"
    and "30000 \<le> calculateElapsedTime (clock_now e) (lastPacketRxTime r)"
  shows "\<exists>r'. handleKeepAlive e r = (MQTTSuccess, r') \<and> waitingForPingResp r'"
proof -
  have "calculateElapsedTime (clock_now e) (lastPacketRxTime r) \<noteq> 0" using assms(4) by auto
  then show ?thesis using assms by (simp add: handleKeepAlive_def MQTT_Ping_def Let_def)
qed

section \<open>A packet that is too long\<close>

lemma dump_loop_ends:
  "0 < n \<Longrightarrow> t \<le> rest \<Longrightarrow>
     \<exists>t'. dump_loop got n rest t = Some t' \<and> t \<le> t' \<and> t' \<le> rest \<and> ((\<forall>t n. got t n = int n) \<longrightarrow> t' = rest)"
proof (induction "rest - t" arbitrary: n t rule: less_induct)
  case less
  show ?case
  proof (cases "t < rest")
    case True
    let ?n = "if rest - t < n then rest - t else n"
    have n: "0 < ?n" "t + ?n \<le> rest" "rest - (t + ?n) < rest - t" using True less.prems by auto
    obtain t' where t': "dump_loop got ?n rest (t + ?n) = Some t'" "t + ?n \<le> t'" "t' \<le> rest"
      "(\<forall>t n. got t n = int n) \<longrightarrow> t' = rest" using less.hyps [OF n(3,1,2)] by blast
    show ?thesis
    proof (cases "got t ?n = int ?n")
      case ok: True
      have "dump_loop got n rest t = dump_loop got ?n rest (t + ?n)"
        using True ok by (subst dump_loop.simps) (simp add: Let_def)
      then show ?thesis using t' by auto
    next
      case False
      then have "dump_loop got n rest t = Some t" using True by (subst dump_loop.simps) (simp add: Let_def)
      then show ?thesis using False True by auto
    qed
  qed (use less.prems in \<open>subst dump_loop.simps, simp\<close>)
qed

text \<open>
  C18: A packet that does not fit into the buffer is skipped as a whole: when its header has arrived, its remaining bytes are
  read off the connection, in pieces that fit, and thrown away, so that the next byte read is the first of the next
  packet; nothing is handed to the application, and the loop ends.  If the bytes fail to arrive, the iteration
  reports it.
\<close>

theorem long_packet_skipped:
  assumes "rx_index r + length bs \<le> length (networkBuffer r)" "received e = Some bs" "bs \<noteq> []"
    and "incomingPacketValid (fst p)" "length (snd p) < 268435456" "length (networkBuffer r) < length (packet_bytes p)"
    and "take (rx_index r) (networkBuffer r) @ bs @ behind = packet_bytes p"
    and "length (length_bytes (length (snd p))) < rx_index r + length bs"
  shows "\<exists>n. n \<le> length behind \<and> ((\<forall>t n. dumped e t n = int n) \<longrightarrow> n = length behind)
    \<and> receiveSingleIteration m e r = Some (if n = length behind then MQTTSuccess else MQTTRecvFailed,
        r\<lparr>networkBuffer := replicate (length (networkBuffer r)) 0, rx_index := 0\<rparr>)"
proof -
  let ?N = "length (networkBuffer r)" and ?i = "rx_index r + length bs"
  have r: "receiver_ok ?N r" and i: "0 < ?i" using assms(1,3) by (auto simp: receiver_ok_def)
  have p: "packet_ok (length (packet_bytes p)) p" using assms(4,5) by (simp add: packet_ok_def)
  obtain buf where b: "put bs (networkBuffer r, rx_index r) = Some (buf, ?i)" "length buf = ?N" "take ?i buf = queue r @ bs"
    using put_queue [OF r assms(1)] by blast
  let ?pkt = "(received_packet p)\<lparr>pRemainingData := None\<rparr>" and ?r = "r\<lparr>networkBuffer := buf, rx_index := ?i\<rparr>"
  have q: "take ?i buf @ behind = packet_bytes p @ []" "?i \<le> length buf" using assms(1,7) b(2,3) by auto
  have "MQTT_ProcessIncomingPacketTypeAndLength buf ?i no_packet_info = Some (MQTTSuccess, ?pkt)"
    by (rule parse_whole [OF p i q(2,1) assms(8)])
  then have "receive_bytes e r = Some (MQTTSuccess, ?pkt, ?r)" using assms(2,3) b(1) by (simp add: receive_bytes_def)
  moreover have whole: "remainingLength ?pkt + headerLength ?pkt = length (packet_bytes p)"
    by (simp add: received_packet_def packet_bytes_def)
  moreover have "length (packet_bytes p) - ?i = length behind" using arg_cong [OF q(1), of length] q(2) by simp
  moreover obtain n where "dump_loop (dumped e) ?N (length behind) 0 = Some n" "n \<le> length behind"
    "(\<forall>t n. dumped e t n = int n) \<longrightarrow> n = length behind"
    using dump_loop_ends [of ?N 0 "length behind" "dumped e"] assms(1,3) by (cases ?N) auto
  ultimately show ?thesis using assms(2,3,6) b(2)
    by (intro exI [of _ n]) (simp add: receiveSingleIteration_finish finish_def keep_alive_def discardStoredPacket_def Let_def)
qed

theorem long_packet_skipped_witness:
  "receiveSingleIteration True (quiet_turn\<lparr>received := Some [0x30, 20, 1], dumped := \<lambda>_ n. int n\<rparr>) idle_receiver
     = Some (MQTTSuccess, idle_receiver\<lparr>networkBuffer := replicate 10 0, rx_index := 0\<rparr>)"
proof -
  let ?e = "quiet_turn\<lparr>received := Some [0x30, 20, 1], dumped := \<lambda>_ n. int n\<rparr>" and ?p = "(0x30, 1 # replicate 19 1) :: packet"
  have b: "length_bytes 20 = [20]" by (simp add: length_bytes.simps)
  then have p: "packet_bytes ?p = [0x30, 20, 1] @ replicate 19 1" by (simp add: packet_bytes_def)
  have i: "rx_index idle_receiver = 0" "length (networkBuffer idle_receiver) = 10" by (simp_all add: idle_receiver_def)
  have "\<exists>n. n \<le> length (replicate 19 (1 :: u8)) \<and> ((\<forall>t n. dumped ?e t n = int n) \<longrightarrow> n = length (replicate 19 (1 :: u8)))
    \<and> receiveSingleIteration True ?e idle_receiver = Some (if n = length (replicate 19 (1 :: u8)) then MQTTSuccess else MQTTRecvFailed,
        idle_receiver\<lparr>networkBuffer := replicate (length (networkBuffer idle_receiver)) 0, rx_index := 0\<rparr>)"
  proof (rule long_packet_skipped [where p = ?p and bs = "[0x30, 20, 1]"])
    show "incomingPacketValid (fst ?p)" by (simp add: incomingPacketValid_def)
    show "length (networkBuffer idle_receiver) < length (packet_bytes ?p)" unfolding p i by simp
    show "take (rx_index idle_receiver) (networkBuffer idle_receiver) @ [0x30, 20, 1] @ replicate 19 1 = packet_bytes ?p"
      unfolding p i by simp
    show "length (length_bytes (length (snd ?p))) < rx_index idle_receiver + length [0x30 :: u8, 20, 1]" using b by (simp add: i)
  qed (simp_all add: i)
  then show ?thesis by (auto simp: i)
qed

section \<open>A new connection\<close>

text \<open>
  C19: When the broker still has the session, the PUBRELs of the exchanges that have got that far are sent again, each once and
  in the order of their PUBRECs, and these exchanges now wait for the PUBCOMP: all of them when every write succeeds,
  otherwise those before the first failure, which is reported.  When it has not, all records are dropped.  Either way the
  buffer is empty and zero, so that no byte of the former connection is taken for part of a packet, and
  but for the time of the last transmission nothing else changes.
\<close>

theorem session_resumption:
  assumes "context_ok (ctx (lib r))"
  shows "(\<exists>n. let q = filter to_release (active (outgoingPublishRecords (ctx (lib r)))) in
      n \<le> length q \<and> ((\<forall>i. oks i) \<longrightarrow> n = length q)
      \<and> handleSessionResumption True oks tx r
        = (if n = length q then MQTTSuccess else MQTTSendFailed,
           r\<lparr>lib := (lib r)\<lparr>
               ctx := (ctx (lib r))\<lparr>outgoingPublishRecords := advance_first n (outgoingPublishRecords (ctx (lib r)))\<rparr>,
               wire := wire (lib r) @ map (\<lambda>r. Wire_ack MQTTPubrel (packetId r)) (take n q)\<rparr>,
             networkBuffer := replicate (length (networkBuffer r)) 0, rx_index := 0, lastPacketTxTime := tx\<rparr>))
    \<and> (\<exists>c. handleSessionResumption False oks tx r
        = (MQTTSuccess, r\<lparr>lib := (lib r)\<lparr>ctx := c\<rparr>,
             networkBuffer := replicate (length (networkBuffer r)) 0, rx_index := 0, lastPacketTxTime := tx\<rparr>)
      \<and> abs_context c = (abs_context (ctx (lib r)))\<lparr>outgoing := [], incoming := []\<rparr>)"
proof -
  have log: "log_ok MQTT_SEND ([] @ outgoingPublishRecords (ctx (lib r)))" using assms by (simp add: context_ok_def)
  have "filter to_release (active rs) = filter to_release rs" if "table_ok rs" for rs
    using that by (auto simp: active_def table_ok_def to_release_def free_record_def intro!: filter_cong)
  then have f: "filter to_release (active (outgoingPublishRecords (ctx (lib r)))) = filter to_release (outgoingPublishRecords (ctx (lib r)))"
    using log_okD(1) [OF log] by simp
  have z: "active (map (\<lambda>_. free_record) rs) = []" for rs :: records by (simp add: active_def)
  from resend_first [OF log, of "lib r" oks MQTTStateNull] obtain n where
    "n \<le> length (filter to_release (outgoingPublishRecords (ctx (lib r))))"
    "(\<forall>i. oks i) \<longrightarrow> n = length (filter to_release (outgoingPublishRecords (ctx (lib r))))"
    "resend_pubrels oks 0 MQTTStateNull (lib r)
      = (if n = length (filter to_release (outgoingPublishRecords (ctx (lib r)))) then MQTTSuccess else MQTTSendFailed,
         (lib r)\<lparr>ctx := (ctx (lib r))\<lparr>outgoingPublishRecords := advance_first n (outgoingPublishRecords (ctx (lib r)))\<rparr>,
           wire := wire (lib r) @ map (\<lambda>r. Wire_ack MQTTPubrel (packetId r))
             (take n (filter to_release (outgoingPublishRecords (ctx (lib r)))))\<rparr>)" by auto
  moreover have "\<exists>c. handleSessionResumption False oks tx r
        = (MQTTSuccess, r\<lparr>lib := (lib r)\<lparr>ctx := c\<rparr>,
             networkBuffer := replicate (length (networkBuffer r)) 0, rx_index := 0, lastPacketTxTime := tx\<rparr>)
      \<and> abs_context c = (abs_context (ctx (lib r)))\<lparr>outgoing := [], incoming := []\<rparr>"
    by (rule exI [of _ "(ctx (lib r))\<lparr>outgoingPublishRecords := map (\<lambda>_. free_record) (outgoingPublishRecords (ctx (lib r))),
        incomingPublishRecords := map (\<lambda>_. free_record) (incomingPublishRecords (ctx (lib r)))\<rparr>"])
      (cases r, simp add: handleSessionResumption_def resume_records_def abs_context_def z Let_def)
  ultimately show ?thesis unfolding Let_def f
    by (intro conjI exI [of _ n]) (cases r; simp add: handleSessionResumption_def resume_records_def Let_def)+
qed

theorem session_resumption_witness:
  "let c = snd (state_run [Reserve 1 MQTTQoS2, Reserve 2 MQTTQoS2, Sent 1 MQTTQoS2, Sent 2 MQTTQoS2,
        Ack_received 2 MQTTPubrec, Ack_received 1 MQTTPubrec, Ack_sent 2 MQTTPubrel] no_flight);
       r = idle_receiver\<lparr>lib := \<lparr>ctx = c, events = [], wire = []\<rparr>, rx_index := 7\<rparr>
   in wire (lib (snd (handleSessionResumption True (\<lambda>_. True) 0 r))) = [Wire_ack MQTTPubrel 2, Wire_ack MQTTPubrel 1]
      \<and> rx_index (snd (handleSessionResumption True (\<lambda>_. True) 0 r)) = 0"
proof -
  let ?as = "[Reserve 1 MQTTQoS2, Reserve 2 MQTTQoS2, Sent 1 MQTTQoS2, Sent 2 MQTTQoS2,
        Ack_received 2 MQTTPubrec, Ack_received 1 MQTTPubrec, Ack_sent 2 MQTTPubrel]"
  let ?c = "snd (state_run ?as no_flight)"
  let ?r = "idle_receiver\<lparr>lib := \<lparr>ctx = ?c, events = [], wire = []\<rparr>, rx_index := 7\<rparr>"
  have ok: "context_ok (ctx (lib ?r))" using state_run_ok [of no_flight ?as] by simp
  have "filter to_release (active (outgoingPublishRecords ?c))
      = [\<lparr>packetId = 2, qos = MQTTQoS2, publishState = MQTTPubCompPending\<rparr>,
         \<lparr>packetId = 1, qos = MQTTQoS2, publishState = MQTTPubRelSend\<rparr>]" by code_simp
  then show ?thesis using session_resumption [OF ok, of "\<lambda>_. True" 0]
    by (auto simp: Let_def)
qed

end
