(* ===== verification/Update.thy ===== *)
theory Update
  imports Ble_Command
begin

text \<open>
  The firmware update: the turn of the main loop of \<open>src/main/main.c\<close> that answers the phone's request, and
  \<open>ota_main\<close> with its task of \<open>src/main/wifi/http_ota.c\<close>.  The download itself is the platform's; its
  result is an argument, as are the state of the network and the addresses the allocator hands out.
\<close>

section \<open>State\<close>

text \<open>
  \<open>ota_tasks\<close>: the update tasks that exist, each with its handle and the address of its copy of the URL;
  \<open>ota_heap\<close>: the copies that are allocated; \<open>bad_free\<close>: memory was freed that was not allocated;
  \<open>restarting\<close>: an update task has reached \<open>system_reset\<close>.
\<close>

record update =
  phone :: app
  bluetooth :: bool
  OTA_Enable :: u8
  xOTA_Handle :: "nat option"
  ota_tasks :: "(nat \<times> nat) list"
  ota_heap :: "nat set"
  bad_free :: bool
  restarting :: bool

definition free_url :: "nat \<Rightarrow> update \<Rightarrow> update" where
  "free_url a u = (if a \<in> ota_heap u then u\<lparr>ota_heap := ota_heap u - {a}\<rparr> else u\<lparr>bad_free := True\<rparr>)"

section \<open>Operations\<close>

definition OTA_Get_Enable :: "update \<Rightarrow> u8" where
  "OTA_Get_Enable u = OTA_Enable u"

text \<open>
  \<open>ap\<close>: the station has an access point, \<open>ip\<close>: and an address, \<open>mem\<close>: there is memory for the copy of the URL, which goes
  to \<open>a\<close>; \<open>created\<close>: the task is created, with handle \<open>h\<close>.
\<close>

definition ota_main :: "bool \<Rightarrow> bool \<Rightarrow> bool \<Rightarrow> nat \<Rightarrow> bool \<Rightarrow> nat \<Rightarrow> update \<Rightarrow> update" where
  "ota_main ap ip mem a created h u =
     (if \<not> ap then u
      else if \<not> ip then u
      else if \<not> mem then u
      else
        let u = u\<lparr>ota_heap := insert a (ota_heap u)\<rparr>
        in if created then u\<lparr>xOTA_Handle := Some h, ota_tasks := ota_tasks u @ [(h, a)]\<rparr> else u)"

text \<open>
  The task with handle \<open>h\<close> up to its call of \<open>esp_https_ota\<close>, and from its return on.  After a failure the
  task deletes the task whose handle was stored last; when that is another one, it runs on.
\<close>

definition ota_task_start :: "nat \<Rightarrow> update \<Rightarrow> update" where
  "ota_task_start h u = (if h \<in> fst ` set (ota_tasks u) then u\<lparr>OTA_Enable := 1\<rparr> else u)"

definition ota_task_end :: "bool \<Rightarrow> nat \<Rightarrow> update \<Rightarrow> update" where
  "ota_task_end ok h u =
     (case map_of (ota_tasks u) h of
        None \<Rightarrow> u
      | Some a \<Rightarrow>
          if ok then (free_url a u)\<lparr>restarting := True\<rparr>
          else
            let u = free_url a (u\<lparr>OTA_Enable := 0\<rparr>);
                gone = (case xOTA_Handle u of None \<Rightarrow> h | Some h' \<Rightarrow> h');
                u = u\<lparr>ota_tasks := filter (\<lambda>t. fst t \<noteq> gone) (ota_tasks u)\<rparr>
            in if gone = h then u else (free_url a u)\<lparr>restarting := True\<rparr>)"

text \<open>
  What the phone sends while Bluetooth is on; \<open>None\<close> when handling it reads through a null pointer.
\<close>

definition phone_sends :: "'j libs \<Rightarrow> world \<Rightarrow> char list \<Rightarrow> update \<Rightarrow> update option" where
  "phone_sends L w data u =
     (if bluetooth u then map_option (\<lambda>a. u\<lparr>phone := a\<rparr>) (BLE_APP_Command L w data (phone u)) else Some u)"

fun phone_sends_all :: "'j libs \<Rightarrow> world \<Rightarrow> char list list \<Rightarrow> update \<Rightarrow> update option" where
  "phone_sends_all L w [] u = Some u"
| "phone_sends_all L w (d # ds) u = Option.bind (phone_sends L w d u) (phone_sends_all L w ds)"

text \<open>
  A turn of the main loop.  \<open>late\<close>: what the phone sends between the clearing of the flag and the stop of the
  Bluetooth stack.
\<close>

definition main_turn ::
  "'j libs \<Rightarrow> world \<Rightarrow> char list list \<Rightarrow> bool \<Rightarrow> bool \<Rightarrow> bool \<Rightarrow> nat \<Rightarrow> bool \<Rightarrow> nat \<Rightarrow> update \<Rightarrow> update option" where
  "main_turn L w late ap ip mem a created h u =
     (if g_start_ota_flag (phone u) then
        map_option (\<lambda>u. ota_main ap ip mem a created h (u\<lparr>bluetooth := False\<rparr>))
          (phone_sends_all L w late (u\<lparr>phone := (phone u)\<lparr>g_start_ota_flag := False\<rparr>\<rparr>))
      else Some u)"

section \<open>Runs\<close>

datatype update_op =
    Phone_sends "char list"
  | Main_turn "char list list" bool bool bool nat bool nat
  | Task_starts nat
  | Task_ends bool nat

definition update_do :: "'j libs \<Rightarrow> world \<Rightarrow> update_op \<Rightarrow> update \<Rightarrow> update option" where
  "update_do L w e u =
     (case e of
        Phone_sends data \<Rightarrow> phone_sends L w data u
      | Main_turn late ap ip mem a created h \<Rightarrow> main_turn L w late ap ip mem a created h u
      | Task_starts h \<Rightarrow> Some (ota_task_start h u)
      | Task_ends ok h \<Rightarrow> Some (ota_task_end ok h u))"

fun update_run :: "'j libs \<Rightarrow> world \<Rightarrow> update_op list \<Rightarrow> update \<Rightarrow> update option" where
  "update_run L w [] u = Some u"
| "update_run L w (e # es) u =
     (if restarting u then Some u else Option.bind (update_do L w e u) (update_run L w es))"

text \<open>No request arrives in the moment between the clearing of the flag and the stop of Bluetooth.\<close>

fun no_late_request :: "update_op \<Rightarrow> bool" where
  "no_late_request (Main_turn late ap ip mem a created h) = (late = [])"
| "no_late_request _ = True"

definition update_idle :: "app \<Rightarrow> update" where
  "update_idle a = \<lparr>phone = a, bluetooth = True, OTA_Enable = 0, xOTA_Handle = None, ota_tasks = [], ota_heap = {},
     bad_free = False, restarting = False\<rparr>"

text \<open>
  Either Bluetooth is on and no update has begun, or no further one can begin: then at most one task
  exists, it owns the only copy of the URL, and its handle is the stored one.
\<close>

definition update_ok :: "update \<Rightarrow> bool" where
  "update_ok u \<longleftrightarrow> \<not> bad_free u \<and> length (ota_tasks u) \<le> 1 \<and>
     (if bluetooth u then ota_tasks u = [] \<and> ota_heap u = {}
      else \<not> g_start_ota_flag (phone u)
        \<and> (restarting u \<or> ota_tasks u = [] \<or> (\<exists>h a. ota_tasks u = [(h, a)] \<and> ota_heap u = {a} \<and> xOTA_Handle u = Some h)))"

lemma update_ok_do:
  assumes "update_ok u" "\<not> restarting u" "no_late_request e" "update_do L w e u = Some u'"
  shows "update_ok u'"
proof (cases e)
  case (Phone_sends data)
  then show ?thesis using assms by (auto simp: update_do_def phone_sends_def update_ok_def split: if_splits)
next
  case (Main_turn late ap ip mem a created h)
  show ?thesis
  proof (cases "g_start_ota_flag (phone u)")
    case True
    then have "u' = ota_main ap ip mem a created h (u\<lparr>phone := (phone u)\<lparr>g_start_ota_flag := False\<rparr>, bluetooth := False\<rparr>)"
      using assms(3,4) Main_turn by (auto simp: update_do_def main_turn_def)
    then show ?thesis using assms(1,2) True by (auto simp: update_ok_def ota_main_def Let_def split: if_splits)
  next
    case False
    then show ?thesis using assms Main_turn by (auto simp: update_do_def main_turn_def)
  qed
next
  case (Task_starts h)
  then have "u' = (if h \<in> fst ` set (ota_tasks u) then u\<lparr>OTA_Enable := 1\<rparr> else u)"
    using assms(4) by (simp add: update_do_def ota_task_start_def)
  then show ?thesis using assms(1) by (cases "h \<in> fst ` set (ota_tasks u)") (simp_all add: update_ok_def)
next
  case (Task_ends ok h)
  then have u': "u' = ota_task_end ok h u" using assms(4) by (simp add: update_do_def)
  show ?thesis
  proof (cases "map_of (ota_tasks u) h")
    case None
    then show ?thesis using u' assms(1) by (simp add: ota_task_end_def)
  next
    case (Some a)
    then have "ota_tasks u \<noteq> []" by auto
    then obtain k x where k: "ota_tasks u = [(k, x)]" "ota_heap u = {x}" "xOTA_Handle u = Some k"
      "\<not> bluetooth u" "\<not> g_start_ota_flag (phone u)" "\<not> bad_free u"
      using assms(1,2) by (auto simp: update_ok_def split: if_splits)
    then have "k = h" "x = a" using Some by (auto split: if_splits)
    then show ?thesis using u' k by (simp add: ota_task_end_def update_ok_def free_url_def)
  qed
qed

text \<open>
  C35: one update at a time.  When no request slips in while Bluetooth is being stopped, then whatever the
  phone asks and whatever the download and the network do: there is never more than one update task, its
  handle is the stored one, and no memory is freed twice.
\<close>

theorem one_update_at_a_time:
  assumes "update_run L w es (update_idle a) = Some u" "\<forall>e \<in> set es. no_late_request e"
  shows "length (ota_tasks u) \<le> 1 \<and> \<not> bad_free u
    \<and> (\<forall>h. h \<in> fst ` set (ota_tasks u) \<and> \<not> restarting u \<longrightarrow> xOTA_Handle u = Some h)"
proof -
  have "update_ok u2" if "update_run L w es u1 = Some u2" "\<forall>e \<in> set es. no_late_request e" "update_ok u1" for u1 u2
    using that
  proof (induction es arbitrary: u1)
    case (Cons e es)
    show ?case
    proof (cases "restarting u1")
      case False
      then obtain u' where u': "update_do L w e u1 = Some u'" "update_run L w es u' = Some u2"
        using Cons.prems(1) by (auto simp: bind_eq_Some_conv)
      have "update_ok u'" using update_ok_do [OF Cons.prems(3) False _ u'(1)] Cons.prems(2) by simp
      then show ?thesis using Cons.IH [OF u'(2)] Cons.prems(2) by simp
    qed (use Cons.prems in simp)
  qed simp
  then have "update_ok u" using assms by (auto simp: update_ok_def update_idle_def)
  then show ?thesis by (auto simp: update_ok_def split: if_splits)
qed

text \<open>A request, then a download that fails.\<close>

theorem one_update_at_a_time_witness:
  "\<exists>u. update_run demo demo_world [Phone_sends ''OTA'', Main_turn [] True True True 7 True 1, Task_starts 1]
      (update_idle demo_app) = Some u
    \<and> ota_tasks u = [(1, 7)] \<and> OTA_Get_Enable u = 1 \<and> xOTA_Handle u = Some 1
    \<and> update_do demo demo_world (Task_ends False 1) u
      = Some (u\<lparr>OTA_Enable := 0, ota_tasks := [], ota_heap := {}\<rparr>)"
proof -
  let ?es = "[Phone_sends ''OTA'', Main_turn [] True True True 7 True 1, Task_starts 1]"
  have b: "\<exists>a. BLE_APP_Command demo demo_world ''OTA'' demo_app = Some a \<and> g_start_ota_flag a"
  proof -
    have "map_option g_start_ota_flag (BLE_APP_Command demo demo_world ''OTA'' demo_app) = Some True" by code_simp
    then show ?thesis by auto
  qed
  then obtain u where u: "update_run demo demo_world ?es (update_idle demo_app) = Some u"
    "ota_tasks u = [(1, 7)]" "OTA_Enable u = 1" "ota_heap u = {7}"
    by (auto simp: update_do_def phone_sends_def update_idle_def main_turn_def ota_main_def ota_task_start_def)
  have r: "\<not> restarting u" using u(1) b
    by (auto simp: update_do_def phone_sends_def update_idle_def main_turn_def ota_main_def ota_task_start_def)
  have "xOTA_Handle u = Some 1" using one_update_at_a_time [OF u(1)] u(2) r by simp
  then show ?thesis using u
    by (auto simp: OTA_Get_Enable_def update_do_def ota_task_end_def free_url_def)
qed

section \<open>What goes wrong\<close>

text \<open>Without Bluetooth, a request and a task nothing changes any more.\<close>

lemma no_bluetooth_run:
  "update_run L w es u = Some u' \<Longrightarrow> \<not> bluetooth u \<Longrightarrow> \<not> g_start_ota_flag (phone u) \<Longrightarrow> ota_tasks u = [] \<Longrightarrow>
     \<not> bluetooth u' \<and> phone u' = phone u \<and> ota_tasks u' = [] \<and> restarting u' = restarting u"
proof (induction es arbitrary: u)
  case (Cons e es)
  show ?case
  proof (cases "restarting u")
    case False
    then obtain u1 where u1: "update_do L w e u = Some u1" "update_run L w es u1 = Some u'"
      using Cons.prems(1) by (auto simp: bind_eq_Some_conv)
    have "u1 = u" using u1(1) Cons.prems(2-4)
      by (cases e) (auto simp: update_do_def phone_sends_def main_turn_def ota_task_start_def ota_task_end_def)
    then show ?thesis using Cons.IH [OF u1(2)] Cons.prems by simp
  qed (use Cons.prems in simp)
qed simp

text \<open>
  A refused update takes Bluetooth away.  The loop stops Bluetooth before it asks for the network: when there is
  none, no update starts, and until the next restart the phone can neither ask again nor enter the network.
\<close>

theorem refused_update_disables_phone:
  assumes "g_start_ota_flag (phone u)" "bluetooth u" "ota_tasks u = []" "\<not> restarting u" "\<not> (ap \<and> ip \<and> mem)"
    and "update_run L w (Main_turn [] ap ip mem a created h # es) u = Some u'"
  shows "\<not> bluetooth u' \<and> phone u' = (phone u)\<lparr>g_start_ota_flag := False\<rparr> \<and> ota_tasks u' = [] \<and> \<not> restarting u'"
proof -
  let ?u = "u\<lparr>phone := (phone u)\<lparr>g_start_ota_flag := False\<rparr>, bluetooth := False\<rparr>"
  have "ota_main ap ip mem a created h x = x" for x using assms(5) by (auto simp: ota_main_def)
  then have "update_run L w es ?u = Some u'"
    using assms by (simp add: update_do_def main_turn_def)
  from no_bluetooth_run [OF this] show ?thesis using assms(3,4) by simp
qed

theorem refused_update_disables_phone_witness:
  "\<exists>u'. update_run demo demo_world
      [Main_turn [] False False True 7 True 1, Phone_sends ''OTA'', Main_turn [] True True True 7 True 1]
      (update_idle (demo_app\<lparr>g_start_ota_flag := True\<rparr>)) = Some u' \<and> \<not> bluetooth u' \<and> ota_tasks u' = []"
proof -
  let ?es = "[Phone_sends ''OTA'', Main_turn [] True True True 7 True 1]"
  let ?u = "update_idle (demo_app\<lparr>g_start_ota_flag := True\<rparr>)"
  obtain u' where r: "update_run demo demo_world (Main_turn [] False False True 7 True 1 # ?es) ?u = Some u'"
    by (auto simp: update_do_def phone_sends_def update_idle_def main_turn_def ota_main_def)
  have h: "g_start_ota_flag (phone ?u)" "bluetooth ?u" "ota_tasks ?u = []" "\<not> restarting ?u" "\<not> (False \<and> False \<and> True)"
    by (simp_all add: update_idle_def)
  show ?thesis using refused_update_disables_phone [OF h r] r by blast
qed

text \<open>
  A second request in the moment between the clearing of the flag and the stop of Bluetooth starts a second
  task.  When the first download then fails, its task deletes the second one instead of itself, frees its copy of the
  URL twice, and restarts the device with the reset reason of a finished update.
\<close>

theorem late_request_frees_twice:
  assumes "g_start_ota_flag (phone u)" "bluetooth u" "ota_tasks u = []" "ota_heap u = {}" "\<not> restarting u"
    and "map_option g_start_ota_flag (BLE_APP_Command L w ''OTA'' ((phone u)\<lparr>g_start_ota_flag := False\<rparr>)) = Some True"
    and "h \<noteq> h'" "x \<noteq> y"
  shows "\<exists>u'. update_run L w [Main_turn [''OTA''] True True True x True h, Task_starts h,
      Main_turn [] True True True y True h', Task_starts h', Task_ends False h] u = Some u'
    \<and> bad_free u' \<and> restarting u' \<and> ota_tasks u' = [(h, x)] \<and> y \<in> ota_heap u'"
proof -
  obtain a where a: "BLE_APP_Command L w ''OTA'' ((phone u)\<lparr>g_start_ota_flag := False\<rparr>) = Some a" "g_start_ota_flag a"
    using assms(6) by auto
  show ?thesis using assms a
    by (simp add: update_do_def main_turn_def phone_sends_def ota_main_def ota_task_start_def ota_task_end_def free_url_def)
qed

theorem late_request_frees_twice_witness:
  "\<exists>u'. update_run demo demo_world [Main_turn [''OTA''] True True True 7 True 1, Task_starts 1,
      Main_turn [] True True True 8 True 2, Task_starts 2, Task_ends False 1]
      (update_idle (demo_app\<lparr>g_start_ota_flag := True\<rparr>)) = Some u'
    \<and> bad_free u' \<and> restarting u' \<and> ota_tasks u' = [(1, 7)] \<and> 8 \<in> ota_heap u'"
proof -
  have b: "map_option g_start_ota_flag (BLE_APP_Command demo demo_world ''OTA''
      ((phone (update_idle (demo_app\<lparr>g_start_ota_flag := True\<rparr>)))\<lparr>g_start_ota_flag := False\<rparr>)) = Some True"
    by code_simp
  show ?thesis
    by (rule late_request_frees_twice [OF _ _ _ _ _ b]) (simp_all add: update_idle_def)
qed

end
