(* ===== verification/Ble_Rx.thy ===== *)
theory Ble_Rx
  imports Cloud_Messages
begin

text \<open>
  The receiving side of \<open>src/main/ble/ble_task.c\<close>: the write handler of the characteristic, the queue to the
  receiving task and that task, the message about the device that is sent after a connection, and the start of
  the link.  What a packet does is the packet handler of \<open>Ble_Motion\<close>.
\<close>

section \<open>Operations\<close>

text \<open>A queued message: the address of the sender and the bytes.  \<open>None\<close>: before \<open>ble_task_init\<close>.\<close>

record rx_side =
  rx_motion :: motion
  ble_rx_queue :: "(u8 list \<times> u8 list) list option"

text \<open>
  \<open>op_write\<close>: the access is a write, \<open>peer\<close>: the address of the connection, when the stack still knows it, \<open>mem\<close>: there is
  memory for the copy.
\<close>

definition ble_svc_gatt_handler :: "bool \<Rightarrow> u8 list option \<Rightarrow> bool \<Rightarrow> u8 list \<Rightarrow> rx_side \<Rightarrow> rx_side" where
  "ble_svc_gatt_handler op_write peer mem data s =
     (if \<not> op_write then s
      else
        let mac = (case peer of Some m \<Rightarrow> m | None \<Rightarrow> replicate 6 0)
        in case ble_rx_queue s of
             None \<Rightarrow> s
           | Some q \<Rightarrow>
               if length data = 0 then s
               else if \<not> mem then s
               else if length q < BLE_QUEUE_LEN then s\<lparr>ble_rx_queue := Some (q @ [(mac, data)])\<rparr>
               else s)"

text \<open>One turn of \<open>ble_rx_processing_task\<close>.\<close>

definition ble_rx_processing_task ::
  "(u8 list \<Rightarrow> motion \<Rightarrow> motion) \<Rightarrow> (nat \<Rightarrow> u8) \<Rightarrow> bool \<Rightarrow> rx_side \<Rightarrow> rx_side" where
  "ble_rx_processing_task app heap mem s =
     (case ble_rx_queue s of
        Some ((mac, data) # q) \<Rightarrow>
          s\<lparr>ble_rx_queue := Some q, rx_motion := BLE_Receive_data app heap mem data (rx_motion s)\<rparr>
      | _ \<Rightarrow> s)"

definition meta_text :: "u8 list \<Rightarrow> char list" where
  "meta_text mac =
     ''{\"event_type\":\"meta\",\"data\":{\"serial\":\"C100-'' @ concat (map hex2 (take 6 mac))
     @ ''\",\"model\":\"c100\",\"hw_rev\":\"r1.0\",\"fw\":\"v1.0.0\"}}''"

text \<open>The callback of the timer that starts with a connection; the text is cut at 149 bytes.\<close>

definition mac_send_timer_callback :: "bool \<Rightarrow> u8 list \<Rightarrow> ble \<Rightarrow> ble" where
  "mac_send_timer_callback mem mac s =
     snd (ble_send_data_to_queue mem (map (\<lambda>c. of_nat (of_char c)) (take 149 (meta_text mac))) (s\<lparr>mac_timer := False\<rparr>))"

text \<open>
  The start: \<open>init\<close>: the port could be initialised.  The loop clears the first five of the six flags.
\<close>

definition ble_task_init :: "bool \<Rightarrow> rx_side \<Rightarrow> ble \<Rightarrow> rx_side \<times> ble" where
  "ble_task_init init s b =
     (if \<not> init then (s, b)
      else (s\<lparr>ble_rx_queue := Some []\<rparr>,
            b\<lparr>conn_handle_subs := replicate CONFIG_BT_NIMBLE_MAX_CONNECTIONS False @ drop CONFIG_BT_NIMBLE_MAX_CONNECTIONS (conn_handle_subs b),
              ble_tx_queue := Some []\<rparr>))"

definition get_tracker_found :: "ble \<Rightarrow> bool" where
  "get_tracker_found b = tracker_found_f b"

section \<open>Order\<close>

datatype rx_op = Write "u8 list option" "u8 list" | Rx_turn

definition rx_do :: "(u8 list \<Rightarrow> motion \<Rightarrow> motion) \<Rightarrow> (nat \<Rightarrow> u8) \<Rightarrow> rx_op \<Rightarrow> rx_side \<Rightarrow> rx_side" where
  "rx_do app heap e s =
     (case e of
        Write peer data \<Rightarrow> ble_svc_gatt_handler True peer True data s
      | Rx_turn \<Rightarrow> ble_rx_processing_task app heap True s)"

text \<open>The writes that are taken, when \<open>n\<close> messages wait: all but the empty ones and those that find ten waiting.\<close>

fun taken :: "rx_op list \<Rightarrow> nat \<Rightarrow> u8 list list" where
  "taken [] n = []"
| "taken (Write peer data # es) n =
     (if data \<noteq> [] \<and> n < 10 then data # taken es (n + 1) else taken es n)"
| "taken (Rx_turn # es) n = taken es (n - 1)"

lemma rx_run_order:
  "ble_rx_queue s = Some q \<Longrightarrow> length q \<le> 10 \<Longrightarrow>
     (let s' = fold (rx_do app heap) es s in \<exists>q' k. ble_rx_queue s' = Some q' \<and> length q' \<le> 10
        \<and> map snd q @ taken es (length q) = k @ map snd q'
        \<and> rx_motion s' = receive_all app heap k (rx_motion s))"
proof (induction es arbitrary: s q)
  case Nil
  then show ?case by (auto simp: receive_all_def intro: exI [of _ "[]"])
next
  case (Cons e es)
  let ?s = "rx_do app heap e s"
  show ?case
  proof (cases e)
    case (Write peer data)
    let ?mac = "case peer of Some m \<Rightarrow> m | None \<Rightarrow> replicate 6 0"
    have s1: "rx_motion ?s = rx_motion s"
      "ble_rx_queue ?s = Some (if data \<noteq> [] \<and> length q < 10 then q @ [(?mac, data)] else q)"
      using Cons.prems Write by (auto simp: rx_do_def ble_svc_gatt_handler_def Let_def)
    show ?thesis using Cons.IH [OF s1(2)] Cons.prems(2) Write s1(1)
      by (auto simp: Let_def split: if_splits)
  next
    case Rx_turn
    show ?thesis
    proof (cases q)
      case Nil
      then have "?s = s" using Cons.prems Rx_turn by (simp add: rx_do_def ble_rx_processing_task_def)
      then show ?thesis using Cons.IH [OF Cons.prems] Rx_turn Nil by simp
    next
      case (Cons p q1)
      obtain mac data where p: "p = (mac, data)" by fastforce
      have s1: "rx_motion ?s = BLE_Receive_data app heap True data (rx_motion s)" "ble_rx_queue ?s = Some q1"
        using Cons.prems Rx_turn Cons p by (simp_all add: rx_do_def ble_rx_processing_task_def)
      have "length q1 \<le> 10" using Cons.prems(2) Cons by simp
      from Cons.IH [OF s1(2) this] obtain q' k where r: "ble_rx_queue (fold (rx_do app heap) es ?s) = Some q'" "length q' \<le> 10"
        "map snd q1 @ taken es (length q1) = k @ map snd q'"
        "rx_motion (fold (rx_do app heap) es ?s) = receive_all app heap k (rx_motion ?s)" by (auto simp: Let_def)
      show ?thesis using r s1(1) Rx_turn Cons p
        by (auto simp: Let_def receive_all_def intro!: exI [of _ q'] exI [of _ "data # k"])
    qed
  qed
qed

text \<open>
  What the phone and the trackers write is handled in order.  However writes and turns of the task
  interleave: the packets handled so far, followed by the ones that wait, are exactly the writes that were taken, in their
  order; a write is lost only when it is empty or finds ten waiting.
\<close>

theorem writes_handled_in_order:
  assumes "ble_rx_queue s = Some []"
  shows "\<exists>q k. ble_rx_queue (fold (rx_do app heap) es s) = Some q \<and> length q \<le> 10
    \<and> taken es 0 = k @ map snd q
    \<and> rx_motion (fold (rx_do app heap) es s) = receive_all app heap k (rx_motion s)"
  using rx_run_order [OF assms, of app heap es] by (simp add: Let_def)

theorem writes_handled_in_order_witness:
  "let s = fst (ble_task_init True \<lparr>rx_motion = \<lparr>total_count = 0, input_count = 0, motion_timer = False, uploads = [], link = ble_boot\<rparr>,
         ble_rx_queue = None\<rparr> ble_boot);
       es = replicate 11 (Write None [0x11, 1]) @ [Rx_turn, Write None [0x11, 2]]
   in \<exists>q k. ble_rx_queue (fold (rx_do (\<lambda>_ m. m) (\<lambda>_. 0)) es s) = Some q \<and> length q = 10
     \<and> taken es 0 = k @ map snd q \<and> length k = 1"
proof -
  let ?s = "fst (ble_task_init True \<lparr>rx_motion = \<lparr>total_count = 0, input_count = 0, motion_timer = False, uploads = [], link = ble_boot\<rparr>,
         ble_rx_queue = None\<rparr> ble_boot)"
  let ?es = "replicate 11 (Write None [0x11, 1]) @ [Rx_turn, Write None [0x11, 2]]"
  have 0: "ble_rx_queue ?s = Some []" by (simp add: ble_task_init_def)
  obtain q k where q: "ble_rx_queue (fold (rx_do (\<lambda>_ m. m) (\<lambda>_. 0)) ?es ?s) = Some q" "taken ?es 0 = k @ map snd q"
    using writes_handled_in_order [OF 0] by blast
  have "length (taken ?es 0) = 11" by code_simp
  moreover have "map_option length (ble_rx_queue (fold (rx_do (\<lambda>_ m. m) (\<lambda>_. 0)) ?es ?s)) = Some 10" by code_simp
  ultimately have "length k = 1" "length q = 10" using q by auto
  then show ?thesis using q unfolding Let_def by blast
qed

text \<open>The message about the device is 104 characters long, so it is never cut.\<close>

lemma meta_text_fits: "length mac = 6 \<Longrightarrow> length (meta_text mac) = 104"
proof -
  assume "length mac = 6"
  moreover have "length (concat (map hex2 l)) = 2 * length l" for l by (induction l) (simp_all add: hex2_def)
  ultimately show ?thesis by (simp add: meta_text_def)
qed

end
