(* ===== verification/Spec2Isabelle.thy ===== *)
theory Spec2Isabelle
  imports Clean_Liveness Motor_Props Sensor_Props Keyscan Ui Loadcell Led App_Config Console_Props
    Diag Peripherals Sensor_Bridge Cloud Mqtt_Link Mqtt_Receive_Props Update Ble_Rx
begin

text \<open>
  Verification of the firmware of a self-cleaning cat litter box (ESP32, C, FreeRTOS; \<open>src/main\<close>).

  \<^bold>\<open>The program.\<close>  A sensor board sends lines with photo sensors, distance and load cells
  (\<open>sensor.c\<close>, \<open>loadcell.c\<close>).  Keys (\<open>keyscan.c\<close>), a serial console (\<open>main.c\<close>) and the weight
  (\<open>loadcell.c\<close>, \<open>ui.c\<close>) ask for a clean.  A clean and its recovery (\<open>motor.c\<close>) are long scenarios
  that post messages to five motor tasks (\<open>dc_motor_control.c\<close>, \<open>step_motor_control.c\<close>) and wait for
  the photo sensors.  A light (\<open>led.c\<close>) shows the state; a diagnosis (\<open>diag.c\<close>) tries the motors one
  by one; a configuration block survives restarts (\<open>app_config_flash.c\<close>).  A phone sets the box up
  over Bluetooth (\<open>ble_task.c\<close>, \<open>ble_parse.c\<close>, \<open>ble_crypto.c\<close>), which connects it to a network
  (\<open>wifi_task.c\<close>); beacons of the animals' trackers are collected (\<open>ble_tracker_id.c\<close>).  A task signs
  in at a message broker and publishes what the box and the trackers report (\<open>aws_iot_task.c\<close>,
  \<open>fleet_provisioning_with_csr_demo.c\<close>, \<open>mqtt_operations.c\<close>, \<open>tx_mqtt.c\<close>, \<open>rx_mqtt.c\<close>); settings are kept by
  \<open>app_nvs.c\<close>.  The messages go through the MQTT library, which the repository builds with the program
  (\<open>core_mqtt.c\<close>, \<open>core_mqtt_state.c\<close>, \<open>core_mqtt_serializer.c\<close> under \<open>src/components/coreMQTT\<close>).  A new firmware is fetched on
  request of the phone or the console (\<open>http_ota.c\<close>, the main loop of \<open>main.c\<close>).

  \<^bold>\<open>The theories.\<close>
  \<^item> \<open>Prelude\<close>: machine words, bits, C strings; statements of a scenario (\<open>stmt\<close>, \<open>seqs\<close>, \<open>branch\<close>,
    \<open>with_exit\<close> for \<open>goto\<close> to an exit label) with the locales \<open>frame_relation\<close> (a relation every
    statement keeps) and its rules.  \<open>Floats\<close>: IEEE rounding to single and double as a function on
    rationals.  \<open>CText\<close>: \<open>sscanf\<close> and \<open>atoi\<close> on character lists, with the round trip of decimals.
    \<open>Ring_Buffers\<close>: the locales of a ring that keeps the last \<open>n\<close> values and of a bounded queue.
  \<^item> \<open>Messages\<close>: \<open>message_t\<close>, \<open>mt_message_t\<close> and the queues as a datatype of sent messages.
  \<^item> \<open>Sensor\<close>, \<open>Sensor_Props\<close>: \<open>sensor.c\<close>; the distance ring, the line parser with its buffers.
  \<^item> \<open>Dc_Motor\<close>, \<open>Step_Motor\<close>: the controllers; one function per turn of a command task and per timer
    interrupt.  \<open>Controllers\<close> is the locale of what every controller promises (a stop message leaves
    its motor at rest), interpreted for all five.  \<open>Motor_Props\<close>: limits, steps, angles.
  \<^item> \<open>Machine\<close>: the memory the scenarios share with the other tasks, the trace of posted messages and
    \<open>vTaskDelay\<close>.  \<open>Motor\<close>, \<open>Calibration\<close>, \<open>Clean\<close>: \<open>motor.c\<close>, function by function.
    \<open>Clean_Safety\<close>, \<open>Clean_Liveness\<close>: what holds of a clean.
  \<^item> \<open>Loadcell\<close>, \<open>Keyscan\<close>, \<open>Ui\<close>, \<open>Led\<close>, \<open>Diag\<close>, \<open>App_Config\<close>, \<open>Peripherals\<close>: the file of the same
    name, with \<open>current_monitor.c\<close> and \<open>uv_led.c\<close> in the last.
  \<^item> \<open>Uart_Ring\<close>, \<open>Console\<close>, \<open>Console_Props\<close>: the receive ring, the console and the start-up of \<open>main.c\<close>.
    \<open>Sensor_Bridge\<close>: the task of \<open>main.c\<close> that feeds the sensor parser with whatever pieces arrive.
  \<^item> \<open>Ble_Tracker\<close>: the table of trackers and the sharing of water.  \<open>Wifi\<close>: the scan and the
    connection with its retries.  \<open>Ble_Link\<close>: the events of the Bluetooth stack, the beacon cache, the
    queue to the phone and the cutting into notifications.  \<open>Ble_Motion\<close>: the motion transfer of a
    tracker.  \<open>Ble_Command\<close>: the commands of the phone, encrypted and plain, and the session key; the
    JSON, Base64 and cipher libraries are the record \<open>libs\<close>, their laws the hypotheses
    \<open>message_laws\<close> and \<open>message_fields\<close>, which the witnesses meet with a concrete \<open>demo\<close>.
  \<^item> \<open>Nvs\<close>: \<open>app_nvs.c\<close> and the settings of \<open>app_config_flash.c\<close> that \<open>App_Config\<close> leaves out; the flash library is the
    record \<open>nvs\<close>, its laws \<open>nvs_laws\<close>, met by the flash in memory \<open>ram\<close>.  \<open>Mqtt_Session\<close>: \<open>mqtt_operations.c\<close> with
    the back-off of \<open>backoff_algorithm.c\<close>; topics and texts are handed on by address, so that reading
    memory that was freed is the result \<open>None\<close>.  \<open>Cloud_Messages\<close>: \<open>tx_mqtt.c\<close>, the tree and the topic of every message.
    \<open>Cloud\<close>: \<open>aws_iot_task.c\<close>, the signing in of \<open>fleet_provisioning_with_csr_demo.c\<close> and the answers of \<open>rx_mqtt.c\<close>, up
    to the whole loop of the task over any number of connections, with the locales \<open>serve_relation\<close> and
    \<open>task_relation\<close> of what a turn, and so the task, keeps.
  \<^item> The MQTT library.  \<open>Mqtt_State\<close>: the publish state engine \<open>core_mqtt_state.c\<close> on its arrays of records, and its
    abstraction to two bounded logs of numbered messages.  \<open>Mqtt_Library\<close>: publishing, incoming publishes and
    acknowledgements, and resuming a session, with what the application is told and what goes out as histories.
    \<open>Mqtt_Packets\<close>: \<open>core_mqtt_serializer.c\<close> on buffers of bytes, where an access outside is \<open>None\<close>; \<open>Mqtt_Packet_Props\<close>: what
    is written fits and is read back.  \<open>Mqtt_Receive\<close>: one iteration of the receiving loop with its buffer and the
    keep-alive timer; \<open>Mqtt_Receive_Props\<close>: iterations on a connection that delivers the bytes in any pieces.
    \<open>Mqtt_Link\<close>: \<open>Mqtt_Session\<close> composed with the library, over connections that keep or drop the session.
  \<^item> \<open>Ble_Rx\<close>: what \<open>ble_task.c\<close> takes from the phone, and \<open>ble_crypto_encrypt\<close> with \<open>ble_crypto_decrypt\<close>, which nothing calls.
    \<open>Update\<close>: the turn of the main loop and the task of \<open>http_ota.c\<close> over any sequence of requests, with their heap.

  \<^bold>\<open>How the code is modelled.\<close>  A task runs alone between its delays; during \<open>vTaskDelay\<close> the rest of
  the system changes the shared memory in an arbitrary way (the argument \<open>E\<close>, a function of what was
  posted and of the delay).  So a theorem for all \<open>E\<close> holds for every behaviour of the sensors, the
  motors, the keys and the console.  A send appends to the trace; a controller is a function of the
  message it received, and properties that speak of both (\<open>failed_clean_at_rest\<close>) take every order in
  which the tasks receive what was posted.  Queues are taken as not full: the code ignores a failed
  send.  Loops that may not end are \<open>partial_function\<close>s whose result \<open>None\<close> is not returning; that a
  loop ends, or never does, is a theorem (\<open>held_stop_ends_clean\<close>, \<open>diag_wait_ends\<close>,
  \<open>dead_sensor_search_never_returns\<close>).  No fuel is used.  An access outside a buffer is \<open>None\<close> in the
  sensor parser and in the MQTT packets.  \<open>uint32_t\<close> and the \<open>uint8_t\<close> fault word are words; \<open>int\<close> and \<open>int64_t\<close> values,
  which stay far from their bounds, are integers; floats are rationals rounded after each operation.

  \<^bold>\<open>What the theorems show.\<close>  Safety of a clean (motors at rest after a failure, nothing moves under a
  closed cover, the recovery only closes, no motor driven into its limit); when a clean is asked for;
  what the emergency stop does and does not do; exact step counts and conversions; the parsers and
  rings against their specifications; the configuration over restarts; the light and the diagnosis.
  For the radio part: what is encrypted is read back, and JSON commands change settings only under the session
  key, but that key is zero before a successful exchange; messages are sent completely in pieces, unless the
  phone announced a payload of 0; when transfers are acknowledged, and how a connection is retried.
  For the cloud part: the table of unacknowledged messages is a set of at most five with fresh numbers, connecting
  ends within 12.5 s of delays, each message goes to its own topic, the task changes only the registration flag in
  the flash, and settings survive a restart; but a message cannot be sent again, since only its freed address is kept.
  For the MQTT library: the arrays of the state engine implement the logs; a message of the second quality of service
  is delivered once; packets are written within the announced size and read back, lengths are accepted in the
  shortest encoding only, packets that arrive in any pieces are handled one by one and in order until none is left,
  one that is too long is skipped, and a dead connection is noticed, also when the clock wraps around.
  Composed with the program: no two unacknowledged messages share a number; but a number left over from
  a kept session refuses messages.  An update runs alone and ends in a restart; but a refused one leaves Bluetooth off.
  Some theorems describe behaviour that is probably not meant; their text says so.

  \<^bold>\<open>Not modelled.\<close>  The key store and the certificate requests (\<open>pkcs11_operations.c\<close>, \<open>mbedtls_pkcs11_posix.c\<close>,
  \<open>fleet_provisioning_serializer.c\<close>): adapted vendor code that is a sequence of library calls, most of it called by
  nothing.  TLS, cJSON and the other vendored libraries, which are parameters; of coreMQTT the transport, the sending of
  CONNECT, SUBSCRIBE and UNSUBSCRIBE, the blocking read of the CONNACK and the matching of topic filters; the start-up
  of the radio stacks, advertising, the characteristic tables, the clock; the UART, timer, PWM, strip and converter
  drivers, which are parameters or recorded outputs; the download of an update by the platform; logging.
\<close>

end
